(* ===== verification/C_Prelude.thy ===== *)
theory C_Prelude
  imports Main "HOL-Library.Word" "HOL-Library.Monad_Syntax" "HOL-Library.Signed_Division"
begin

text \<open>
  Shared vocabulary of the development: the machine integers of \<open>types.h\<close>, the flat
  byte-addressed memory every pointer of the kernel points into, little-endian words and
  C strings in that memory, and the lemmas the component theories use on them.

  \<^item> \<open>uint8_t\<close>, \<open>uint16_t\<close> and \<open>uint32_t\<close> are words of that width; \<open>int32_t\<close>,
    \<open>int\<close> are unbounded integers (overflow of a signed integer is undefined in C, and the
    invariants keep the values small), and \<open>int8_t\<close> bytes in memory are read with
    \<^const>\<open>sint\<close>.
  \<^item> A pointer is a 32-bit address; memory is a total function from addresses to bytes, so
    pointer arithmetic wraps around exactly as the hardware's does.
  \<^item> A call that never returns (a loop that finds no terminator, a division trap, a wait that
    is never satisfied) is \<^const>\<open>None\<close>.
\<close>

unbundle bit_operations_syntax

type_synonym u8 = "8 word"
type_synonym u16 = "16 word"
type_synonym u32 = "32 word"
type_synonym mem = "u32 \<Rightarrow> u8"

named_theorems mem_simps "rewriting of memory reads over memory writes"
named_theorems layout_simps "constants of the address-space layout"

section \<open>Regions and blocks of memory\<close>

text \<open>\<open>in_region x a n\<close>: the address \<open>x\<close> is one of the \<open>n\<close> addresses from \<open>a\<close> on.\<close>

definition in_region :: "u32 \<Rightarrow> u32 \<Rightarrow> nat \<Rightarrow> bool" where
  "in_region x a n \<longleftrightarrow> unat (x - a) < n"

definition disjoint_regions :: "u32 \<Rightarrow> nat \<Rightarrow> u32 \<Rightarrow> nat \<Rightarrow> bool" where
  "disjoint_regions a n b k \<longleftrightarrow> n \<le> unat (b - a) \<and> k \<le> unat (a - b) \<or> n = 0 \<or> k = 0"

definition read_bytes :: "mem \<Rightarrow> u32 \<Rightarrow> nat \<Rightarrow> u8 list" where
  "read_bytes m a n = map (\<lambda>i. m (a + of_nat i)) [0..<n]"

primrec write_bytes :: "mem \<Rightarrow> u32 \<Rightarrow> u8 list \<Rightarrow> mem" where
  "write_bytes m a [] = m"
| "write_bytes m a (x # xs) = write_bytes (m(a := x)) (a + 1) xs"

lemma unat_of_nat_u32: "i < 2 ^ 32 \<Longrightarrow> unat (of_nat i :: u32) = i"
  by (simp add: unat_of_nat take_bit_nat_eq_self)

lemma of_nat_unat_u32 [simp]: "of_nat (unat (w :: u32)) = w"
  by simp

lemma sint_of_nat_u32: "n < 2 ^ 31 \<Longrightarrow> sint (of_nat n :: u32) = int n"
  by (simp add: signed_of_nat signed_take_bit_int_eq_self)

lemma unat_lt_u32: "unat (w :: u32) < 2 ^ 32"
  using unsigned_less [of w] by simp

lemma unat_inc_u32: "i < (n :: u32) \<Longrightarrow> unat (i + 1) = Suc (unat i)"
  by unat_arith

lemma unat_all_ones_u32 [simp]: "unat (- 1 :: u32) = 0xFFFFFFFF"
  by (simp add: unsigned_minus_1_eq_mask mask_eq_exp_minus_1)

lemma ucast_u8_u32 [simp]: "ucast (ucast (b :: u8) :: u32) = b"
  by (rule bit_word_eqI) (auto simp: bit_simps)

lemma unat_minus_one_u32: "(w :: u32) \<noteq> 0 \<Longrightarrow> unat (w - 1) = unat w - 1"
  by (rule unat_minus_one)

lemma in_region_offset: "i < n \<Longrightarrow> n \<le> 2 ^ 32 \<Longrightarrow> in_region (a + of_nat i) a n"
  by (simp add: in_region_def unat_of_nat_u32)

lemma in_regionE:
  assumes "in_region x a n"
  obtains i where "i < n" and "x = a + of_nat i"
  using assms that [of "unat (x - a)"] by (simp add: in_region_def)

lemma not_in_region_0 [simp]: "\<not> in_region x a 0"
  by (simp add: in_region_def)

lemma length_read_bytes [simp]: "length (read_bytes m a n) = n"
  by (simp add: read_bytes_def)

lemma nth_read_bytes [simp]: "i < n \<Longrightarrow> read_bytes m a n ! i = m (a + of_nat i)"
  by (simp add: read_bytes_def)

lemma read_bytes_0 [simp]: "read_bytes m a 0 = []"
  by (simp add: read_bytes_def)

lemma read_bytes_Suc: "read_bytes m a (Suc n) = m a # read_bytes m (a + 1) n"
  by (rule nth_equalityI) (auto simp: nth_Cons algebra_simps split: nat.split)

lemma read_bytes_cong:
  "(\<And>i. i < n \<Longrightarrow> m (a + of_nat i) = m' (a + of_nat i)) \<Longrightarrow> read_bytes m a n = read_bytes m' a n"
  by (simp add: read_bytes_def)

text \<open>The reading rule for a block write: inside the block its bytes, outside the old memory.\<close>

lemma unat_diff_succ: "(x :: u32) \<noteq> a \<Longrightarrow> unat (x - a) = Suc (unat (x - (a + 1)))"
proof -
  assume "x \<noteq> a"
  then have "x - a \<noteq> 0" by simp
  then have "unat (x - a - 1) = unat (x - a) - 1" by (rule unat_minus_one)
  moreover have "0 < unat (x - a)" using \<open>x - a \<noteq> 0\<close> by (simp add: unat_gt_0)
  moreover have "x - a - 1 = x - (a + 1)" by (simp add: algebra_simps)
  ultimately show ?thesis by simp
qed

lemma write_bytes_apply:
  "length xs \<le> 2 ^ 32 \<Longrightarrow>
   write_bytes m a xs x = (if in_region x a (length xs) then xs ! unat (x - a) else m x)"
proof (induction xs arbitrary: m a)
  case Nil
  then show ?case by simp
next
  case (Cons y ys)
  have IH: "write_bytes (m(a := y)) (a + 1) ys x =
      (if in_region x (a + 1) (length ys) then ys ! unat (x - (a + 1)) else (m(a := y)) x)"
    using Cons by simp
  show ?case
  proof (cases "x = a")
    case True
    have "unat (a - (a + 1)) = 2 ^ 32 - 1" by (simp add: unsigned_minus_1_eq_mask mask_eq_exp_minus_1)
    then have "\<not> in_region a (a + 1) (length ys)"
      using Cons.prems by (simp add: in_region_def)
    with IH True show ?thesis by (simp add: in_region_def)
  next
    case False
    with IH unat_diff_succ [OF False] show ?thesis
      by (simp add: in_region_def)
  qed
qed

lemma write_bytes_outside:
  "length xs \<le> 2 ^ 32 \<Longrightarrow> \<not> in_region x a (length xs) \<Longrightarrow> write_bytes m a xs x = m x"
  by (simp add: write_bytes_apply)

lemma write_bytes_inside:
  "length xs \<le> 2 ^ 32 \<Longrightarrow> i < length xs \<Longrightarrow> write_bytes m a xs (a + of_nat i) = xs ! i"
  by (simp add: write_bytes_apply in_region_offset unat_of_nat_u32)

lemma read_write_bytes:
  "length xs \<le> 2 ^ 32 \<Longrightarrow> read_bytes (write_bytes m a xs) a (length xs) = xs"
  by (rule nth_equalityI) (simp_all add: write_bytes_inside)

lemma write_read_bytes: "write_bytes m a (read_bytes m a n) = m"
proof (induction n arbitrary: a)
  case (Suc n)
  then show ?case by (simp add: read_bytes_Suc)
qed simp

lemma write_bytes_append:
  "write_bytes m a (xs @ ys) = write_bytes (write_bytes m a xs) (a + of_nat (length xs)) ys"
  by (induction xs arbitrary: m a) (simp_all add: algebra_simps)

lemma disjoint_regions_sym: "disjoint_regions a n b k = disjoint_regions b k a n"
  by (auto simp: disjoint_regions_def)

text \<open>Two disjoint blocks share no address.\<close>

lemma disjoint_regionsD:
  assumes "disjoint_regions a n b k" "in_region x a n" "in_region x b k"
  shows False
proof -
  have n: "unat (x - a) < n" and k: "unat (x - b) < k"
    using assms(2,3) by (simp_all add: in_region_def)
  then have ab: "n \<le> unat (b - a)" and ba: "k \<le> unat (a - b)"
    using assms(1) by (auto simp: disjoint_regions_def)
  show False
  proof (cases "x - a \<le> x - b")
    case True
    have "unat (x - b - (x - a)) = unat (x - b) - unat (x - a)"
      using True by (rule unat_sub)
    moreover have "x - b - (x - a) = a - b" by simp
    ultimately show False using ba k by simp
  next
    case False
    then have "x - b \<le> x - a" by simp
    then have "unat (x - a - (x - b)) = unat (x - a) - unat (x - b)"
      by (rule unat_sub)
    moreover have "x - a - (x - b) = b - a" by simp
    ultimately show False using ab n by simp
  qed
qed

lemma read_bytes_write_disjoint:
  assumes "disjoint_regions a n b (length xs)" "n \<le> 2 ^ 32" "length xs \<le> 2 ^ 32"
  shows "read_bytes (write_bytes m b xs) a n = read_bytes m a n"
proof (rule read_bytes_cong)
  fix i assume "i < n"
  then have "in_region (a + of_nat i) a n" using assms(2) by (simp add: in_region_offset)
  then have "\<not> in_region (a + of_nat i) b (length xs)"
    using disjoint_regionsD [OF assms(1)] by blast
  then show "write_bytes m b xs (a + of_nat i) = m (a + of_nat i)"
    using assms(3) by (rule write_bytes_outside [rotated])
qed

lemma write_bytes_disjoint_read:
  assumes "disjoint_regions d n s k" "length ys \<le> n" "n \<le> 2 ^ 32" "i < k" "k \<le> 2 ^ 32"
  shows "write_bytes m d ys (s + of_nat i) = m (s + of_nat i)"
proof -
  have "in_region (s + of_nat i) s k" using assms(4,5) by (rule in_region_offset)
  then have "\<not> in_region (s + of_nat i) d n" using disjoint_regionsD [OF assms(1)] by blast
  then have "\<not> in_region (s + of_nat i) d (length ys)" using assms(2) by (simp add: in_region_def)
  then show ?thesis using assms(2,3) by (simp add: write_bytes_outside)
qed

lemma write_bytes_snoc: "write_bytes m a (xs @ [x]) = (write_bytes m a xs)(a + of_nat (length xs) := x)"
  by (simp add: write_bytes_append)

lemma write_bytes_take_Suc:
  "i < length xs \<Longrightarrow>
   (write_bytes m a (take i xs))(a + of_nat i := xs ! i) = write_bytes m a (take (Suc i) xs)"
  by (simp add: take_Suc_conv_app_nth write_bytes_snoc)

lemma read_bytes_add: "read_bytes m a (i + j) = read_bytes m a i @ read_bytes m (a + of_nat i) j"
  by (induction i arbitrary: a) (simp_all add: read_bytes_Suc algebra_simps)

lemma in_region_mono: "in_region x a n \<Longrightarrow> n \<le> k \<Longrightarrow> in_region x a k"
  by (simp add: in_region_def)

text \<open>A block copy between disjoint blocks can be done in two parts.\<close>

lemma copy_split:
  fixes m :: mem
  assumes "disjoint_regions d (i + j) s (i + j)" "i + j \<le> 2 ^ 32"
  defines "m' \<equiv> write_bytes m d (read_bytes m s i)"
  shows "write_bytes m d (read_bytes m s (i + j)) =
         write_bytes m' (d + of_nat i) (read_bytes m' (s + of_nat i) j)"
proof -
  have "read_bytes m' (s + of_nat i) j = read_bytes m (s + of_nat i) j"
  proof (rule read_bytes_cong)
    fix k assume "k < j"
    then have "in_region (s + of_nat (i + k)) s (i + j)"
      using assms(2) by (intro in_region_offset) auto
    then have "\<not> in_region (s + of_nat (i + k)) d (i + j)"
      using disjoint_regionsD [OF assms(1)] by blast
    then have "\<not> in_region (s + of_nat (i + k)) d i"
      using in_region_mono le_add1 by blast
    then show "m' (s + of_nat i + of_nat k) = m (s + of_nat i + of_nat k)"
      using assms(2) unfolding m'_def by (simp add: write_bytes_outside add.assoc)
  qed
  then show ?thesis by (simp add: read_bytes_add write_bytes_append m'_def)
qed

lemma disjoint_regions_shift:
  "disjoint_regions d n s n \<Longrightarrow> i + j \<le> n \<Longrightarrow> disjoint_regions (d + of_nat i) j (s + of_nat i) j"
  by (auto simp: disjoint_regions_def)

lemma disjoint_regions_prefix:
  "disjoint_regions d n s k \<Longrightarrow> i \<le> n \<Longrightarrow> j \<le> k \<Longrightarrow> disjoint_regions d i s j"
  by (auto simp: disjoint_regions_def)

section \<open>Little-endian 32-bit words\<close>

definition read32 :: "mem \<Rightarrow> u32 \<Rightarrow> u32" where
  "read32 m a = ucast (m a) OR push_bit 8 (ucast (m (a + 1)))
     OR push_bit 16 (ucast (m (a + 2))) OR push_bit 24 (ucast (m (a + 3)))"

definition bytes32 :: "u32 \<Rightarrow> u8 list" where
  "bytes32 w = [ucast w, ucast (drop_bit 8 w), ucast (drop_bit 16 w), ucast (drop_bit 24 w)]"

definition write32 :: "mem \<Rightarrow> u32 \<Rightarrow> u32 \<Rightarrow> mem" where
  "write32 m a w = write_bytes m a (bytes32 w)"

lemma length_bytes32 [simp]: "length (bytes32 w) = 4"
  by (simp add: bytes32_def)

lemma read32_cong:
  "(\<And>i. i < 4 \<Longrightarrow> m (a + of_nat i) = m' (a + of_nat i)) \<Longrightarrow> read32 m a = read32 m' a"
proof -
  assume *: "\<And>i. i < 4 \<Longrightarrow> m (a + of_nat i) = m' (a + of_nat i)"
  from * [of 0] * [of 1] * [of 2] * [of 3] show ?thesis
    by (simp add: read32_def)
qed

lemma read32_write32 [mem_simps]: "read32 (write32 m a w) a = w"
proof (rule bit_word_eqI)
  fix n :: nat
  assume "n < LENGTH(32)"
  then consider "n < 8" | "8 \<le> n" "n < 16" | "16 \<le> n" "n < 24" | "24 \<le> n" "n < 32"
    by fastforce
  then show "bit (read32 (write32 m a w) a) n = bit w n"
    by cases (auto simp: read32_def write32_def bytes32_def bit_simps)
qed

lemma read32_write32_other:
  assumes "4 \<le> unat (a - b)" "4 \<le> unat (b - a)"
  shows "read32 (write32 m b w) a = read32 m a"
proof (rule read32_cong)
  fix i :: nat assume "i < 4"
  moreover have "disjoint_regions b 4 a 4" using assms by (simp add: disjoint_regions_def)
  ultimately show "write32 m b w (a + of_nat i) = m (a + of_nat i)"
    unfolding write32_def by (intro write_bytes_disjoint_read [where n = 4 and k = 4]) simp_all
qed

lemma and_255: "w AND 255 = take_bit 8 (w :: u32)"
  by (simp add: take_bit_eq_mask mask_eq_exp_minus_1)

lemma bit_u8_ge: "8 \<le> n \<Longrightarrow> \<not> bit (b :: u8) n"
  using bit_imp_le_length [of b n] by auto

lemma bytes32_read32: "bytes32 (read32 m a) = [m a, m (a + 1), m (a + 2), m (a + 3)]"
  unfolding bytes32_def read32_def list.inject
  by (intro conjI refl bit_word_eqI) (auto simp: bit_simps bit_u8_ge)

lemma bytes32_broadcast:
  "bytes32 (push_bit 24 (w AND 255) OR push_bit 16 (w AND 255) OR push_bit 8 (w AND 255) OR (w AND 255))
     = replicate 4 (ucast w)"
proof -
  have r: "replicate 4 b = [b, b, b, b]" for b :: u8 by (simp add: numeral_eq_Suc)
  show ?thesis
    unfolding r bytes32_def list.inject and_255
    by (intro conjI refl bit_word_eqI) (auto simp: bit_simps)
qed

section \<open>C strings\<close>

text \<open>The bytes \<open>xs\<close>, none of them NUL, stand at address \<open>a\<close> followed by a NUL.\<close>

definition cstr_at :: "mem \<Rightarrow> u32 \<Rightarrow> u8 list \<Rightarrow> bool" where
  "cstr_at m a xs \<longleftrightarrow> length xs < 2 ^ 32 \<and> 0 \<notin> set xs \<and>
     read_bytes m a (length xs) = xs \<and> m (a + of_nat (length xs)) = 0"

lemma cstr_atI:
  "length xs < 2 ^ 32 \<Longrightarrow> 0 \<notin> set xs \<Longrightarrow>
   (\<And>i. i < length xs \<Longrightarrow> m (a + of_nat i) = xs ! i) \<Longrightarrow> m (a + of_nat (length xs)) = 0 \<Longrightarrow>
   cstr_at m a xs"
  by (simp add: cstr_at_def list_eq_iff_nth_eq)

lemma cstr_at_nth: "cstr_at m a xs \<Longrightarrow> i < length xs \<Longrightarrow> m (a + of_nat i) = xs ! i"
  by (metis cstr_at_def nth_read_bytes)

lemma cstr_at_nth_nonzero: "cstr_at m a xs \<Longrightarrow> i < length xs \<Longrightarrow> m (a + of_nat i) \<noteq> 0"
  by (metis cstr_at_def nth_mem nth_read_bytes)

lemma cstr_at_end: "cstr_at m a xs \<Longrightarrow> m (a + of_nat (length xs)) = 0"
  by (simp add: cstr_at_def)

lemma cstr_at_length: "cstr_at m a xs \<Longrightarrow> length xs < 2 ^ 32"
  by (simp add: cstr_at_def)

lemma cstr_at_Nil [simp]: "cstr_at m a [] \<longleftrightarrow> m a = 0"
  by (simp add: cstr_at_def)

lemma cstr_at_unique: "cstr_at m a xs \<Longrightarrow> cstr_at m a ys \<Longrightarrow> xs = ys"
proof -
  assume xs: "cstr_at m a xs" and ys: "cstr_at m a ys"
  have "length xs = length ys"
    using cstr_at_nth_nonzero [OF xs] cstr_at_nth_nonzero [OF ys] cstr_at_end [OF xs] cstr_at_end [OF ys]
    by (metis linorder_neqE_nat)
  then show ?thesis using xs ys by (metis cstr_at_def)
qed

lemma cstr_at_cong:
  assumes "\<And>i. i \<le> length xs \<Longrightarrow> m' (a + of_nat i) = m (a + of_nat i)" "cstr_at m a xs"
  shows "cstr_at m' a xs"
  using assms by (intro cstr_atI) (auto simp: cstr_at_def list_eq_iff_nth_eq)

section \<open>Integer division as C rounds it\<close>

lemma sdiv_nonneg: "0 \<le> a \<Longrightarrow> 0 < b \<Longrightarrow> a sdiv b = a div (b :: int)"
  by (auto simp: signed_divide_int_def sgn_if)

lemma smod_nonneg: "0 \<le> a \<Longrightarrow> 0 < b \<Longrightarrow> a smod b = a mod (b :: int)"
  by (cases "a = 0") (auto simp: signed_modulo_int_def sgn_if)

section \<open>A memory given by its segments\<close>

text \<open>
  The first segment that covers an address gives its byte, every other byte is zero. Concrete
  states are written with it.
\<close>

definition mem_of :: "(u32 \<times> u8 list) list \<Rightarrow> mem" where
  "mem_of segs x =
     (case find (\<lambda>(a, xs). x - a < of_nat (length xs)) segs of None \<Rightarrow> 0 | Some (a, xs) \<Rightarrow> xs ! unat (x - a))"

lemma mem_of_Nil: "mem_of [] x = 0"
  by (simp add: mem_of_def)

lemma mem_of_Cons: "mem_of ((a, xs) # segs) x = (if x - a < of_nat (length xs) then xs ! unat (x - a) else mem_of segs x)"
  by (simp add: mem_of_def)

end
