(* ===== verification/Machine.thy ===== *)
theory Machine
  imports C_Prelude
begin

text \<open>
  The processor and its ports as the kernel sees them: memory, the bytes written to I/O ports
  (newest first), the interrupt flag, and the devices. A device answers a port read as some
  function of what was written to the ports so far; which function is not fixed, so a theorem
  that holds for every state holds for every device. Every other component's state extends
  this record.
\<close>

record machine =
  memory :: mem
  io_log :: "(u16 \<times> u8) list"
  int_flag :: bool
  device :: "(u16 \<times> u8) list \<Rightarrow> u16 \<Rightarrow> u8"

text \<open>The port and flag primitives of \<open>lib.h\<close>.\<close>

definition outb :: "u32 \<Rightarrow> u16 \<Rightarrow> 'a machine_scheme \<Rightarrow> 'a machine_scheme" where
  "outb data port s = s\<lparr>io_log := (port, ucast data) # io_log s\<rparr>"

definition inb :: "u16 \<Rightarrow> 'a machine_scheme \<Rightarrow> u32" where
  "inb port s = ucast (device s (io_log s) port)"

definition cli :: "'a machine_scheme \<Rightarrow> 'a machine_scheme" where
  "cli s = s\<lparr>int_flag := False\<rparr>"

definition sti :: "'a machine_scheme \<Rightarrow> 'a machine_scheme" where
  "sti s = s\<lparr>int_flag := True\<rparr>"

lemma outb_simps [simp]:
  "memory (outb d p s) = memory s" "int_flag (outb d p s) = int_flag s" "device (outb d p s) = device s"
  "io_log (outb d p s) = (p, ucast d) # io_log s"
  by (simp_all add: outb_def)

lemma cli_simps [simp]:
  "memory (cli s) = memory s" "int_flag (cli s) = False" "device (cli s) = device s" "io_log (cli s) = io_log s"
  by (simp_all add: cli_def)

lemma sti_simps [simp]:
  "memory (sti s) = memory s" "int_flag (sti s) = True" "device (sti s) = device s" "io_log (sti s) = io_log s"
  by (simp_all add: sti_def)

text \<open>The last byte a port received.\<close>

fun last_out :: "u16 \<Rightarrow> (u16 \<times> u8) list \<Rightarrow> u8 option" where
  "last_out p [] = None"
| "last_out p ((q, b) # es) = (if p = q then Some b else last_out p es)"

section \<open>Interrupts and busy waiting\<close>

text \<open>
  An interrupt gate clears the interrupt flag for the handler (\<open>int_wrapper.S\<close> saves the
  registers and calls it) and \<open>iret\<close> restores it. A loop that spins on a variable a handler
  sets (\<open>rtc_read\<close>, \<open>terminal_read\<close>) is given the handlers that run while it spins, in their
  order (a handler that does not return is a \<^const>\<open>None\<close>); the loop returns \<^const>\<open>None\<close> when they run out, or interrupts are off, before the
  condition holds.
\<close>

type_synonym 's handler = "'s \<Rightarrow> 's option"

definition take_interrupt :: "'a machine_scheme handler \<Rightarrow> 'a machine_scheme handler" where
  "take_interrupt h s = map_option (\<lambda>t. t\<lparr>int_flag := int_flag s\<rparr>) (h (s\<lparr>int_flag := False\<rparr>))"

primrec take_interrupts :: "'a machine_scheme handler list \<Rightarrow> 'a machine_scheme handler" where
  "take_interrupts [] s = Some s"
| "take_interrupts (h # hs) s = do { s \<leftarrow> take_interrupt h s; take_interrupts hs s }"

primrec spin_until :: "('a machine_scheme \<Rightarrow> bool) \<Rightarrow> 'a machine_scheme handler list \<Rightarrow> 'a machine_scheme handler" where
  "spin_until p [] s = (if p s then Some s else None)"
| "spin_until p (h # hs) s =
     (if p s then Some s else if int_flag s then do { s \<leftarrow> take_interrupt h s; spin_until p hs s } else None)"

lemma take_interrupt_flag: "take_interrupt h s = Some t \<Longrightarrow> int_flag t = int_flag s"
  by (auto simp: take_interrupt_def)

lemma spin_until_now: "p s \<Longrightarrow> spin_until p hs s = Some s"
  by (cases hs) simp_all

lemma spin_until_holds: "spin_until p hs s = Some s' \<Longrightarrow> p s'"
  by (induction hs arbitrary: s) (auto split: if_splits bind_splits)

text \<open>The loop ends right after the first handler that makes the condition true.\<close>

lemma spin_until_returns:
  assumes "int_flag s" "take_interrupts hs s = Some t"
    and "\<And>n u. n \<le> length hs \<Longrightarrow> take_interrupts (take n hs) s = Some u \<Longrightarrow> \<not> p u"
    and "take_interrupt h t = Some v" "p v"
  shows "spin_until p (hs @ h # later) s = Some v"
  using assms(1-3)
proof (induction hs arbitrary: s)
  case Nil
  then show ?case using assms(4,5) Nil.prems(3) [of 0 s] by (simp add: spin_until_now)
next
  case (Cons g hs)
  obtain u where u: "take_interrupt g s = Some u" "take_interrupts hs u = Some t"
    using Cons.prems(2) by (auto simp: bind_eq_Some_conv)
  have "spin_until p (hs @ h # later) u = Some v"
  proof (rule Cons.IH)
    show "int_flag u" using Cons.prems(1) take_interrupt_flag [OF u(1)] by simp
    show "take_interrupts hs u = Some t" by (rule u(2))
    show "\<not> p w" if "n \<le> length hs" "take_interrupts (take n hs) u = Some w" for n w
      using Cons.prems(3) [of "Suc n" w] that u(1) by simp
  qed
  then show ?case using Cons.prems(1) Cons.prems(3) [of 0 s] u(1) by simp
qed

end
