(* ===== verification/Pic.thy ===== *)
theory Pic
  imports Machine
begin

text \<open>
  The 8259 interrupt controllers (\<open>i8259.c\<close>): the two cached mask bytes and the operations
  that unmask, mask and acknowledge an interrupt line. The contract the drivers rely on is the
  locale \<open>irq_controller\<close>: the set of unmasked lines, and how each operation changes it.
\<close>

record pic = machine +
  master_mask :: u8
  slave_mask :: u8

definition MAX_IRQ_NUM :: u32 where "MAX_IRQ_NUM = 15"
definition MASTER_IRQ :: u32 where "MASTER_IRQ = 7"
definition MASTER_8259_PORT :: u16 where "MASTER_8259_PORT = 0x20"
definition SLAVE_8259_PORT :: u16 where "SLAVE_8259_PORT = 0xA0"
definition MASTER_DATA :: u16 where "MASTER_DATA = MASTER_8259_PORT + 1"
definition SLAVE_DATA :: u16 where "SLAVE_DATA = SLAVE_8259_PORT + 1"
definition ICW1 :: u32 where "ICW1 = 0x11"
definition ICW2_MASTER :: u32 where "ICW2_MASTER = 0x20"
definition ICW2_SLAVE :: u32 where "ICW2_SLAVE = 0x28"
definition ICW3_MASTER :: u32 where "ICW3_MASTER = 0x04"
definition ICW3_SLAVE :: u32 where "ICW3_SLAVE = 0x02"
definition ICW4 :: u32 where "ICW4 = 0x01"
definition INIT_MASK :: u32 where "INIT_MASK = 0xFF"
definition EOI :: u32 where "EOI = 0x60"

lemmas pic_consts = MAX_IRQ_NUM_def MASTER_IRQ_def MASTER_8259_PORT_def SLAVE_8259_PORT_def
  MASTER_DATA_def SLAVE_DATA_def ICW1_def ICW2_MASTER_def ICW2_SLAVE_def ICW3_MASTER_def
  ICW3_SLAVE_def ICW4_def INIT_MASK_def EOI_def

definition enable_irq :: "u32 \<Rightarrow> 'a pic_scheme \<Rightarrow> 'a pic_scheme" where
  "enable_irq irq_num s =
     (if irq_num > MAX_IRQ_NUM then s
      else if irq_num > MASTER_IRQ
      then let irq = irq_num - (MASTER_IRQ + 1);
               bit_vector = NOT (push_bit (unat irq) (1 :: u32));
               s1 = s\<lparr>slave_mask := slave_mask s AND ucast bit_vector\<rparr>
           in outb (ucast (slave_mask s1)) SLAVE_DATA s1
      else let bit_vector = NOT (push_bit (unat irq_num) (1 :: u32));
               s1 = s\<lparr>master_mask := master_mask s AND ucast bit_vector\<rparr>
           in outb (ucast (master_mask s1)) MASTER_DATA s1)"

definition disable_irq :: "u32 \<Rightarrow> 'a pic_scheme \<Rightarrow> 'a pic_scheme" where
  "disable_irq irq_num s =
     (if irq_num > MAX_IRQ_NUM then s
      else if irq_num > MASTER_IRQ
      then let irq = irq_num - (MASTER_IRQ + 1);
               bit_vector = push_bit (unat irq) (1 :: u32);
               s1 = s\<lparr>slave_mask := slave_mask s OR ucast bit_vector\<rparr>
           in outb (ucast (slave_mask s1)) SLAVE_DATA s1
      else let bit_vector = push_bit (unat irq_num) (1 :: u32);
               s1 = s\<lparr>master_mask := master_mask s OR ucast bit_vector\<rparr>
           in outb (ucast (master_mask s1)) MASTER_DATA s1)"

definition send_eoi :: "u32 \<Rightarrow> 'a pic_scheme \<Rightarrow> 'a pic_scheme" where
  "send_eoi irq_num s =
     (if irq_num > MAX_IRQ_NUM then s
      else if irq_num > MASTER_IRQ
      then outb (ICW3_SLAVE OR EOI) MASTER_8259_PORT
             (outb ((irq_num - (MASTER_IRQ + 1)) OR EOI) SLAVE_8259_PORT s)
      else outb (irq_num OR EOI) MASTER_8259_PORT s)"

definition i8259_init :: "'a pic_scheme \<Rightarrow> 'a pic_scheme" where
  "i8259_init s =
     (let s = outb INIT_MASK MASTER_DATA s;
          s = outb INIT_MASK SLAVE_DATA s;
          s = outb ICW1 MASTER_8259_PORT s;
          s = outb ICW1 SLAVE_8259_PORT s;
          s = outb ICW2_MASTER MASTER_DATA s;
          s = outb ICW2_SLAVE SLAVE_DATA s;
          s = outb ICW3_MASTER MASTER_DATA s;
          s = outb ICW3_SLAVE SLAVE_DATA s;
          s = outb ICW4 MASTER_DATA s;
          s = outb ICW4 SLAVE_DATA s
      in enable_irq ICW3_SLAVE s)"

text \<open>The lines the two masks leave enabled, and the agreement of the masks with the ports.\<close>

definition irq_enabled :: "'a pic_scheme \<Rightarrow> nat \<Rightarrow> bool" where
  "irq_enabled s n \<longleftrightarrow> (if n < 8 then \<not> bit (master_mask s) n else n < 16 \<and> \<not> bit (slave_mask s) (n - 8))"

definition enabled_irqs :: "'a pic_scheme \<Rightarrow> nat set" where
  "enabled_irqs s = {n. irq_enabled s n}"

definition masks_synced :: "'a pic_scheme \<Rightarrow> bool" where
  "masks_synced s \<longleftrightarrow> last_out MASTER_DATA (io_log s) = Some (master_mask s) \<and>
     last_out SLAVE_DATA (io_log s) = Some (slave_mask s)"

lemma bit_unmask: "bit (ucast (NOT (2 ^ k) :: u32) :: u8) n \<longleftrightarrow> n < 8 \<and> n \<noteq> k"
  by (auto simp: bit_simps)

lemma bit_mask1: "k < 8 \<Longrightarrow> bit (ucast (2 ^ k :: u32) :: u8) n \<longleftrightarrow> n = k"
  by (auto simp: bit_simps)

lemma irq_cases:
  fixes n :: u32
  assumes "n \<le> 15"
  obtains (master) "n \<le> 7" "unat n < 8"
  | (slave) "\<not> n \<le> 7" "8 \<le> unat n" "unat n < 16" "unat (n - 8) = unat n - 8"
proof (cases "n \<le> 7")
  case True
  then show ?thesis using master by (simp add: word_le_nat_alt)
next
  case False
  then have "8 \<le> n" by unat_arith
  then have "unat (n - 8) = unat n - 8" using unat_sub [of 8 n] by simp
  then show ?thesis using slave False \<open>8 \<le> n\<close> assms by (simp add: word_le_nat_alt)
qed

lemmas irq_unfolds = enabled_irqs_def irq_enabled_def enable_irq_def disable_irq_def send_eoi_def
  pic_consts Let_def outb_def bit_and_iff bit_or_iff bit_unmask bit_mask1 not_less

lemma enabled_enable_irq:
  assumes "n \<le> 15"
  shows "enabled_irqs (enable_irq n s) = insert (unat n) (enabled_irqs s)"
  using assms by (cases rule: irq_cases) (use assms in \<open>auto simp: irq_unfolds\<close>)

lemma enabled_disable_irq:
  assumes "n \<le> 15"
  shows "enabled_irqs (disable_irq n s) = enabled_irqs s - {unat n}"
  using assms by (cases rule: irq_cases) (use assms in \<open>auto simp: irq_unfolds\<close>)

lemma invalid_irq: "\<not> n \<le> 15 \<Longrightarrow> enable_irq n s = s \<and> disable_irq n s = s \<and> send_eoi n s = s"
  by (simp add: irq_unfolds)

lemma enabled_outb [simp]: "enabled_irqs (outb d p s) = enabled_irqs s"
  by (simp add: enabled_irqs_def irq_enabled_def outb_def)

lemma send_eoi_masks [simp]: "enabled_irqs (send_eoi n s) = enabled_irqs s"
  by (simp add: irq_unfolds)

text \<open>What the operations leave alone: memory, interrupt flag and devices.\<close>

lemma pic_frame [simp]:
  "memory (enable_irq n s) = memory s" "memory (disable_irq n s) = memory s" "memory (send_eoi n s) = memory s"
  "int_flag (enable_irq n s) = int_flag s" "int_flag (disable_irq n s) = int_flag s"
  "int_flag (send_eoi n s) = int_flag s"
  "device (enable_irq n s) = device s" "device (disable_irq n s) = device s" "device (send_eoi n s) = device s"
  by (simp_all add: enable_irq_def disable_irq_def send_eoi_def Let_def)

section \<open>The contract of the interrupt controller\<close>

text \<open>
  A driver masks its line, programs its device and unmasks the line again. What it relies on is
  the effect of the two operations on the set of enabled lines.
\<close>

locale irq_controller =
  fixes enable :: "u32 \<Rightarrow> 's \<Rightarrow> 's"
    and disable :: "u32 \<Rightarrow> 's \<Rightarrow> 's"
    and enabled :: "'s \<Rightarrow> nat set"
  assumes enable_law: "n \<le> 15 \<Longrightarrow> enabled (enable n s) = insert (unat n) (enabled s)"
    and disable_law: "n \<le> 15 \<Longrightarrow> enabled (disable n s) = enabled s - {unat n}"
    and enable_invalid: "\<not> n \<le> 15 \<Longrightarrow> enabled (enable n s) = enabled s"
    and disable_invalid: "\<not> n \<le> 15 \<Longrightarrow> enabled (disable n s) = enabled s"
begin

lemma bracket:
  "n \<le> 15 \<Longrightarrow> (\<And>t. enabled (body t) = enabled t) \<Longrightarrow>
   enabled (enable n (body (disable n s))) = insert (unat n) (enabled s)"
  by (simp add: enable_law disable_law)

lemma enable_all:
  "list_all (\<lambda>n. n \<le> 15) ns \<Longrightarrow> enabled (fold enable ns s) = enabled s \<union> set (map unat ns)"
  by (induction ns arbitrary: s) (auto simp: enable_law)

lemma other_lines_kept:
  "unat n \<noteq> k \<Longrightarrow> k \<in> enabled (enable n s) \<longleftrightarrow> k \<in> enabled s"
  "unat n \<noteq> k \<Longrightarrow> k \<in> enabled (disable n s) \<longleftrightarrow> k \<in> enabled s"
  by (cases "n \<le> 15"; simp add: enable_law disable_law enable_invalid disable_invalid)+

end

interpretation pics: irq_controller enable_irq disable_irq enabled_irqs
  by unfold_locales (simp_all add: enabled_enable_irq enabled_disable_irq invalid_irq)

section \<open>Properties\<close>

lemma masks_synced_enable: "masks_synced s \<Longrightarrow> masks_synced (enable_irq n s)"
  by (simp add: masks_synced_def enable_irq_def pic_consts Let_def outb_def)

lemma masks_synced_disable: "masks_synced s \<Longrightarrow> masks_synced (disable_irq n s)"
  by (simp add: masks_synced_def disable_irq_def pic_consts Let_def outb_def)

lemma masks_synced_eoi: "masks_synced s \<Longrightarrow> masks_synced (send_eoi n s)"
  by (simp add: masks_synced_def send_eoi_def pic_consts Let_def outb_def)

lemma enabled_i8259_init: "enabled_irqs (i8259_init s) = insert 2 (enabled_irqs s)"
  by (simp add: i8259_init_def Let_def enabled_enable_irq ICW3_SLAVE_def)

section \<open>Main properties\<close>



end
