(* ===== verification/Lib_String.thy ===== *)
theory Lib_String
  imports C_Prelude
begin

text \<open>
  The string and memory routines of \<open>lib.c\<close>: \<open>strlen\<close>, \<open>strrev\<close>, \<open>itoa\<close>,
  \<open>memset\<close>, \<open>memset_word\<close>, \<open>memset_dword\<close>, \<open>memcpy\<close>, \<open>memmove\<close>,
  \<open>strncmp\<close>, \<open>strcpy\<close> and \<open>strncpy\<close>, over the flat memory. The routines written as
  inline assembly are modelled instruction group by instruction group (the byte loop up to an
  aligned address, the \<open>rep\<close> string instruction, the byte tail), and proved equal to one
  block write.
\<close>

section \<open>strlen\<close>

partial_function (option) strlen_from :: "mem \<Rightarrow> u32 \<Rightarrow> u32 \<Rightarrow> u32 option" where
  "strlen_from m s len = (if m (s + len) \<noteq> 0 then strlen_from m s (len + 1) else Some len)"

definition strlen :: "mem \<Rightarrow> u32 \<Rightarrow> u32 option" where
  "strlen m s = strlen_from m s 0"

section \<open>strrev and itoa\<close>

function strrev_loop :: "mem \<Rightarrow> u32 \<Rightarrow> int \<Rightarrow> int \<Rightarrow> mem" where
  "strrev_loop m s beg fin =
     (if beg < fin
      then let tmp = m (s + word_of_int fin);
               m1 = m(s + word_of_int fin := m (s + word_of_int beg));
               m2 = m1(s + word_of_int beg := tmp)
           in strrev_loop m2 s (beg + 1) (fin - 1)
      else m)"
  by pat_completeness auto
termination
  by (relation "measure (\<lambda>(m, s, beg, fin). nat (fin - beg))") auto

declare strrev_loop.simps [simp del]

definition strrev :: "mem \<Rightarrow> u32 \<Rightarrow> mem option" where
  "strrev m s = do { len \<leftarrow> strlen m s; Some (strrev_loop m s 0 (sint (len - 1))) }"

text \<open>
  The table of digits; its last entry is the NUL of the string literal. A remainder past the
  table reads foreign bytes and a zero radix traps in kernel mode, where the handler spins
  forever: neither has a result here.
\<close>

definition itoa_lookup :: "u8 list" where
  "itoa_lookup = [0x30, 0x31, 0x32, 0x33, 0x34, 0x35, 0x36, 0x37, 0x38, 0x39,
     0x41, 0x42, 0x43, 0x44, 0x45, 0x46, 0x47, 0x48, 0x49, 0x4A, 0x4B, 0x4C, 0x4D,
     0x4E, 0x4F, 0x50, 0x51, 0x52, 0x53, 0x54, 0x55, 0x56, 0x57, 0x58, 0x59, 0x5A, 0]"

partial_function (option) itoa_loop :: "u32 \<Rightarrow> mem \<Rightarrow> u32 \<Rightarrow> u32 \<Rightarrow> (mem \<times> u32) option" where
  "itoa_loop radix m newbuf newval =
     (if newval > 0
      then (if radix = 0 \<or> unat (newval mod radix) \<ge> length itoa_lookup then None
            else itoa_loop radix (m(newbuf := itoa_lookup ! unat (newval mod radix)))
                   (newbuf + 1) (newval div radix))
      else Some (m, newbuf))"

definition itoa :: "mem \<Rightarrow> u32 \<Rightarrow> u32 \<Rightarrow> int \<Rightarrow> mem option" where
  "itoa m value buf radix =
     (if value = 0 then Some (m(buf := 0x30, buf + 1 := 0))
      else do { (m1, newbuf) \<leftarrow> itoa_loop (word_of_int radix) m buf value;
                strrev (m1(newbuf := 0)) buf })"

section \<open>memset and its word variants\<close>

primrec rep_stosb :: "nat \<Rightarrow> mem \<Rightarrow> u32 \<Rightarrow> u32 \<Rightarrow> mem" where
  "rep_stosb 0 m edi eax = m"
| "rep_stosb (Suc n) m edi eax = rep_stosb n (m(edi := ucast eax)) (edi + 1) eax"

primrec rep_stosw :: "nat \<Rightarrow> mem \<Rightarrow> u32 \<Rightarrow> u32 \<Rightarrow> mem" where
  "rep_stosw 0 m edi eax = m"
| "rep_stosw (Suc n) m edi eax =
     rep_stosw n (m(edi := ucast eax, edi + 1 := ucast (drop_bit 8 eax))) (edi + 2) eax"

primrec rep_stosl :: "nat \<Rightarrow> mem \<Rightarrow> u32 \<Rightarrow> u32 \<Rightarrow> mem \<times> u32" where
  "rep_stosl 0 m edi eax = (m, edi)"
| "rep_stosl (Suc n) m edi eax = rep_stosl n (write32 m edi eax) (edi + 4) eax"

function memset_top :: "mem \<Rightarrow> u32 \<Rightarrow> u32 \<Rightarrow> u32 \<Rightarrow> mem" where
  "memset_top m edi ecx eax =
     (if ecx = 0 then m
      else if edi AND 3 = 0
      then let edx = ecx AND 3;
               (m1, edi1) = rep_stosl (unat (drop_bit 2 ecx)) m edi eax
           in rep_stosb (unat edx) m1 edi1 eax
      else memset_top (m(edi := ucast eax)) (edi + 1) (ecx - 1) eax)"
  by pat_completeness auto
termination
  by (relation "measure (\<lambda>(m, edi, ecx, eax). unat ecx)") (auto simp: unat_minus_one_u32 unat_gt_0)

declare memset_top.simps [simp del]

definition memset :: "mem \<Rightarrow> u32 \<Rightarrow> int \<Rightarrow> u32 \<Rightarrow> mem" where
  "memset m s c n =
     (let c1 = (word_of_int c :: u32) AND 0xFF
      in memset_top m s n (push_bit 24 c1 OR push_bit 16 c1 OR push_bit 8 c1 OR c1))"

definition memset_word :: "mem \<Rightarrow> u32 \<Rightarrow> int \<Rightarrow> u32 \<Rightarrow> mem" where
  "memset_word m s c n = rep_stosw (unat n) m s (word_of_int c)"

definition memset_dword :: "mem \<Rightarrow> u32 \<Rightarrow> int \<Rightarrow> u32 \<Rightarrow> mem" where
  "memset_dword m s c n = fst (rep_stosl (unat n) m s (word_of_int c))"

section \<open>memcpy and memmove\<close>

primrec rep_movsl :: "nat \<Rightarrow> mem \<Rightarrow> u32 \<Rightarrow> u32 \<Rightarrow> mem \<times> u32 \<times> u32" where
  "rep_movsl 0 m edi esi = (m, edi, esi)"
| "rep_movsl (Suc n) m edi esi = rep_movsl n (write32 m edi (read32 m esi)) (edi + 4) (esi + 4)"

text \<open>\<open>rep movsb\<close> with the direction flag clear and set.\<close>

primrec movsb_up :: "nat \<Rightarrow> mem \<Rightarrow> u32 \<Rightarrow> u32 \<Rightarrow> mem" where
  "movsb_up 0 m edi esi = m"
| "movsb_up (Suc n) m edi esi = movsb_up n (m(edi := m esi)) (edi + 1) (esi + 1)"

primrec movsb_down :: "nat \<Rightarrow> mem \<Rightarrow> u32 \<Rightarrow> u32 \<Rightarrow> mem" where
  "movsb_down 0 m edi esi = m"
| "movsb_down (Suc n) m edi esi = movsb_down n (m(edi := m esi)) (edi - 1) (esi - 1)"

function memcpy_top :: "mem \<Rightarrow> u32 \<Rightarrow> u32 \<Rightarrow> u32 \<Rightarrow> mem" where
  "memcpy_top m edi esi ecx =
     (if ecx = 0 then m
      else if edi AND 3 = 0
      then let edx = ecx AND 3;
               (m1, edi1, esi1) = rep_movsl (unat (drop_bit 2 ecx)) m edi esi
           in movsb_up (unat edx) m1 edi1 esi1
      else memcpy_top (m(edi := m esi)) (edi + 1) (esi + 1) (ecx - 1))"
  by pat_completeness auto
termination
  by (relation "measure (\<lambda>(m, edi, esi, ecx). unat ecx)") (auto simp: unat_minus_one_u32 unat_gt_0)

declare memcpy_top.simps [simp del]

definition memcpy :: "mem \<Rightarrow> u32 \<Rightarrow> u32 \<Rightarrow> u32 \<Rightarrow> mem" where
  "memcpy m dest src n = memcpy_top m dest src n"

definition memmove :: "mem \<Rightarrow> u32 \<Rightarrow> u32 \<Rightarrow> u32 \<Rightarrow> mem" where
  "memmove m dest src n =
     (if src \<ge> dest then movsb_up (unat n) m dest src
      else movsb_down (unat n) m (dest + n - 1) (src + n - 1))"

section \<open>strncmp, strcpy and strncpy\<close>

function strncmp_from :: "mem \<Rightarrow> u32 \<Rightarrow> u32 \<Rightarrow> u32 \<Rightarrow> u32 \<Rightarrow> int" where
  "strncmp_from m s1 s2 n i =
     (if i < n
      then (if m (s1 + i) \<noteq> m (s2 + i) \<or> m (s1 + i) = 0
            then sint (m (s1 + i)) - sint (m (s2 + i))
            else strncmp_from m s1 s2 n (i + 1))
      else 0)"
  by pat_completeness auto
termination
  by (relation "measure (\<lambda>(m, s1, s2, n, i). unat n - unat i)")
     (auto simp: unat_inc_u32 word_less_nat_alt)

declare strncmp_from.simps [simp del]

definition strncmp :: "mem \<Rightarrow> u32 \<Rightarrow> u32 \<Rightarrow> u32 \<Rightarrow> int" where
  "strncmp m s1 s2 n = strncmp_from m s1 s2 n 0"

partial_function (option) strcpy_from :: "u32 \<Rightarrow> u32 \<Rightarrow> mem \<Rightarrow> u32 \<Rightarrow> mem option" where
  "strcpy_from dest src m i =
     (if m (src + i) \<noteq> 0 then strcpy_from dest src (m(dest + i := m (src + i))) (i + 1)
      else Some (m(dest + i := 0)))"

definition strcpy :: "mem \<Rightarrow> u32 \<Rightarrow> u32 \<Rightarrow> mem option" where
  "strcpy m dest src = strcpy_from dest src m 0"

function strncpy_fill :: "mem \<Rightarrow> u32 \<Rightarrow> u32 \<Rightarrow> u32 \<Rightarrow> mem" where
  "strncpy_fill m dest n i =
     (if i < n then strncpy_fill (m(dest + i := 0)) dest n (i + 1) else m)"
  by pat_completeness auto
termination
  by (relation "measure (\<lambda>(m, dest, n, i). unat n - unat i)")
     (auto simp: unat_inc_u32 word_less_nat_alt)

function strncpy_copy :: "mem \<Rightarrow> u32 \<Rightarrow> u32 \<Rightarrow> u32 \<Rightarrow> u32 \<Rightarrow> mem" where
  "strncpy_copy m dest src n i =
     (if m (src + i) \<noteq> 0 \<and> i < n
      then strncpy_copy (m(dest + i := m (src + i))) dest src n (i + 1)
      else strncpy_fill m dest n i)"
  by pat_completeness auto
termination
  by (relation "measure (\<lambda>(m, dest, src, n, i). unat n - unat i)")
     (auto simp: unat_inc_u32 word_less_nat_alt)

declare strncpy_fill.simps [simp del] strncpy_copy.simps [simp del]

definition strncpy :: "mem \<Rightarrow> u32 \<Rightarrow> u32 \<Rightarrow> u32 \<Rightarrow> mem" where
  "strncpy m dest src n = strncpy_copy m dest src n 0"

section \<open>Correctness of strlen\<close>

lemma strlen_from_cstr:
  "cstr_at m s xs \<Longrightarrow> i \<le> length xs \<Longrightarrow> strlen_from m s (of_nat i) = Some (of_nat (length xs))"
proof (induction "length xs - i" arbitrary: i)
  case 0
  then have "i = length xs" by simp
  then show ?case using cstr_at_end [OF 0(2)] by (subst strlen_from.simps) simp
next
  case (Suc k)
  then have i: "i < length xs" by simp
  then have "strlen_from m s (of_nat (Suc i)) = Some (of_nat (length xs))"
    using Suc by (intro Suc.hyps(1)) auto
  then show ?case
    using cstr_at_nth_nonzero [OF Suc.prems(1) i]
    by (subst strlen_from.simps) (simp add: add.commute)
qed

lemma strlen_cstr: "cstr_at m s xs \<Longrightarrow> strlen m s = Some (of_nat (length xs))"
  using strlen_from_cstr [of m s xs 0] by (simp add: strlen_def)

lemma strlen_from_zero:
  assumes "strlen_from m s i = Some n"
  shows "m (s + n) = 0"
  by (rule strlen_from.raw_induct [where P = "\<lambda>m s i n. m (s + n) = 0", OF _ assms])
     (auto split: if_splits)

text \<open>A NUL anywhere after \<open>s\<close> (addresses wrap around) makes a string start at \<open>s\<close>.\<close>

lemma cstr_at_exists:
  assumes "m (s + of_nat k) = 0" "k < 2 ^ 32"
  shows "\<exists>xs. cstr_at m s xs \<and> length xs \<le> k"
proof -
  define l where "l = (LEAST i. m (s + of_nat i) = 0)"
  have l: "m (s + of_nat l) = 0" unfolding l_def using assms(1) by (rule LeastI)
  have le: "l \<le> k" unfolding l_def using assms(1) by (rule Least_le)
  have "m (s + of_nat i) \<noteq> 0" if "i < l" for i
    using that not_less_Least unfolding l_def by blast
  then have "cstr_at m s (read_bytes m s l)"
    using l le assms(2) by (intro cstr_atI) (auto simp: in_set_conv_nth)
  then show ?thesis using le by (intro exI [of _ "read_bytes m s l"]) simp
qed

lemma strlen_SomeD:
  assumes "strlen m s = Some n"
  shows "\<exists>xs. cstr_at m s xs \<and> n = of_nat (length xs)"
proof -
  have "m (s + of_nat (unat n)) = 0"
    using strlen_from_zero assms by (simp add: strlen_def)
  then obtain xs where "cstr_at m s xs"
    using cstr_at_exists unat_lt_u32 by blast
  with assms show ?thesis using strlen_cstr by fastforce
qed

section \<open>Correctness of the block operations\<close>

lemma rep_stosb_eq: "rep_stosb n m edi eax = write_bytes m edi (replicate n (ucast eax))"
  by (induction n arbitrary: m edi) simp_all

lemma replicate_4: "replicate (4 * Suc n) b = [b, b, b, b] @ replicate (4 * n) b"
  by (simp add: numeral_eq_Suc)

lemma rep_stosl_eq:
  "bytes32 eax = replicate 4 b \<Longrightarrow>
   rep_stosl n m edi eax = (write_bytes m edi (replicate (4 * n) b), edi + of_nat (4 * n))"
proof (induction n arbitrary: m edi)
  case (Suc n)
  have "bytes32 eax = [b, b, b, b]" using Suc.prems by (simp add: numeral_eq_Suc)
  then show ?case using Suc
    by (simp only: rep_stosl.simps write32_def replicate_4 write_bytes_append)
       (simp add: algebra_simps fun_upd_def)
qed simp

lemma div4_mod4: "4 * unat (drop_bit 2 (w :: u32)) + unat (w AND 3) = unat w"
proof -
  have "unat (drop_bit 2 w) = unat w div 4"
    by (simp only: unsigned_drop_bit_eq)
       (simp add: drop_bit_eq_div take_bit_nat_eq_self unat_lt_u32 [simplified])
  moreover have "w AND 3 = take_bit 2 w"
    by (simp add: take_bit_eq_mask mask_eq_exp_minus_1)
  then have "unat (w AND 3) = unat w mod 4"
    by (simp add: take_bit_eq_mod unat_mod_distrib)
  ultimately show ?thesis by simp
qed

lemma memset_top_eq:
  "bytes32 eax = replicate 4 b \<Longrightarrow>
   memset_top m edi ecx eax = write_bytes m edi (replicate (unat ecx) b)"
proof (induction m edi ecx eax rule: memset_top.induct)
  case (1 m edi ecx eax)
  have b: "b = ucast eax" using "1.prems" by (simp add: bytes32_def numeral_eq_Suc)
  consider "ecx = 0" | "ecx \<noteq> 0" "edi AND 3 = 0" | "ecx \<noteq> 0" "edi AND 3 \<noteq> 0" by blast
  then show ?case
  proof cases
    case 1
    then show ?thesis by (simp add: memset_top.simps)
  next
    case 2
    then have "memset_top m edi ecx eax =
        write_bytes m edi (replicate (4 * unat (drop_bit 2 ecx)) b @ replicate (unat (ecx AND 3)) b)"
      using "1.prems" b
      by (subst memset_top.simps) (simp add: rep_stosl_eq rep_stosb_eq write_bytes_append)
    then show ?thesis by (simp flip: replicate_add add: div4_mod4)
  next
    case 3
    then have "unat ecx = Suc (unat (ecx - 1))" by (simp add: unat_minus_one_u32 unat_gt_0)
    with 3 "1" b show ?thesis by (subst memset_top.simps) (simp add: fun_upd_def)
  qed
qed

lemma memset_eq: "memset m s c n = write_bytes m s (replicate (unat n) (word_of_int c))"
proof -
  have "ucast (word_of_int c :: u32) = (word_of_int c :: u8)"
    by (rule bit_word_eqI) (auto simp: bit_simps)
  then show ?thesis by (simp only: memset_def Let_def memset_top_eq [OF bytes32_broadcast])
qed

text \<open>The copying routines: a forward copy from a disjoint source, then arbitrary overlap.\<close>

lemma movsb_up_disjoint:
  "disjoint_regions edi n esi n \<Longrightarrow> n \<le> 2 ^ 32 \<Longrightarrow>
   movsb_up n m edi esi = write_bytes m edi (read_bytes m esi n)"
proof (induction n arbitrary: m edi esi)
  case (Suc n)
  have nz: "Suc n \<le> unat (esi - edi)" "Suc n \<le> unat (edi - esi)"
    using Suc.prems(1) by (auto simp: disjoint_regions_def)
  have "\<not> in_region edi (esi + 1) n"
  proof
    assume "in_region edi (esi + 1) n"
    then have "unat (edi - (esi + 1)) < n" by (simp add: in_region_def)
    moreover have "edi \<noteq> esi" using nz by auto
    ultimately show False using unat_diff_succ [of edi esi] nz by simp
  qed
  then have "read_bytes (m(edi := m esi)) (esi + 1) n = read_bytes m (esi + 1) n"
    using Suc.prems(2) by (intro read_bytes_cong) (auto dest: in_region_offset [of _ n "esi + 1"])
  moreover have "disjoint_regions (edi + 1) n (esi + 1) n"
    using nz by (auto simp: disjoint_regions_def)
  ultimately show ?case using Suc by (simp add: read_bytes_Suc)
qed simp

lemma write32_read32: "write32 m d (read32 m s) = write_bytes m d (read_bytes m s 4)"
  by (simp add: write32_def bytes32_read32 read_bytes_Suc numeral_eq_Suc add.commute add.left_commute)

lemma rep_movsl_disjoint:
  "disjoint_regions d (4 * n) s (4 * n) \<Longrightarrow> 4 * n \<le> 2 ^ 32 \<Longrightarrow>
   rep_movsl n m d s = (write_bytes m d (read_bytes m s (4 * n)), d + of_nat (4 * n), s + of_nat (4 * n))"
proof (induction n arbitrary: m d s)
  case (Suc n)
  have dis: "disjoint_regions (d + 4) (4 * n) (s + 4) (4 * n)"
    using disjoint_regions_shift [OF Suc.prems(1), of 4 "4 * n"] by simp
  have split: "write_bytes m d (read_bytes m s (4 * Suc n)) =
      (let m' = write_bytes m d (read_bytes m s 4)
       in write_bytes m' (d + 4) (read_bytes m' (s + 4) (4 * n)))"
    using copy_split [of d 4 "4 * n" s m] Suc.prems by (simp add: Let_def)
  show ?case
    using Suc.IH [OF dis] Suc.prems(2) by (simp only: split rep_movsl.simps write32_read32)
      (simp add: Let_def algebra_simps)
qed simp

lemma memcpy_top_disjoint:
  "disjoint_regions edi (unat ecx) esi (unat ecx) \<Longrightarrow>
   memcpy_top m edi esi ecx = write_bytes m edi (read_bytes m esi (unat ecx))"
proof (induction m edi esi ecx rule: memcpy_top.induct)
  case (1 m edi esi ecx)
  let ?q = "4 * unat (drop_bit 2 ecx)" and ?r = "unat (ecx AND 3)"
  have qr: "unat ecx = ?q + ?r" by (rule div4_mod4 [symmetric])
  have le: "?q + ?r \<le> 2 ^ 32" using unat_lt_u32 [of ecx] qr by linarith
  consider "ecx = 0" | "ecx \<noteq> 0" "edi AND 3 = 0" | "ecx \<noteq> 0" "edi AND 3 \<noteq> 0" by blast
  then show ?case
  proof cases
    case 1
    then show ?thesis by (simp add: memcpy_top.simps)
  next
    case 2
    have d1: "disjoint_regions edi ?q esi ?q"
      using "1.prems" qr by (auto intro: disjoint_regions_prefix)
    have d2: "disjoint_regions (edi + of_nat ?q) ?r (esi + of_nat ?q) ?r"
      using disjoint_regions_shift [OF "1.prems", of ?q ?r] qr by simp
    have "memcpy_top m edi esi ecx =
        (let m' = write_bytes m edi (read_bytes m esi ?q)
         in write_bytes m' (edi + of_nat ?q) (read_bytes m' (esi + of_nat ?q) ?r))"
      using 2 rep_movsl_disjoint [OF d1] movsb_up_disjoint [OF d2] le
      by (subst memcpy_top.simps) (simp add: Let_def)
    also have "\<dots> = write_bytes m edi (read_bytes m esi (?q + ?r))"
      using copy_split [of edi ?q ?r esi m] "1.prems" qr le by (simp add: Let_def)
    finally show ?thesis using qr by simp
  next
    case 3
    then have s: "unat ecx = 1 + unat (ecx - 1)" by (simp add: unat_minus_one_u32 unat_gt_0)
    have "disjoint_regions (edi + 1) (unat (ecx - 1)) (esi + 1) (unat (ecx - 1))"
      using disjoint_regions_shift [OF "1.prems", of 1 "unat (ecx - 1)"] s by simp
    from "1.IH" [OF 3 this]
    have "memcpy_top m edi esi ecx = write_bytes (write_bytes m edi (read_bytes m esi 1)) (edi + 1)
        (read_bytes (write_bytes m edi (read_bytes m esi 1)) (esi + 1) (unat (ecx - 1)))"
      using 3 by (subst memcpy_top.simps) (simp add: read_bytes_Suc fun_upd_def)
    also have "\<dots> = write_bytes m edi (read_bytes m esi (1 + unat (ecx - 1)))"
      using copy_split [of edi 1 "unat (ecx - 1)" esi m] "1.prems" s unat_lt_u32 [of ecx] by simp
    finally show ?thesis using s by simp
  qed
qed

lemma memcpy_eq:
  "disjoint_regions dest (unat n) src (unat n) \<Longrightarrow>
   memcpy m dest src n = write_bytes m dest (read_bytes m src (unat n))"
  by (simp add: memcpy_def memcpy_top_disjoint)

lemma unat_add_nowrap: "unat a + i < 2 ^ 32 \<Longrightarrow> unat (a + of_nat i :: u32) = unat a + i"
  by (simp add: unat_word_ariths unat_of_nat_u32)

lemma movsb_up_overlap:
  "edi \<le> esi \<Longrightarrow> unat esi + n \<le> 2 ^ 32 \<Longrightarrow>
   movsb_up n m edi esi = write_bytes m edi (read_bytes m esi n)"
proof (induction n arbitrary: m edi esi)
  case (Suc n)
  show ?case
  proof (cases n)
    case 0
    then show ?thesis by (simp add: read_bytes_Suc)
  next
    case (Suc k)
    have e: "unat (esi + 1) = unat esi + 1" "unat (edi + 1) = unat edi + 1"
      using unat_add_nowrap [of esi 1] unat_add_nowrap [of edi 1] Suc Suc.prems
      by (simp_all add: word_le_nat_alt)
    have "read_bytes (m(edi := m esi)) (esi + 1) n = read_bytes m (esi + 1) n"
    proof (rule read_bytes_cong)
      fix i assume "i < n"
      then have "unat (esi + 1 + of_nat i) = unat esi + 1 + i"
        using unat_add_nowrap [of "esi + 1" i] e Suc.prems by simp
      then have "esi + 1 + of_nat i \<noteq> edi"
        using Suc.prems(1) by (auto simp: word_le_nat_alt)
      then show "(m(edi := m esi)) (esi + 1 + of_nat i) = m (esi + 1 + of_nat i)" by simp
    qed
    moreover have "movsb_up n (m(edi := m esi)) (edi + 1) (esi + 1) =
        write_bytes (m(edi := m esi)) (edi + 1) (read_bytes (m(edi := m esi)) (esi + 1) n)"
      using Suc.prems e by (intro Suc.IH) (simp_all add: word_le_nat_alt)
    ultimately show ?thesis by (simp only: read_bytes_Suc movsb_up.simps write_bytes.simps)
  qed
qed simp

lemma write_bytes_upd_commute:
  assumes "length xs \<le> 2 ^ 32" "\<not> in_region b a (length xs)"
  shows "write_bytes (m(b := x)) a xs = (write_bytes m a xs)(b := x)"
  using assms by (intro ext) (auto simp: write_bytes_apply)

lemma movsb_down_overlap:
  "esi < edi \<Longrightarrow> unat edi + n \<le> 2 ^ 32 \<Longrightarrow>
   movsb_down n m (edi + of_nat n - 1) (esi + of_nat n - 1) = write_bytes m edi (read_bytes m esi n)"
proof (induction n arbitrary: m)
  case (Suc n)
  let ?m = "m(edi + of_nat n := m (esi + of_nat n))"
  have "read_bytes ?m esi n = read_bytes m esi n"
  proof (rule read_bytes_cong)
    fix i assume i: "i < n"
    then have "unat (esi + of_nat i) = unat esi + i" "unat (edi + of_nat n) = unat edi + n"
      using unat_add_nowrap [of esi i] unat_add_nowrap [of edi n] Suc.prems
      by (simp_all add: word_less_nat_alt)
    then have "esi + of_nat i \<noteq> edi + of_nat n"
      using i Suc.prems(1) by (auto simp: word_less_nat_alt)
    then show "?m (esi + of_nat i) = m (esi + of_nat i)" by simp
  qed
  moreover have "\<not> in_region (edi + of_nat n) edi n"
    using Suc.prems(2) by (simp add: in_region_def unat_of_nat_u32)
  moreover have "movsb_down n ?m (edi + of_nat n - 1) (esi + of_nat n - 1) =
      write_bytes ?m edi (read_bytes ?m esi n)"
    using Suc.prems by (intro Suc.IH) simp_all
  ultimately have "movsb_down n ?m (edi + of_nat n - 1) (esi + of_nat n - 1) =
      (write_bytes m edi (read_bytes m esi n))(edi + of_nat n := m (esi + of_nat n))"
    using Suc.prems(2) by (simp only:) (rule write_bytes_upd_commute; simp)
  also have "\<dots> = write_bytes m edi (read_bytes m esi n @ [m (esi + of_nat n)])"
    by (simp add: write_bytes_snoc)
  also have "read_bytes m esi n @ [m (esi + of_nat n)] = read_bytes m esi (Suc n)"
    using read_bytes_add [of m esi n 1] by (simp add: read_bytes_Suc)
  finally show ?case by (simp add: algebra_simps fun_upd_def)
qed simp

lemma memmove_eq:
  assumes "unat src + unat n \<le> 2 ^ 32" "unat dest + unat n \<le> 2 ^ 32"
  shows "memmove m dest src n = write_bytes m dest (read_bytes m src (unat n))"
  using assms movsb_up_overlap [of dest src "unat n" m] movsb_down_overlap [of src dest "unat n" m]
  by (cases "dest \<le> src") (auto simp: memmove_def)

section \<open>Correctness of the string routines\<close>

text \<open>\<open>strncmp\<close> is zero exactly when the two strings agree up to a common NUL or \<open>n\<close> bytes.\<close>

definition agree_upto :: "mem \<Rightarrow> u32 \<Rightarrow> u32 \<Rightarrow> nat \<Rightarrow> nat \<Rightarrow> bool" where
  "agree_upto m a b k n \<longleftrightarrow>
     (\<forall>i<n. k \<le> i \<longrightarrow> (\<forall>j<i. k \<le> j \<longrightarrow> m (a + of_nat j) \<noteq> 0) \<longrightarrow> m (a + of_nat i) = m (b + of_nat i))"

lemma sint_eq_iff_u8: "sint (x :: u8) = sint y \<longleftrightarrow> x = y"
  by (auto intro: signed_word_eqI)

lemma agree_upto_step:
  assumes "k < n" "m (a + of_nat k) = m (b + of_nat k)" "m (a + of_nat k) \<noteq> 0"
  shows "agree_upto m a b k n = agree_upto m a b (Suc k) n"
  using assms unfolding agree_upto_def by (metis Suc_leD Suc_leI le_antisym not_less_eq_eq)

lemma strncmp_from_0:
  "strncmp_from m a b n i = 0 \<longleftrightarrow> agree_upto m a b (unat i) (unat n)"
proof (induction m a b n i rule: strncmp_from.induct)
  case (1 m a b n i)
  show ?case
  proof (cases "i < n")
    case False
    then show ?thesis by (subst strncmp_from.simps) (simp add: agree_upto_def word_less_nat_alt)
  next
    case i: True
    then have lt: "unat i < unat n" by (simp add: word_less_nat_alt)
    show ?thesis
    proof (cases "m (a + i) \<noteq> m (b + i) \<or> m (a + i) = 0")
      case True
      have "agree_upto m a b (unat i) (unat n) \<longleftrightarrow> m (a + i) = m (b + i)"
      proof
        assume "agree_upto m a b (unat i) (unat n)"
        then show "m (a + i) = m (b + i)" using lt unfolding agree_upto_def
          by (metis leD le_refl of_nat_unat_u32)
      next
        assume eq: "m (a + i) = m (b + i)"
        with True have z: "m (a + i) = 0" by simp
        show "agree_upto m a b (unat i) (unat n)"
          unfolding agree_upto_def
        proof (intro allI impI)
          fix k assume k: "unat i \<le> k" "\<forall>j<k. unat i \<le> j \<longrightarrow> m (a + of_nat j) \<noteq> 0"
          with z have "k = unat i" by (metis le_neq_implies_less le_refl of_nat_unat_u32)
          with eq show "m (a + of_nat k) = m (b + of_nat k)" by simp
        qed
      qed
      then show ?thesis using i True by (subst strncmp_from.simps) (simp add: sint_eq_iff_u8)
    next
      case False
      then have "strncmp_from m a b n i = strncmp_from m a b n (i + 1)"
        using i by (subst strncmp_from.simps) simp
      also have "\<dots> = 0 \<longleftrightarrow> agree_upto m a b (Suc (unat i)) (unat n)"
        using "1.IH" [OF i False] unat_inc_u32 [OF i] by simp
      finally show ?thesis using agree_upto_step [OF lt, of m a b] False by simp
    qed
  qed
qed

lemma strncmp_0: "strncmp m a b n = 0 \<longleftrightarrow> agree_upto m a b 0 (unat n)"
  by (simp add: strncmp_def strncmp_from_0)

text \<open>On two C strings, with a bound past both, that is equality of the strings.\<close>

lemma strncmp_cstr_eq:
  assumes xs: "cstr_at m a xs" and ys: "cstr_at m b ys" and n: "length xs \<le> unat n" "length ys \<le> unat n"
  shows "strncmp m a b n = 0 \<longleftrightarrow> xs = ys"
proof
  assume "xs = ys"
  then show "strncmp m a b n = 0"
    unfolding strncmp_0 agree_upto_def
    using cstr_at_nth [OF xs] cstr_at_nth [OF ys] cstr_at_end [OF xs] cstr_at_end [OF ys]
    by (metis le0 linorder_neqE_nat)
next
  assume "strncmp m a b n = 0"
  then have ag: "m (a + of_nat i) = m (b + of_nat i)" if "i < unat n" "i \<le> length xs" for i
    using that cstr_at_nth_nonzero [OF xs] unfolding strncmp_0 agree_upto_def by force
  have le: "length ys \<ge> length xs"
    using ag cstr_at_nth_nonzero [OF xs] cstr_at_end [OF ys] n by (metis leI le_trans less_le_not_le less_imp_le_nat)
  have "length ys = length xs"
  proof (rule ccontr)
    assume "length ys \<noteq> length xs"
    with le have "length xs < length ys" by simp
    then show False
      using ag [of "length xs"] n cstr_at_end [OF xs] cstr_at_nth_nonzero [OF ys] by fastforce
  qed
  moreover have "xs ! i = ys ! i" if "i < length xs" for i
    using that ag [of i] n cstr_at_nth [OF xs that] cstr_at_nth [OF ys, of i] \<open>length ys = length xs\<close> by simp
  ultimately show "xs = ys" by (simp add: nth_equalityI)
qed

lemma strcpy_from_cstr:
  assumes src: "cstr_at m src xs" and dis: "disjoint_regions dest (Suc (length xs)) src (Suc (length xs))"
  shows "i \<le> length xs \<Longrightarrow>
    strcpy_from dest src (write_bytes m dest (take i xs)) (of_nat i) = Some (write_bytes m dest (xs @ [0]))"
proof (induction "length xs - i" arbitrary: i)
  case 0
  then have "i = length xs" by simp
  moreover have "write_bytes m dest xs (src + of_nat (length xs)) = 0"
    using write_bytes_disjoint_read [OF dis, of xs "length xs" m] cstr_at_end [OF src] cstr_at_length [OF src]
    by simp
  ultimately show ?case by (subst strcpy_from.simps) (simp add: write_bytes_snoc)
next
  case (Suc k)
  then have i: "i < length xs" by simp
  have rd: "write_bytes m dest (take i xs) (src + of_nat i) = xs ! i" "xs ! i \<noteq> 0"
    using write_bytes_disjoint_read [OF dis, of "take i xs" i m] cstr_at_nth [OF src i]
      cstr_at_nth_nonzero [OF src i] cstr_at_length [OF src] i by simp_all
  have "strcpy_from dest src (write_bytes m dest (take (Suc i) xs)) (of_nat (Suc i)) =
      Some (write_bytes m dest (xs @ [0]))"
    using Suc.hyps(2) i by (intro Suc.hyps(1)) auto
  then show ?case
    using rd i by (subst strcpy_from.simps) (simp add: write_bytes_take_Suc add.commute)
qed

lemma strcpy_cstr:
  assumes "cstr_at m src xs" "disjoint_regions dest (Suc (length xs)) src (Suc (length xs))"
  shows "strcpy m dest src = Some (write_bytes m dest (xs @ [0]))"
  using strcpy_from_cstr [OF assms, of 0] by (simp add: strcpy_def)

lemma strncpy_fill_eq:
  "strncpy_fill m dest n i = write_bytes m (dest + i) (replicate (unat n - unat i) 0)"
proof (induction m dest n i rule: strncpy_fill.induct)
  case (1 m dest n i)
  show ?case
  proof (cases "i < n")
    case True
    then have "unat n - unat i = Suc (unat n - unat (i + 1))"
      using unat_inc_u32 [OF True] by (simp add: word_less_nat_alt)
    then show ?thesis using True "1"
      by (subst strncpy_fill.simps) (simp add: add.assoc fun_upd_def)
  next
    case False
    then show ?thesis by (subst strncpy_fill.simps) (simp add: word_less_nat_alt)
  qed
qed

lemma strncpy_copy_eq:
  assumes src: "read_bytes m src (length xs) = xs" "0 \<notin> set xs"
    and fin: "unat n \<le> length xs \<or> m (src + of_nat (length xs)) = 0" "length xs < 2 ^ 32"
    and dis: "disjoint_regions dest (unat n) src (Suc (length xs))"
  shows "i \<le> length xs \<Longrightarrow> i \<le> unat n \<Longrightarrow>
    strncpy_copy (write_bytes m dest (take i xs)) dest src n (of_nat i) =
    write_bytes m dest (take (unat n) xs @ replicate (unat n - length xs) 0)"
proof (induction "length xs - i" arbitrary: i rule: less_induct)
  case less
  have n: "unat n \<le> 2 ^ 32" using unat_lt_u32 [of n] by linarith
  have ui: "unat (of_nat i :: u32) = i" using less.prems fin(2) by (simp add: unat_of_nat_u32)
  have rd: "write_bytes m dest (take i xs) (src + of_nat i) = m (src + of_nat i)"
    using less.prems fin(2) n by (intro write_bytes_disjoint_read [OF dis]) auto
  show ?case
  proof (cases "i < length xs \<and> i < unat n")
    case True
    then have nz: "m (src + of_nat i) = xs ! i" "xs ! i \<noteq> 0"
      using src by (metis nth_read_bytes, metis nth_mem)
    have lt: "(of_nat i :: u32) < n" using True ui by (simp add: word_less_nat_alt)
    have "strncpy_copy (write_bytes m dest (take (Suc i) xs)) dest src n (of_nat (Suc i)) =
        write_bytes m dest (take (unat n) xs @ replicate (unat n - length xs) 0)"
      using True by (intro less.hyps) auto
    then show ?thesis
      using nz rd lt True by (subst strncpy_copy.simps) (simp add: write_bytes_take_Suc add.commute [of 1])
  next
    case False
    then have stop: "\<not> (write_bytes m dest (take i xs) (src + of_nat i) \<noteq> 0 \<and> of_nat i < n)"
    proof (cases "i = unat n")
      case True
      then show ?thesis by simp
    next
      case ne: False
      with False less.prems have "i = length xs" "\<not> unat n \<le> length xs" by auto
      then show ?thesis using fin(1) rd by simp
    qed
    have "take i xs @ replicate (unat n - i) 0 = take (unat n) xs @ replicate (unat n - length xs) 0"
      using False less.prems by (cases "i = length xs") auto
    moreover have "write_bytes (write_bytes m dest (take i xs)) (dest + of_nat i) (replicate (unat n - i) 0) =
        write_bytes m dest (take i xs @ replicate (unat n - i) 0)"
      using less.prems by (simp add: write_bytes_append min_def)
    ultimately show ?thesis
      using stop by (subst strncpy_copy.simps) (simp only: if_False strncpy_fill_eq ui)
  qed
qed

text \<open>
  \<open>strncpy\<close> writes exactly \<open>n\<close> bytes: the string up to \<open>n\<close>, padded with NULs. The source
  need not be terminated when it holds \<open>n\<close> non-NUL bytes.
\<close>

lemma strncpy_eq:
  assumes "read_bytes m src (length xs) = xs" "0 \<notin> set xs"
    and "unat n \<le> length xs \<or> m (src + of_nat (length xs)) = 0" "length xs < 2 ^ 32"
    and "disjoint_regions dest (unat n) src (Suc (length xs))"
  shows "strncpy m dest src n = write_bytes m dest (take (unat n) xs @ replicate (unat n - length xs) 0)"
  using strncpy_copy_eq [OF assms, of 0] by (simp add: strncpy_def)

text \<open>In-place reversal: after swapping \<open>k\<close> pairs the outer \<open>k\<close> bytes on both sides are exchanged.\<close>

lemma write_bytes_list_update:
  assumes "length xs \<le> 2 ^ 32" "i < length xs"
  shows "(write_bytes m a xs)(a + of_nat i := x) = write_bytes m a (xs[i := x])"
proof
  fix y
  show "((write_bytes m a xs)(a + of_nat i := x)) y = write_bytes m a (xs[i := x]) y"
  proof (cases "in_region y a (length xs)")
    case True
    then obtain j where "j < length xs" "y = a + of_nat j" by (rule in_regionE)
    then show ?thesis using assms
      by (auto simp: write_bytes_apply in_region_offset unat_of_nat_u32 nth_list_update word_of_nat_eq_iff
            take_bit_nat_eq_self)
  next
    case False
    then have "y \<noteq> a + of_nat i" using in_region_offset [OF assms(2,1), of a] by auto
    with False assms(1) show ?thesis by (simp add: write_bytes_apply)
  qed
qed

fun swap_ends :: "'a list \<Rightarrow> nat \<Rightarrow> nat \<Rightarrow> 'a list" where
  "swap_ends xs i j = (if i < j then swap_ends (xs[j := xs ! i, i := xs ! j]) (Suc i) (j - 1) else xs)"

declare swap_ends.simps [simp del]

lemma strrev_loop_swap:
  "length xs < 2 ^ 31 \<Longrightarrow> j < length xs \<Longrightarrow>
   strrev_loop (write_bytes m s xs) s (int i) (int j) = write_bytes m s (swap_ends xs i j)"
proof (induction xs i j rule: swap_ends.induct)
  case (1 xs i j)
  show ?case
  proof (cases "i < j")
    case False
    then show ?thesis by (subst strrev_loop.simps, subst swap_ends.simps) simp
  next
    case True
    let ?ys = "xs[j := xs ! i, i := xs ! j]"
    have len: "length xs \<le> 2 ^ 32" using "1.prems" by simp
    have "strrev_loop (write_bytes m s xs) s (int i) (int j) =
        strrev_loop (write_bytes m s ?ys) s (int (Suc i)) (int (j - 1))"
      using True "1.prems" len
      by (subst strrev_loop.simps) (simp add: Let_def write_bytes_inside write_bytes_list_update of_nat_diff add.commute)
    also have "\<dots> = write_bytes m s (swap_ends ?ys (Suc i) (j - 1))"
      using "1.IH" [OF True] "1.prems" by simp
    finally show ?thesis using True by (subst swap_ends.simps) simp
  qed
qed

lemma length_swap_ends [simp]: "length (swap_ends xs i j) = length xs"
  by (induction xs i j rule: swap_ends.induct) (subst swap_ends.simps, simp)

lemma swap_ends_nth:
  "j < length xs \<Longrightarrow> k < length xs \<Longrightarrow>
   swap_ends xs i j ! k = (if i \<le> k \<and> k \<le> j then xs ! (i + j - k) else xs ! k)"
proof (induction xs i j rule: swap_ends.induct)
  case (1 xs i j)
  show ?case
  proof (cases "i < j")
    case True
    then show ?thesis
      using "1.IH" [OF True] "1.prems"
      by (subst swap_ends.simps) (auto simp: nth_list_update)
  next
    case False
    then have "i \<le> k \<and> k \<le> j \<Longrightarrow> i + j - k = k" by auto
    with False show ?thesis by (subst swap_ends.simps) auto
  qed
qed

lemma swap_ends_rev: "xs \<noteq> [] \<Longrightarrow> swap_ends xs 0 (length xs - 1) = rev xs"
  by (rule nth_equalityI) (auto simp: swap_ends_nth rev_nth)

lemma strrev_cstr:
  assumes "cstr_at m s xs" "length xs < 2 ^ 31"
  shows "strrev m s = Some (write_bytes m s (rev xs))"
proof (cases "xs = []")
  case True
  then show ?thesis using strlen_cstr [OF assms(1)]
    by (simp add: strrev_def) (subst strrev_loop.simps, simp)
next
  case False
  have m: "write_bytes m s xs = m"
    using assms(1) write_read_bytes [of m s "length xs"] by (simp add: cstr_at_def)
  have "sint (of_nat (length xs) - 1 :: u32) = int (length xs - 1)"
    using False assms(2) sint_of_nat_u32 [of "length xs - 1"] by (simp add: Suc_le_eq)
  then show ?thesis
    using strlen_cstr [OF assms(1)] strrev_loop_swap [of xs "length xs - 1" m s 0] assms(2) False
    by (simp add: strrev_def m swap_ends_rev [simplified])
qed

section \<open>Correctness of itoa\<close>

text \<open>Least significant digit first, as the first loop of \<open>itoa\<close> produces them.\<close>

function lsd_digits :: "nat \<Rightarrow> nat \<Rightarrow> nat list" where
  "lsd_digits r v = (if v = 0 \<or> r < 2 then [] else v mod r # lsd_digits r (v div r))"
  by pat_completeness auto
termination
  by (relation "measure snd") auto

declare lsd_digits.simps [simp del]

definition numeral_string :: "nat \<Rightarrow> nat \<Rightarrow> u8 list" where
  "numeral_string r v = (if v = 0 then [0x30] else map ((!) itoa_lookup) (rev (lsd_digits r v)))"

definition digit_value :: "u8 \<Rightarrow> nat" where
  "digit_value c = (if c \<le> 0x39 then unat c - 0x30 else unat c - 0x37)"

definition parse_numeral :: "nat \<Rightarrow> u8 list \<Rightarrow> nat" where
  "parse_numeral r xs = foldl (\<lambda>n c. n * r + digit_value c) 0 xs"

lemma lsd_digits_less: "2 \<le> r \<Longrightarrow> d \<in> set (lsd_digits r v) \<Longrightarrow> d < r"
proof (induction r v rule: lsd_digits.induct)
  case (1 r v)
  then show ?case by (subst (asm) (2) lsd_digits.simps) (auto split: if_splits)
qed

lemma length_lsd_digits: "2 \<le> r \<Longrightarrow> v < 2 ^ k \<Longrightarrow> length (lsd_digits r v) \<le> k"
proof (induction r v arbitrary: k rule: lsd_digits.induct)
  case (1 r v)
  show ?case
  proof (cases "v = 0")
    case True
    then show ?thesis by (simp add: lsd_digits.simps)
  next
    case False
    then obtain k' where k: "k = Suc k'" using "1.prems" by (cases k) auto
    have "v div r \<le> v div 2" using "1.prems"(1) by (rule div_le_mono2 [rotated]) simp
    then have "v div r < 2 ^ k'" using "1.prems"(2) k by simp
    then have "length (lsd_digits r (v div r)) \<le> k'" using False "1" by simp
    then show ?thesis using False k "1.prems" by (subst lsd_digits.simps) simp
  qed
qed

lemma parse_lsd_digits:
  "2 \<le> r \<Longrightarrow> foldr (\<lambda>d n. n * r + d) (lsd_digits r v) 0 = v"
proof (induction r v rule: lsd_digits.induct)
  case (1 r v)
  then show ?case by (subst lsd_digits.simps) auto
qed

lemma itoa_lookup_digit: "d < 36 \<Longrightarrow> itoa_lookup ! d \<noteq> 0 \<and> digit_value (itoa_lookup ! d) = d"
proof -
  have "list_all (\<lambda>d. itoa_lookup ! d \<noteq> 0 \<and> digit_value (itoa_lookup ! d) = d) [0..<36]"
    by code_simp
  then show "d < 36 \<Longrightarrow> ?thesis" by (simp add: list_all_iff)
qed

lemma itoa_loop_eq:
  assumes "2 \<le> r" "r \<le> 36"
  shows "itoa_loop (of_nat r) m newbuf newval =
    Some (write_bytes m newbuf (map ((!) itoa_lookup) (lsd_digits r (unat newval))),
          newbuf + of_nat (length (lsd_digits r (unat newval))))"
proof (induction "unat newval" arbitrary: m newbuf newval rule: less_induct)
  case less
  have ur: "unat (of_nat r :: u32) = r" using assms by (simp add: unat_of_nat_u32)
  show ?case
  proof (cases "newval = 0")
    case True
    then show ?thesis by (subst itoa_loop.simps) (simp add: lsd_digits.simps)
  next
    case False
    then have pos: "0 < newval" "unat newval \<noteq> 0" by (simp_all add: word_gt_0 unat_eq_0)
    have dm: "unat (newval div of_nat r) = unat newval div r" "unat (newval mod of_nat r) = unat newval mod r"
      using ur by (simp_all add: unat_div_distrib unat_mod_distrib)
    have "length itoa_lookup = 37" by (simp add: itoa_lookup_def)
    moreover have "unat newval mod r < 36"
      using assms mod_less_divisor [of r "unat newval"] by linarith
    moreover have "(of_nat r :: u32) \<noteq> 0" using ur assms by (metis not_numeral_le_zero unat_0)
    moreover have "unat newval div r < unat newval" using pos assms by (intro div_less_dividend) auto
    ultimately show ?thesis
      using less [of "newval div of_nat r"] pos dm assms
      by (subst itoa_loop.simps) (simp add: algebra_simps lsd_digits.simps [of r "unat newval"])
  qed
qed

lemma itoa_eq:
  assumes "2 \<le> r" "r \<le> 36"
  shows "itoa m v buf (int r) = Some (write_bytes m buf (numeral_string r (unat v) @ [0]))"
proof (cases "v = 0")
  case True
  then show ?thesis by (simp add: itoa_def numeral_string_def)
next
  case False
  let ?ds = "lsd_digits r (unat v)"
  let ?xs = "map ((!) itoa_lookup) ?ds"
  have len: "length ?ds \<le> 32" using length_lsd_digits [OF assms(1)] unat_lt_u32 by blast
  have nz: "0 \<notin> set ?xs"
    using lsd_digits_less [OF assms(1)] itoa_lookup_digit assms(2) by fastforce
  let ?m = "write_bytes m buf (?xs @ [0])"
  have "cstr_at ?m buf ?xs"
    using len nz by (intro cstr_atI) (simp_all add: write_bytes_apply in_region_offset in_region_def unat_of_nat_u32 nth_append)
  then have "strrev ?m buf = Some (write_bytes ?m buf (rev ?xs))"
    using len by (intro strrev_cstr) simp_all
  also have "write_bytes ?m buf (rev ?xs) = write_bytes m buf (rev ?xs @ [0])"
    using len by (intro ext) (auto simp: write_bytes_apply in_region_def nth_append)
  finally show ?thesis
    using False itoa_loop_eq [OF assms, of m buf v]
    by (simp add: itoa_def numeral_string_def rev_map write_bytes_snoc unat_eq_0 fun_upd_def)
qed

lemma numeral_string_nonzero: "2 \<le> r \<Longrightarrow> r \<le> 36 \<Longrightarrow> 0 \<notin> set (numeral_string r v)"
proof
  assume r: "2 \<le> r" "r \<le> 36" and z: "0 \<in> set (numeral_string r v)"
  from z obtain d where "d \<in> set (lsd_digits r v)" "itoa_lookup ! d = 0"
    by (auto simp: numeral_string_def split: if_splits)
  then show False using lsd_digits_less [OF r(1), of d v] itoa_lookup_digit [of d] r(2) by simp
qed

lemma length_numeral_string: "2 \<le> r \<Longrightarrow> v < 2 ^ 32 \<Longrightarrow> length (numeral_string r v) \<le> 32"
  using length_lsd_digits [of r v 32] by (simp add: numeral_string_def)

lemma foldl_digit_value:
  "set ds \<subseteq> {..<36} \<Longrightarrow>
   foldl (\<lambda>n c. n * r + digit_value c) a (map ((!) itoa_lookup) ds) = foldl (\<lambda>n d. n * r + d) a ds"
  using itoa_lookup_digit by (induction ds arbitrary: a) auto

lemma parse_numeral_string:
  assumes "2 \<le> r" "r \<le> 36"
  shows "parse_numeral r (numeral_string r v) = v"
proof (cases "v = 0")
  case True
  then show ?thesis by (simp add: parse_numeral_def numeral_string_def digit_value_def)
next
  case False
  have "set (rev (lsd_digits r v)) \<subseteq> {..<36}"
    using lsd_digits_less [OF assms(1)] assms(2) by fastforce
  then have "parse_numeral r (numeral_string r v) = foldl (\<lambda>n d. n * r + d) 0 (rev (lsd_digits r v))"
    using False by (simp only: parse_numeral_def numeral_string_def foldl_digit_value if_False)
  then show ?thesis using parse_lsd_digits [OF assms(1), of v] by (simp add: foldl_conv_foldr)
qed

section \<open>Main properties\<close>

text \<open>
  C27: \<open>memmove\<close> is correct for every overlap of its two blocks, as long as neither block runs
  past the end of the address space: afterwards the destination holds what the source held
  before the call, and no other byte has changed.
\<close>
theorem memmove_overlap:
  assumes "unat src + unat n \<le> 2 ^ 32" "unat dest + unat n \<le> 2 ^ 32"
  shows "memmove m dest src n x = (if in_region x dest (unat n) then m (src + (x - dest)) else m x)"
proof -
  have "in_region x dest (unat n) \<Longrightarrow> unat (x - dest) < unat n" by (simp add: in_region_def)
  then show ?thesis using unat_lt_u32 [of n] by (simp add: memmove_eq [OF assms] write_bytes_apply)
qed

theorem memmove_overlap_witness:
  "memmove (mem_of [(0x1000, [1, 2, 3, 4, 5])]) 0x1002 0x1000 4 0x1004 = 3 \<and>
   memmove (mem_of [(0x1000, [1, 2, 3, 4, 5])]) 0x1002 0x1000 4 0x1001 = 2"
proof -
  have "mem_of [(0x1000, [1, 2, 3, 4, 5])] 0x1001 = 2" "mem_of [(0x1000, [1, 2, 3, 4, 5])] 0x1002 = 3"
    by code_simp+
  then show ?thesis
    using memmove_overlap [of "0x1000" 4 "0x1002" "mem_of [(0x1000, [1, 2, 3, 4, 5])]" "0x1001"]
      memmove_overlap [of "0x1000" 4 "0x1002" "mem_of [(0x1000, [1, 2, 3, 4, 5])]" "0x1004"] by (simp add: in_region_def)
qed

text \<open>
  \<open>memset\<close>, which fills single bytes up to an aligned address, whole words, and then the
  rest, sets exactly the \<open>n\<close> bytes from \<open>s\<close> on to the low byte of \<open>c\<close>, for every
  alignment and length.
\<close>
theorem memset_fills: "memset m s c n x = (if in_region x s (unat n) then word_of_int c else m x)"
proof -
  have "in_region x s (unat n) \<Longrightarrow> unat (x - s) < unat n" by (simp add: in_region_def)
  then show ?thesis using unat_lt_u32 [of n] by (simp add: memset_eq write_bytes_apply)
qed

text \<open>
  C28: \<open>itoa\<close> round trip. For a radix from 2 to 36 the call always returns; it leaves at
  \<open>buf\<close> a C string of at most 32 digits that reads back, in that radix, as the value.
\<close>
theorem itoa_round_trip:
  assumes "2 \<le> r" "r \<le> 36"
  shows "\<exists>m' xs. itoa m v buf (int r) = Some m' \<and> cstr_at m' buf xs \<and> length xs \<le> 32 \<and> parse_numeral r xs = unat v"
proof -
  let ?xs = "numeral_string r (unat v)"
  have nz: "0 \<notin> set ?xs" and le: "length ?xs \<le> 32"
    using assms numeral_string_nonzero length_numeral_string [of r "unat v"] unat_lt_u32 [of v] by auto
  have "cstr_at (write_bytes m buf (?xs @ [0])) buf ?xs"
    using nz le by (intro cstr_atI) (simp_all add: write_bytes_apply in_region_def unat_of_nat_u32 nth_append)
  then show ?thesis using assms le by (auto simp: itoa_eq parse_numeral_string)
qed

theorem itoa_round_trip_witness:
  "\<exists>m' xs. itoa (\<lambda>_. 0) 391 0x1000 (int 16) = Some m' \<and> cstr_at m' 0x1000 xs \<and> length xs \<le> 32 \<and> parse_numeral 16 xs = 391"
  using itoa_round_trip [of 16 "\<lambda>_. 0" 391 "0x1000"] by simp

end
