(* ===== verification/Console.thy ===== *)
theory Console
  imports Pic Lib_String
begin

text \<open>
  The text console of \<open>lib.c\<close>: three terminals, each a page of character cells in memory
  with a cursor, and the page the hardware displays. \<open>putc\<close>, \<open>puts\<close>, \<open>printf\<close>,
  \<open>vert_scroll\<close>, \<open>backspace_helper\<close> and the others are modelled on the bytes of the pages;
  an abstract screen (a matrix of characters with a cursor) is the specification that
  \<open>putc\<close> refines.
\<close>

definition VIDEO :: u32 where "VIDEO = 0xB8000"
definition VID1 :: u32 where "VID1 = 0xB9000"
definition VID2 :: u32 where "VID2 = 0xBA000"
definition VID3 :: u32 where "VID3 = 0xBB000"
definition NUM_COLS :: int where "NUM_COLS = 80"
definition NUM_ROWS :: int where "NUM_ROWS = 25"
definition ATTRIB :: u8 where "ATTRIB = 0x7"
definition FOUR_KB :: u32 where "FOUR_KB = 0x1000"
definition CURSOR_PORT :: u16 where "CURSOR_PORT = 0x3D4"
definition CURSOR_BITMASK :: u32 where "CURSOR_BITMASK = 0xFF"
definition CURSOR_REG1 :: u32 where "CURSOR_REG1 = 0x0F"
definition CURSOR_REG2 :: u32 where "CURSOR_REG2 = 0x0E"
definition SECOND_TERMINAL :: u32 where "SECOND_TERMINAL = 2"
definition NUM_CELLS :: nat where "NUM_CELLS = 2000" \<comment> \<open>\<open>NUM_ROWS * NUM_COLS\<close>\<close>

lemmas console_consts = VIDEO_def VID1_def VID2_def VID3_def NUM_COLS_def NUM_ROWS_def ATTRIB_def
  FOUR_KB_def CURSOR_PORT_def CURSOR_BITMASK_def CURSOR_REG1_def CURSOR_REG2_def SECOND_TERMINAL_def
  NUM_CELLS_def

text \<open>
  \<open>screen_x\<close>, \<open>screen_y\<close>: the cursors by terminal number; \<open>curr_term\<close>: the file's static
  \<open>curr_terminal\<close>, the terminal on display.
\<close>

record console = pic +
  screen_x :: "u32 \<Rightarrow> int"
  screen_y :: "u32 \<Rightarrow> int"
  curr_term :: u32

definition vidmem_pages :: "u32 list" where
  "vidmem_pages = [VID1, VID2, VID3]"

definition set_x :: "u32 \<Rightarrow> int \<Rightarrow> 'a console_scheme \<Rightarrow> 'a console_scheme" where
  "set_x t v s = s\<lparr>screen_x := (screen_x s)(t := v)\<rparr>"

definition set_y :: "u32 \<Rightarrow> int \<Rightarrow> 'a console_scheme \<Rightarrow> 'a console_scheme" where
  "set_y t v s = s\<lparr>screen_y := (screen_y s)(t := v)\<rparr>"

section \<open>Clearing, cursor, and switching the displayed terminal\<close>

definition blank_cells :: "u32 \<Rightarrow> nat \<Rightarrow> nat \<Rightarrow> mem \<Rightarrow> mem" where
  "blank_cells page lo hi m =
     fold (\<lambda>i m. m(page + of_nat (2 * i) := 0x20, page + of_nat (2 * i) + 1 := ATTRIB)) [lo..<hi] m"

definition clear :: "'a console_scheme \<Rightarrow> 'a console_scheme" where
  "clear s =
     (let s = s\<lparr>memory := blank_cells VIDEO 0 NUM_CELLS (memory s)\<rparr>
      in s\<lparr>memory := blank_cells (vidmem_pages ! unat (curr_term s)) 0 NUM_CELLS (memory s)\<rparr>)"

definition update_cursor :: "'a console_scheme \<Rightarrow> 'a console_scheme" where
  "update_cursor s =
     (let pos = screen_y s (curr_term s) * NUM_COLS + screen_x s (curr_term s);
          s = outb CURSOR_REG1 CURSOR_PORT s;
          s = outb (word_of_int pos AND CURSOR_BITMASK) (CURSOR_PORT + 1) s;
          s = outb CURSOR_REG2 CURSOR_PORT s
      in outb (word_of_int (pos div 256) AND CURSOR_BITMASK) (CURSOR_PORT + 1) s)"

definition reset :: "'a console_scheme \<Rightarrow> 'a console_scheme" where
  "reset s =
     (let s = s\<lparr>memory := blank_cells VIDEO 0 NUM_CELLS (memory s)\<rparr>;
          s = s\<lparr>memory := blank_cells (vidmem_pages ! unat (curr_term s)) 0 NUM_CELLS (memory s)\<rparr>;
          s = set_x (curr_term s) 0 s;
          s = set_y (curr_term s) 0 s
      in update_cursor s)"

definition update_curr_term :: "u32 \<Rightarrow> 'a console_scheme \<Rightarrow> 'a console_scheme" where
  "update_curr_term new_term s = (if new_term \<le> SECOND_TERMINAL then s\<lparr>curr_term := new_term\<rparr> else s)"

definition get_curr_term :: "'a console_scheme \<Rightarrow> u32" where
  "get_curr_term s = curr_term s"

definition update_vidmem :: "u32 \<Rightarrow> 'a console_scheme \<Rightarrow> 'a console_scheme" where
  "update_vidmem next_term s =
     update_cursor (s\<lparr>memory := memcpy (memory s) VIDEO (vidmem_pages ! unat next_term) FOUR_KB\<rparr>)"

section \<open>Characters\<close>

definition scroll_cells :: "u32 \<Rightarrow> nat \<Rightarrow> mem \<Rightarrow> mem" where
  "scroll_cells page n m =
     fold (\<lambda>i m. m(page + of_nat (2 * i) := m (page + of_nat (2 * (i + 80))),
                   page + of_nat (2 * i) + 1 := ATTRIB)) [0..<n] m"

definition vert_scroll :: "u32 \<Rightarrow> 'a console_scheme \<Rightarrow> 'a console_scheme" where
  "vert_scroll pcb_term s =
     (let page = vidmem_pages ! unat pcb_term;
          s = s\<lparr>memory := scroll_cells page (NUM_CELLS - 80) (memory s)\<rparr>
      in s\<lparr>memory := blank_cells page (NUM_CELLS - 80) NUM_CELLS (memory s)\<rparr>)"

definition put_cell :: "u8 \<Rightarrow> u32 \<Rightarrow> 'a console_scheme \<Rightarrow> 'a console_scheme" where
  "put_cell c pcb_term s =
     (let a = vidmem_pages ! unat pcb_term
              + word_of_int (2 * (NUM_COLS * screen_y s pcb_term + screen_x s pcb_term))
      in s\<lparr>memory := (memory s)(a := c, a + 1 := ATTRIB)\<rparr>)"

definition putc :: "u8 \<Rightarrow> u32 \<Rightarrow> 'a console_scheme \<Rightarrow> 'a console_scheme" where
  "putc c pcb_term s =
     update_cursor
       (if c = 0x0A \<or> c = 0x0D
        then let s = set_y pcb_term (screen_y s pcb_term + 1) s;
                 s = set_x pcb_term 0 s
             in if screen_y s pcb_term > NUM_ROWS - 1
                then set_y pcb_term (NUM_ROWS - 1) (vert_scroll pcb_term s)
                else s
        else if c = 0 then s
        else let s = put_cell c pcb_term s;
                 s = set_x pcb_term (screen_x s pcb_term + 1) s;
                 s = (if screen_y s pcb_term + screen_x s pcb_term sdiv NUM_COLS = NUM_ROWS
                      then set_y pcb_term (NUM_ROWS - 1) (vert_scroll pcb_term s)
                      else set_y pcb_term ((screen_y s pcb_term + screen_x s pcb_term sdiv NUM_COLS) smod NUM_ROWS) s)
             in set_x pcb_term (screen_x s pcb_term smod NUM_COLS) s)"

definition putcforcenoscroll :: "u8 \<Rightarrow> u32 \<Rightarrow> 'a console_scheme \<Rightarrow> 'a console_scheme" where
  "putcforcenoscroll c pcb_term s =
     update_cursor
       (if c = 0x0A \<or> c = 0x0D
        then set_x pcb_term 0 (set_y pcb_term (screen_y s pcb_term + 1) s)
        else let s = put_cell c pcb_term s;
                 s = set_x pcb_term (screen_x s pcb_term + 1) s;
                 s = set_x pcb_term (screen_x s pcb_term smod NUM_COLS) s
             in set_y pcb_term ((screen_y s pcb_term + screen_x s pcb_term sdiv NUM_COLS) smod NUM_ROWS) s)"

definition backspace_helper :: "u32 \<Rightarrow> 'a console_scheme \<Rightarrow> 'a console_scheme" where
  "backspace_helper pcb_term s =
     update_cursor
       (if screen_x s pcb_term = 0
        then let s = set_x pcb_term (NUM_COLS - 1) s;
                 s = set_y pcb_term (screen_y s pcb_term - 1) s;
                 tempy = screen_y s pcb_term;
                 s = putcforcenoscroll 0x20 pcb_term s;
                 s = set_x pcb_term (NUM_COLS - 1) s
             in set_y pcb_term tempy s
        else let s = set_x pcb_term (screen_x s pcb_term - 1) s;
                 s = putc 0x20 pcb_term s
             in set_x pcb_term (screen_x s pcb_term - 1) s)"

partial_function (option) puts_from :: "u32 \<Rightarrow> u32 \<Rightarrow> u32 \<Rightarrow> 'a console_scheme \<Rightarrow> ('a console_scheme \<times> u32) option" where
  "puts_from str pcb_term index s =
     (if memory s (str + index) \<noteq> 0
      then puts_from str pcb_term (index + 1) (putc (memory s (str + index)) pcb_term s)
      else Some (s, index))"

definition puts :: "u32 \<Rightarrow> u32 \<Rightarrow> 'a console_scheme \<Rightarrow> ('a console_scheme \<times> u32) option" where
  "puts str pcb_term s = puts_from str pcb_term 0 s"

definition test_interrupts :: "'a console_scheme \<Rightarrow> 'a console_scheme" where
  "test_interrupts s =
     s\<lparr>memory := fold (\<lambda>i m. m(VIDEO + of_nat (2 * i) := m (VIDEO + of_nat (2 * i)) + 1)) [0..<NUM_CELLS] (memory s)\<rparr>"

section \<open>printf\<close>

text \<open>
  The format is a string literal, given as its bytes without the NUL; the arguments are the
  stack words after the format pointer; \<open>conv\<close> is the stack address of the local
  \<open>conv_buf\<close>. A format that ends inside a conversion, or asks for more words than were
  passed, reads memory the call does not own and has no result here.
\<close>

definition fill_zeros :: "u32 \<Rightarrow> nat \<Rightarrow> mem \<Rightarrow> mem" where
  "fill_zeros conv starting_index m = fold (\<lambda>i m. m(conv + of_nat i := 0x30)) [starting_index..<8] m"

definition print_hex :: "u32 \<Rightarrow> bool \<Rightarrow> u32 \<Rightarrow> 'a console_scheme \<Rightarrow> 'a console_scheme option" where
  "print_hex conv alternate w s =
     (if \<not> alternate
      then do { m \<leftarrow> itoa (memory s) w conv 16;
                (s, _) \<leftarrow> puts conv (curr_term s) (s\<lparr>memory := m\<rparr>);
                Some s }
      else do { m \<leftarrow> itoa (memory s) w (conv + 8) 16;
                starting_index \<leftarrow> strlen m (conv + 8);
                (s, _) \<leftarrow> puts (conv + starting_index) (curr_term s)
                  (s\<lparr>memory := fill_zeros conv (unat starting_index) m\<rparr>);
                Some s })"

definition print_unsigned :: "u32 \<Rightarrow> u32 \<Rightarrow> 'a console_scheme \<Rightarrow> 'a console_scheme option" where
  "print_unsigned conv w s =
     do { m \<leftarrow> itoa (memory s) w conv 10;
          (s, _) \<leftarrow> puts conv (curr_term s) (s\<lparr>memory := m\<rparr>);
          Some s }"

definition print_signed :: "u32 \<Rightarrow> u32 \<Rightarrow> 'a console_scheme \<Rightarrow> 'a console_scheme option" where
  "print_signed conv w s =
     do { m \<leftarrow> (if sint w < 0 then itoa ((memory s)(conv := 0x2D)) (- w) (conv + 1) 10
                 else itoa (memory s) w conv 10);
          (s, _) \<leftarrow> puts conv (curr_term s) (s\<lparr>memory := m\<rparr>);
          Some s }"

fun printf_chars :: "u32 \<Rightarrow> u8 list \<Rightarrow> u32 list \<Rightarrow> 'a console_scheme \<Rightarrow> 'a console_scheme option"
  and printf_conv :: "u32 \<Rightarrow> bool \<Rightarrow> u8 list \<Rightarrow> u32 list \<Rightarrow> 'a console_scheme \<Rightarrow> 'a console_scheme option" where
  "printf_chars conv [] args s = Some s"
| "printf_chars conv (c # cs) args s =
     (if c = 0x25 then printf_conv conv False cs args s
      else printf_chars conv cs args (putc c (curr_term s) s))"
| "printf_conv conv alternate [] args s = None"
| "printf_conv conv alternate (c # cs) args s =
     (if c = 0x25 then printf_chars conv cs args (putc 0x25 (curr_term s) s)
      else if c = 0x23 then printf_conv conv True cs args s
      else if c \<in> {0x78, 0x75, 0x64, 0x63, 0x73}
      then (case args of [] \<Rightarrow> None
            | a # as \<Rightarrow>
                do { s \<leftarrow> (if c = 0x78 then print_hex conv alternate a s
                           else if c = 0x75 then print_unsigned conv a s
                           else if c = 0x64 then print_signed conv a s
                           else if c = 0x63 then Some (putc (ucast a) (curr_term s) s)
                           else map_option fst (puts a (curr_term s) s));
                     printf_chars conv cs as s })
      else printf_chars conv cs args s)"

definition printf :: "u32 \<Rightarrow> u8 list \<Rightarrow> u32 list \<Rightarrow> 'a console_scheme \<Rightarrow> ('a console_scheme \<times> int) option" where
  "printf conv format args s = do { s \<leftarrow> printf_chars conv format args s; Some (s, int (length format)) }"

section \<open>Pages\<close>

text \<open>The character pages are disjoint blocks of 4 KiB; terminal numbers are below 3.\<close>

definition page :: "u32 \<Rightarrow> u32" where
  "page t = vidmem_pages ! unat t"

lemma term_cases:
  fixes t :: u32
  assumes "t < 3"
  obtains "t = 0" | "t = 1" | "t = 2"
proof -
  from assms have "unat t < 3" by (simp add: word_less_nat_alt)
  then consider "unat t = 0" | "unat t = 1" | "unat t = 2" by linarith
  then show thesis
    using that of_nat_unat_u32 [of t] by cases simp_all
qed

lemma page_simps [simp]: "page 0 = 0xB9000" "page 1 = 0xBA000" "page 2 = 0xBB000"
  by (simp_all add: page_def vidmem_pages_def console_consts)

lemma page_def_fold: "vidmem_pages ! unat t = page t"
  by (simp add: page_def)

lemma pages_disjoint:
  assumes "t < 3" "u < 3" "t \<noteq> u" "in_region x (page t) 4096"
  shows "\<not> in_region x (page u) 4096"
proof -
  have "disjoint_regions (page t) 4096 (page u) 4096"
    using assms(1-3) by (elim term_cases) (auto simp: disjoint_regions_def)
  then show ?thesis using assms(4) disjoint_regionsD by blast
qed

lemma page_offset_inj:
  "i < 2 ^ 32 \<Longrightarrow> j < 2 ^ 32 \<Longrightarrow> (p + of_nat i = p + (of_nat j :: u32)) = (i = j)"
  by (metis add_left_cancel unat_of_nat_u32)

lemma offset_cases: "(x :: u32) = p + of_nat i \<longleftrightarrow> unat (x - p) = i" if "i < 2 ^ 32"
  using that by (metis add.commute diff_add_cancel of_nat_unat_u32 unat_of_nat_u32 add_diff_cancel_left')

text \<open>What the two cell loops leave in memory, byte by byte.\<close>

lemma scroll_cells_apply:
  "n \<le> 2000 \<Longrightarrow> scroll_cells p n m x =
     (if unat (x - p) < 2 * n then (if even (unat (x - p)) then m (x + 160) else ATTRIB) else m x)"
proof (induction n arbitrary: x)
  case (Suc n)
  let ?m = "scroll_cells p n m"
  have step: "scroll_cells p (Suc n) m =
      ?m(p + of_nat (2 * n) := ?m (p + of_nat (2 * (n + 80))), p + of_nat (2 * n + 1) := ATTRIB)"
    by (simp add: scroll_cells_def algebra_simps)
  have src: "?m (p + of_nat (2 * (n + 80))) = m (p + of_nat (2 * n) + 160)"
    using Suc.IH [of "p + of_nat (2 * (n + 80))"] Suc.prems
    by (simp add: unat_of_nat_u32 del: of_nat_mult of_nat_add) (simp add: algebra_simps)
  have xa: "x = p + of_nat (2 * n) \<longleftrightarrow> unat (x - p) = 2 * n"
      "x = p + of_nat (2 * n + 1) \<longleftrightarrow> unat (x - p) = 2 * n + 1"
    using Suc.prems by (intro offset_cases; simp)+
  show ?case
    using Suc.IH [of x] Suc.prems xa
    by (simp only: step src fun_upd_apply) (auto simp: less_Suc_eq)
qed (simp add: scroll_cells_def)

lemma blank_cells_apply:
  "hi \<le> 2000 \<Longrightarrow> lo \<le> hi \<Longrightarrow> blank_cells p lo hi m x =
     (if 2 * lo \<le> unat (x - p) \<and> unat (x - p) < 2 * hi
      then (if even (unat (x - p)) then 0x20 else ATTRIB) else m x)"
proof (induction hi arbitrary: x)
  case (Suc n)
  show ?case
  proof (cases "lo = Suc n")
    case True
    then show ?thesis by (auto simp: blank_cells_def)
  next
    case False
    let ?m = "blank_cells p lo n m"
    from False Suc.prems have lo: "lo \<le> n" by simp
    then have step: "blank_cells p lo (Suc n) m =
        ?m(p + of_nat (2 * n) := 0x20, p + of_nat (2 * n + 1) := ATTRIB)"
      by (simp add: blank_cells_def algebra_simps)
    have xa: "x = p + of_nat (2 * n) \<longleftrightarrow> unat (x - p) = 2 * n"
        "x = p + of_nat (2 * n + 1) \<longleftrightarrow> unat (x - p) = 2 * n + 1"
      using Suc.prems by (intro offset_cases; simp)+
    show ?thesis
      using Suc.IH [of x] Suc.prems lo xa
      by (simp only: step fun_upd_apply) (auto simp: less_Suc_eq)
  qed
qed (simp add: blank_cells_def)

section \<open>Field rules\<close>

lemma set_xy_simps [simp]:
  "memory (set_x t v s) = memory s" "screen_x (set_x t v s) = (screen_x s)(t := v)"
  "screen_y (set_x t v s) = screen_y s" "curr_term (set_x t v s) = curr_term s"
  "memory (set_y t v s) = memory s" "screen_x (set_y t v s) = screen_x s"
  "screen_y (set_y t v s) = (screen_y s)(t := v)" "curr_term (set_y t v s) = curr_term s"
  by (simp_all add: set_x_def set_y_def)

lemma update_cursor_simps [simp]:
  "memory (update_cursor s) = memory s" "screen_x (update_cursor s) = screen_x s"
  "screen_y (update_cursor s) = screen_y s" "curr_term (update_cursor s) = curr_term s"
  by (simp_all add: update_cursor_def Let_def outb_def)

lemma vert_scroll_simps [simp]:
  "screen_x (vert_scroll t s) = screen_x s" "screen_y (vert_scroll t s) = screen_y s"
  "curr_term (vert_scroll t s) = curr_term s"
  by (simp_all add: vert_scroll_def Let_def)

lemma put_cell_simps [simp]:
  "screen_x (put_cell c t s) = screen_x s" "screen_y (put_cell c t s) = screen_y s"
  "curr_term (put_cell c t s) = curr_term s"
  by (simp_all add: put_cell_def Let_def)

lemma putc_curr_term [simp]: "curr_term (putc c t s) = curr_term s"
  by (simp add: putc_def Let_def)

lemmas console_defs = putc_def putcforcenoscroll_def backspace_helper_def put_cell_def vert_scroll_def
  update_cursor_def set_x_def set_y_def clear_def reset_def update_vidmem_def update_curr_term_def
  outb_def Let_def

section \<open>The cursor stays on the screen and writing stays on the page\<close>

definition cursor_ok :: "u32 \<Rightarrow> 'a console_scheme \<Rightarrow> bool" where
  "cursor_ok t s \<longleftrightarrow> 0 \<le> screen_x s t \<and> screen_x s t < NUM_COLS \<and> 0 \<le> screen_y s t \<and> screen_y s t < NUM_ROWS"

text \<open>The arithmetic of one step to the right.\<close>

lemma advance_arith:
  fixes x y :: int
  assumes "0 \<le> x" "x < 80" "0 \<le> y" "y < 25"
  shows "(x + 1) sdiv 80 = (if x = 79 then 1 else 0)" "(x + 1) smod 80 = (if x = 79 then 0 else x + 1)"
    and "(y + (if x = 79 then 1 else 0)) smod 25 = (if x = 79 \<and> y = 24 then 0 else y + (if x = 79 then 1 else 0))"
  using assms by (auto simp: sdiv_nonneg smod_nonneg)

lemma putc_cursor:
  assumes "cursor_ok t s"
  shows "screen_x (putc c t s) t =
      (if c = 0x0A \<or> c = 0x0D then 0 else if c = 0 then screen_x s t
       else if screen_x s t = 79 then 0 else screen_x s t + 1)"
    and "screen_y (putc c t s) t =
      (if c = 0x0A \<or> c = 0x0D \<or> c \<noteq> 0 \<and> screen_x s t = 79 then min 24 (screen_y s t + 1) else screen_y s t)"
  using assms advance_arith [of "screen_x s t" "screen_y s t"]
  by (auto simp: putc_def Let_def cursor_ok_def NUM_COLS_def NUM_ROWS_def)

lemma putc_cursor_ok: "cursor_ok t s \<Longrightarrow> cursor_ok t (putc c t s)"
  using putc_cursor [of t s c] by (auto simp: cursor_ok_def NUM_COLS_def NUM_ROWS_def)

lemma putc_other_cursor:
  "u \<noteq> t \<Longrightarrow> screen_x (putc c t s) u = screen_x s u \<and> screen_y (putc c t s) u = screen_y s u"
  by (auto simp: putc_def Let_def)

lemma cell_address:
  assumes "cursor_ok t s"
  shows "word_of_int (2 * (NUM_COLS * screen_y s t + screen_x s t)) =
           (of_nat (2 * (80 * nat (screen_y s t) + nat (screen_x s t))) :: u32)"
    and "80 * nat (screen_y s t) + nat (screen_x s t) < 2000"
proof -
  have "2 * (NUM_COLS * screen_y s t + screen_x s t) =
      int (2 * (80 * nat (screen_y s t) + nat (screen_x s t)))"
    using assms by (simp add: cursor_ok_def NUM_COLS_def)
  then show "word_of_int (2 * (NUM_COLS * screen_y s t + screen_x s t)) =
      (of_nat (2 * (80 * nat (screen_y s t) + nat (screen_x s t))) :: u32)"
    by (metis of_int_of_nat_eq)
  show "80 * nat (screen_y s t) + nat (screen_x s t) < 2000"
    using assms by (auto simp: cursor_ok_def NUM_COLS_def NUM_ROWS_def)
qed

lemma put_cell_apply:
  assumes "cursor_ok t s"
  defines "k \<equiv> 2 * (80 * nat (screen_y s t) + nat (screen_x s t))"
  shows "memory (put_cell c t s) x =
    (if unat (x - page t) = k then c else if unat (x - page t) = k + 1 then ATTRIB else memory s x)"
proof -
  have "k < 4000" using cell_address(2) [OF assms(1)] by (simp add: k_def)
  then have "x = page t + of_nat k \<longleftrightarrow> unat (x - page t) = k"
      "x = page t + of_nat (k + 1) \<longleftrightarrow> unat (x - page t) = k + 1"
    by (intro offset_cases; simp)+
  moreover have "memory (put_cell c t s) =
      (memory s)(page t + of_nat k := c, page t + of_nat (k + 1) := ATTRIB)"
    by (simp only: put_cell_def Let_def page_def_fold cell_address(1) [OF assms(1)] flip: k_def) (simp add: algebra_simps)
  ultimately show ?thesis by (simp only: fun_upd_apply) auto
qed

lemma vert_scroll_apply:
  "memory (vert_scroll t s) x =
     (if unat (x - page t) < 4000
      then (if odd (unat (x - page t)) then ATTRIB
            else if unat (x - page t) < 3840 then memory s (x + 160) else 0x20)
      else memory s x)"
  by (simp add: vert_scroll_def Let_def page_def_fold NUM_CELLS_def blank_cells_apply scroll_cells_apply)

text \<open>The three stages of \<open>putc\<close>: nothing, a new line, or a cell followed by a possible new line.\<close>

lemma memory_putc:
  assumes "cursor_ok t s"
  shows "memory (putc c t s) =
    (if c = 0x0A \<or> c = 0x0D then (if screen_y s t = 24 then memory (vert_scroll t s) else memory s)
     else if c = 0 then memory s
     else if screen_x s t = 79 \<and> screen_y s t = 24 then memory (vert_scroll t (put_cell c t s))
     else memory (put_cell c t s))"
proof -
  let ?x = "screen_x s t" and ?y = "screen_y s t"
  have xy: "0 \<le> ?x" "?x < 80" "0 \<le> ?y" "?y < 25"
    using assms by (auto simp: cursor_ok_def NUM_COLS_def NUM_ROWS_def)
  have full: "?y + (?x + 1) sdiv 80 = 25 \<longleftrightarrow> ?x = 79 \<and> ?y = 24"
    using advance_arith(1) [OF xy] xy by auto
  have scroll: "memory (vert_scroll t s') = memory (vert_scroll t s'')" if "memory s' = memory s''"
    for s' s'' :: "'a console_scheme"
    using that by (simp add: vert_scroll_def Let_def)
  show ?thesis
    using xy full by (auto simp: putc_def Let_def NUM_COLS_def NUM_ROWS_def intro: scroll)
qed

lemma putc_frame:
  assumes "cursor_ok t s" "\<not> in_region x (page t) 4000"
  shows "memory (putc c t s) x = memory s x"
  using assms(2) cell_address(2) [OF assms(1)]
  by (auto simp: memory_putc [OF assms(1)] vert_scroll_apply put_cell_apply [OF assms(1)] in_region_def)

section \<open>The abstract screen\<close>

record screen =
  cell :: "nat \<Rightarrow> nat \<Rightarrow> u8"
  row :: nat
  col :: nat

definition new_line :: "screen \<Rightarrow> screen" where
  "new_line v =
     (if row v < 24 then v\<lparr>row := row v + 1, col := 0\<rparr>
      else v\<lparr>cell := (\<lambda>r c. if r < 24 \<and> c < 80 then cell v (r + 1) c else if r = 24 \<and> c < 80 then 0x20 else 0), col := 0\<rparr>)"

definition put_char :: "u8 \<Rightarrow> screen \<Rightarrow> screen" where
  "put_char c v =
     (if c = 0x0A \<or> c = 0x0D then new_line v
      else if c = 0 then v
      else let v = v\<lparr>cell := (cell v)(row v := (cell v (row v))(col v := c))\<rparr>
           in if col v = 79 then new_line v else v\<lparr>col := col v + 1\<rparr>)"

definition cell_addr :: "u32 \<Rightarrow> nat \<Rightarrow> nat \<Rightarrow> u32" where
  "cell_addr t r c = page t + of_nat (2 * (80 * r + c))"

definition screen_of :: "u32 \<Rightarrow> 'a console_scheme \<Rightarrow> screen" where
  "screen_of t s = \<lparr>
     cell = (\<lambda>r c. if r < 25 \<and> c < 80 then memory s (cell_addr t r c) else 0),
     row = nat (screen_y s t), col = nat (screen_x s t)\<rparr>"

lemma cell_index_eq:
  assumes "c < 80" "c' < (80 :: nat)"
  shows "80 * r + c = 80 * r' + c' \<longleftrightarrow> r = r' \<and> c = c'"
proof
  assume "80 * r + c = 80 * r' + c'"
  then show "r = r' \<and> c = c'"
    using assms by (metis add.commute div_mult_self4 div_less add_0 mod_mult_self2 mod_less zero_neq_numeral)
qed simp

lemma unat_cell: "r < 25 \<Longrightarrow> c < 80 \<Longrightarrow> unat (cell_addr t r c - page t) = 2 * (80 * r + c)"
  by (simp add: cell_addr_def unat_of_nat_u32 del: of_nat_mult of_nat_add)

lemma cell_addr_below: "cell_addr t r c + 160 = cell_addr t (Suc r) c"
  by (simp add: cell_addr_def algebra_simps)

lemma screen_of_put_cell:
  assumes "cursor_ok t s"
  shows "screen_of t (put_cell c t s) =
    (let v = screen_of t s in v\<lparr>cell := (cell v)(row v := (cell v (row v))(col v := c))\<rparr>)"
proof -
  have xy: "nat (screen_x s t) < 80" "nat (screen_y s t) < 25"
    using assms by (auto simp: cursor_ok_def NUM_COLS_def NUM_ROWS_def)
  have "memory (put_cell c t s) (cell_addr t r k) =
      (if r = nat (screen_y s t) \<and> k = nat (screen_x s t) then c else memory s (cell_addr t r k))"
    if "r < 25" "k < 80" for r k
  proof -
    have "2 * (a :: nat) \<noteq> 2 * b + 1" for a b by presburger
    then show ?thesis
      using cell_index_eq [OF that(2) xy(1)] by (simp only: put_cell_apply [OF assms] unat_cell [OF that] mult_cancel1) auto
  qed
  then show ?thesis
    using xy by (intro screen.equality) (auto simp: screen_of_def Let_def fun_eq_iff)
qed

lemma screen_of_vert_scroll:
  assumes "screen_y s t = 24"
  shows "screen_of t (set_x t 0 (vert_scroll t s)) = new_line (screen_of t s)"
proof -
  have "memory (vert_scroll t s) (cell_addr t r k) =
      (if r < 24 then memory s (cell_addr t (Suc r) k) else 0x20)" if "r < 25" "k < 80" for r k
    using that by (simp add: vert_scroll_apply unat_cell cell_addr_below)
  then show ?thesis
    using assms by (intro screen.equality) (auto simp: screen_of_def new_line_def fun_eq_iff)
qed

lemma screen_of_cong:
  "memory s = memory s' \<Longrightarrow> screen_x s t = screen_x s' t \<Longrightarrow> screen_y s t = screen_y s' t \<Longrightarrow>
   screen_of t s = screen_of t s'"
  by (simp add: screen_of_def cong: if_cong)

lemma screen_of_sel [simp]: "row (screen_of t s) = nat (screen_y s t)" "col (screen_of t s) = nat (screen_x s t)"
  by (simp_all add: screen_of_def)

lemma screen_of_set:
  "screen_of t (set_x t v s) = (screen_of t s)\<lparr>col := nat v\<rparr>"
  "screen_of t (set_y t v s) = (screen_of t s)\<lparr>row := nat v\<rparr>"
  by (simp_all add: screen_of_def cong: if_cong)

lemma screen_of_new_line:
  assumes "0 \<le> screen_y s t" "screen_y s t < 25"
  shows "screen_of t (set_x t 0 (if screen_y s t = 24 then vert_scroll t s else set_y t (screen_y s t + 1) s)) =
    new_line (screen_of t s)"
proof (cases "screen_y s t = 24")
  case False
  with assms have "nat (screen_y s t) < 24" by simp
  then show ?thesis using False assms by (simp add: screen_of_set new_line_def nat_add_distrib)
qed (simp add: screen_of_vert_scroll)

lemma putc_refines:
  assumes ok: "cursor_ok t s"
  shows "screen_of t (putc c t s) = put_char c (screen_of t s)"
proof -
  have xy: "0 \<le> screen_x s t" "screen_x s t < 80" "0 \<le> screen_y s t" "screen_y s t < 25"
    using ok by (auto simp: cursor_ok_def NUM_COLS_def NUM_ROWS_def)
  let ?p = "put_cell c t s" and ?nl = "c = 0x0A \<or> c = 0x0D"
  let ?s' = "if ?nl then set_x t 0 (if screen_y s t = 24 then vert_scroll t s else set_y t (screen_y s t + 1) s)
    else if c = 0 then s
    else if screen_x s t < 79 then set_x t (screen_x s t + 1) ?p
    else set_x t 0 (if screen_y s t = 24 then vert_scroll t ?p else set_y t (screen_y s t + 1) ?p)"
  have "screen_of t (putc c t s) = screen_of t ?s'"
    using xy by (intro screen_of_cong) (auto simp: memory_putc [OF ok] putc_cursor [OF ok])
  also have "\<dots> = put_char c (screen_of t s)"
    using xy screen_of_new_line [of s t] screen_of_new_line [of ?p t]
    by (auto simp: put_char_def screen_of_put_cell [OF ok] Let_def nat_add_distrib screen_of_set(1)
        simp flip: screen_of_new_line)
  finally show ?thesis .
qed

text \<open>Printing a string is printing its characters, as long as the string is not on the page itself.\<close>

fun put_all :: "u8 list \<Rightarrow> u32 \<Rightarrow> 'a console_scheme \<Rightarrow> 'a console_scheme" where
  "put_all [] t s = s"
| "put_all (c # cs) t s = put_all cs t (putc c t s)"

lemma put_all_cursor_ok: "cursor_ok t s \<Longrightarrow> cursor_ok t (put_all cs t s)"
  by (induction cs arbitrary: s) (simp_all add: putc_cursor_ok)

lemma put_all_curr_term [simp]: "curr_term (put_all cs t s) = curr_term s"
  by (induction cs arbitrary: s) simp_all

lemma put_all_refines:
  "cursor_ok t s \<Longrightarrow> screen_of t (put_all cs t s) = fold put_char cs (screen_of t s)"
  by (induction cs arbitrary: s) (simp_all add: putc_refines putc_cursor_ok)

lemma put_all_frame:
  "cursor_ok t s \<Longrightarrow> \<not> in_region x (page t) 4000 \<Longrightarrow> memory (put_all cs t s) x = memory s x"
  by (induction cs arbitrary: s) (simp_all add: putc_frame putc_cursor_ok)

lemma put_all_append: "put_all (xs @ ys) t s = put_all ys t (put_all xs t s)"
  by (induction xs arbitrary: s) simp_all

lemma put_all_snoc: "put_all (xs @ [c]) t s = putc c t (put_all xs t s)"
  by (simp add: put_all_append)

lemma puts_from_cstr:
  assumes str: "cstr_at (memory s) a xs" and ok: "cursor_ok t s"
    and off: "\<And>i. i \<le> length xs \<Longrightarrow> \<not> in_region (a + of_nat i) (page t) 4000"
  shows "i \<le> length xs \<Longrightarrow>
    puts_from a t (of_nat i) (put_all (take i xs) t s) = Some (put_all xs t s, of_nat (length xs))"
proof (induction "length xs - i" arbitrary: i)
  case 0
  then have "i = length xs" by simp
  then show ?case
    using cstr_at_end [OF str] put_all_frame [OF ok off [of "length xs"]]
    by (subst puts_from.simps) simp
next
  case (Suc k)
  then have i: "i < length xs" by simp
  have rd: "memory (put_all (take i xs) t s) (a + of_nat i) = xs ! i" "xs ! i \<noteq> 0"
    using put_all_frame [OF ok off [of i]] i cstr_at_nth [OF str i] cstr_at_nth_nonzero [OF str i]
    by simp_all
  have "puts_from a t (of_nat (Suc i)) (put_all (take (Suc i) xs) t s) = Some (put_all xs t s, of_nat (length xs))"
    using Suc.hyps(2) i by (intro Suc.hyps(1)) auto
  then show ?case
    using rd i by (subst puts_from.simps) (simp add: take_Suc_conv_app_nth put_all_snoc add.commute)
qed

lemma puts_cstr:
  assumes "cstr_at (memory s) a xs" "cursor_ok t s"
    and "\<And>i. i \<le> length xs \<Longrightarrow> \<not> in_region (a + of_nat i) (page t) 4000"
  shows "puts a t s = Some (put_all xs t s, of_nat (length xs))"
  using puts_from_cstr [OF assms, of 0] by (simp add: puts_def)

section \<open>Erasing\<close>

definition back_space :: "screen \<Rightarrow> screen" where
  "back_space v =
     (let (r, c) = (if col v = 0 then (row v - 1, 79) else (row v, col v - 1))
      in v\<lparr>cell := (cell v)(r := (cell v r)(c := 0x20)), row := r, col := c\<rparr>)"

lemma backspace_wrap:
  assumes "screen_x s t = 0"
  shows "memory (backspace_helper t s) = memory (put_cell 0x20 t (set_y t (screen_y s t - 1) (set_x t 79 s)))"
    and "screen_x (backspace_helper t s) t = 79" "screen_y (backspace_helper t s) t = screen_y s t - 1"
  using assms by (simp_all add: backspace_helper_def putcforcenoscroll_def Let_def NUM_COLS_def NUM_ROWS_def)

lemma backspace_left:
  assumes "cursor_ok t s" "screen_x s t \<noteq> 0"
  shows "memory (backspace_helper t s) = memory (put_cell 0x20 t (set_x t (screen_x s t - 1) s))"
    and "screen_x (backspace_helper t s) t = screen_x s t - 1" "screen_y (backspace_helper t s) t = screen_y s t"
proof -
  let ?s = "set_x t (screen_x s t - 1) s"
  have ok: "cursor_ok t ?s" using assms by (auto simp: cursor_ok_def)
  have "screen_x ?s t < 79" using assms(1) by (simp add: cursor_ok_def NUM_COLS_def)
  then show "memory (backspace_helper t s) = memory (put_cell 0x20 t ?s)"
      "screen_x (backspace_helper t s) t = screen_x s t - 1" "screen_y (backspace_helper t s) t = screen_y s t"
    using assms(2) by (simp_all add: backspace_helper_def Let_def memory_putc [OF ok] putc_cursor [OF ok])
qed

lemma backspace_refines:
  assumes ok: "cursor_ok t s" and pos: "screen_x s t \<noteq> 0 \<or> screen_y s t \<noteq> 0"
  shows "screen_of t (backspace_helper t s) = back_space (screen_of t s)"
proof (cases "screen_x s t = 0")
  case True
  let ?s = "set_y t (screen_y s t - 1) (set_x t 79 s)"
  have ok': "cursor_ok t ?s" using ok pos True by (auto simp: cursor_ok_def NUM_COLS_def NUM_ROWS_def)
  have "screen_of t (backspace_helper t s) = screen_of t (put_cell 0x20 t ?s)"
    using True by (intro screen_of_cong) (simp_all add: backspace_wrap)
  moreover have "nat (screen_y s t - 1) = nat (screen_y s t) - 1" by arith
  ultimately show ?thesis
    using True by (simp add: screen_of_put_cell [OF ok'] screen_of_set back_space_def Let_def)
next
  case False
  let ?s = "set_x t (screen_x s t - 1) s"
  have ok': "cursor_ok t ?s" using ok False by (auto simp: cursor_ok_def)
  have "nat (screen_x s t) \<noteq> 0" using ok False by (auto simp: cursor_ok_def)
  moreover have "screen_of t (backspace_helper t s) = screen_of t (put_cell 0x20 t ?s)"
    using False by (intro screen_of_cong) (simp_all add: backspace_left [OF ok])
  moreover have "nat (screen_x s t - 1) = nat (screen_x s t) - 1" by arith
  ultimately show ?thesis
    using False by (simp add: screen_of_put_cell [OF ok'] screen_of_set back_space_def Let_def)
qed

lemma backspace_cursor_ok:
  assumes "cursor_ok t s" "screen_x s t \<noteq> 0 \<or> screen_y s t \<noteq> 0"
  shows "cursor_ok t (backspace_helper t s)"
proof (cases "screen_x s t = 0")
  case True
  then show ?thesis using assms by (auto simp: cursor_ok_def backspace_wrap NUM_COLS_def NUM_ROWS_def)
next
  case False
  then show ?thesis using assms(1) by (auto simp: cursor_ok_def backspace_left [OF assms(1)])
qed

text \<open>With the cursor in the top left corner the helper steps off the page.\<close>

lemma backspace_origin:
  assumes "screen_x s t = 0" "screen_y s t = 0"
  shows "screen_y (backspace_helper t s) t = -1" "memory (backspace_helper t s) (page t - 2) = 0x20"
proof -
  show "screen_y (backspace_helper t s) t = -1" using assms by (simp add: backspace_wrap)
  have "word_of_int (2 * (NUM_COLS * -1 + 79)) = (-2 :: u32)" by (simp add: NUM_COLS_def)
  then show "memory (backspace_helper t s) (page t - 2) = 0x20"
    using assms by (simp add: backspace_wrap put_cell_def Let_def page_def_fold)
qed

section \<open>Number formatting\<close>

lemma screen_of_off_page:
  assumes "disjoint_regions a n (page t) 4000" "length xs \<le> n" "n \<le> 2 ^ 32"
  shows "screen_of t (s\<lparr>memory := write_bytes (memory s) a xs\<rparr>) = screen_of t s"
proof -
  have "write_bytes (memory s) a xs (cell_addr t r c) = memory s (cell_addr t r c)" if "r < 25" "c < 80" for r c
    using write_bytes_disjoint_read [OF assms, of "2 * (80 * r + c)"] that by (simp add: cell_addr_def)
  then show ?thesis by (auto simp: screen_of_def fun_eq_iff)
qed

lemma cstr_at_written:
  "0 \<notin> set xs \<Longrightarrow> length xs < 2 ^ 32 \<Longrightarrow> cstr_at (write_bytes m a (xs @ [0])) a xs"
  by (rule cstr_atI) (simp_all add: write_bytes_apply in_region_offset in_region_def unat_of_nat_u32 nth_append)

lemma cursor_ok_memory [simp]: "cursor_ok t (s\<lparr>memory := m\<rparr>) = cursor_ok t s"
  by (simp add: cursor_ok_def)

lemma puts_written:
  assumes ok: "cursor_ok t s" and nz: "0 \<notin> set xs" and len: "length xs < n" "n \<le> 64"
    and dis: "disjoint_regions a n (page t) 4000"
  shows "puts a t (s\<lparr>memory := write_bytes (memory s) a (xs @ [0])\<rparr>) =
      Some (put_all xs t (s\<lparr>memory := write_bytes (memory s) a (xs @ [0])\<rparr>), of_nat (length xs))"
proof (rule puts_cstr)
  show "cstr_at (memory (s\<lparr>memory := write_bytes (memory s) a (xs @ [0])\<rparr>)) a xs"
    using nz len by (simp add: cstr_at_written)
  show "\<not> in_region (a + of_nat i) (page t) 4000" if "i \<le> length xs" for i
    using disjoint_regionsD [OF dis] in_region_offset [of i n a] that len by force
qed (simp add: ok)

lemma print_unsigned_shows:
  assumes ok: "cursor_ok (curr_term s) s" and dis: "disjoint_regions conv 36 (page (curr_term s)) 4000"
  shows "\<exists>s'. print_unsigned conv w s = Some s' \<and>
    screen_of (curr_term s) s' = fold put_char (numeral_string 10 (unat w)) (screen_of (curr_term s) s)"
proof -
  let ?t = "curr_term s" and ?xs = "numeral_string 10 (unat w)"
  let ?s = "s\<lparr>memory := write_bytes (memory s) conv (?xs @ [0])\<rparr>"
  have len: "length ?xs \<le> 32" using unat_lt_u32 by (intro length_numeral_string) auto
  have "puts conv ?t ?s = Some (put_all ?xs ?t ?s, of_nat (length ?xs))"
    using len numeral_string_nonzero [of 10 "unat w"] by (intro puts_written [OF ok _ _ _ dis]) auto
  moreover have "itoa (memory s) w conv 10 = Some (write_bytes (memory s) conv (?xs @ [0]))"
    using itoa_eq [of 10 "memory s" w conv] by simp
  ultimately have "print_unsigned conv w s = Some (put_all ?xs ?t ?s)"
    by (simp add: print_unsigned_def)
  moreover have "screen_of ?t ?s = screen_of ?t s"
    using len by (intro screen_of_off_page [OF dis]) simp_all
  ultimately show ?thesis using put_all_refines [of ?t ?s ?xs] ok by simp
qed

section \<open>Main properties\<close>

text \<open>A concrete console: a blank memory, the first terminal on display.\<close>

definition demo_console :: "mem \<Rightarrow> int \<Rightarrow> int \<Rightarrow> console" where
  "demo_console m x y = \<lparr>memory = m, io_log = [], int_flag = True, device = (\<lambda>_ _. 0), master_mask = 0xFF, slave_mask = 0xFF,
     screen_x = (\<lambda>_. x), screen_y = (\<lambda>_. y), curr_term = 0\<rparr>"

text \<open>
  C13: \<open>putc\<close> refines the abstract screen. With the cursor on the 25 by 80 screen, printing any
  character on a terminal changes the cells and the cursor of its page exactly as on a matrix
  of characters: a newline or carriage return starts a line, a NUL does nothing, any other
  character is stored and advances, and past the last row the screen scrolls by one. The
  cursor stays on the screen, and no byte outside the terminal's page changes.
\<close>
theorem putc_refines_screen:
  assumes "cursor_ok t s"
  shows "screen_of t (putc c t s) = put_char c (screen_of t s) \<and> cursor_ok t (putc c t s) \<and>
    (\<forall>x. \<not> in_region x (page t) 4000 \<longrightarrow> memory (putc c t s) x = memory s x)"
  using putc_refines [OF assms] putc_cursor_ok [OF assms] putc_frame [OF assms] by blast

theorem putc_refines_screen_witness:
  "screen_of 0 (putc 0x41 0 (demo_console (\<lambda>_. 0) 79 24)) = put_char 0x41 (screen_of 0 (demo_console (\<lambda>_. 0) 79 24))"
  using putc_refines_screen [of 0 "demo_console (\<lambda>_. 0) 79 24" "0x41"]
  by (simp add: cursor_ok_def demo_console_def console_consts)

text \<open>
  \<open>puts\<close> of a C string outside the terminal's own page returns, reports the length of the
  string, and leaves the screen as printing its characters one after the other does.
\<close>
theorem puts_shows_string:
  assumes "cstr_at (memory s) a xs" "cursor_ok t s" "disjoint_regions a (Suc (length xs)) (page t) 4000"
  shows "\<exists>s'. puts a t s = Some (s', of_nat (length xs)) \<and> screen_of t s' = fold put_char xs (screen_of t s) \<and> cursor_ok t s'"
proof -
  have "\<not> in_region (a + of_nat i) (page t) 4000" if "i \<le> length xs" for i
    using disjoint_regionsD [OF assms(3) in_region_offset [of i]] that cstr_at_length [OF assms(1)] by auto
  then show ?thesis using puts_cstr [OF assms(1,2)] put_all_refines [OF assms(2)] put_all_cursor_ok [OF assms(2)] by auto
qed

theorem puts_shows_string_witness:
  "\<exists>s'. puts 0x1000 0 (demo_console (mem_of [(0x1000, [0x68, 0x69])]) 0 0) = Some (s', 2) \<and>
     screen_of 0 s' = fold put_char [0x68, 0x69] (screen_of 0 (demo_console (mem_of [(0x1000, [0x68, 0x69])]) 0 0)) \<and> cursor_ok 0 s'"
proof -
  let ?s = "demo_console (mem_of [(0x1000, [0x68, 0x69])]) 0 0"
  have "cstr_at (memory ?s) 0x1000 [0x68, 0x69]"
    by (simp add: demo_console_def cstr_at_def read_bytes_def mem_of_def)
  moreover have "cursor_ok 0 ?s" by (simp add: cursor_ok_def demo_console_def console_consts)
  moreover have "disjoint_regions 0x1000 (Suc (length [0x68, 0x69 :: u8])) (page 0) 4000" by (simp add: disjoint_regions_def)
  ultimately show ?thesis using puts_shows_string [of ?s "0x1000" "[0x68, 0x69]" 0] by simp
qed

text \<open>
  \<open>printf\<close>'s \<open>%u\<close>. For every 32-bit value the conversion returns, and what appears on the
  displayed terminal is a string of decimal digits that reads back as the value.
\<close>
theorem print_unsigned_digits:
  assumes "cursor_ok (curr_term s) s" "disjoint_regions conv 36 (page (curr_term s)) 4000"
  shows "\<exists>s' xs. print_unsigned conv w s = Some s' \<and> parse_numeral 10 xs = unat w \<and>
    screen_of (curr_term s) s' = fold put_char xs (screen_of (curr_term s) s)"
  using print_unsigned_shows [OF assms, of w] parse_numeral_string [of 10 "unat w"] by auto

theorem print_unsigned_digits_witness:
  "\<exists>s' xs. print_unsigned 0x1000 391 (demo_console (\<lambda>_. 0) 3 4) = Some s' \<and> parse_numeral 10 xs = 391 \<and>
    screen_of 0 s' = fold put_char xs (screen_of 0 (demo_console (\<lambda>_. 0) 3 4))"
  using print_unsigned_digits [of "demo_console (\<lambda>_. 0) 3 4" "0x1000" 391]
  by (simp add: cursor_ok_def demo_console_def console_consts disjoint_regions_def)

text \<open>
  \<open>backspace_helper\<close>. Anywhere but in the top left corner it blanks the cell before the
  cursor, in the line above when the cursor is in the first column, and leaves the cursor
  there; the cursor stays on the screen.
\<close>
theorem backspace_erases:
  assumes "cursor_ok t s" "screen_x s t \<noteq> 0 \<or> screen_y s t \<noteq> 0"
  shows "screen_of t (backspace_helper t s) = back_space (screen_of t s) \<and> cursor_ok t (backspace_helper t s)"
  using backspace_refines [OF assms] backspace_cursor_ok [OF assms] by blast

theorem backspace_erases_witness:
  "screen_of 0 (backspace_helper 0 (demo_console (\<lambda>_. 0) 0 7)) = back_space (screen_of 0 (demo_console (\<lambda>_. 0) 0 7))"
  using backspace_erases [of 0 "demo_console (\<lambda>_. 0) 0 7"]
  by (simp add: cursor_ok_def demo_console_def console_consts)

text \<open>
  In the top left corner \<open>backspace_helper\<close> leaves the screen: the row becomes -1 and a
  blank is written two bytes before the terminal's page.
\<close>
theorem backspace_leaves_screen:
  assumes "screen_x s t = 0" "screen_y s t = 0"
  shows "screen_y (backspace_helper t s) t = -1 \<and> memory (backspace_helper t s) (page t - 2) = 0x20"
  using backspace_origin [OF assms] by blast

theorem backspace_leaves_screen_witness:
  "screen_y (backspace_helper 0 (demo_console (\<lambda>_. 0) 0 0)) 0 = -1 \<and>
   memory (backspace_helper 0 (demo_console (\<lambda>_. 0) 0 0)) 0xB8FFE = 0x20"
  using backspace_leaves_screen [of "demo_console (\<lambda>_. 0) 0 0" 0] by (simp add: demo_console_def)

end
