(* ===== verification/Paging.thy ===== *)
theory Paging
  imports Console
begin

text \<open>
  The page tables of \<open>paging.c\<close>. The three tables are functions from an index to an entry;
  the addresses the linker gives them (\<open>pd\<close>, \<open>vpt\<close>, \<open>uvpt\<close>: \<open>page_directory\<close>,
  \<open>vid_page_table\<close>, \<open>user_vid_page_table\<close>) are parameters. What the processor makes of the
  tables is the page walk \<open>translate\<close> below, the specification the operations are checked
  against.

  The flat memory of the other theories is the address space as the processor sees it. The
  only part of it whose frame ever changes is the 4 MB user page at 128 MB: \<open>user_window\<close> is
  the physical frame it shows (\<^const>\<open>None\<close> while the entry is not present) and \<open>frames\<close> keeps
  the contents of the frames that are not shown. Loading \<open>cr3\<close>, which empties the
  translation cache, is the point at which a new directory entry takes effect.
\<close>

definition TABLE_SIZE :: nat where "TABLE_SIZE = 0x400"
definition PAGE_SIZE :: u32 where "PAGE_SIZE = 0x1000"
definition VIDEO_LOC :: u32 where "VIDEO_LOC = 0xB8000"
definition KERNEL_LOC :: u32 where "KERNEL_LOC = 0x400000"
definition PDE_P :: u32 where "PDE_P = 0x1"
definition PDE_RW :: u32 where "PDE_RW = 0x2"
definition PDE_US :: u32 where "PDE_US = 0x4"
definition PDE_PS :: u32 where "PDE_PS = 0x80"
definition PDE_4MP_PBA_OFFSET :: nat where "PDE_4MP_PBA_OFFSET = 22"
definition PTE_P :: u32 where "PTE_P = 0x1"
definition PTE_RW :: u32 where "PTE_RW = 0x2"
definition PTE_US :: u32 where "PTE_US = 0x4"
definition PTE_PBA_OFFSET :: nat where "PTE_PBA_OFFSET = 12"
definition DEFAULT_PTE :: u32 where "DEFAULT_PTE = PTE_RW OR PTE_P"
definition PROCESS_LOC :: "u32 \<Rightarrow> u32" where "PROCESS_LOC n = (n + 2) * PAGE_SIZE * of_nat TABLE_SIZE"
definition TERM_VIDEO_LOC :: "u32 \<Rightarrow> u32" where "TERM_VIDEO_LOC n = (n + 1) * PAGE_SIZE + VIDEO_LOC"
definition USER_PROCESS_INDEX :: u32 where "USER_PROCESS_INDEX = 32"
definition USER_VID_PT_INDEX :: u32 where "USER_VID_PT_INDEX = 33"

lemmas paging_consts = TABLE_SIZE_def PAGE_SIZE_def VIDEO_LOC_def KERNEL_LOC_def PDE_P_def PDE_RW_def
  PDE_US_def PDE_PS_def PDE_4MP_PBA_OFFSET_def PTE_P_def PTE_RW_def PTE_US_def PTE_PBA_OFFSET_def
  DEFAULT_PTE_def PROCESS_LOC_def TERM_VIDEO_LOC_def USER_PROCESS_INDEX_def USER_VID_PT_INDEX_def

record paging = console +
  page_directory :: "u32 \<Rightarrow> u32"
  vid_page_table :: "u32 \<Rightarrow> u32"
  user_vid_page_table :: "u32 \<Rightarrow> u32"
  cr0 :: u32
  cr3 :: u32
  cr4 :: u32
  user_window :: "u32 option"
  frames :: "u32 \<Rightarrow> mem"

section \<open>The user page\<close>

definition USER_PAGE :: u32 where "USER_PAGE = 0x08000000"

definition in_user_page :: "u32 \<Rightarrow> bool" where
  "in_user_page a \<longleftrightarrow> in_region a USER_PAGE 0x400000"

definition user_frame_base :: "u32 \<Rightarrow> u32 option" where
  "user_frame_base pde = (if pde AND PDE_P \<noteq> 0 \<and> pde AND PDE_PS \<noteq> 0 then Some (pde AND 0xFFC00000) else None)"

definition park_frames :: "'a paging_scheme \<Rightarrow> u32 \<Rightarrow> mem" where
  "park_frames s = (case user_window s of None \<Rightarrow> frames s | Some b \<Rightarrow> (frames s)(b := memory s))"

definition load_cr3 :: "u32 \<Rightarrow> 'a paging_scheme \<Rightarrow> 'a paging_scheme" where
  "load_cr3 v s =
     (let w = user_frame_base (page_directory s USER_PROCESS_INDEX); fs = park_frames s
      in s\<lparr>cr3 := v, frames := fs, user_window := w,
           memory := (case w of None \<Rightarrow> memory s
                      | Some b \<Rightarrow> (\<lambda>a. if in_user_page a then fs b a else memory s a))\<rparr>)"

section \<open>The operations of \<open>paging.c\<close>\<close>

definition flush_tlb :: "'a paging_scheme \<Rightarrow> 'a paging_scheme" where
  "flush_tlb s = load_cr3 (cr3 s) s"

definition init_vid_entry :: "u32 \<Rightarrow> u32" where
  "init_vid_entry i = (if i \<noteq> 0 then push_bit PTE_PBA_OFFSET i OR DEFAULT_PTE else DEFAULT_PTE XOR PTE_P)"

definition init_directory_entry :: "u32 \<Rightarrow> u32" where
  "init_directory_entry i = push_bit PDE_4MP_PBA_OFFSET i OR PDE_PS OR PDE_RW"

definition init_paging :: "u32 \<Rightarrow> u32 \<Rightarrow> u32 \<Rightarrow> 'a paging_scheme \<Rightarrow> 'a paging_scheme" where
  "init_paging pd vpt uvpt s =
     (let s = s\<lparr>vid_page_table := fold (\<lambda>i t. t(of_nat i := init_vid_entry (of_nat i))) [0..<TABLE_SIZE] (vid_page_table s)\<rparr>;
          s = s\<lparr>user_vid_page_table := (user_vid_page_table s)(0 := VIDEO_LOC OR PTE_US OR DEFAULT_PTE)\<rparr>;
          s = s\<lparr>page_directory := (page_directory s)(0 := vpt OR PDE_RW OR PDE_P)\<rparr>;
          s = s\<lparr>page_directory := (page_directory s)(1 := KERNEL_LOC OR PDE_PS OR DEFAULT_PTE)\<rparr>;
          s = s\<lparr>page_directory := fold (\<lambda>i t. t(of_nat i := init_directory_entry (of_nat i))) [2..<TABLE_SIZE] (page_directory s)\<rparr>;
          s = s\<lparr>page_directory := (page_directory s)(USER_VID_PT_INDEX := uvpt OR PDE_US OR PDE_RW OR PDE_P)\<rparr>;
          s = load_cr3 pd s;
          s = s\<lparr>cr4 := cr4 s OR 0x10\<rparr>
      in s\<lparr>cr0 := cr0 s OR 0x80000000\<rparr>)"

definition change_process :: "int \<Rightarrow> 'a paging_scheme \<Rightarrow> 'a paging_scheme" where
  "change_process pid s =
     flush_tlb (s\<lparr>page_directory := (page_directory s)
       (USER_PROCESS_INDEX := PROCESS_LOC (word_of_int pid) OR PDE_PS OR PDE_US OR PDE_RW OR PDE_P)\<rparr>)"

definition change_vidmap :: "int \<Rightarrow> 'a paging_scheme \<Rightarrow> 'a paging_scheme" where
  "change_vidmap terminal s =
     s\<lparr>vid_page_table := (vid_page_table s)(VIDEO_LOC div PAGE_SIZE := TERM_VIDEO_LOC (word_of_int terminal) OR DEFAULT_PTE)\<rparr>"

section \<open>What the processor makes of the tables\<close>

text \<open>
  \<open>translate vpt uvpt user s va\<close>: the physical address of \<open>va\<close> in a kernel or user access, or
  \<^const>\<open>None\<close> for a page fault. A directory entry that is not a 4 MB page names a table by its
  address.
\<close>

definition table_at :: "u32 \<Rightarrow> u32 \<Rightarrow> 'a paging_scheme \<Rightarrow> u32 \<Rightarrow> (u32 \<Rightarrow> u32) option" where
  "table_at vpt uvpt s a =
     (if a = vpt then Some (vid_page_table s) else if a = uvpt then Some (user_vid_page_table s) else None)"

definition allowed :: "bool \<Rightarrow> u32 \<Rightarrow> bool" where
  "allowed user e \<longleftrightarrow> bit e 0 \<and> (user \<longrightarrow> bit e 2)"

definition translate :: "u32 \<Rightarrow> u32 \<Rightarrow> bool \<Rightarrow> 'a paging_scheme \<Rightarrow> u32 \<Rightarrow> u32 option" where
  "translate vpt uvpt user s va =
     (let pde = page_directory s (drop_bit 22 va)
      in if \<not> allowed user pde then None
         else if bit pde 7 then Some (pde AND 0xFFC00000 OR va AND 0x3FFFFF)
         else do {
           t \<leftarrow> table_at vpt uvpt s (pde AND 0xFFFFF000);
           let pte = t (drop_bit 12 va AND 0x3FF);
           if allowed user pte then Some (pte AND 0xFFFFF000 OR va AND 0xFFF) else None
         })"

section \<open>Entries\<close>

lemma hi10: "(0xFFC00000 :: u32) = push_bit 22 (mask 10)"
  by (simp add: mask_eq_exp_minus_1)

lemma lo22: "(0x3FFFFF :: u32) = mask 22"
  by (simp add: mask_eq_exp_minus_1)

lemma hi20: "(0xFFFFF000 :: u32) = push_bit 12 (mask 20)"
  by (simp add: mask_eq_exp_minus_1)

lemma lo12: "(0xFFF :: u32) = mask 12"
  by (simp add: mask_eq_exp_minus_1)

lemma lo10: "(0x3FF :: u32) = mask 10"
  by (simp add: mask_eq_exp_minus_1)

lemmas masks = hi10 lo22 hi20 lo12 lo10

lemma bit_take_bit_self: "take_bit k f = f \<Longrightarrow> bit f n \<Longrightarrow> n < k" for f :: u32
  by (metis bit_take_bit_iff)

lemma large_base: "take_bit 22 f = f \<Longrightarrow> (push_bit 22 i OR f) AND 0xFFC00000 = push_bit 22 i" for i f :: u32
  unfolding masks by (rule bit_word_eqI) (auto simp: bit_simps dest: bit_take_bit_self)

lemma small_base:
  fixes b f :: u32
  assumes "b AND 0xFFF = 0" "take_bit 12 f = f"
  shows "(b OR f) AND 0xFFFFF000 = b"
proof (rule bit_word_eqI)
  fix n
  assume n: "n < LENGTH(32)"
  have "bit b n \<Longrightarrow> 12 \<le> n"
    using arg_cong [OF assms(1), of "\<lambda>w. bit w n"] n by (auto simp: masks bit_simps)
  then show "bit ((b OR f) AND 0xFFFFF000) n = bit b n"
    using n assms(2) by (auto simp: masks bit_simps dest: bit_take_bit_self)
qed

lemma aligned_push_bit: "push_bit 12 i AND 0xFFF = (0 :: u32)"
  unfolding masks by (rule bit_word_eqI) (auto simp: bit_simps)

lemma rejoin_large: "push_bit 22 (drop_bit 22 va) OR va AND 0x3FFFFF = va" for va :: u32
  unfolding masks by (rule bit_word_eqI) (auto simp: bit_simps)

lemma rejoin_small: "drop_bit 22 va = 0 \<Longrightarrow> push_bit 12 (drop_bit 12 va AND 0x3FF) OR va AND 0xFFF = va" for va :: u32
proof (rule bit_word_eqI)
  fix n
  assume z: "drop_bit 22 va = 0" and n: "n < LENGTH(32)"
  have "bit va n \<Longrightarrow> n < 22"
    using arg_cong [OF z, of "\<lambda>w. bit w (n - 22)"] by (cases "22 \<le> n") (auto simp: bit_simps)
  then show "bit (push_bit 12 (drop_bit 12 va AND 0x3FF) OR va AND 0xFFF) n = bit va n"
    using n unfolding masks by (auto simp: bit_simps)
qed

lemma unat_drop_22: "unat (drop_bit 22 va :: u32) = unat va div 0x400000"
  by (simp add: drop_bit_eq_div unat_div)

lemma unat_drop_12: "unat (drop_bit 12 va :: u32) = unat va div 0x1000"
  by (simp add: drop_bit_eq_div unat_div)

lemma drop_22_eq: "drop_bit 22 va = k \<longleftrightarrow> unat va div 0x400000 = unat k" for va k :: u32
  by (metis unat_drop_22 word_unat_eq_iff)

lemma drop_22_less: "unat (drop_bit 22 va :: u32) < 1024"
  using unat_lt_u32 [of va] by (simp add: unat_drop_22 less_mult_imp_div_less)

lemma fold_entries:
  "n \<le> 1024 \<Longrightarrow> fold (\<lambda>i t. t(of_nat i := e (of_nat i))) [k..<n] f i =
     (if k \<le> unat i \<and> unat i < n then e i else f i)" for i :: u32
proof (induction n)
  case 0
  then show ?case by simp
next
  case (Suc n)
  have "i = of_nat n \<longleftrightarrow> unat i = n"
    using Suc.prems by (auto simp: unat_of_nat_u32)
  with Suc show ?case by (cases "k \<le> n") (auto simp: unat_of_nat_u32)
qed

lemma fold_table:
  "fold (\<lambda>i t. t(of_nat i := e (of_nat i))) [k..<TABLE_SIZE] f i =
     (if k \<le> unat i \<and> unat i < 1024 then e i else f i)" for i :: u32
  unfolding TABLE_SIZE_def by (rule fold_entries) simp

section \<open>The tables after initialisation\<close>

lemma load_cr3_tables [simp]:
  "page_directory (load_cr3 v s) = page_directory s" "vid_page_table (load_cr3 v s) = vid_page_table s"
  "user_vid_page_table (load_cr3 v s) = user_vid_page_table s"
  by (simp_all add: load_cr3_def Let_def)

lemma flush_tlb_tables [simp]:
  "page_directory (flush_tlb s) = page_directory s" "vid_page_table (flush_tlb s) = vid_page_table s"
  "user_vid_page_table (flush_tlb s) = user_vid_page_table s"
  by (simp_all add: flush_tlb_def)

lemma init_vid_page_table:
  "vid_page_table (init_paging pd vpt uvpt s) i = (if unat i < 1024 then init_vid_entry i else vid_page_table s i)"
  by (simp add: init_paging_def Let_def fold_table)

lemma init_user_table:
  "user_vid_page_table (init_paging pd vpt uvpt s) = (user_vid_page_table s)(0 := 0xB8007)"
  by (simp add: init_paging_def Let_def VIDEO_LOC_def PTE_US_def DEFAULT_PTE_def PTE_RW_def PTE_P_def)

lemma init_page_directory:
  assumes "unat i < 1024"
  shows "page_directory (init_paging pd vpt uvpt s) i =
     (if i = 0 then vpt OR 0x3 else if i = 1 then push_bit 22 1 OR 0x83 else if i = 33 then uvpt OR 0x7
      else push_bit 22 i OR 0x82)"
proof -
  have two: "2 \<le> unat i \<longleftrightarrow> i \<noteq> 0 \<and> i \<noteq> 1"
    by unat_arith
  have c: "(0x400000 :: u32) OR PDE_PS OR DEFAULT_PTE = 0x400083" "PDE_US OR PDE_RW OR PDE_P = 7"
      "PDE_RW OR PDE_P = 3" "PDE_PS OR PDE_RW = 0x82" "push_bit 22 1 OR 0x83 = (0x400083 :: u32)"
    by (simp_all add: paging_consts)
  show ?thesis
    using assms two c
    by (simp add: init_paging_def Let_def fold_table KERNEL_LOC_def USER_VID_PT_INDEX_def or.assoc)
      (auto simp: init_directory_entry_def PDE_4MP_PBA_OFFSET_def or.assoc)
qed

lemma translate_large:
  assumes "page_directory s (drop_bit 22 va) = push_bit 22 i OR f" "take_bit 22 f = f" "bit f 7"
  shows "translate vpt uvpt user s va = (if allowed user f then Some (push_bit 22 i OR va AND 0x3FFFFF) else None)"
proof -
  have "bit (push_bit 22 i OR f) k = bit f k" if "k < 22" for k using that by (simp add: bit_simps)
  then show ?thesis using assms by (simp add: translate_def Let_def allowed_def large_base)
qed

lemma bit_aligned: "b AND 0xFFF = 0 \<Longrightarrow> k < 12 \<Longrightarrow> bit (b OR f) k = bit f k" for b f :: u32
proof -
  assume a: "b AND 0xFFF = 0" and k: "k < 12"
  have "\<not> bit b k" using arg_cong [OF a, of "\<lambda>w. bit w k"] k by (auto simp: masks bit_simps)
  then show ?thesis by (simp add: bit_simps)
qed

lemma translate_small:
  assumes "page_directory s (drop_bit 22 va) = b OR f" "b AND 0xFFF = 0" "take_bit 12 f = f" "\<not> bit f 7"
    and "table_at vpt uvpt s b = Some t"
    and "t (drop_bit 12 va AND 0x3FF) = pb OR pf" "pb AND 0xFFF = 0" "take_bit 12 pf = pf"
  shows "translate vpt uvpt user s va = (if allowed user f \<and> allowed user pf then Some (pb OR va AND 0xFFF) else None)"
  using assms by (simp add: translate_def Let_def allowed_def bit_aligned small_base)

section \<open>The address space after boot\<close>

definition boot_map :: "bool \<Rightarrow> u32 \<Rightarrow> u32 option" where
  "boot_map user va =
     (if 0x8400000 \<le> va \<and> va < 0x8401000 then Some (VIDEO_LOC + (va - 0x8400000))
      else if \<not> user \<and> 0x1000 \<le> va \<and> va < 0x800000 then Some va else None)"

lemma range_div: "unat a \<le> unat va \<Longrightarrow> unat va < unat b \<Longrightarrow> a \<le> va \<and> va < b" for va a b :: u32
  by (simp add: word_le_nat_alt word_less_nat_alt)

lemma drop_22_boot_map:
  fixes va :: u32
  assumes "drop_bit 22 va \<notin> {0, 1, 33}"
  shows "boot_map user va = None"
proof -
  have "unat va div 0x400000 \<notin> {0, 1, 33}"
    using assms by (auto simp: drop_22_eq)
  then show ?thesis
    by (auto simp: boot_map_def word_le_nat_alt word_less_nat_alt)
qed

lemma vid_offset:
  fixes va :: u32
  assumes "drop_bit 22 va = 33"
  shows "drop_bit 12 va AND 0x3FF = 0 \<longleftrightarrow> 0x8400000 \<le> va \<and> va < 0x8401000"
    and "drop_bit 12 va AND 0x3FF = 0 \<Longrightarrow> 0xB8000 OR va AND 0xFFF = 0xB8000 + (va - 0x8400000)"
proof -
  have div: "unat va div 0x400000 = 33" using assms by (simp add: drop_22_eq)
  have "unat (drop_bit 12 va AND 0x3FF) = unat va div 0x1000 mod 0x400"
    unfolding masks take_bit_eq_mask [symmetric] by (simp add: take_bit_eq_mod unat_mod unat_drop_12)
  also have "unat va div 0x1000 mod 0x400 = unat va div 0x1000 - 33 * 0x400"
    using div div_mult2_eq [of "unat va" "0x1000" "0x400"] by (simp add: modulo_nat_def)
  finally have eq: "unat (drop_bit 12 va AND 0x3FF) = unat va div 0x1000 - 33 * 0x400" .
  then show iff: "drop_bit 12 va AND 0x3FF = 0 \<longleftrightarrow> 0x8400000 \<le> va \<and> va < 0x8401000"
    using div by (auto simp: word_le_nat_alt word_less_nat_alt word_unat_eq_iff)
  assume "drop_bit 12 va AND 0x3FF = 0"
  then have r: "0x8400000 \<le> va" "va < 0x8401000" using iff by auto
  have "va AND 0xFFF = va - 0x8400000"
  proof -
    have "unat va div 0x1000 = 0x8400" using r by (intro div_nat_eqI) (simp_all add: word_le_nat_alt word_less_nat_alt)
    then have "unat va = 0x8400000 + unat va mod 0x1000" using mult_div_mod_eq [of "0x1000" "unat va"] by simp
    moreover have "unat (va AND 0xFFF) = unat va mod 0x1000"
      unfolding masks take_bit_eq_mask [symmetric] by (simp add: take_bit_eq_mod unat_mod)
    ultimately show ?thesis using r by (simp add: word_unat_eq_iff unat_sub)
  qed
  moreover have "0xB8000 OR va AND 0xFFF = 0xB8000 + (va AND 0xFFF)"
  proof (rule disjunctive_add [symmetric])
    fix n
    show "\<not> bit (0xB8000 :: u32) n \<or> \<not> bit (va AND 0xFFF) n"
      using bit_aligned [of "0xB8000" n 0] by (cases "n < 12") (simp, simp add: lo12 bit_simps)
  qed
  ultimately show "0xB8000 OR va AND 0xFFF = 0xB8000 + (va - 0x8400000)" by simp
qed

lemma translate_boot_low:
  assumes "vpt AND 0xFFF = 0" "drop_bit 22 va = 0"
  shows "translate vpt uvpt user (init_paging pd vpt uvpt s) va = boot_map user va"
proof -
  let ?i = "drop_bit 12 va AND 0x3FF" and ?s = "init_paging pd vpt uvpt s"
  have lt: "unat ?i < 1024" using word_and_le1 [of "drop_bit 12 va" "0x3FF"] by (simp add: word_le_nat_alt)
  have pd: "page_directory ?s (drop_bit 22 va) = vpt OR 3" using assms(2) by (simp add: init_page_directory)
  have lo: "unat va < 0x400000" using assms(2) by (auto simp: drop_22_eq)
  have zero: "?i = 0 \<longleftrightarrow> va < 0x1000"
  proof -
    have "unat ?i = unat va div 0x1000 mod 0x400"
      unfolding masks take_bit_eq_mask [symmetric] by (simp add: take_bit_eq_mod unat_mod unat_drop_12)
    also have "\<dots> = unat va div 0x1000" using lo by simp
    finally show ?thesis by (auto simp: word_unat_eq_iff word_less_nat_alt)
  qed
  have pt: "vid_page_table ?s ?i = push_bit 12 ?i OR (if ?i = 0 then 2 else 3)"
    using lt by (cases "?i = 0") (simp_all only: init_vid_page_table, simp_all add: init_vid_entry_def paging_consts)
  have al: "take_bit 12 (if ?i = 0 then 2 else 3 :: u32) = (if ?i = 0 then 2 else 3)" by (simp add: take_bit_eq_mod)
  have "translate vpt uvpt user ?s va = (if allowed user 3 \<and> allowed user (if ?i = 0 then 2 else 3)
      then Some (push_bit 12 ?i OR va AND 0xFFF) else None)"
    using assms(1) pt al
    by (intro translate_small [where t = "vid_page_table ?s", OF pd] aligned_push_bit) (simp_all add: table_at_def take_bit_eq_mod)
  also have "\<dots> = boot_map user va"
    unfolding rejoin_small [OF assms(2)]
    using lo zero by (auto simp: allowed_def boot_map_def word_le_nat_alt word_less_nat_alt)
  finally show ?thesis .
qed

lemma translate_boot_kernel:
  assumes "drop_bit 22 va = 1"
  shows "translate vpt uvpt user (init_paging pd vpt uvpt s) va = boot_map user va"
proof -
  have "translate vpt uvpt user (init_paging pd vpt uvpt s) va =
      (if allowed user 0x83 then Some (push_bit 22 1 OR va AND 0x3FFFFF) else None)"
    using assms by (intro translate_large) (simp_all add: init_page_directory take_bit_eq_mod)
  moreover have "push_bit 22 1 OR va AND 0x3FFFFF = va" using rejoin_large [of va] assms by simp
  moreover have "unat va div 0x400000 = 1" using assms by (simp add: drop_22_eq)
  ultimately show ?thesis by (auto simp: allowed_def boot_map_def word_le_nat_alt word_less_nat_alt)
qed

lemma translate_boot_vid:
  assumes "uvpt AND 0xFFF = 0" "vpt \<noteq> uvpt" "drop_bit 22 va = 33"
    and absent: "\<And>i. i \<noteq> 0 \<Longrightarrow> \<not> bit (user_vid_page_table s i) 0"
  shows "translate vpt uvpt user (init_paging pd vpt uvpt s) va = boot_map user va"
proof (cases "drop_bit 12 va AND 0x3FF = 0")
  case True
  have "translate vpt uvpt user (init_paging pd vpt uvpt s) va =
      (if allowed user 7 \<and> allowed user 7 then Some (0xB8000 OR va AND 0xFFF) else None)"
    using assms True
    by (intro translate_small [where b = uvpt and t = "(user_vid_page_table s)(0 := 0xB8007)"])
      (simp_all add: init_page_directory init_user_table table_at_def take_bit_eq_mod)
  then show ?thesis
    using vid_offset [OF assms(3)] True by (simp add: boot_map_def allowed_def VIDEO_LOC_def)
next
  case False
  have "(uvpt OR 7) AND 0xFFFFF000 = uvpt" using assms by (intro small_base) (simp_all add: take_bit_eq_mod)
  then have "translate vpt uvpt user (init_paging pd vpt uvpt s) va = None"
    using assms False bit_aligned [of uvpt]
    by (simp add: translate_def Let_def init_page_directory init_user_table table_at_def allowed_def)
  then show ?thesis
    using vid_offset(1) [OF assms(3)] False assms(3) by (auto simp: boot_map_def drop_22_eq word_le_nat_alt word_less_nat_alt)
qed

lemma translate_boot:
  assumes "vpt AND 0xFFF = 0" "uvpt AND 0xFFF = 0" "vpt \<noteq> uvpt"
    and "\<And>i. i \<noteq> 0 \<Longrightarrow> \<not> bit (user_vid_page_table s i) 0"
  shows "translate vpt uvpt user (init_paging pd vpt uvpt s) va = boot_map user va"
proof -
  consider "drop_bit 22 va = 0" | "drop_bit 22 va = 1" | "drop_bit 22 va = 33" | "drop_bit 22 va \<notin> {0, 1, 33}" by blast
  then show ?thesis
  proof cases
    case 4
    then have "translate vpt uvpt user (init_paging pd vpt uvpt s) va =
        (if allowed user 0x82 then Some (push_bit 22 (drop_bit 22 va) OR va AND 0x3FFFFF) else None)"
      using drop_22_less [of va] by (intro translate_large) (simp_all add: init_page_directory take_bit_eq_mod)
    then show ?thesis using drop_22_boot_map [OF 4] by (simp add: allowed_def)
  qed (use assms translate_boot_low translate_boot_kernel translate_boot_vid in blast)+
qed

section \<open>Switching the user page\<close>

lemma process_entry: "PROCESS_LOC n OR PDE_PS OR PDE_US OR PDE_RW OR PDE_P = push_bit 22 (n + 2) OR 0x87"
proof -
  have "PDE_PS OR PDE_US OR PDE_RW OR PDE_P = 0x87" by (simp add: paging_consts)
  moreover have "PROCESS_LOC n = push_bit 22 (n + 2)" by (simp add: paging_consts push_bit_eq_mult)
  ultimately show ?thesis by (simp only: or.assoc)
qed

lemma change_process_tables:
  "page_directory (change_process pid s) = (page_directory s)(32 := push_bit 22 (word_of_int pid + 2) OR 0x87)"
  "vid_page_table (change_process pid s) = vid_page_table s"
  "user_vid_page_table (change_process pid s) = user_vid_page_table s"
  by (simp_all add: change_process_def process_entry USER_PROCESS_INDEX_def)

lemma in_user_page_index: "in_user_page va \<longleftrightarrow> drop_bit 22 va = 32"
proof -
  have "in_user_page va \<longleftrightarrow> 0x8000000 \<le> unat va \<and> unat va < 0x8400000"
    by (auto simp: in_user_page_def in_region_def USER_PAGE_def unat_sub_if' unat_lt_u32 [simplified])
  also have "\<dots> \<longleftrightarrow> drop_bit 22 va = 32" by (auto simp: drop_22_eq)
  finally show ?thesis .
qed

definition user_frame :: "int \<Rightarrow> u32" where
  "user_frame pid = 0x800000 + word_of_int pid * 0x400000"

lemma user_frame_base_process: "user_frame_base (push_bit 22 (word_of_int pid + 2) OR 0x87) = Some (user_frame pid)"
proof -
  have "bit (push_bit 22 i OR 0x87 :: u32) k = bit (0x87 :: u32) k" if "k < 22" for i k
    using that by (simp add: bit_simps)
  then have "bit (push_bit 22 i OR 0x87 :: u32) 0" "bit (push_bit 22 i OR 0x87 :: u32) 7" for i by simp_all
  then have nz: "(push_bit 22 i OR 0x87 :: u32) AND PDE_P \<noteq> 0" "(push_bit 22 i OR 0x87 :: u32) AND PDE_PS \<noteq> 0" for i
    by (simp_all only: and_exp_eq_0_iff_not_bit [of _ 0, simplified] PDE_P_def PDE_PS_def
        and_exp_eq_0_iff_not_bit [of _ 7, simplified]) simp_all
  have "push_bit 22 (word_of_int pid + 2) = user_frame pid"
    by (simp add: user_frame_def push_bit_eq_mult algebra_simps)
  then show ?thesis
    using nz [of "word_of_int pid + 2"] large_base [of "0x87" "word_of_int pid + 2"]
    by (simp add: user_frame_base_def take_bit_eq_mod)
qed

lemma translate_change_process:
  "translate vpt uvpt user (change_process pid s) va =
     (if in_user_page va then Some (user_frame pid + (va - USER_PAGE)) else translate vpt uvpt user s va)"
proof (cases "in_user_page va")
  case True
  have "translate vpt uvpt user (change_process pid s) va = Some (push_bit 22 (word_of_int pid + 2) OR va AND 0x3FFFFF)"
    using True by (subst translate_large [where f = "0x87"])
      (simp_all add: change_process_tables in_user_page_index take_bit_eq_mod allowed_def)
  moreover have "push_bit 22 (word_of_int pid + 2) OR va AND 0x3FFFFF = push_bit 22 (word_of_int pid + 2) + (va AND 0x3FFFFF)"
    by (rule disjunctive_add [symmetric]) (auto simp: masks bit_simps)
  moreover have "push_bit 22 (word_of_int pid + 2) = user_frame pid"
    by (simp add: user_frame_def push_bit_eq_mult algebra_simps)
  moreover have "va AND 0x3FFFFF = va - USER_PAGE"
  proof -
    have "push_bit 22 32 + (va AND 0x3FFFFF) = push_bit 22 32 OR va AND 0x3FFFFF"
      by (rule disjunctive_add) (auto simp only: masks bit_simps)
    also have "\<dots> = va" using rejoin_large [of va] True by (simp add: in_user_page_index)
    finally show ?thesis by (simp add: USER_PAGE_def algebra_simps)
  qed
  ultimately show ?thesis using True by simp
next
  case False
  moreover have "table_at vpt uvpt (change_process pid s) = table_at vpt uvpt s"
    by (simp add: table_at_def change_process_tables fun_eq_iff)
  ultimately show ?thesis
    by (simp add: translate_def Let_def change_process_tables in_user_page_index cong: if_cong)
qed

section \<open>Isolation of the processes' pages\<close>

text \<open>
  The contract of a set of address spaces of which one is visible at a time: switching keeps
  the contents of all of them, and a store reaches the visible one only. The client lemma
  follows any interleaving of switches and stores: a space holds exactly the stores made
  while it was the visible one, in their order.
\<close>

datatype 'p access = Switch 'p | Store u32 u8

definition write_access :: "u32 \<times> u8 \<Rightarrow> mem \<Rightarrow> mem" where
  "write_access w m = m(fst w := snd w)"

text \<open>The stores made while \<open>q\<close> was the visible space, \<open>p\<close> being visible at the start.\<close>

fun stores_of :: "'p \<Rightarrow> 'p \<Rightarrow> 'p access list \<Rightarrow> (u32 \<times> u8) list" where
  "stores_of q p [] = []"
| "stores_of q p (Switch p' # acts) = stores_of q p' acts"
| "stores_of q p (Store a v # acts) = (if q = p then (a, v) # stores_of q p acts else stores_of q p acts)"

locale address_spaces =
  fixes valid :: "'p \<Rightarrow> bool" and switch :: "'p \<Rightarrow> 's \<Rightarrow> 's" and store :: "u32 \<Rightarrow> u8 \<Rightarrow> 's \<Rightarrow> 's"
    and running :: "'s \<Rightarrow> 'p option" and content :: "'p \<Rightarrow> 's \<Rightarrow> mem" and inside :: "u32 \<Rightarrow> bool"
  assumes switch_running: "valid p \<Longrightarrow> running (switch p s) = Some p"
    and switch_content: "valid p \<Longrightarrow> valid q \<Longrightarrow> content q (switch p s) = content q s"
    and store_running: "running (store a v s) = running s"
    and store_visible: "valid p \<Longrightarrow> running s = Some p \<Longrightarrow> inside a \<Longrightarrow> content p (store a v s) = (content p s)(a := v)"
    and store_hidden: "valid q \<Longrightarrow> running s = Some p \<Longrightarrow> q \<noteq> p \<Longrightarrow> inside a \<Longrightarrow> content q (store a v s) = content q s"
begin

primrec access_step :: "'p access \<Rightarrow> 's \<Rightarrow> 's" where
  "access_step (Switch p) s = switch p s"
| "access_step (Store a v) s = store a v s"

definition access_run :: "'p access list \<Rightarrow> 's \<Rightarrow> 's" where
  "access_run acts s = fold access_step acts s"

fun access_ok :: "'p access \<Rightarrow> bool" where
  "access_ok (Switch p) = valid p"
| "access_ok (Store a v) = inside a"

lemma content_run:
  "valid q \<Longrightarrow> running s = Some p \<Longrightarrow> valid p \<Longrightarrow> list_all access_ok acts \<Longrightarrow>
   content q (access_run acts s) = fold write_access (stores_of q p acts) (content q s)"
proof (induction acts arbitrary: s p)
  case Nil
  then show ?case by (simp add: access_run_def)
next
  case (Cons act acts)
  show ?case
  proof (cases act)
    case (Switch p')
    then show ?thesis
      using Cons.prems Cons.IH [of "switch p' s" p']
      by (simp add: access_run_def switch_running switch_content)
  next
    case (Store a v)
    then have "content q (access_run (act # acts) s) =
        fold write_access (stores_of q p acts) (content q (store a v s))"
      using Cons.prems Cons.IH [of "store a v s" p] by (simp add: access_run_def store_running)
    then show ?thesis
      using Store Cons.prems store_visible [of p s a v] store_hidden [of q s p a v] 
      by (cases "q = p") (simp_all add: write_access_def [of "(a, v)"])
  qed
qed

lemma hidden_run:
  "valid q \<Longrightarrow> running s = Some p \<Longrightarrow> valid p \<Longrightarrow> q \<noteq> p \<Longrightarrow> list_all access_ok acts \<Longrightarrow>
   Switch q \<notin> set acts \<Longrightarrow> content q (access_run acts s) = content q s"
proof -
  assume "valid q" "running s = Some p" "valid p" "q \<noteq> p" "list_all access_ok acts" "Switch q \<notin> set acts"
  moreover have "q \<noteq> p \<Longrightarrow> Switch q \<notin> set acts \<Longrightarrow> stores_of q p acts = []"
    by (induction q p acts rule: stores_of.induct) auto
  ultimately show ?thesis by (simp add: content_run)
qed

end

definition valid_pid :: "int \<Rightarrow> bool" where
  "valid_pid p \<longleftrightarrow> 0 \<le> p \<and> p < 6"

definition user_store :: "u32 \<Rightarrow> u8 \<Rightarrow> 'a paging_scheme \<Rightarrow> 'a paging_scheme" where
  "user_store a v s = s\<lparr>memory := (memory s)(a := v)\<rparr>"

definition running_pid :: "'a paging_scheme \<Rightarrow> int option" where
  "running_pid s = find (\<lambda>p. user_window s = Some (user_frame p)) [0, 1, 2, 3, 4, 5]"

definition user_content :: "int \<Rightarrow> 'a paging_scheme \<Rightarrow> mem" where
  "user_content p s = (\<lambda>a. if in_user_page a then park_frames s (user_frame p) a else 0)"

lemma valid_pid_cases: "valid_pid p \<Longrightarrow> p = 0 \<or> p = 1 \<or> p = 2 \<or> p = 3 \<or> p = 4 \<or> p = 5"
  by (auto simp: valid_pid_def)

lemma user_frame_inj: "valid_pid p \<Longrightarrow> valid_pid q \<Longrightarrow> user_frame p = user_frame q \<longleftrightarrow> p = q"
  by (auto dest!: valid_pid_cases simp: user_frame_def)

lemma running_pid_iff: "valid_pid p \<Longrightarrow> running_pid s = Some p \<longleftrightarrow> user_window s = Some (user_frame p)"
  by (auto dest!: valid_pid_cases simp: running_pid_def user_frame_def split: if_splits)

lemma park_frames_directory [simp]: "park_frames (s\<lparr>page_directory := d\<rparr>) = park_frames s"
  by (simp add: park_frames_def split: option.split)

lemma change_process_window [simp]: "user_window (change_process pid s) = Some (user_frame pid)"
  by (simp add: change_process_def flush_tlb_def load_cr3_def Let_def process_entry user_frame_base_process)

lemma memory_change_process:
  "memory (change_process pid s) = (\<lambda>a. if in_user_page a then park_frames s (user_frame pid) a else memory s a)"
  by (simp add: change_process_def flush_tlb_def load_cr3_def Let_def process_entry user_frame_base_process cong: if_cong)

lemma frames_change_process [simp]: "frames (change_process pid s) = park_frames s"
  by (simp add: change_process_def flush_tlb_def load_cr3_def Let_def)

lemma content_change_process: "user_content q (change_process p s) = user_content q s"
  by (auto simp: user_content_def park_frames_def [of "change_process p s"] memory_change_process fun_eq_iff)

interpretation proc: address_spaces valid_pid change_process user_store running_pid user_content in_user_page
proof unfold_locales
  fix p q :: int and s :: "'a paging_scheme" and a v
  show "valid_pid p \<Longrightarrow> running_pid (change_process p s) = Some p"
    by (simp add: running_pid_iff)
  show "user_content q (change_process p s) = user_content q s"
    by (rule content_change_process)
  show "running_pid (user_store a v s) = running_pid s"
    by (simp add: running_pid_def user_store_def)
  show "valid_pid p \<Longrightarrow> running_pid s = Some p \<Longrightarrow> in_user_page a \<Longrightarrow>
      user_content p (user_store a v s) = (user_content p s)(a := v)"
    by (auto simp: running_pid_iff user_content_def user_store_def park_frames_def fun_eq_iff)
  show "valid_pid q \<Longrightarrow> running_pid s = Some p \<Longrightarrow> q \<noteq> p \<Longrightarrow> in_user_page a \<Longrightarrow>
      user_content q (user_store a v s) = user_content q s"
  proof -
    assume q: "valid_pid q" "q \<noteq> p" and r: "running_pid s = Some p"
    then have p: "valid_pid p" by (auto simp: running_pid_def valid_pid_def split: if_splits)
    then show ?thesis
      using q r by (auto simp: running_pid_iff user_frame_inj user_content_def user_store_def park_frames_def fun_eq_iff)
  qed
qed

section \<open>Main properties\<close>

definition demo_paging :: paging where
  "demo_paging = \<lparr>memory = (\<lambda>_. 0), io_log = [], int_flag = False, device = (\<lambda>_ _. 0), master_mask = 0xFF, slave_mask = 0xFF,
     screen_x = (\<lambda>_. 0), screen_y = (\<lambda>_. 0), curr_term = 0,
     page_directory = (\<lambda>_. 0), vid_page_table = (\<lambda>_. 0), user_vid_page_table = (\<lambda>_. 0), cr0 = 0, cr3 = 0, cr4 = 0,
     user_window = None, frames = (\<lambda>_ _. 0)\<rparr>"



text \<open>
  \<open>change_process\<close> remaps the 4 MB user page at 128 MB, and nothing else, to the frame of
  the process: 8 MB plus its number times 4 MB; user and kernel may both access it.
\<close>
theorem change_process_mapping:
  "translate vpt uvpt user (change_process pid s) va =
     (if in_user_page va then Some (0x800000 + word_of_int pid * 0x400000 + (va - 0x8000000)) else translate vpt uvpt user s va)"
  by (simp add: translate_change_process user_frame_def USER_PAGE_def)

text \<open>One access of a running program or of the kernel: a switch of the user page, or a store into it.\<close>

primrec user_access :: "int access \<Rightarrow> 'a paging_scheme \<Rightarrow> 'a paging_scheme" where
  "user_access (Switch p) s = change_process p s"
| "user_access (Store a v) s = user_store a v s"

primrec access_valid :: "int access \<Rightarrow> bool" where
  "access_valid (Switch p) = valid_pid p"
| "access_valid (Store a v) = in_user_page a"

lemma access_run_fold: "proc.access_run acts s = fold user_access acts s"
proof -
  have "proc.access_step act s = user_access act s" for act and s :: "'a paging_scheme"
    by (cases act) simp_all
  then have "proc.access_step = (user_access :: int access \<Rightarrow> 'a paging_scheme \<Rightarrow> 'a paging_scheme)" by (intro ext)
  then show ?thesis by (simp add: proc.access_run_def)
qed

lemma access_ok_valid: "proc.access_ok = access_valid"
proof
  fix act show "proc.access_ok act = access_valid act" by (cases act) simp_all
qed

text \<open>
  C9: isolation of the processes' memory. Along every sequence of \<open>change_process\<close> calls and
  stores into the user page, the page of a process ends up with exactly the stores made while
  it was the one mapped, in their order: no store of another process reaches it and no switch
  loses any of its own.
\<close>
theorem user_pages_isolated:
  assumes "valid_pid q" "valid_pid p" "user_window s = Some (user_frame p)" "list_all access_valid acts"
  shows "user_content q (fold user_access acts s) = fold write_access (stores_of q p acts) (user_content q s)"
  using proc.content_run [of q s p acts] assms by (simp add: running_pid_iff access_run_fold access_ok_valid)

theorem user_pages_isolated_witness:
  "user_content 1 (fold user_access [Store 0x8048000 7, Switch 1, Store 0x8048000 9, Switch 0, Store 0x8048001 5]
      (change_process 0 demo_paging)) 0x8048000 = 9"
proof -
  let ?acts = "[Store 0x8048000 7, Switch 1, Store 0x8048000 9, Switch 0, Store 0x8048001 5] :: int access list"
  have acts: "list_all access_valid ?acts"
    by (simp add: valid_pid_def in_user_page_def in_region_def USER_PAGE_def)
  have "user_content 1 (fold user_access ?acts (change_process 0 demo_paging)) =
      fold write_access (stores_of 1 0 ?acts) (user_content 1 (change_process 0 demo_paging))"
    by (rule user_pages_isolated [OF _ _ _ acts]) (simp_all add: valid_pid_def)
  then show ?thesis by (simp add: write_access_def)
qed

end
