(* ===== verification/File_System.thy ===== *)
theory File_System
  imports Paging
begin

text \<open>
  The read-only file system of \<open>file_system.c\<close>: a memory image of 4 KB blocks, the first
  holding the directory (counts, then 63 entries of 64 bytes), then the inodes, then the
  data blocks. The operations are modelled on the bytes of the image; \<open>file_name\<close> and
  \<open>file_byte\<close> read it abstractly and state what the operations return. A local
  \<open>dentry_t\<close> of the C code lives in memory at an address that is a parameter here.
\<close>

definition NAME_SIZE :: nat where "NAME_SIZE = 32"
definition BLOCK_SIZE :: nat where "BLOCK_SIZE = 4096"
definition NUM_DENTRIES :: nat where "NUM_DENTRIES = 63"
definition FAILURE :: int where "FAILURE = -1"
definition SUCCESS :: int where "SUCCESS = 0"

lemmas fs_consts = NAME_SIZE_def BLOCK_SIZE_def NUM_DENTRIES_def FAILURE_def SUCCESS_def

record file_sys = paging +
  boot_block :: u32

section \<open>The layout of the image\<close>

definition num_dentries :: "mem \<Rightarrow> u32 \<Rightarrow> u32" where
  "num_dentries m bb = read32 m bb"

definition num_inodes :: "mem \<Rightarrow> u32 \<Rightarrow> u32" where
  "num_inodes m bb = read32 m (bb + 4)"

definition dentry_at :: "u32 \<Rightarrow> nat \<Rightarrow> u32" where
  "dentry_at bb i = bb + 64 + of_nat (64 * i)"

definition dentry_file_type :: "mem \<Rightarrow> u32 \<Rightarrow> u32" where
  "dentry_file_type m d = read32 m (d + 32)"

definition dentry_inode_num :: "mem \<Rightarrow> u32 \<Rightarrow> u32" where
  "dentry_inode_num m d = read32 m (d + 36)"

definition inode_at :: "u32 \<Rightarrow> u32 \<Rightarrow> u32" where
  "inode_at bb k = bb + (k + 1) * 4096"

definition inode_length :: "mem \<Rightarrow> u32 \<Rightarrow> u32" where
  "inode_length m inode = read32 m inode"

definition inode_data_block :: "mem \<Rightarrow> u32 \<Rightarrow> u32 \<Rightarrow> u32" where
  "inode_data_block m inode i = read32 m (inode + 4 + 4 * i)"

definition data_block_at :: "mem \<Rightarrow> u32 \<Rightarrow> u32 \<Rightarrow> u32" where
  "data_block_at m bb b = bb + (num_inodes m bb + 1 + b) * 4096"

section \<open>Operations\<close>

definition init_file_system :: "u32 \<Rightarrow> u32 \<Rightarrow> 'a file_sys_scheme \<Rightarrow> int \<times> 'a file_sys_scheme" where
  "init_file_system file_system_begin file_system_end s =
     (if num_dentries (memory s) file_system_begin > of_nat NUM_DENTRIES then (FAILURE, s)
      else (SUCCESS, s\<lparr>boot_block := file_system_begin\<rparr>))"

definition copy_dentry :: "u32 \<Rightarrow> nat \<Rightarrow> 'a file_sys_scheme \<Rightarrow> 'a file_sys_scheme" where
  "copy_dentry dentry i s =
     s\<lparr>memory := write_bytes (memory s) dentry (read_bytes (memory s) (dentry_at (boot_block s) i) 64)\<rparr>"

function find_dentry :: "u32 \<Rightarrow> u32 \<Rightarrow> u32 \<Rightarrow> nat \<Rightarrow> 'a file_sys_scheme \<Rightarrow> (int \<times> 'a file_sys_scheme) option" where
  "find_dentry fname dentry num_bits i s =
     (if i < NUM_DENTRIES
      then do {
        let name = dentry_at (boot_block s) i;
        num_bits \<leftarrow> (if num_bits \<noteq> of_nat NAME_SIZE
                     then do { l \<leftarrow> strlen (memory s) name; Some (if l > num_bits then l else num_bits) }
                     else Some num_bits);
        if strncmp (memory s) fname name num_bits = 0 then Some (SUCCESS, copy_dentry dentry i s)
        else find_dentry fname dentry num_bits (i + 1) s
      }
      else Some (FAILURE, s))"
  by pat_completeness auto
termination
  by (relation "measure (\<lambda>(fname, dentry, num_bits, i, s). NUM_DENTRIES - i)") auto

declare find_dentry.simps [simp del]

definition read_dentry_by_name :: "u32 \<Rightarrow> u32 \<Rightarrow> 'a file_sys_scheme \<Rightarrow> (int \<times> 'a file_sys_scheme) option" where
  "read_dentry_by_name fname dentry s =
     (if dentry = 0 then Some (FAILURE, s)
      else do {
        l \<leftarrow> strlen (memory s) fname;
        let num_bits = (if l > of_nat NAME_SIZE then of_nat NAME_SIZE else l);
        if num_bits = 0 then Some (FAILURE, s) else find_dentry fname dentry num_bits 0 s
      })"

definition read_dentry_by_index :: "u32 \<Rightarrow> u32 \<Rightarrow> 'a file_sys_scheme \<Rightarrow> int \<times> 'a file_sys_scheme" where
  "read_dentry_by_index index dentry s =
     (if dentry = 0 then (FAILURE, s)
      else if index \<ge> of_nat NUM_DENTRIES then (FAILURE, s)
      else (SUCCESS, copy_dentry dentry (unat index) s))"

text \<open>
  The copying loop of \<open>read_data\<close>. Its \<open>int i\<close> is compared with the unsigned end and divided
  as a signed number; it is kept as the 32-bit pattern it is.
\<close>

function read_loop :: "u32 \<Rightarrow> u32 \<Rightarrow> u32 \<Rightarrow> u32 \<Rightarrow> u32 \<Rightarrow> u32 \<Rightarrow> u32 \<Rightarrow> mem \<Rightarrow> mem" where
  "read_loop bb inode buf offset fin data_block i m =
     (if i < fin
      then let data_block = (if sint i smod int BLOCK_SIZE = 0
                             then data_block_at m bb (inode_data_block m inode (word_of_int (sint i sdiv int BLOCK_SIZE)))
                             else data_block)
           in read_loop bb inode buf offset fin data_block (i + 1)
                (m(buf + (i - offset) := m (data_block + word_of_int (sint i smod int BLOCK_SIZE))))
      else m)"
  by pat_completeness auto
termination
  by (relation "measure (\<lambda>(bb, inode, buf, offset, fin, data_block, i, m). unat fin - unat i)")
     (auto simp: unat_inc_u32 word_less_nat_alt)

declare read_loop.simps [simp del]

definition read_data :: "u32 \<Rightarrow> u32 \<Rightarrow> u32 \<Rightarrow> u32 \<Rightarrow> 'a file_sys_scheme \<Rightarrow> int \<times> 'a file_sys_scheme" where
  "read_data inode_index offset buf len s =
     (let m = memory s; bb = boot_block s
      in if inode_index \<ge> num_inodes m bb then (FAILURE, s)
         else let inode = inode_at bb inode_index
              in if offset > inode_length m inode then (FAILURE, s)
                 else let data_block = data_block_at m bb (inode_data_block m inode (offset div of_nat BLOCK_SIZE))
                      in if buf = 0 then (FAILURE, s)
                         else let num_bytes = (if offset + len > inode_length m inode then inode_length m inode - offset else len)
                              in (sint num_bytes,
                                  s\<lparr>memory := read_loop bb inode buf offset (offset + num_bytes) data_block offset m\<rparr>))"

definition file_open :: "u32 \<Rightarrow> u32 \<Rightarrow> 'a file_sys_scheme \<Rightarrow> (int \<times> 'a file_sys_scheme) option" where
  "file_open file filename s = do {
     (r, s) \<leftarrow> read_dentry_by_name filename file s;
     Some (if r = -1 then FAILURE else SUCCESS, s) }"

definition file_close :: "int \<Rightarrow> 'a file_sys_scheme \<Rightarrow> int \<times> 'a file_sys_scheme" where
  "file_close fd s = (SUCCESS, s)"

definition file_write :: "int \<Rightarrow> u32 \<Rightarrow> int \<Rightarrow> 'a file_sys_scheme \<Rightarrow> int \<times> 'a file_sys_scheme" where
  "file_write fd buf nbytes s = (FAILURE, s)"

text \<open>\<open>for(i = 0; buf[i] != '\0' \<and> i < NAME_SIZE; i++) buf[i] = '\0'\<close>\<close>

primrec zero_name :: "nat \<Rightarrow> u32 \<Rightarrow> mem \<Rightarrow> mem" where
  "zero_name 0 a m = m"
| "zero_name (Suc n) a m = (if m a \<noteq> 0 then zero_name n (a + 1) (m(a := 0)) else m)"

definition file_read :: "int \<Rightarrow> u32 \<Rightarrow> int \<Rightarrow> u32 \<Rightarrow> 'a file_sys_scheme \<Rightarrow> int \<times> 'a file_sys_scheme" where
  "file_read fd buf nbytes offset s =
     read_data (word_of_int fd) offset buf (word_of_int nbytes) (s\<lparr>memory := zero_name NAME_SIZE buf (memory s)\<rparr>)"

definition dir_open :: "u32 \<Rightarrow> u32 \<Rightarrow> 'a file_sys_scheme \<Rightarrow> (int \<times> 'a file_sys_scheme) option" where
  "dir_open file filename s = do {
     (r, s) \<leftarrow> read_dentry_by_name filename file s;
     Some (if r = -1 then FAILURE else SUCCESS, s) }"

definition dir_close :: "int \<Rightarrow> 'a file_sys_scheme \<Rightarrow> int \<times> 'a file_sys_scheme" where
  "dir_close fd s = (SUCCESS, s)"

definition dir_write :: "int \<Rightarrow> u32 \<Rightarrow> int \<Rightarrow> 'a file_sys_scheme \<Rightarrow> int \<times> 'a file_sys_scheme" where
  "dir_write fd buf nbytes s = (FAILURE, s)"

definition dir_read :: "u32 \<Rightarrow> int \<Rightarrow> u32 \<Rightarrow> int \<Rightarrow> u32 \<Rightarrow> 'a file_sys_scheme \<Rightarrow> (int \<times> 'a file_sys_scheme) option" where
  "dir_read dir fd buf nbytes offset s =
     (let s = s\<lparr>memory := zero_name NAME_SIZE buf (memory s)\<rparr>;
          (r, s) = read_dentry_by_index offset dir s
      in if r = -1 then Some (FAILURE, s)
         else do {
           l \<leftarrow> strlen (memory s) dir;
           let nbytes = (if word_of_int nbytes > l then sint l else nbytes);
           Some (nbytes, s\<lparr>memory := strncpy (memory s) buf dir (word_of_int nbytes)\<rparr>)
         })"

definition load_program :: "int \<Rightarrow> u32 \<Rightarrow> 'a file_sys_scheme \<Rightarrow> int \<times> 'a file_sys_scheme" where
  "load_program fd addr s =
     (let inode = inode_at (boot_block s) (word_of_int fd);
          (r, s) = file_read fd addr (sint (inode_length (memory s) inode)) 0 s
      in if word_of_int r \<noteq> inode_length (memory s) inode then (-1, s) else (0, s))"

section \<open>Looking a name up\<close>

text \<open>A \<open>strncmp\<close> of two C strings compares their first \<open>n\<close> characters.\<close>

lemma strncmp_cstr_take:
  assumes xs: "cstr_at m a xs" and ys: "cstr_at m b ys"
  shows "strncmp m a b n = 0 \<longleftrightarrow> take (unat n) xs = take (unat n) ys"
proof
  assume "strncmp m a b n = 0"
  then have ag: "m (a + of_nat i) = m (b + of_nat i)" if "i < unat n" "i \<le> length xs" for i
    using that cstr_at_nth_nonzero [OF xs] unfolding strncmp_0 agree_upto_def by force
  have ge: "length xs \<le> length ys \<or> unat n \<le> length ys"
    using ag [of "length ys"] cstr_at_nth_nonzero [OF xs, of "length ys"] cstr_at_end [OF ys] by (metis linorder_not_le less_imp_le_nat)
  moreover have "length ys \<le> length xs \<or> unat n \<le> length xs"
    using ag [of "length xs"] cstr_at_nth_nonzero [OF ys, of "length xs"] cstr_at_end [OF xs] by (metis linorder_not_le order_refl)
  ultimately have "length (take (unat n) xs) = length (take (unat n) ys)" by auto
  moreover have "xs ! i = ys ! i" if "i < unat n" "i < length xs" "i < length ys" for i
    using that ag [of i] cstr_at_nth [OF xs, of i] cstr_at_nth [OF ys, of i] by simp
  ultimately show "take (unat n) xs = take (unat n) ys" by (intro nth_equalityI) auto
next
  assume eq: "take (unat n) xs = take (unat n) ys"
  show "strncmp m a b n = 0"
    unfolding strncmp_0 agree_upto_def
  proof (intro allI impI)
    fix i assume i: "i < unat n" "\<forall>j<i. 0 \<le> j \<longrightarrow> m (a + of_nat j) \<noteq> 0"
    then have le: "i \<le> length xs" using cstr_at_end [OF xs] by (metis le0 leI)
    have len: "min (unat n) (length xs) = min (unat n) (length ys)" using arg_cong [OF eq, of length] by simp
    show "m (a + of_nat i) = m (b + of_nat i)"
    proof (cases "i < length xs")
      case True
      then have "i < length ys" "xs ! i = ys ! i"
        using len i(1) nth_take [OF i(1), of xs] nth_take [OF i(1), of ys] eq by auto
      then show ?thesis using cstr_at_nth [OF xs True] cstr_at_nth [OF ys] by simp
    next
      case False
      then have "i = length xs" "i = length ys" using le len i(1) by auto
      then show ?thesis using cstr_at_end [OF xs] cstr_at_end [OF ys] by simp
    qed
  qed
qed

definition file_name :: "mem \<Rightarrow> u32 \<Rightarrow> nat \<Rightarrow> u8 list" where
  "file_name m bb i = takeWhile (\<lambda>c. c \<noteq> 0) (read_bytes m (dentry_at bb i) 32)"

definition find_file :: "mem \<Rightarrow> u32 \<Rightarrow> u8 list \<Rightarrow> nat option" where
  "find_file m bb xs = find (\<lambda>i. file_name m bb i = take 32 xs) [0..<63]"

lemma takeWhile_cstr:
  assumes "cstr_at m a ys"
  shows "takeWhile (\<lambda>c. c \<noteq> 0) (read_bytes m a n) = take n ys"
proof (rule takeWhile_eq_take_P_nth [where n = "min n (length ys)", THEN trans])
  fix i assume "i < min n (length ys)" "i < length (read_bytes m a n)"
  then show "read_bytes m a n ! i \<noteq> 0" using cstr_at_nth_nonzero [OF assms] by simp
next
  assume "min n (length ys) < length (read_bytes m a n)"
  then show "\<not> read_bytes m a n ! min n (length ys) \<noteq> 0" using cstr_at_end [OF assms] by simp
next
  show "take (min n (length ys)) (read_bytes m a n) = take n ys"
    by (rule nth_equalityI) (use cstr_at_nth [OF assms] in auto)
qed

lemma strlen_defined:
  assumes "cstr_at m a xs"
  obtains ys where "cstr_at m b ys"
proof -
  have "m (b + of_nat (unat (a + of_nat (length xs) - b))) = 0" using cstr_at_end [OF assms] by simp
  then show ?thesis using cstr_at_exists unat_lt_u32 that by blast
qed

text \<open>
  The running bound \<open>num_bits\<close>: 32 for a name of 32 characters or more, otherwise at least
  the length of the name (it grows with the entries already seen, or stops at 32).
\<close>

definition bound_ok :: "u8 list \<Rightarrow> u32 \<Rightarrow> bool" where
  "bound_ok xs n \<longleftrightarrow> (if 32 \<le> length xs then n = 32 else n = 32 \<or> length xs \<le> unat n)"

lemma bound_grows: "bound_ok xs n \<Longrightarrow> n \<noteq> 32 \<Longrightarrow> bound_ok xs (if l > n then l else n)"
  by (auto simp: bound_ok_def word_less_nat_alt split: if_splits)

lemma name_matches:
  assumes "cstr_at m f xs" "cstr_at m e ys" "bound_ok xs n" "n = 32 \<or> length ys \<le> unat n"
  shows "strncmp m f e n = 0 \<longleftrightarrow> take 32 ys = take 32 xs"
proof (cases "n = 32")
  case True
  then show ?thesis using strncmp_cstr_take [OF assms(1,2)] by auto
next
  case False
  then have len: "length xs \<le> unat n" "length ys \<le> unat n" "length xs < 32"
    using assms(3,4) by (auto simp: bound_ok_def split: if_splits)
  have "xs = ys \<longleftrightarrow> take 32 ys = xs"
    using len(3) by (cases "length ys < 32") auto
  then show ?thesis using strncmp_cstr_take [OF assms(1,2)] len by simp
qed

lemma find_dentry_eq:
  assumes str: "cstr_at (memory s) fname xs" and "bound_ok xs n" "i \<le> 63"
  shows "find_dentry fname dentry n i s =
    Some (case find (\<lambda>i. file_name (memory s) (boot_block s) i = take 32 xs) [i..<63] of
            None \<Rightarrow> (FAILURE, s) | Some j \<Rightarrow> (SUCCESS, copy_dentry dentry j s))"
  using assms(2,3)
proof (induction "63 - i" arbitrary: i n)
  case 0
  then show ?case by (subst find_dentry.simps) (simp add: NUM_DENTRIES_def)
next
  case (Suc k)
  then have i: "i < 63" by simp
  obtain ys where ys: "cstr_at (memory s) (dentry_at (boot_block s) i) ys" using strlen_defined [OF str] .
  define n' where "n' = (if n \<noteq> 32 then if of_nat (length ys) > n then of_nat (length ys) else n else n)"
  have ly: "unat (of_nat (length ys) :: u32) = length ys" using cstr_at_length [OF ys] by (rule unat_of_nat_u32)
  have ok: "bound_ok xs n'" using bound_grows [OF Suc.prems(1)] Suc.prems(1) by (auto simp: n'_def)
  have "n' = 32 \<or> length ys \<le> unat n'" using ly by (auto simp: n'_def word_less_nat_alt)
  then have m: "strncmp (memory s) fname (dentry_at (boot_block s) i) n' = 0 \<longleftrightarrow>
      file_name (memory s) (boot_block s) i = take 32 xs"
    using name_matches [OF str ys ok] takeWhile_cstr [OF ys, of 32] by (simp add: file_name_def)
  have "find_dentry fname dentry n i s =
      (if strncmp (memory s) fname (dentry_at (boot_block s) i) n' = 0 then Some (SUCCESS, copy_dentry dentry i s)
       else find_dentry fname dentry n' (i + 1) s)"
    using i strlen_cstr [OF ys] by (subst find_dentry.simps) (simp add: NUM_DENTRIES_def NAME_SIZE_def n'_def Let_def)
  moreover have "find_dentry fname dentry n' (i + 1) s =
      Some (case find (\<lambda>i. file_name (memory s) (boot_block s) i = take 32 xs) [i + 1..<63] of
            None \<Rightarrow> (FAILURE, s) | Some j \<Rightarrow> (SUCCESS, copy_dentry dentry j s))"
    using Suc i ok by (intro Suc.hyps(1)) auto
  ultimately show ?case using m i by (simp add: upt_conv_Cons [OF i] del: upt_Suc)
qed

lemma read_dentry_by_name_eq:
  assumes "cstr_at (memory s) fname xs" "dentry \<noteq> 0"
  shows "read_dentry_by_name fname dentry s =
    Some (if xs = [] then (FAILURE, s)
          else case find_file (memory s) (boot_block s) xs of
            None \<Rightarrow> (FAILURE, s) | Some i \<Rightarrow> (SUCCESS, copy_dentry dentry i s))"
proof -
  have l: "unat (of_nat (length xs) :: u32) = length xs"
    using cstr_at_length [OF assms(1)] by (rule unat_of_nat_u32)
  then have z: "(of_nat (length xs) :: u32) = 0 \<longleftrightarrow> xs = []" by (metis length_0_conv unat_eq_zero)
  have b: "bound_ok xs (if (32 :: u32) < of_nat (length xs) then 32 else of_nat (length xs))"
    using l by (auto simp: bound_ok_def word_less_nat_alt word_unat_eq_iff)
  show ?thesis
    using assms(2) z find_dentry_eq [OF assms(1) b, of 0 dentry]
    by (simp add: read_dentry_by_name_def strlen_cstr [OF assms(1)] NAME_SIZE_def find_file_def Let_def split: if_splits)
qed

section \<open>Reading file data\<close>

definition file_block :: "mem \<Rightarrow> u32 \<Rightarrow> u32 \<Rightarrow> nat \<Rightarrow> u32" where
  "file_block m bb k b = data_block_at m bb (inode_data_block m (inode_at bb k) (of_nat b))"

definition file_byte :: "mem \<Rightarrow> u32 \<Rightarrow> u32 \<Rightarrow> nat \<Rightarrow> u8" where
  "file_byte m bb k j = m (file_block m bb k (j div 4096) + of_nat (j mod 4096))"

definition file_size :: "mem \<Rightarrow> u32 \<Rightarrow> u32 \<Rightarrow> nat" where
  "file_size m bb k = unat (inode_length m (inode_at bb k))"

text \<open>
  A file of a well-formed image of \<open>blocks\<close> blocks: its inode number is in range, its size
  fits the 1023 block numbers of an inode, and all its blocks lie inside the image.
\<close>

definition file_ok :: "mem \<Rightarrow> u32 \<Rightarrow> nat \<Rightarrow> u32 \<Rightarrow> bool" where
  "file_ok m bb blocks k \<longleftrightarrow>
     blocks \<le> 2 ^ 20 \<and> k < num_inodes m bb \<and> unat (num_inodes m bb) < blocks \<and> file_size m bb k \<le> 1023 * 4096 \<and>
     list_all (\<lambda>b. unat (num_inodes m bb) + 1 + unat (inode_data_block m (inode_at bb k) (of_nat b)) < blocks)
       [0..<(file_size m bb k + 4095) div 4096]"

definition same_image :: "mem \<Rightarrow> mem \<Rightarrow> u32 \<Rightarrow> nat \<Rightarrow> bool" where
  "same_image m m' bb n \<longleftrightarrow> (\<forall>j<n. m' (bb + of_nat j) = m (bb + of_nat j))"

lemma same_image_write:
  assumes "disjoint_regions a n bb k" "length xs \<le> n" "n \<le> 2 ^ 32" "k \<le> 2 ^ 32"
  shows "same_image m (write_bytes m a xs) bb k"
  unfolding same_image_def using write_bytes_disjoint_read [OF assms(1-3) _ assms(4)] by blast

lemma same_image_read32:
  assumes "same_image m m' bb n" "j + 3 < n"
  shows "read32 m' (bb + of_nat j) = read32 m (bb + of_nat j)"
proof (rule read32_cong)
  fix i :: nat assume "i < 4"
  then have "m' (bb + of_nat (j + i)) = m (bb + of_nat (j + i))" using assms by (simp add: same_image_def del: of_nat_add)
  then show "m' (bb + of_nat j + of_nat i) = m (bb + of_nat j + of_nat i)" by (simp add: add.assoc)
qed

lemma same_num_inodes:
  assumes same: "same_image m m' bb (blocks * 4096)" and ok: "file_ok m bb blocks k"
  shows "num_inodes m' bb = num_inodes m bb"
  using same_image_read32 [OF same, of 4] ok by (simp add: num_inodes_def file_ok_def)

lemma same_data_block:
  assumes same: "same_image m m' bb (blocks * 4096)" and ok: "file_ok m bb blocks k" and b: "b < 1023"
  shows "inode_data_block m' (inode_at bb k) (of_nat b) = inode_data_block m (inode_at bb k) (of_nat b)"
proof -
  have "inode_at bb k + 4 + 4 * of_nat b = bb + of_nat ((unat k + 1) * 4096 + 4 + 4 * b)"
    by (simp add: inode_at_def algebra_simps)
  moreover have "(unat k + 1) * 4096 + 4 + 4 * b + 3 < blocks * 4096"
    using ok b by (simp add: file_ok_def word_less_nat_alt)
  ultimately show ?thesis unfolding inode_data_block_def using same_image_read32 [OF same] by presburger
qed

lemma same_inode_length:
  assumes same: "same_image m m' bb (blocks * 4096)" and ok: "file_ok m bb blocks k"
  shows "inode_length m' (inode_at bb k) = inode_length m (inode_at bb k)"
proof -
  have "inode_at bb k = bb + of_nat ((unat k + 1) * 4096)" by (simp add: inode_at_def)
  moreover have "(unat k + 1) * 4096 + 3 < blocks * 4096" using ok by (simp add: file_ok_def word_less_nat_alt)
  ultimately show ?thesis unfolding inode_length_def using same_image_read32 [OF same] by presburger
qed

lemma same_file_block:
  assumes same: "same_image m m' bb (blocks * 4096)" and ok: "file_ok m bb blocks k" and b: "b < 1023"
  shows "file_block m' bb k b = file_block m bb k b"
  by (simp add: file_block_def data_block_at_def same_num_inodes [OF same ok] same_data_block [OF same ok b])

lemma same_file_byte:
  assumes same: "same_image m m' bb (blocks * 4096)" and ok: "file_ok m bb blocks k" and j: "j < file_size m bb k"
  shows "m' (file_block m bb k (j div 4096) + of_nat (j mod 4096)) = file_byte m bb k j"
proof -
  let ?b = "unat (inode_data_block m (inode_at bb k) (of_nat (j div 4096)))" and ?n = "unat (num_inodes m bb)"
  have "j div 4096 < (file_size m bb k + 4095) div 4096" using j by linarith
  then have lt: "?n + 1 + ?b < blocks" using ok by (auto simp: file_ok_def list_all_iff)
  have "file_block m bb k (j div 4096) + of_nat (j mod 4096) = bb + of_nat ((?n + 1 + ?b) * 4096 + j mod 4096)"
    by (simp add: file_block_def data_block_at_def algebra_simps)
  moreover have "(?n + 1 + ?b) * 4096 + j mod 4096 < blocks * 4096" using lt by simp
  ultimately show ?thesis using same by (simp add: same_image_def file_byte_def del: of_nat_add of_nat_mult)
qed

lemma sint_small: "j < 2 ^ 31 \<Longrightarrow> sint (of_nat j :: u32) smod 4096 = int (j mod 4096) \<and> sint (of_nat j :: u32) sdiv 4096 = int (j div 4096)"
  by (simp add: sint_of_nat_u32 smod_nonneg sdiv_nonneg zdiv_int zmod_int)

lemma read_loop_eq:
  assumes ok: "file_ok m bb blocks k" and dis: "disjoint_regions buf (fin - off) bb (blocks * 4096)"
    and fin: "fin \<le> file_size m bb k"
  shows "off \<le> i \<Longrightarrow> i \<le> fin \<Longrightarrow> (i mod 4096 \<noteq> 0 \<Longrightarrow> db = file_block m bb k (i div 4096)) \<Longrightarrow>
    read_loop bb (inode_at bb k) buf (of_nat off) (of_nat fin) db (of_nat i)
      (write_bytes m buf (map (file_byte m bb k) [off..<i])) =
    write_bytes m buf (map (file_byte m bb k) [off..<fin])"
proof (induction "fin - i" arbitrary: i db)
  case 0
  then show ?case by (subst read_loop.simps) simp
next
  case (Suc d)
  let ?m = "write_bytes m buf (map (file_byte m bb k) [off..<i])"
  have i: "i < fin" using Suc.hyps(2) by simp
  have small: "fin \<le> 1023 * 4096" using ok fin by (simp add: file_ok_def)
  then have lt: "(of_nat i :: u32) < of_nat fin" using i by (simp add: word_less_nat_alt unat_of_nat_u32)
  have sz: "blocks * 4096 \<le> 2 ^ 32" using ok by (simp add: file_ok_def)
  have same: "same_image m ?m bb (blocks * 4096)"
    using i small sz by (intro same_image_write [OF dis]) auto
  have blk: "i div 4096 < 1023" using i small by linarith
  define db' where "db' = (if i mod 4096 = 0 then file_block ?m bb k (i div 4096) else db)"
  have db': "db' = file_block m bb k (i div 4096)"
    using Suc.prems(3) same_file_block [OF same ok blk] by (simp add: db'_def)
  have "?m (db' + of_nat (i mod 4096)) = file_byte m bb k i"
    using same_file_byte [OF same ok, of i] i fin unfolding db' by simp
  moreover have "write_bytes m buf (map (file_byte m bb k) [off..<Suc i]) =
      ?m(buf + (of_nat i - of_nat off) := file_byte m bb k i)"
    using Suc.prems(1) by (simp add: write_bytes_snoc of_nat_diff)
  moreover have "read_loop bb (inode_at bb k) buf (of_nat off) (of_nat fin) db (of_nat i) ?m =
      read_loop bb (inode_at bb k) buf (of_nat off) (of_nat fin) db' (of_nat (Suc i))
        (?m(buf + (of_nat i - of_nat off) := ?m (db' + of_nat (i mod 4096))))"
    using lt sint_small [of i] i small
    by (subst read_loop.simps) (simp add: BLOCK_SIZE_def db'_def file_block_def add.commute [of 1] Let_def)
  moreover have "read_loop bb (inode_at bb k) buf (of_nat off) (of_nat fin) db' (of_nat (Suc i))
      (write_bytes m buf (map (file_byte m bb k) [off..<Suc i])) = write_bytes m buf (map (file_byte m bb k) [off..<fin])"
  proof (rule Suc.hyps(1))
    assume "Suc i mod 4096 \<noteq> 0"
    then have "Suc i div 4096 = i div 4096" by (simp add: div_Suc)
    then show "db' = file_block m bb k (Suc i div 4096)" using db' by simp
  qed (use Suc i in auto)
  ultimately show ?case by simp
qed

lemma file_size_less: "file_ok m bb blocks k \<Longrightarrow> file_size m bb k < 2 ^ 31"
  by (simp add: file_ok_def)

lemma read_data_eq:
  fixes s :: "'a file_sys_scheme" and off :: nat and k len :: u32
  defines "m \<equiv> memory s" and "bb \<equiv> boot_block s"
  defines "n \<equiv> min (unat len) (file_size m bb k - off)"
  assumes ok: "file_ok m bb blocks k" and off: "off \<le> file_size m bb k" and buf: "buf \<noteq> 0"
    and nowrap: "off + unat len < 2 ^ 32" and dis: "disjoint_regions buf n bb (blocks * 4096)"
  shows "read_data k (of_nat off) buf len s =
    (int n, s\<lparr>memory := write_bytes m buf (map (file_byte m bb k) [off..<off + n])\<rparr>)"
proof -
  let ?L = "inode_length m (inode_at bb k)"
  have L: "unat ?L = file_size m bb k" by (simp add: file_size_def)
  have lt: "file_size m bb k < 2 ^ 31" using ok by (rule file_size_less)
  have uo: "unat (of_nat off :: u32) = off" using off lt by (simp add: unat_of_nat_u32)
  have past: "of_nat off + len > ?L \<longleftrightarrow> file_size m bb k < off + unat len"
    using unat_add_nowrap [of "of_nat off" "unat len"] nowrap by (simp only: uo L of_nat_unat_u32 word_less_nat_alt)
  have nb: "(if of_nat off + len > ?L then ?L - of_nat off else len) = of_nat n"
  proof (cases "file_size m bb k < off + unat len")
    case True
    then have "n = file_size m bb k - off" by (simp add: n_def)
    moreover have "of_nat (file_size m bb k) = ?L" by (simp add: file_size_def)
    ultimately show ?thesis using True off by (simp add: past of_nat_diff)
  next
    case False
    then have "n = unat len" using off by (simp add: n_def)
    then show ?thesis using False by (simp add: past)
  qed
  have fin: "of_nat off + of_nat n = (of_nat (off + n) :: u32)" by simp
  have blk: "(of_nat off :: u32) div of_nat BLOCK_SIZE = of_nat (off div 4096)"
  proof (rule word_unat_eq_iff [THEN iffD2])
    have "unat (of_nat (off div 4096) :: u32) = off div 4096" using lt off by (intro unat_of_nat_u32) simp
    then show "unat ((of_nat off :: u32) div of_nat BLOCK_SIZE) = unat (of_nat (off div 4096) :: u32)"
      using uo by (simp add: BLOCK_SIZE_def unat_div)
  qed
  have "read_loop bb (inode_at bb k) buf (of_nat off) (of_nat (off + n)) (file_block m bb k (off div 4096)) (of_nat off)
      (write_bytes m buf (map (file_byte m bb k) [off..<off])) = write_bytes m buf (map (file_byte m bb k) [off..<off + n])"
    using dis off by (intro read_loop_eq [OF ok]) (auto simp: n_def)
  moreover have "\<not> (of_nat off :: u32) > ?L" using uo L off by (simp add: word_less_nat_alt)
  moreover have "\<not> k \<ge> num_inodes m bb" using ok by (auto simp: file_ok_def)
  moreover have "sint (of_nat n :: u32) = int n" using lt by (intro sint_of_nat_u32) (simp add: n_def)
  ultimately show ?thesis
    using buf by (simp add: read_data_def Let_def nb fin blk file_block_def del: of_nat_add flip: m_def bb_def)
qed

section \<open>The operations on files and directories\<close>

lemma zero_name_eq:
  "n < 2 ^ 32 \<Longrightarrow>
   zero_name n a m = write_bytes m a (replicate (length (takeWhile (\<lambda>c. c \<noteq> 0) (read_bytes m a n))) 0)"
proof (induction n arbitrary: a m)
  case 0
  then show ?case by simp
next
  case (Suc n)
  have "read_bytes (m(a := 0)) (a + 1) n = read_bytes m (a + 1) n"
  proof (rule read_bytes_cong)
    fix i assume "i < n"
    then have "unat (of_nat (Suc i) :: u32) = Suc i" using Suc.prems by (intro unat_of_nat_u32) simp
    then have "(of_nat (Suc i) :: u32) \<noteq> 0" by (metis nat.simps(3) unat_0)
    then have "a + 1 + of_nat i \<noteq> a" by (simp add: add.assoc)
    then show "(m(a := 0)) (a + 1 + of_nat i) = m (a + 1 + of_nat i)" by simp
  qed
  then show ?case using Suc by (simp add: read_bytes_Suc)
qed

definition name_zeros :: "mem \<Rightarrow> u32 \<Rightarrow> u8 list" where
  "name_zeros m a = replicate (length (takeWhile (\<lambda>c. c \<noteq> 0) (read_bytes m a 32))) 0"

lemma zero_name_32: "zero_name NAME_SIZE a m = write_bytes m a (name_zeros m a)"
  by (simp add: zero_name_eq NAME_SIZE_def name_zeros_def)

lemma length_name_zeros: "length (name_zeros m a) \<le> 32"
  using length_takeWhile_le [of _ "read_bytes m a 32"] by (simp add: name_zeros_def)

lemma same_file_ok:
  assumes same: "same_image m m' bb (blocks * 4096)" and ok: "file_ok m bb blocks k"
  shows "file_ok m' bb blocks k" "file_size m' bb k = file_size m bb k"
    and "j < file_size m bb k \<Longrightarrow> file_byte m' bb k j = file_byte m bb k j"
proof -
  show size: "file_size m' bb k = file_size m bb k"
    by (simp add: file_size_def same_inode_length [OF same ok])
  have small: "b < 1023" if "b < (file_size m bb k + 4095) div 4096" for b
    using that ok unfolding file_ok_def by linarith
  show "file_ok m' bb blocks k"
    using ok size small by (auto simp: file_ok_def list_all_iff same_num_inodes [OF same ok] same_data_block [OF same ok])
  show "file_byte m' bb k j = file_byte m bb k j" if "j < file_size m bb k"
  proof -
    have "j div 4096 < 1023" using that ok unfolding file_ok_def by linarith
    then show ?thesis
      using same_file_byte [OF same ok that] same_file_block [OF same ok] by (simp add: file_byte_def [of m'])
  qed
qed

lemma file_read_eq:
  fixes s :: "'a file_sys_scheme" and off :: nat and nbytes fd :: int
  defines "m \<equiv> memory s" and "bb \<equiv> boot_block s" and "k \<equiv> word_of_int fd"
  defines "n \<equiv> min (nat nbytes) (file_size m bb k - off)"
  assumes ok: "file_ok m bb blocks k" and off: "off \<le> file_size m bb k" and buf: "buf \<noteq> 0"
    and nb: "0 \<le> nbytes" "nbytes < 2 ^ 31" and dis: "disjoint_regions buf (max 32 n) bb (blocks * 4096)"
  shows "file_read fd buf nbytes (of_nat off) s =
    (int n, s\<lparr>memory := write_bytes (write_bytes m buf (name_zeros m buf)) buf (map (file_byte m bb k) [off..<off + n])\<rparr>)"
proof -
  let ?m = "write_bytes m buf (name_zeros m buf)"
  have un: "unat (word_of_int nbytes :: u32) = nat nbytes"
    using nb by (simp add: unsigned_of_int take_bit_int_eq_self)
  have lt: "file_size m bb k < 2 ^ 31" using ok by (rule file_size_less)
  have same: "same_image m ?m bb (blocks * 4096)"
    using length_name_zeros [of m buf] lt ok by (intro same_image_write [OF dis]) (auto simp: n_def file_ok_def)
  note keep = same_file_ok [OF same ok]
  have "read_data k (of_nat off) buf (word_of_int nbytes) (s\<lparr>memory := ?m\<rparr>) =
    (int n, s\<lparr>memory := write_bytes ?m buf (map (file_byte ?m bb k) [off..<off + n])\<rparr>)"
    using read_data_eq [of "s\<lparr>memory := ?m\<rparr>" blocks k off buf "word_of_int nbytes"] keep off buf nb lt un
      disjoint_regions_prefix [OF dis, of n "blocks * 4096"]
    by (simp add: n_def flip: bb_def)
  moreover have "map (file_byte ?m bb k) [off..<off + n] = map (file_byte m bb k) [off..<off + n]"
    using off by (auto simp: n_def keep(3))
  ultimately show ?thesis by (simp add: file_read_def zero_name_32 flip: m_def k_def)
qed

lemma file_read_bytes:
  assumes "file_ok (memory s) (boot_block s) blocks (word_of_int fd)" "off \<le> file_size (memory s) (boot_block s) (word_of_int fd)"
    and "buf \<noteq> 0" "0 \<le> nbytes" "nbytes < 2 ^ 31"
    and "n = min (nat nbytes) (file_size (memory s) (boot_block s) (word_of_int fd) - off)"
    and "disjoint_regions buf (max 32 n) (boot_block s) (blocks * 4096)"
    and "file_read fd buf nbytes (of_nat off) s = (r, s')"
  shows "r = int n"
    and "read_bytes (memory s') buf n = map (file_byte (memory s) (boot_block s) (word_of_int fd)) [off..<off + n]"
    and "\<not> in_region x buf (max 32 n) \<Longrightarrow> memory s' x = memory s x"
proof -
  let ?d = "map (file_byte (memory s) (boot_block s) (word_of_int fd)) [off..<off + n]"
  let ?z = "write_bytes (memory s) buf (name_zeros (memory s) buf)"
  have "file_read fd buf nbytes (of_nat off) s = (int n, s\<lparr>memory := write_bytes ?z buf ?d\<rparr>)"
    using file_read_eq [of s blocks fd off buf nbytes] assms by simp
  then have r: "r = int n" and m: "memory s' = write_bytes ?z buf ?d" using assms(8) by auto
  show "r = int n" by (rule r)
  have len: "n < 2 ^ 31" using file_size_less [OF assms(1)] assms(6) by simp
  then show "read_bytes (memory s') buf n = ?d" using read_write_bytes [of ?d ?z buf] m by simp
  show "memory s' x = memory s x" if "\<not> in_region x buf (max 32 n)"
    using that len length_name_zeros [of "memory s" buf] unfolding m
    by (auto simp: write_bytes_apply in_region_def)
qed

lemma load_program_eq:
  fixes s :: "'a file_sys_scheme" and fd :: int
  defines "k \<equiv> word_of_int fd"
  assumes ok: "file_ok (memory s) (boot_block s) blocks k" and addr: "addr \<noteq> 0"
    and dis: "disjoint_regions addr (max 32 (file_size (memory s) (boot_block s) k)) (boot_block s) (blocks * 4096)"
  obtains s' where "load_program fd addr s = (0, s')"
    and "read_bytes (memory s') addr (file_size (memory s) (boot_block s) k) =
      map (file_byte (memory s) (boot_block s) k) [0..<file_size (memory s) (boot_block s) k]"
    and "\<And>x. \<not> in_region x addr (max 32 (file_size (memory s) (boot_block s) k)) \<Longrightarrow> memory s' x = memory s x"
proof -
  let ?n = "file_size (memory s) (boot_block s) k"
  have lt: "?n < 2 ^ 31" using ok by (rule file_size_less)
  then have len: "sint (inode_length (memory s) (inode_at (boot_block s) k)) = int ?n"
    using sint_of_nat_u32 [of ?n] by (simp add: file_size_def)
  obtain r s' where rd: "file_read fd addr (int ?n) (of_nat 0) s = (r, s')" by fastforce
  note spec = file_read_bytes [OF ok [unfolded k_def] le0 addr _ _ _ _ rd [unfolded k_def], of "?n", folded k_def]
  have r: "r = int ?n" and b: "read_bytes (memory s') addr ?n = map (file_byte (memory s) (boot_block s) k) [0..<?n]"
    and x: "\<And>x. \<not> in_region x addr (max 32 ?n) \<Longrightarrow> memory s' x = memory s x"
    using spec lt dis by simp_all
  have "boot_block s' = boot_block s"
    using rd by (auto simp: file_read_def read_data_def Let_def split: if_splits)
  moreover have "same_image (memory s) (memory s') (boot_block s) (blocks * 4096)"
    unfolding same_image_def using x disjoint_regionsD [OF dis] ok
    by (auto simp: file_ok_def intro!: x in_region_offset dest: disjoint_regionsD [OF dis])
  ultimately have "inode_length (memory s') (inode_at (boot_block s') k) = of_nat ?n"
    using same_inode_length [OF _ ok] by (simp add: file_size_def)
  then have "load_program fd addr s = (0, s')"
    using rd r by (simp add: load_program_def k_def [symmetric] len \<open>boot_block s' = boot_block s\<close>)
  then show ?thesis using that b x by blast
qed

lemma cstr_takeWhile:
  assumes "length (takeWhile (\<lambda>c. c \<noteq> 0) (read_bytes m a n)) < n" "n \<le> 2 ^ 32"
  shows "cstr_at m a (takeWhile (\<lambda>c. c \<noteq> 0) (read_bytes m a n))"
proof (rule cstr_atI)
  let ?w = "takeWhile (\<lambda>c. c \<noteq> 0) (read_bytes m a n)"
  show "length ?w < 2 ^ 32" using assms by simp
  show "0 \<notin> set ?w" by (auto dest: set_takeWhileD)
  show "m (a + of_nat i) = ?w ! i" if "i < length ?w" for i
    using that takeWhile_nth [OF that] assms by simp
  show "m (a + of_nat (length ?w)) = 0"
    using nth_length_takeWhile [of "\<lambda>c. c \<noteq> 0" "read_bytes m a n"] assms by simp
qed

lemma read_bytes_image:
  "same_image m m' bb n \<Longrightarrow> j + l \<le> n \<Longrightarrow> read_bytes m' (bb + of_nat j) l = read_bytes m (bb + of_nat j) l"
proof (rule read_bytes_cong)
  fix i assume "same_image m m' bb n" "j + l \<le> n" "i < l"
  then have "m' (bb + of_nat (j + i)) = m (bb + of_nat (j + i))" by (simp add: same_image_def del: of_nat_add)
  then show "m' (bb + of_nat j + of_nat i) = m (bb + of_nat j + of_nat i)" by (simp add: add.assoc)
qed

lemma dentry_bytes_image:
  assumes "same_image m m' bb 4096" "i < 63"
  shows "read_bytes m' (dentry_at bb i) 64 = read_bytes m (dentry_at bb i) 64"
proof -
  have "dentry_at bb i = bb + of_nat (64 + 64 * i)" by (simp add: dentry_at_def)
  then show ?thesis using read_bytes_image [OF assms(1), of "64 + 64 * i" 64] assms(2) by simp
qed

lemma dir_read_eq:
  fixes s :: "'a file_sys_scheme" and i :: nat
  defines "name \<equiv> file_name (memory s) (boot_block s) i"
  assumes i: "i < 63" and dir: "dir \<noteq> 0" and name: "length name < 32" and nb: "0 \<le> nbytes" "nbytes < 2 ^ 31"
    and d1: "disjoint_regions buf 32 (boot_block s) 4096"
    and d2: "disjoint_regions buf 32 dir 64"
  obtains s' where "dir_read dir fd buf nbytes (of_nat i) s = Some (min nbytes (int (length name)), s')"
    and "read_bytes (memory s') buf (min (nat nbytes) (length name)) = take (nat nbytes) name"
    and "\<And>x. \<not> in_region x buf 32 \<Longrightarrow> \<not> in_region x dir 64 \<Longrightarrow> memory s' x = memory s x"
proof -
  let ?bb = "boot_block s" and ?n = "min (nat nbytes) (length name)"
  let ?m1 = "write_bytes (memory s) buf (name_zeros (memory s) buf)"
  let ?e = "read_bytes (memory s) (dentry_at ?bb i) 64"
  let ?m2 = "write_bytes ?m1 dir ?e"
  let ?m3 = "write_bytes ?m2 buf (take ?n name)"
  have "same_image (memory s) ?m1 ?bb 4096"
    using length_name_zeros [of "memory s" buf] by (intro same_image_write [OF d1]) auto
  then have e: "read_bytes ?m1 (dentry_at ?bb i) 64 = ?e" using i by (rule dentry_bytes_image)
  have "read_bytes ?m2 dir 64 = ?e" using read_write_bytes [of ?e ?m1 dir] by simp
  then have "read_bytes ?m2 dir 32 = read_bytes (memory s) (dentry_at ?bb i) 32"
    by (metis read_bytes_add [of _ _ 32 32] append_eq_append_conv length_read_bytes numeral_Bit0)
  then have nm: "takeWhile (\<lambda>c. c \<noteq> 0) (read_bytes ?m2 dir 32) = name" by (simp add: name_def file_name_def)
  then have str: "cstr_at ?m2 dir name" using cstr_takeWhile [of ?m2 dir 32] name by simp
  have ui: "unat (of_nat i :: u32) = i" using i by (simp add: unat_of_nat_u32)
  have idx: "read_dentry_by_index (of_nat i) dir (s\<lparr>memory := ?m1\<rparr>) = (SUCCESS, s\<lparr>memory := ?m2\<rparr>)"
    using i dir ui e by (simp add: read_dentry_by_index_def copy_dentry_def fs_consts word_le_nat_alt)
  have un: "unat (word_of_int nbytes :: u32) = nat nbytes"
    using nb by (simp add: unsigned_of_int take_bit_int_eq_self)
  have ul: "unat (of_nat (length name) :: u32) = length name" using name by (simp add: unat_of_nat_u32)
  have n: "(if word_of_int nbytes > (of_nat (length name) :: u32) then sint (of_nat (length name) :: u32) else nbytes) =
      min nbytes (int (length name))"
    using nb name by (auto simp: word_less_nat_alt un ul sint_of_nat_u32 min_def)
  have uw: "unat (word_of_int (min nbytes (int (length name))) :: u32) = ?n"
    using nb name by (simp add: unsigned_of_int take_bit_int_eq_self min_def nat_le_iff)
  have cp: "strncpy ?m2 buf dir (word_of_int (min nbytes (int (length name)))) = ?m3"
    using strncpy_eq [of ?m2 dir name "word_of_int (min nbytes (int (length name)))" buf] str name uw
      disjoint_regions_prefix [OF d2, of ?n "Suc (length name)"] by (simp add: cstr_at_def)
  let ?s = "s\<lparr>memory := ?m3\<rparr>"
  have "dir_read dir fd buf nbytes (of_nat i) s = Some (min nbytes (int (length name)), ?s)"
    using cp n by (simp add: dir_read_def zero_name_32 idx strlen_cstr [OF str] SUCCESS_def Let_def)
  moreover have "read_bytes (memory ?s) buf ?n = take (nat nbytes) name"
    using read_write_bytes [of "take ?n name" ?m2 buf] name by (cases "nat nbytes \<le> length name") simp_all
  moreover have "memory ?s x = memory s x" if "\<not> in_region x buf 32" "\<not> in_region x dir 64" for x
    using that name length_name_zeros [of "memory s" buf] by (auto simp: write_bytes_apply in_region_def)
  ultimately show ?thesis by (rule that)
qed

section \<open>Reading a file from end to end\<close>

text \<open>
  The contract a reader in pieces relies on: a read at an offset returns the next \<open>chunk\<close>
  bytes of the contents, fewer only at the end, and changes neither the contents nor the
  conditions of the next read. The client is the loop of \<open>cat\<close> and of every other program
  that reads until it gets nothing.
\<close>

locale chunked_reader =
  fixes ok :: "'s \<Rightarrow> bool" and content :: "'s \<Rightarrow> u8 list" and chunk :: nat
    and read_chunk :: "nat \<Rightarrow> 's \<Rightarrow> u8 list \<times> 's"
  assumes chunk_pos: "ok s \<Longrightarrow> 0 < chunk"
    and read_result: "ok s \<Longrightarrow> off \<le> length (content s) \<Longrightarrow> fst (read_chunk off s) = take chunk (drop off (content s))"
    and read_ok: "ok s \<Longrightarrow> off \<le> length (content s) \<Longrightarrow> ok (snd (read_chunk off s))"
    and read_content: "ok s \<Longrightarrow> off \<le> length (content s) \<Longrightarrow> content (snd (read_chunk off s)) = content s"
begin

primrec read_all :: "nat \<Rightarrow> nat \<Rightarrow> 's \<Rightarrow> u8 list \<times> 's" where
  "read_all 0 off s = ([], s)"
| "read_all (Suc fuel) off s =
     (let (xs, s') = read_chunk off s
      in if xs = [] then ([], s')
         else let (ys, s'') = read_all fuel (off + length xs) s' in (xs @ ys, s''))"

lemma read_all_content:
  assumes "ok s" "off \<le> length (content s)" "length (content s) - off < fuel"
  shows "fst (read_all fuel off s) = drop off (content s)"
  using assms
proof (induction fuel arbitrary: off s)
  case 0
  then show ?case by simp
next
  case (Suc fuel)
  obtain xs s' where rd: "read_chunk off s = (xs, s')" by fastforce
  then have xs: "xs = take chunk (drop off (content s))" and s': "ok s'" "content s' = content s"
    using read_result [of s off] read_ok [of s off] read_content [of s off] Suc.prems by auto
  show ?case
  proof (cases "xs = []")
    case True
    then show ?thesis using rd xs chunk_pos [OF Suc.prems(1)] by simp
  next
    case False
    then have "length xs > 0" "off + length xs \<le> length (content s)"
      using xs Suc.prems(2) by auto
    then have "off + length xs \<le> length (content s')" "length (content s') - (off + length xs) < fuel"
      unfolding s'(2) using Suc.prems(3) by linarith+
    then have "fst (read_all fuel (off + length xs) s') = drop (off + length xs) (content s)"
      using s' by (simp add: Suc.IH)
    moreover have "xs @ drop (off + length xs) (content s) = drop off (content s)"
      using xs by (metis append_take_drop_id drop_drop add.commute append_eq_conv_conj)
    ultimately show ?thesis using rd False by (simp add: case_prod_beta)
  qed
qed

end

definition file_content :: "int \<Rightarrow> 'a file_sys_scheme \<Rightarrow> u8 list" where
  "file_content fd s =
     map (file_byte (memory s) (boot_block s) (word_of_int fd)) [0..<file_size (memory s) (boot_block s) (word_of_int fd)]"

definition reader_ok :: "int \<Rightarrow> u32 \<Rightarrow> nat \<Rightarrow> nat \<Rightarrow> 'a file_sys_scheme \<Rightarrow> bool" where
  "reader_ok fd buf n blocks s \<longleftrightarrow>
     file_ok (memory s) (boot_block s) blocks (word_of_int fd) \<and> buf \<noteq> 0 \<and> 0 < n \<and> n < 2 ^ 31 \<and>
     disjoint_regions buf (max 32 n) (boot_block s) (blocks * 4096)"

definition file_chunk :: "int \<Rightarrow> u32 \<Rightarrow> nat \<Rightarrow> nat \<Rightarrow> 'a file_sys_scheme \<Rightarrow> u8 list \<times> 'a file_sys_scheme" where
  "file_chunk fd buf n off s =
     (let (r, s') = file_read fd buf (int n) (of_nat off) s in (read_bytes (memory s') buf (nat r), s'))"

lemma boot_block_file_read: "file_read fd buf n off s = (r, s') \<Longrightarrow> boot_block s' = boot_block s"
  by (auto simp: file_read_def read_data_def Let_def split: if_splits)

lemma reader_step:
  assumes ok: "reader_ok fd buf n blocks s" and off: "off \<le> length (file_content fd s)"
  shows "fst (file_chunk fd buf n off s) = take n (drop off (file_content fd s))"
    and "reader_ok fd buf n blocks (snd (file_chunk fd buf n off s))"
    and "file_content fd (snd (file_chunk fd buf n off s)) = file_content fd s"
proof -
  let ?m = "memory s" and ?bb = "boot_block s" and ?k = "word_of_int fd"
  let ?c = "min n (file_size ?m ?bb ?k - off)"
  obtain r s' where rd: "file_read fd buf (int n) (of_nat off) s = (r, s')" by fastforce
  have fok: "file_ok ?m ?bb blocks ?k" and dis: "disjoint_regions buf (max 32 n) ?bb (blocks * 4096)"
    and misc: "buf \<noteq> 0" "0 < n" "n < 2 ^ 31" using ok by (simp_all add: reader_ok_def)
  have sz: "off \<le> file_size ?m ?bb ?k" using off by (simp add: file_content_def)
  have d: "disjoint_regions buf (max 32 ?c) ?bb (blocks * 4096)"
    by (rule disjoint_regions_prefix [OF dis]) auto
  note spec = file_read_bytes [OF fok sz misc(1) _ _ _ d rd]
  have r: "r = int ?c" and b: "read_bytes (memory s') buf ?c = map (file_byte ?m ?bb ?k) [off..<off + ?c]"
    and x: "\<And>x. \<not> in_region x buf (max 32 ?c) \<Longrightarrow> memory s' x = ?m x" using spec misc(3) by simp_all
  have same: "same_image ?m (memory s') ?bb (blocks * 4096)"
    unfolding same_image_def using fok
    by (auto simp: file_ok_def intro!: x in_region_offset dest: disjoint_regionsD [OF d])
  have bb: "boot_block s' = ?bb" using rd by (rule boot_block_file_read)
  have "map (file_byte ?m ?bb ?k) [off..<off + ?c] = take n (drop off (file_content fd s))"
    using sz by (intro nth_equalityI) (auto simp: file_content_def)
  then show "fst (file_chunk fd buf n off s) = take n (drop off (file_content fd s))"
    using rd r b by (simp add: file_chunk_def)
  show "reader_ok fd buf n blocks (snd (file_chunk fd buf n off s))"
    using rd bb dis misc same_file_ok(1) [OF same fok] by (simp add: file_chunk_def reader_ok_def)
  show "file_content fd (snd (file_chunk fd buf n off s)) = file_content fd s"
    using rd bb same_file_ok(2,3) [OF same fok] by (simp add: file_chunk_def file_content_def)
qed

interpretation reader: chunked_reader "reader_ok fd buf n blocks" "file_content fd" n "file_chunk fd buf n"
  for fd buf n blocks
  by unfold_locales (simp_all add: reader_step, simp add: reader_ok_def)

section \<open>Main properties\<close>

text \<open>
  A concrete image of three blocks at 5 MB: one directory entry, the file \<open>hi\<close> with inode 0,
  28 bytes long, an executable's header with entry point \<open>0x08048000\<close>.
\<close>

definition demo_file :: "u8 list" where
  "demo_file = [0x7F, 0x45, 0x4C, 0x46, 0, 0, 0, 0, 0, 0, 0, 0, 0, 0, 0, 0, 0, 0, 0, 0, 0, 0, 0, 0, 0, 0x80, 4, 8]"

definition demo_image :: "(u32 \<times> u8 list) list" where
  "demo_image = [(0x500000, [1, 0, 0, 0, 1, 0, 0, 0, 1, 0, 0, 0]), (0x500040, [0x68, 0x69]), (0x500060, [2, 0, 0, 0, 0, 0, 0, 0]),
     (0x501000, [28, 0, 0, 0, 0, 0, 0, 0]), (0x502000, demo_file)]"

definition demo_fs :: "(u32 \<times> u8 list) list \<Rightarrow> file_sys" where
  "demo_fs segs = paging.extend (demo_paging\<lparr>memory := mem_of (segs @ demo_image)\<rparr>) (file_sys.fields 0x500000)"

lemma demo_fs_sel [simp]: "memory (demo_fs segs) = mem_of (segs @ demo_image)" "boot_block (demo_fs segs) = 0x500000"
  by (simp_all add: demo_fs_def demo_paging_def paging.defs file_sys.defs)

lemma demo_file_ok: "file_ok (mem_of demo_image) 0x500000 3 0" and demo_file_size: "file_size (mem_of demo_image) 0x500000 0 = 28"
  by (simp_all add: file_ok_def num_inodes_def file_size_def inode_length_def inode_data_block_def inode_at_def read32_def
      mem_of_def demo_image_def demo_file_def)

lemma demo_file_block: "file_block (mem_of demo_image) 0x500000 0 0 = 0x502000"
  by (simp add: file_block_def data_block_at_def num_inodes_def inode_data_block_def inode_at_def read32_def mem_of_def demo_image_def demo_file_def)

lemma demo_file_bytes: "map (file_byte (mem_of demo_image) 0x500000 0) [0..<28] = demo_file"
proof -
  have "map (file_byte (mem_of demo_image) 0x500000 0) [0..<28] = read_bytes (mem_of demo_image) 0x502000 28"
    by (simp add: read_bytes_def file_byte_def demo_file_block)
  also have "\<dots> = demo_file"
    by (simp add: read_bytes_def upt_rec mem_of_def demo_image_def demo_file_def)
  finally show ?thesis .
qed

text \<open>
  C16: \<open>read_dentry_by_name\<close>. For every C string the search returns; it succeeds exactly when
  the name is not empty and one of the 63 directory slots carries it (compared over the 32
  characters a slot can hold), it then copies the first such slot, and otherwise returns -1
  and changes nothing.
\<close>
theorem read_dentry_by_name_first_match:
  assumes "cstr_at (memory s) fname xs" "dentry \<noteq> 0"
  shows "\<exists>r s'. read_dentry_by_name fname dentry s = Some (r, s') \<and>
    (if xs \<noteq> [] \<and> (\<exists>i<63. file_name (memory s) (boot_block s) i = take 32 xs)
     then r = 0 \<and> (\<exists>i<63. file_name (memory s) (boot_block s) i = take 32 xs \<and>
            (\<forall>j<i. file_name (memory s) (boot_block s) j \<noteq> take 32 xs) \<and>
            read_bytes (memory s') dentry 64 = read_bytes (memory s) (dentry_at (boot_block s) i) 64)
     else r = -1 \<and> s' = s)"
proof (cases "find_file (memory s) (boot_block s) xs")
  case None
  then have "\<not> (\<exists>i<63. file_name (memory s) (boot_block s) i = take 32 xs)"
    by (auto simp: find_file_def find_None_iff)
  then show ?thesis using None read_dentry_by_name_eq [OF assms] by (auto simp: FAILURE_def)
next
  case (Some i)
  then have i: "i < 63" "file_name (memory s) (boot_block s) i = take 32 xs" "\<forall>j<i. file_name (memory s) (boot_block s) j \<noteq> take 32 xs"
    by (auto simp: find_file_def find_Some_iff)
  have "read_bytes (memory (copy_dentry dentry i s)) dentry 64 = read_bytes (memory s) (dentry_at (boot_block s) i) 64"
    using read_write_bytes [of "read_bytes (memory s) (dentry_at (boot_block s) i) 64" "memory s" dentry] by (simp add: copy_dentry_def)
  then show ?thesis using Some i read_dentry_by_name_eq [OF assms] by (auto simp: FAILURE_def SUCCESS_def)
qed

theorem read_dentry_by_name_first_match_witness:
  "\<exists>r s'. read_dentry_by_name 0x1000 0x2000 (demo_fs [(0x1000, [0x68, 0x69])]) = Some (r, s') \<and> r = 0"
proof -
  let ?s = "demo_fs [(0x1000, [0x68, 0x69])]"
  have str: "cstr_at (memory ?s) 0x1000 [0x68, 0x69]"
    by (simp add: cstr_at_def read_bytes_def mem_of_def demo_image_def demo_file_def)
  have "file_name (memory ?s) (boot_block ?s) 0 = [0x68, 0x69]"
    by (simp add: file_name_def read_bytes_def upt_rec dentry_at_def mem_of_def demo_image_def demo_file_def)
  then have "[0x68, 0x69 :: u8] \<noteq> [] \<and> (\<exists>i<63. file_name (memory ?s) (boot_block ?s) i = take 32 [0x68, 0x69])"
    by (intro conjI exI [of _ 0]) simp_all
  note found = if_P [OF this]
  have "(0x2000 :: u32) \<noteq> 0" by simp
  from read_dentry_by_name_first_match [OF str this, unfolded found] show ?thesis by blast
qed

text \<open>
  C15: \<open>file_read\<close> (through \<open>read_data\<close> and its block-by-block loop). For a file of a
  well-formed image, a position up to its end and a buffer outside the image, the call returns
  the smaller of the count asked for and the bytes left, the buffer holds exactly those bytes
  of the file, and no byte changes outside the buffer (of at least 32 bytes: the call first
  clears an old name there).
\<close>
theorem file_read_exact:
  assumes "file_ok (memory s) (boot_block s) blocks (word_of_int inode)"
    and "off \<le> file_size (memory s) (boot_block s) (word_of_int inode)"
    and "buf \<noteq> 0" "0 \<le> nbytes" "nbytes < 2 ^ 31"
    and "n = min (nat nbytes) (file_size (memory s) (boot_block s) (word_of_int inode) - off)"
    and "disjoint_regions buf (max 32 n) (boot_block s) (blocks * 4096)"
  shows "\<exists>s'. file_read inode buf nbytes (of_nat off) s = (int n, s') \<and>
    read_bytes (memory s') buf n = map (file_byte (memory s) (boot_block s) (word_of_int inode)) [off..<off + n] \<and>
    (\<forall>x. \<not> in_region x buf (max 32 n) \<longrightarrow> memory s' x = memory s x)"
proof -
  obtain r s' where "file_read inode buf nbytes (of_nat off) s = (r, s')" by fastforce
  then show ?thesis using file_read_bytes [OF assms(1-7)] by blast
qed

theorem file_read_exact_witness:
  "\<exists>s'. file_read 0 0x1000 100 0 (demo_fs []) = (28, s') \<and> read_bytes (memory s') 0x1000 28 = demo_file"
proof -
  have prem: "file_ok (memory (demo_fs [])) (boot_block (demo_fs [])) 3 (word_of_int 0)"
    "file_size (memory (demo_fs [])) (boot_block (demo_fs [])) (word_of_int 0) = 28"
    by (simp_all add: demo_file_ok demo_file_size)
  have dis: "disjoint_regions 0x1000 (max 32 28) (boot_block (demo_fs [])) (3 * 4096)" by (simp add: disjoint_regions_def)
  obtain s' where s': "file_read 0 0x1000 100 (of_nat 0) (demo_fs []) = (int 28, s')"
    and "read_bytes (memory s') 0x1000 28 = map (file_byte (memory (demo_fs [])) (boot_block (demo_fs [])) (word_of_int 0)) [0..<0 + 28]"
    using file_read_exact [OF prem(1) _ _ _ _ _ dis, of 0 100] prem(2) by auto
  moreover have "map (file_byte (memory (demo_fs [])) (boot_block (demo_fs [])) (word_of_int 0)) [0..<0 + 28] = demo_file"
    using demo_file_bytes by (simp only: demo_fs_sel append_Nil word_of_int_0 add_0)
  ultimately show ?thesis by (intro exI [of _ s']) simp
qed

text \<open>
  \<open>dir_read\<close>. For each of the 63 slots whose name has fewer than 32 characters, the call
  returns the smaller of the count asked for and the length of the name, and the buffer starts
  with that part of the name; only the 32 bytes of the buffer and the local entry change.
\<close>
theorem dir_read_name:
  assumes "i < 63" "dir \<noteq> 0" "length (file_name (memory s) (boot_block s) i) < 32" "0 \<le> nbytes" "nbytes < 2 ^ 31"
    and "disjoint_regions buf 32 (boot_block s) 4096" "disjoint_regions buf 32 dir 64"
  shows "\<exists>s'. dir_read dir fd buf nbytes (of_nat i) s = Some (min nbytes (int (length (file_name (memory s) (boot_block s) i))), s') \<and>
    read_bytes (memory s') buf (min (nat nbytes) (length (file_name (memory s) (boot_block s) i))) =
      take (nat nbytes) (file_name (memory s) (boot_block s) i) \<and>
    (\<forall>x. \<not> in_region x buf 32 \<longrightarrow> \<not> in_region x dir 64 \<longrightarrow> memory s' x = memory s x)"
  using dir_read_eq [OF assms] by blast

theorem dir_read_name_witness:
  "\<exists>s'. dir_read 0x2000 0 0x1000 32 0 (demo_fs []) = Some (2, s') \<and> read_bytes (memory s') 0x1000 2 = [0x68, 0x69]"
proof -
  have "file_name (memory (demo_fs [])) (boot_block (demo_fs [])) 0 = [0x68, 0x69]"
    by (simp add: file_name_def read_bytes_def upt_rec dentry_at_def mem_of_def demo_image_def demo_file_def)
  then have "\<exists>s'. dir_read 0x2000 0 0x1000 32 0 (demo_fs []) = Some (2, s') \<and> read_bytes (memory s') 0x1000 (Suc (Suc 0)) = [0x68, 0x69]"
    using dir_read_name [of 0 "0x2000" "demo_fs []" 32 "0x1000" 0] by (auto simp: disjoint_regions_def)
  then show ?thesis by (simp only: numeral_2_eq_2)
qed

text \<open>
  \<open>read_data\<close> rejects a bad request: an inode number not below the image's count, a
  position past the end of the file, or a NULL buffer gives -1 and leaves the whole state as
  it was.
\<close>
theorem read_data_rejects:
  assumes "num_inodes (memory s) (boot_block s) \<le> k \<or> inode_length (memory s) (inode_at (boot_block s) k) < off \<or> buf = 0"
  shows "read_data k off buf len s = (-1, s)"
  using assms by (auto simp: read_data_def Let_def FAILURE_def)

theorem read_data_rejects_witness: "read_data 7 0 0x1000 4 (demo_fs []) = (-1, demo_fs [])"
  by (rule read_data_rejects) (simp add: num_inodes_def read32_def mem_of_def demo_image_def demo_file_def)

text \<open>
  \<open>file_read\<close> with a negative count. The count reaches \<open>read_data\<close> as a large unsigned
  length, so from the start of a file the call copies the whole file and returns its size
  instead of an error.
\<close>
theorem file_read_negative_count:
  assumes "file_ok (memory s) (boot_block s) blocks (word_of_int inode)" "buf \<noteq> 0" "nbytes < 0" "- (2 ^ 31) \<le> nbytes"
    and "disjoint_regions buf (max 32 (file_size (memory s) (boot_block s) (word_of_int inode))) (boot_block s) (blocks * 4096)"
  shows "\<exists>s'. file_read inode buf nbytes 0 s = (int (file_size (memory s) (boot_block s) (word_of_int inode)), s') \<and>
    read_bytes (memory s') buf (file_size (memory s) (boot_block s) (word_of_int inode)) = file_content inode s"
proof -
  let ?z = "zero_name NAME_SIZE buf (memory s)" and ?k = "word_of_int inode :: u32"
  have le: "file_size (memory s) (boot_block s) ?k < 2 ^ 31" and blk: "blocks \<le> 2 ^ 20"
    using file_size_less [OF assms(1)] assms(1) by (auto simp: file_ok_def)
  have un: "unat (word_of_int nbytes :: u32) = nat (nbytes + 2 ^ 32)"
    using assms(3,4) mod_pos_pos_trivial [of "nbytes + 2 ^ 32" "2 ^ 32"]
    by (simp add: unsigned_of_int take_bit_eq_mod flip: mod_add_self2 [of nbytes "2 ^ 32"])
  have mn: "min (unat (word_of_int nbytes :: u32)) (file_size (memory s) (boot_block s) ?k) = file_size (memory s) (boot_block s) ?k"
    and nw: "unat (word_of_int nbytes :: u32) < 2 ^ 32"
    using un assms(3,4) le by auto
  have same: "same_image (memory s) ?z (boot_block s) (blocks * 4096)"
    using disjoint_regions_prefix [OF assms(5), of 32 "blocks * 4096"] length_name_zeros [of "memory s" buf] blk
    unfolding zero_name_32 by (intro same_image_write) auto
  note keep = same_file_ok [OF same assms(1)]
  have dis: "disjoint_regions buf (min (unat (word_of_int nbytes :: u32)) (file_size ?z (boot_block s) ?k - 0)) (boot_block s) (blocks * 4096)"
    using disjoint_regions_prefix [OF assms(5)] by (simp add: keep(2))
  have "read_data ?k (of_nat 0) buf (word_of_int nbytes) (s\<lparr>memory := ?z\<rparr>) =
      (int (file_size (memory s) (boot_block s) ?k),
       s\<lparr>memory := write_bytes ?z buf (map (file_byte ?z (boot_block s) ?k) [0..<file_size (memory s) (boot_block s) ?k])\<rparr>)"
    using read_data_eq [of "s\<lparr>memory := ?z\<rparr>" blocks ?k 0 buf "word_of_int nbytes"] keep(1,2) assms(2) nw dis
    by (simp add: mn)
  moreover have "map (file_byte ?z (boot_block s) ?k) [0..<file_size (memory s) (boot_block s) ?k] = file_content inode s"
    by (simp add: file_content_def keep(3))
  moreover have "length (file_content inode s) = file_size (memory s) (boot_block s) ?k" by (simp add: file_content_def)
  ultimately show ?thesis
    using read_write_bytes [of "file_content inode s" ?z buf] le by (simp add: file_read_def)
qed

theorem file_read_negative_count_witness:
  "\<exists>s'. file_read 0 0x1000 (-1) 0 (demo_fs []) = (28, s') \<and> read_bytes (memory s') 0x1000 28 = file_content 0 (demo_fs [])"
  using file_read_negative_count [of "demo_fs []" 3 0 "0x1000" "-1"]
  by (simp add: demo_file_ok demo_file_size disjoint_regions_def)

end
