(* ===== verification/Rtc.thy ===== *)
theory Rtc
  imports File_System
begin

text \<open>
  The real-time clock driver of \<open>rtc.c\<close>: initialisation, the periodic interrupt, the
  frequency programming behind \<open>rtc_write\<close>, the blocking \<open>rtc_read\<close>, and the screen refresh
  the interrupt does.
\<close>

definition REGISTERB :: u32 where "REGISTERB = 0x8B"
definition REGISTERC :: u32 where "REGISTERC = 0x0C"
definition A_NO_NMI :: u32 where "A_NO_NMI = 0x8A"
definition REGISTER_B_CONSTANT :: u32 where "REGISTER_B_CONSTANT = 0x40"
definition RTCPORT :: u16 where "RTCPORT = 0x70"
definition RTCDATA :: u16 where "RTCDATA = RTCPORT + 1"
definition RTC_IRQ :: u32 where "RTC_IRQ = 8"
definition CUR_MASK :: u32 where "CUR_MASK = 0xF0"
definition DEFAULT_FREQ :: u32 where "DEFAULT_FREQ = 2"
definition FREQ_UPPER_BOUND :: u32 where "FREQ_UPPER_BOUND = 1024"
definition INITIAL_FREQ :: u32 where "INITIAL_FREQ = 32"

lemmas rtc_consts = REGISTERB_def REGISTERC_def A_NO_NMI_def REGISTER_B_CONSTANT_def RTCPORT_def
  RTCDATA_def RTC_IRQ_def CUR_MASK_def DEFAULT_FREQ_def FREQ_UPPER_BOUND_def INITIAL_FREQ_def

record rtc = file_sys +
  readFlag :: int

section \<open>Operations\<close>

function rate_log :: "u32 \<Rightarrow> u32 \<Rightarrow> u32" where
  "rate_log rate rateCounter =
     (if rate = 0 then rateCounter \<comment> \<open>not reached: the caller's rate is at least 2\<close>
      else if rate \<noteq> 1 then rate_log (drop_bit 1 rate) (rateCounter + 1) else rateCounter)"
  by pat_completeness auto
termination
proof (relation "measure (\<lambda>(rate, c). unat rate)")
  fix rate c :: u32
  assume "rate \<noteq> 0" "rate \<noteq> 1"
  then have "0 < unat rate" by (simp add: unat_gt_0)
  then show "((drop_bit 1 rate, c + 1), rate, c) \<in> measure (\<lambda>(rate, c). unat rate)"
    by (simp add: drop_bit_eq_div unat_div)
qed simp

declare rate_log.simps [simp del]

definition change_rate :: "u32 \<Rightarrow> 'a rtc_scheme \<Rightarrow> 'a rtc_scheme" where
  "change_rate rate s =
     (if rate < DEFAULT_FREQ \<or> rate > FREQ_UPPER_BOUND then s
      else let rateCounter = rate_log rate 0;
               rate = 16 - rateCounter;
               s = disable_irq RTC_IRQ s;
               s = cli s;
               s = outb A_NO_NMI RTCPORT s;
               temp = ucast (inb RTCDATA s) :: u8;
               s = outb A_NO_NMI RTCPORT s;
               s = outb (scast temp AND CUR_MASK OR rate) RTCDATA s;
               s = sti s
           in enable_irq RTC_IRQ s)"

definition initialize_rtc :: "'a rtc_scheme \<Rightarrow> 'a rtc_scheme" where
  "initialize_rtc s =
     (let s = disable_irq RTC_IRQ s;
          s = outb REGISTERB RTCPORT s;
          regB = ucast (inb RTCDATA s) :: u8;
          s = outb REGISTERB RTCPORT s;
          s = outb (scast regB OR REGISTER_B_CONSTANT) RTCDATA s;
          s = change_rate INITIAL_FREQ s
      in enable_irq RTC_IRQ s)"

definition refresh_vidmem :: "'a rtc_scheme \<Rightarrow> 'a rtc_scheme" where
  "refresh_vidmem s =
     (let ct = get_curr_term s
      in if ct = 0 then s\<lparr>memory := memcpy (memory s) VIDEO VID1 FOUR_KB\<rparr>
         else if ct = 1 then s\<lparr>memory := memcpy (memory s) VIDEO VID2 FOUR_KB\<rparr>
         else if ct = 2 then s\<lparr>memory := memcpy (memory s) VIDEO VID3 FOUR_KB\<rparr>
         else s)"

text \<open>The value read from register C is dropped; the read itself re-arms the device.\<close>

definition rtc_int :: "'a rtc_scheme \<Rightarrow> 'a rtc_scheme" where
  "rtc_int s =
     (let s = cli s;
          s = s\<lparr>readFlag := 1\<rparr>;
          s = outb REGISTERC RTCPORT s;
          s = send_eoi RTC_IRQ s;
          s = refresh_vidmem s
      in sti s)"

definition rtc_open :: "u32 \<Rightarrow> 'a rtc_scheme \<Rightarrow> int \<times> 'a rtc_scheme" where
  "rtc_open fileDesc s = (0, s)"

definition rtc_close :: "int \<Rightarrow> 'a rtc_scheme \<Rightarrow> int \<times> 'a rtc_scheme" where
  "rtc_close fileDesc s = (0, s)"

definition rtc_read :: "'a rtc_scheme handler list \<Rightarrow> int \<Rightarrow> u32 \<Rightarrow> int \<Rightarrow> 'a rtc_scheme \<Rightarrow>
    (int \<times> 'a rtc_scheme) option" where
  "rtc_read handlers fd buf fileDesc s = do {
     s \<leftarrow> spin_until (\<lambda>s. readFlag s \<noteq> 0) handlers s;
     Some (0, s\<lparr>readFlag := 0\<rparr>) }"

definition rtc_write :: "int \<Rightarrow> u32 \<Rightarrow> int \<Rightarrow> 'a rtc_scheme \<Rightarrow> int \<times> 'a rtc_scheme" where
  "rtc_write fd buf fileDesc s =
     (if buf = 0 then (-1, s)
      else let rate = ucast (memory s buf) :: u32
           in if rate > FREQ_UPPER_BOUND \<or> rate < DEFAULT_FREQ then (-1, s)
              else if rate AND (rate - 1) \<noteq> 0 then (-1, s)
              else (0, change_rate rate s))"

section \<open>The programmed frequency\<close>

text \<open>
  What the low nibble of register A means to the device: a divider of the 32768 Hz base
  clock.
\<close>

definition rtc_frequency :: "u8 \<Rightarrow> nat" where
  "rtc_frequency regA = 32768 div 2 ^ (unat (regA AND 0xF) - 1)"

lemma rate_log_power: "k < 32 \<Longrightarrow> rate_log (2 ^ k) c = c + of_nat k"
proof (induction k arbitrary: c)
  case 0
  then show ?case by (subst rate_log.simps) simp
next
  case (Suc k)
  have h: "drop_bit 1 (2 ^ Suc k :: u32) = 2 ^ k"
    using Suc.prems by (intro bit_word_eqI) (auto simp: bit_simps)
  have b: "bit (2 ^ Suc k :: u32) (Suc k)" using Suc.prems by (simp add: bit_simps del: power_Suc)
  have "(2 ^ Suc k :: u32) \<noteq> 0" "(2 ^ Suc k :: u32) \<noteq> 1"
    using b by (auto simp: bit_simps simp del: power_Suc dest: arg_cong [where f = "\<lambda>w. bit w (Suc k)"])
  then show ?case
    using Suc h by (subst rate_log.simps) (simp del: power_Suc)
qed

text \<open>
  \<open>change_rate\<close> for a power of two in range: the byte it leaves in register A keeps the high
  nibble the device reported and selects exactly that frequency, and the clock's line is
  enabled when it returns.
\<close>

lemma change_rate_programs:
  assumes "1 \<le> k" "k \<le> 10"
  obtains v where "last_out RTCDATA (io_log (change_rate (2 ^ k) s)) = Some v" "rtc_frequency v = 2 ^ k"
proof -
  have k: "k \<in> {1, 2, 3, 4, 5, 6, 7, 8, 9, 10}" using assms unfolding insert_iff empty_iff by presburger
  obtain r where r: "last_out RTCDATA (io_log (change_rate (2 ^ k) s)) = Some r"
    "\<exists>t. r = ucast (scast (t :: u8) AND CUR_MASK OR (16 - of_nat k) :: u32)"
  proof -
    have "\<not> ((2 :: u32) ^ k < DEFAULT_FREQ \<or> FREQ_UPPER_BOUND < 2 ^ k)" using k by (auto simp: rtc_consts)
    then show ?thesis
      using that rate_log_power [of k 0] assms
      by (simp add: change_rate_def Let_def enable_irq_def disable_irq_def pic_consts rtc_consts) blast
  qed
  then obtain t :: u8 where t: "r = ucast (scast t AND CUR_MASK OR (16 - of_nat k) :: u32)" by blast
  have "r AND 0xF = ucast (16 - of_nat k :: u32)"
  proof -
    have c: "CUR_MASK = push_bit 4 (mask 4)" "(0xF :: u8) = mask 4"
      by (simp_all add: CUR_MASK_def mask_eq_exp_minus_1)
    have "(ucast (scast t AND CUR_MASK :: u32) :: u8) AND 0xF = 0"
      unfolding c by (rule bit_word_eqI) (auto simp: bit_simps)
    moreover have "(ucast (16 - of_nat k :: u32) :: u8) AND 0xF = ucast (16 - of_nat k :: u32)" using k by auto
    moreover have "ucast (a OR b) AND c = (ucast a AND c) OR (ucast b AND c)" for a b :: u32 and c :: u8
      by (rule bit_word_eqI) (auto simp: bit_simps)
    ultimately show ?thesis unfolding t by simp
  qed
  then have "rtc_frequency r = 2 ^ k" using k by (auto simp: rtc_frequency_def)
  with r(1) that show ?thesis by blast
qed

lemma change_rate_frame [simp]:
  "memory (change_rate r s) = memory s" "device (change_rate r s) = device s"
  by (simp_all add: change_rate_def Let_def)

lemma rtc_enabled_change_rate:
  assumes "DEFAULT_FREQ \<le> r" "r \<le> FREQ_UPPER_BOUND"
  shows "enabled_irqs (change_rate r s) = insert 8 (enabled_irqs s)"
proof -
  have f: "enabled_irqs (cli t) = enabled_irqs t" "enabled_irqs (sti t) = enabled_irqs t" for t :: "'a rtc_scheme"
    by (simp_all add: enabled_irqs_def irq_enabled_def cli_def sti_def)
  show ?thesis
    using assms by (auto simp: change_rate_def Let_def enabled_enable_irq enabled_disable_irq f RTC_IRQ_def)
qed

text \<open>The bit test of \<open>rtc_write\<close> on a byte, by running through all of them.\<close>

lemma power_test_bytes:
  "list_all (\<lambda>n. (word_of_nat n :: u32) AND (word_of_nat n - 1) = 0 \<longrightarrow> n < 2 \<or> n \<in> set [2, 4, 8, 16, 32, 64, 128]) [0..<256]"
  by code_simp

lemma power_of_two_u8:
  fixes b :: u8
  assumes "(ucast b :: u32) AND (ucast b - 1) = 0" "(2 :: u32) \<le> ucast b"
  obtains k where "1 \<le> k" "k \<le> 7" "ucast b = (2 :: u32) ^ k"
proof -
  have lt: "unat b < 256" using unsigned_less [of b] by simp
  have b: "(ucast b :: u32) = word_of_nat (unat b)" by simp
  have "\<not> unat b < 2" using assms(2) lt unfolding b word_le_nat_alt by (simp add: unat_of_nat_u32 del: of_nat_unat)
  then have "unat b \<in> {2, 4, 8, 16, 32, 64, 128}"
    using power_test_bytes [unfolded list_all_iff, THEN bspec, of "unat b"] lt assms(1) unfolding b by auto
  then have "unat b \<in> (\<lambda>k. 2 ^ k) ` {1, 2, 3, 4, 5, 6, 7 :: nat}" by simp
  then obtain k :: nat where k: "k \<in> {1, 2, 3, 4, 5, 6, 7}" "unat b = 2 ^ k" by blast
  then have "(ucast b :: u32) = 2 ^ k" unfolding b by (simp add: of_nat_power del: of_nat_unat)
  moreover have "1 \<le> k" "k \<le> 7" using k(1) by auto
  ultimately show ?thesis by (intro that)
qed

section \<open>Properties\<close>

lemma vid_disjoint: "disjoint_regions VIDEO 4096 VID1 4096" "disjoint_regions VIDEO 4096 VID2 4096" "disjoint_regions VIDEO 4096 VID3 4096"
  by (simp_all add: disjoint_regions_def console_consts)

lemma refresh_vidmem_eq:
  assumes "curr_term s < 3"
  shows "refresh_vidmem s = s\<lparr>memory := write_bytes (memory s) VIDEO (read_bytes (memory s) (page (curr_term s)) 4096)\<rparr>"
proof -
  have "unat FOUR_KB = 4096" by (simp add: FOUR_KB_def)
  then have cp: "memcpy m VIDEO v FOUR_KB = write_bytes m VIDEO (read_bytes m v 4096)" if "v \<in> {VID1, VID2, VID3}" for m v
    using that vid_disjoint by (auto simp: memcpy_eq)
  show ?thesis
    using assms by (elim term_cases) (simp_all add: refresh_vidmem_def get_curr_term_def page_def vidmem_pages_def cp)
qed

lemma memory_send_refresh: "curr_term s < 3 \<Longrightarrow>
   memory (rtc_int s) = write_bytes (memory s) VIDEO (read_bytes (memory s) (page (curr_term s)) 4096)"
proof -
  assume t: "curr_term s < 3"
  have c: "curr_term (send_eoi n u) = curr_term u" "curr_term (outb d p u) = curr_term u" "curr_term (cli u) = curr_term u"
    for n d p and u :: "'a rtc_scheme" by (simp_all add: send_eoi_def outb_def cli_def)
  show ?thesis
    using t by (simp add: rtc_int_def Let_def refresh_vidmem_eq c)
qed

lemma rtc_int_flag: "readFlag (rtc_int s) = 1"
  by (simp add: rtc_int_def Let_def refresh_vidmem_def send_eoi_def outb_def cli_def sti_def)

text \<open>A read returns as soon as the clock ticks, whatever handlers ran before the tick.\<close>

lemma rtc_read_returns:
  assumes "int_flag s" "take_interrupts hs s = Some t"
    and "\<And>n u. n \<le> length hs \<Longrightarrow> take_interrupts (take n hs) s = Some u \<Longrightarrow> readFlag u = 0"
  shows "\<exists>s'. rtc_read (hs @ (\<lambda>s. Some (rtc_int s)) # later) fd buf fileDesc s = Some (0, s') \<and> readFlag s' = 0"
proof -
  have "take_interrupt (\<lambda>s. Some (rtc_int s)) t = Some ((rtc_int (t\<lparr>int_flag := False\<rparr>))\<lparr>int_flag := int_flag t\<rparr>)" (is "_ = Some ?v")
    by (simp add: take_interrupt_def)
  moreover have "readFlag ?v \<noteq> 0" by (simp add: rtc_int_flag)
  ultimately have "spin_until (\<lambda>s. readFlag s \<noteq> 0) (hs @ (\<lambda>s. Some (rtc_int s)) # later) s = Some ?v"
    using assms by (intro spin_until_returns) simp_all
  then show ?thesis by (simp add: rtc_read_def)
qed

section \<open>Main properties\<close>

lemma spin_until_eventually:
  assumes "int_flag s" "take_interrupts hs s = Some t" "\<And>u. \<exists>v. take_interrupt h u = Some v \<and> p v"
  shows "\<exists>v. spin_until p (hs @ h # later) s = Some v"
  using assms(1,2)
proof (induction hs arbitrary: s)
  case Nil
  obtain v where v: "take_interrupt h s = Some v" "p v" using assms(3) by blast
  then have "spin_until p later v = Some v" by (simp add: spin_until_now)
  then show ?case using v Nil by simp
next
  case (Cons g hs)
  show ?case
  proof (cases "p s")
    case True
    then show ?thesis by (simp add: spin_until_now)
  next
    case False
    obtain u where u: "take_interrupt g s = Some u" "take_interrupts hs u = Some t"
      using Cons.prems by (auto split: bind_splits)
    then have "int_flag u" using Cons.prems take_interrupt_flag [OF u(1)] by simp
    then show ?thesis using Cons.IH u Cons.prems(1) False by simp
  qed
qed

lemma rtc_int_readFlag: "\<exists>v. take_interrupt (\<lambda>s. Some (rtc_int s)) u = Some v \<and> readFlag v \<noteq> 0"
  by (simp add: take_interrupt_def rtc_int_flag)

lemma rate_bytes:
  fixes b :: u8
  assumes "b \<in> {2, 4, 8, 16, 32, 64, 128}"
  obtains k where "1 \<le> k" "k \<le> 10" "(ucast b :: u32) = 2 ^ k" "unat b = 2 ^ k" "(2 ^ k :: u32) AND (2 ^ k - 1) = 0"
    and "DEFAULT_FREQ \<le> 2 ^ k" "2 ^ k \<le> FREQ_UPPER_BOUND"
proof -
  have "{2, 4, 8, 16, 32, 64, 128} = (\<lambda>k. 2 ^ k :: u8) ` {1, 2, 3, 4, 5, 6, 7}" by simp
  then obtain k where "k \<in> {1, 2, 3, 4, 5, 6, 7 :: nat}" "b = 2 ^ k" using assms by (auto simp only:)
  then show ?thesis by (intro that [of k]) (auto simp: rtc_consts)
qed

text \<open>
  C31: \<open>rtc_write\<close>. The byte at the buffer is accepted exactly when it is a power of two from 2
  to 128; the call then returns 0, the last byte sent to the clock's data port selects that
  frequency in Hz, and the clock's interrupt line is unmasked. Any other byte, and a NULL
  buffer, gives -1 and leaves the state alone.
\<close>
theorem rtc_write_frequency:
  "if buf \<noteq> 0 \<and> memory s buf \<in> {2, 4, 8, 16, 32, 64, 128}
   then \<exists>s' v. rtc_write fd buf n s = (0, s') \<and> last_out RTCDATA (io_log s') = Some v \<and>
          rtc_frequency v = unat (memory s buf) \<and> enabled_irqs s' = insert 8 (enabled_irqs s)
   else rtc_write fd buf n s = (-1, s)"
proof (cases "buf \<noteq> 0 \<and> memory s buf \<in> {2, 4, 8, 16, 32, 64, 128}")
  case True
  then obtain k where k: "1 \<le> k" "k \<le> 10" "(ucast (memory s buf) :: u32) = 2 ^ k" "unat (memory s buf) = 2 ^ k"
    "(2 ^ k :: u32) AND (2 ^ k - 1) = 0" "DEFAULT_FREQ \<le> 2 ^ k" "2 ^ k \<le> FREQ_UPPER_BOUND"
    using rate_bytes by blast
  obtain v where v: "last_out RTCDATA (io_log (change_rate (2 ^ k) s)) = Some v" "rtc_frequency v = 2 ^ k"
    using change_rate_programs [OF k(1,2)] by blast
  have "rtc_write fd buf n s = (0, change_rate (2 ^ k) s)"
    using True k(3,5,6,7) by (simp add: rtc_write_def Let_def not_less flip: not_le)
  moreover have "enabled_irqs (change_rate (2 ^ k) s) = insert 8 (enabled_irqs s)"
    using k(6,7) by (rule rtc_enabled_change_rate)
  ultimately show ?thesis unfolding if_P [OF True] using v k(4) by (intro exI conjI) simp_all
next
  case False
  have "rtc_write fd buf n s = (-1, s)"
  proof (rule ccontr)
    assume "rtc_write fd buf n s \<noteq> (-1, s)"
    then have b: "buf \<noteq> 0" and t: "(ucast (memory s buf) :: u32) AND (ucast (memory s buf) - 1) = 0" "(2 :: u32) \<le> ucast (memory s buf)"
      by (auto simp: rtc_write_def Let_def rtc_consts not_less split: if_splits)
    obtain k where k: "1 \<le> k" "k \<le> 7" "ucast (memory s buf) = (2 :: u32) ^ k" using power_of_two_u8 [OF t] by blast
    then have "k = 1 \<or> k = 2 \<or> k = 3 \<or> k = 4 \<or> k = 5 \<or> k = 6 \<or> k = 7" by linarith
    then have "ucast (memory s buf) \<in> {2, 4, 8, 16, 32, 64, 128 :: u32}" using k(3) by auto
    then have "ucast (ucast (memory s buf) :: u32) \<in> (ucast :: u32 \<Rightarrow> u8) ` {2, 4, 8, 16, 32, 64, 128}" by (rule imageI)
    then show False using False b by simp
  qed
  then show ?thesis using False by simp
qed

text \<open>
  C30: \<open>rtc_read\<close> is not stuck. With interrupts on, whatever handlers run first (as long as each
  of them returns), the read returns 0 at the latest when the clock's own interrupt comes, and
  leaves the flag clear for the next read.
\<close>
theorem rtc_read_ends_at_tick:
  assumes "int_flag s" "take_interrupts hs s = Some t"
  shows "\<exists>s'. rtc_read (hs @ (\<lambda>s. Some (rtc_int s)) # later) fd buf n s = Some (0, s') \<and> readFlag s' = 0"
  using spin_until_eventually [OF assms rtc_int_readFlag, of later] by (auto simp: rtc_read_def)

definition demo_rtc :: rtc where
  "demo_rtc = file_sys.extend (demo_fs []) (rtc.fields 0)"

theorem rtc_read_ends_at_tick_witness:
  "\<exists>s'. rtc_read [\<lambda>s. Some s, \<lambda>s. Some (rtc_int s)] 0 0x1000 4 (sti demo_rtc) = Some (0, s') \<and> readFlag s' = 0"
  using rtc_read_ends_at_tick [of "sti demo_rtc" "[\<lambda>s. Some s]" "sti demo_rtc" "[]" 0 "0x1000" 4]
  by (simp add: take_interrupt_def)

text \<open>
  \<open>rtc_int\<close> shows the terminal on display: afterwards the 4 KB of video memory equal the
  page of that terminal, every other byte of memory is unchanged, a waiting \<open>rtc_read\<close> is
  released, no line's mask changes, and interrupts are on.
\<close>
theorem rtc_int_refreshes_display:
  assumes "curr_term s < 3"
  shows "read_bytes (memory (rtc_int s)) VIDEO 4096 = read_bytes (memory s) (page (curr_term s)) 4096 \<and>
    (\<forall>x. \<not> in_region x VIDEO 4096 \<longrightarrow> memory (rtc_int s) x = memory s x) \<and>
    readFlag (rtc_int s) = 1 \<and> enabled_irqs (rtc_int s) = enabled_irqs s \<and> int_flag (rtc_int s)"
proof -
  have "enabled_irqs (rtc_int s) = enabled_irqs s"
  proof -
    have "enabled_irqs (rtc_int s) = enabled_irqs (send_eoi RTC_IRQ s)"
      by (simp add: rtc_int_def refresh_vidmem_def Let_def send_eoi_def outb_def cli_def sti_def enabled_irqs_def irq_enabled_def)
    then show ?thesis by simp
  qed
  moreover have "int_flag (rtc_int s)" by (simp add: rtc_int_def Let_def)
  ultimately show ?thesis
    using read_write_bytes [of "read_bytes (memory s) (page (curr_term s)) 4096" "memory s" VIDEO]
    by (simp add: memory_send_refresh [OF assms] rtc_int_flag write_bytes_outside)
qed

theorem rtc_int_refreshes_display_witness: "readFlag (rtc_int demo_rtc) = 1 \<and> int_flag (rtc_int demo_rtc)"
  using rtc_int_refreshes_display [of demo_rtc]
  by (simp add: demo_rtc_def demo_fs_def demo_paging_def paging.defs file_sys.defs rtc.defs)

end
