(* ===== verification/Process.thy ===== *)
theory Process
  imports Rtc
begin

text \<open>
  The process table of \<open>syscall_handler.c\<close>: file descriptors, process control blocks, the
  arrays of processes and terminals, and the processor state a context switch moves
  (\<open>esp\<close>, \<open>ebp\<close>, \<open>eip\<close>, the segment registers and the task state segment).

  A PCB stands at the bottom of its process's 8 KB kernel stack, so its address is known
  both from the process number (\<open>pcb_of\<close>) and from the stack pointer (\<open>esp AND PCB_BITMASK\<close>).
  Its argument string, the first 1024 bytes, is read and written through pointers and lives
  in flat memory; the other fields are a record indexed by the block's address. The entries
  of a jump table are the names of the functions they point to.
\<close>

definition PCB_BITMASK :: u32 where "PCB_BITMASK = 0xFFFFE000"
definition MAX_OPEN_PROCESSES :: int where "MAX_OPEN_PROCESSES = 6"
definition NUM_TERMINALS :: int where "NUM_TERMINALS = 3"
definition MAX_OPEN_FILES :: int where "MAX_OPEN_FILES = 8"
definition ARGS_SIZE :: nat where "ARGS_SIZE = 1024"
definition K_MEM_END :: u32 where "K_MEM_END = 0x800000"
definition K_STACK_SIZE :: u32 where "K_STACK_SIZE = 0x2000"
definition WORD_SIZE :: u32 where "WORD_SIZE = 4"
definition USR_START_ADDR :: u32 where "USR_START_ADDR = 0x08048000"
definition ADDR_DIST_EIP :: u32 where "ADDR_DIST_EIP = 24"
definition USR_STACK_ADDR :: u32 where "USR_STACK_ADDR = 0x8400000 - WORD_SIZE"
definition STD_FILES :: nat where "STD_FILES = 2"
definition KERNEL_DS :: u32 where "KERNEL_DS = 0x18"
definition USER_CS :: u32 where "USER_CS = 0x23"
definition USER_DS :: u32 where "USER_DS = 0x2B"
definition PIT_IRQ :: u32 where "PIT_IRQ = 0"
definition MCREG :: u16 where "MCREG = 0x43"
definition PIT_MODE :: u32 where "PIT_MODE = 0x36"
definition CHANNEL_0 :: u16 where "CHANNEL_0 = 0x40"
definition FREQ_40HZ :: u32 where "FREQ_40HZ = 29830"
definition BYTEMASK :: u32 where "BYTEMASK = 0xFF"

lemmas proc_consts = PCB_BITMASK_def MAX_OPEN_PROCESSES_def NUM_TERMINALS_def MAX_OPEN_FILES_def ARGS_SIZE_def
  K_MEM_END_def K_STACK_SIZE_def WORD_SIZE_def USR_START_ADDR_def ADDR_DIST_EIP_def USR_STACK_ADDR_def
  STD_FILES_def KERNEL_DS_def USER_CS_def USER_DS_def PIT_IRQ_def MCREG_def PIT_MODE_def CHANNEL_0_def
  FREQ_40HZ_def BYTEMASK_def

section \<open>Data\<close>

datatype fop = No_func | Terminal_read | Terminal_write | Terminal_open | Terminal_close
  | Rtc_read | Rtc_write | Rtc_open | Rtc_close | Dir_read | Dir_write | Dir_open | Dir_close
  | File_read | File_write | File_open | File_close

record fd_t =
  fop_jump_table :: "fop list"
  fd_inode :: int
  fd_file_type :: int
  file_position :: int
  fd_flags :: u32

record pcb_t =
  file_array :: "fd_t list"
  pcb_pid :: int
  leaf :: int
  parent_esp :: u32
  parent_ebp :: u32
  saved_esp :: u32
  saved_ebp :: u32
  parent_pid :: int
  pcb_terminal :: int

record process_sys = rtc +
  pcbs :: "u32 \<Rightarrow> pcb_t"
  process_array :: "int \<Rightarrow> int"
  terminal_array :: "int \<Rightarrow> int"
  curr_terminal :: int
  tss_esp0 :: u32
  tss_ss0 :: u32
  esp :: u32
  ebp :: u32
  eip :: u32
  eflags :: u32
  cs :: u32
  ss :: u32
  ds :: u32

definition nofunc_table :: "fop list" where
  "nofunc_table = [No_func, No_func, No_func, No_func]"

definition std_table :: "fop list list" where
  "std_table = [[Terminal_read, No_func, Terminal_open, Terminal_close],
                [No_func, Terminal_write, Terminal_open, Terminal_close]]"

definition file_table :: "fop list list" where
  "file_table = [[Rtc_read, Rtc_write, Rtc_open, Rtc_close],
                 [Dir_read, Dir_write, Dir_open, Dir_close],
                 [File_read, File_write, File_open, File_close]]"

definition pcb_of :: "int \<Rightarrow> u32" where
  "pcb_of pid = K_MEM_END - word_of_int (pid + 1) * K_STACK_SIZE"

definition update_pcb :: "u32 \<Rightarrow> (pcb_t \<Rightarrow> pcb_t) \<Rightarrow> 'a process_sys_scheme \<Rightarrow> 'a process_sys_scheme" where
  "update_pcb a f s = s\<lparr>pcbs := (pcbs s)(a := f (pcbs s a))\<rparr>"

definition update_fd :: "nat \<Rightarrow> (fd_t \<Rightarrow> fd_t) \<Rightarrow> pcb_t \<Rightarrow> pcb_t" where
  "update_fd i f p = p\<lparr>file_array := (file_array p)[i := f (file_array p ! i)]\<rparr>"

definition get_curr_pcb_term :: "'a process_sys_scheme \<Rightarrow> u32" where
  "get_curr_pcb_term s = word_of_int (pcb_terminal (pcbs s (pcb_of (terminal_array s (curr_terminal s)))))"

section \<open>Process numbers\<close>

text \<open>
  The loop tests \<open>process_array[i]\<close> before the bound, so with all six processes running it
  reads one element past the array; either value ends the loop.
\<close>

function next_pid_from :: "'a process_sys_scheme \<Rightarrow> int \<Rightarrow> int" where
  "next_pid_from s i = (if process_array s i \<noteq> 0 \<and> i < MAX_OPEN_PROCESSES then next_pid_from s (i + 1) else i)"
  by pat_completeness auto
termination
  by (relation "measure (\<lambda>(s, i). nat (MAX_OPEN_PROCESSES - i))") auto

declare next_pid_from.simps [simp del]

definition get_next_pid :: "'a process_sys_scheme \<Rightarrow> int" where
  "get_next_pid s = next_pid_from s 0"

section \<open>Stack, privilege switch and context switch\<close>

definition push32 :: "u32 \<Rightarrow> 'a process_sys_scheme \<Rightarrow> 'a process_sys_scheme" where
  "push32 v s = s\<lparr>esp := esp s - 4, memory := write32 (memory s) (esp s - 4) v\<rparr>"

definition eflags_image :: "'a process_sys_scheme \<Rightarrow> u32" where
  "eflags_image s = (if int_flag s then eflags s OR 0x200 else eflags s AND NOT 0x200)"

definition iret :: "'a process_sys_scheme \<Rightarrow> 'a process_sys_scheme" where
  "iret s =
     (let m = memory s; a = esp s; fl = read32 m (a + 8)
      in s\<lparr>eip := read32 m a, cs := read32 m (a + 4), eflags := fl, int_flag := bit fl 9,
           esp := read32 m (a + 12), ss := read32 m (a + 16)\<rparr>)"

definition leave_ret :: "'a process_sys_scheme \<Rightarrow> 'a process_sys_scheme" where
  "leave_ret s =
     (let m = memory s; a = ebp s
      in s\<lparr>ebp := read32 m a, eip := read32 m (a + 4), esp := a + 8\<rparr>)"

definition return_to_user :: "int \<Rightarrow> 'a process_sys_scheme \<Rightarrow> 'a process_sys_scheme" where
  "return_to_user process_id s =
     (let EIP = read32 (memory s) (USR_START_ADDR + ADDR_DIST_EIP);
          s = s\<lparr>tss_esp0 := K_MEM_END - word_of_int process_id * K_STACK_SIZE - WORD_SIZE\<rparr>;
          s = s\<lparr>tss_ss0 := KERNEL_DS\<rparr>;
          eax = USER_DS AND 0xFF;
          s = s\<lparr>ds := eax\<rparr>;
          s = push32 eax s;
          s = push32 USR_STACK_ADDR s;
          s = push32 (eflags_image s) s;
          s = push32 USER_CS s;
          s = push32 EIP s
      in iret s)"

section \<open>The scheduler\<close>

text \<open>
  \<open>for(next_pid = (cur + 1) % 6; next_pid != cur; next_pid = (next_pid + 1) % 6)\<close> with the
  \<open>break\<close> on an active leaf; \<open>next_pid\<close> is a byte and \<open>cur\<close> an \<open>int\<close>. After its first value
  the loop only visits \<open>0..5\<close>, so a run of seven values without an exit repeats forever and
  has no result: the fuel of seven in \<open>pit_int\<close> loses nothing.
\<close>

definition as_u8 :: "int \<Rightarrow> int" where
  "as_u8 x = uint (word_of_int x :: u8)"

definition runnable :: "'a process_sys_scheme \<Rightarrow> int \<Rightarrow> bool" where
  "runnable s p \<longleftrightarrow> process_array s p \<noteq> 0 \<and> leaf (pcbs s (pcb_of p)) \<noteq> 0"

primrec pick_next :: "nat \<Rightarrow> 'a process_sys_scheme \<Rightarrow> int \<Rightarrow> int \<Rightarrow> int option" where
  "pick_next 0 s cur next_pid = None"
| "pick_next (Suc fuel) s cur next_pid =
     (if next_pid = cur then Some next_pid
      else if runnable s next_pid then Some next_pid
      else pick_next fuel s cur (as_u8 ((next_pid + 1) smod 6)))"

definition pit_int :: "'a process_sys_scheme \<Rightarrow> 'a process_sys_scheme option" where
  "pit_int s =
     (let s = cli s;
          s = send_eoi PIT_IRQ s;
          cur = terminal_array s (curr_terminal s)
      in if cur = -1 then Some s
         else do {
           next_pid \<leftarrow> pick_next 7 s cur (as_u8 ((cur + 1) smod MAX_OPEN_PROCESSES));
           if next_pid = cur then Some s
           else let curr_pcb = pcb_of cur; next_pcb = pcb_of next_pid;
                    s = update_pcb curr_pcb (\<lambda>p. p\<lparr>saved_esp := esp s\<rparr>) s;
                    s = update_pcb curr_pcb (\<lambda>p. p\<lparr>saved_ebp := ebp s\<rparr>) s;
                    s = change_process next_pid s;
                    s = s\<lparr>tss_esp0 := K_MEM_END - K_STACK_SIZE * word_of_int next_pid - WORD_SIZE\<rparr>;
                    s = s\<lparr>curr_terminal := pcb_terminal (pcbs s next_pcb)\<rparr>;
                    s = s\<lparr>esp := saved_esp (pcbs s next_pcb)\<rparr>;
                    s = s\<lparr>ebp := saved_ebp (pcbs s next_pcb)\<rparr>
                in Some (leave_ret s)
         })"

definition initialize_pit :: "'a process_sys_scheme \<Rightarrow> 'a process_sys_scheme" where
  "initialize_pit s =
     (let s = disable_irq PIT_IRQ s;
          s = outb PIT_MODE MCREG s;
          s = outb (FREQ_40HZ AND BYTEMASK) CHANNEL_0 s;
          s = outb (drop_bit 8 FREQ_40HZ AND BYTEMASK) CHANNEL_0 s
      in enable_irq PIT_IRQ s)"

section \<open>PCB addresses\<close>

lemma pcb_of_inj: "valid_pid p \<Longrightarrow> valid_pid q \<Longrightarrow> pcb_of p = pcb_of q \<longleftrightarrow> p = q"
  by (auto dest!: valid_pid_cases simp: pcb_of_def proc_consts)

lemma large_base_13: "take_bit 13 f = f \<Longrightarrow> (push_bit 13 q OR f) AND push_bit 13 (mask 19) = push_bit 13 q" for q f :: u32
  by (rule bit_word_eqI) (auto simp: bit_simps dest: bit_take_bit_self)

text \<open>The two ways the code finds a PCB agree on every kernel stack of a process.\<close>

lemma esp_mask_pcb:
  assumes "valid_pid p" "in_region a (pcb_of p) 0x2000"
  shows "a AND PCB_BITMASK = pcb_of p"
proof -
  obtain i where i: "i < 0x2000" "a = pcb_of p + of_nat i" using assms(2) by (rule in_regionE)
  have m: "PCB_BITMASK = push_bit 13 (mask 19)" by (simp add: PCB_BITMASK_def mask_eq_exp_minus_1)
  obtain q :: u32 where q: "pcb_of p = push_bit 13 q"
    using valid_pid_cases [OF assms(1)] that [of "0x3FF"] that [of "0x3FE"] that [of "0x3FD"] that [of "0x3FC"] that [of "0x3FB"] that [of "0x3FA"]
    by (auto simp: pcb_of_def proc_consts)
  have ui: "take_bit 13 (of_nat i :: u32) = of_nat i"
    using i(1) by (simp add: take_bit_of_nat take_bit_nat_eq_self)
  have "push_bit 13 q + of_nat i = push_bit 13 q OR of_nat i"
  proof (rule disjunctive_add)
    fix n
    show "\<not> bit (push_bit 13 q) n \<or> \<not> bit (of_nat i :: u32) n"
      using bit_take_bit_self [OF ui, of n] by (auto simp: bit_simps)
  qed
  moreover have "(push_bit 13 q OR of_nat i) AND push_bit 13 (mask 19) = (push_bit 13 q :: u32)"
    using large_base_13 [OF ui] by simp
  ultimately show ?thesis using i(2) q m by simp
qed

section \<open>Process numbers are allocated lowest first\<close>

lemma next_pid_from_eq:
  assumes "0 \<le> i" "i \<le> 6"
  shows "i \<le> next_pid_from s i \<and> next_pid_from s i \<le> 6 \<and>
    (next_pid_from s i < 6 \<longrightarrow> process_array s (next_pid_from s i) = 0) \<and>
    (\<forall>j. i \<le> j \<and> j < next_pid_from s i \<longrightarrow> process_array s j \<noteq> 0)"
  using assms
proof (induction "nat (6 - i)" arbitrary: i)
  case 0
  then have "i = 6" by simp
  then show ?case by (simp add: next_pid_from.simps [of s 6] MAX_OPEN_PROCESSES_def)
next
  case (Suc n)
  then have lt: "i < 6" by simp
  show ?case
  proof (cases "process_array s i = 0")
    case True
    then show ?thesis using lt by (simp add: next_pid_from.simps [of s i])
  next
    case False
    have "next_pid_from s i = next_pid_from s (i + 1)"
      using False lt by (simp add: next_pid_from.simps [of s i] MAX_OPEN_PROCESSES_def)
    moreover have "i + 1 \<le> next_pid_from s (i + 1) \<and> next_pid_from s (i + 1) \<le> 6 \<and>
        (next_pid_from s (i + 1) < 6 \<longrightarrow> process_array s (next_pid_from s (i + 1)) = 0) \<and>
        (\<forall>j. i + 1 \<le> j \<and> j < next_pid_from s (i + 1) \<longrightarrow> process_array s j \<noteq> 0)"
      using Suc.hyps(2) Suc.prems lt by (intro Suc.hyps(1)) auto
    moreover have "process_array s j \<noteq> 0" if "i \<le> j" "j < next_pid_from s (i + 1)" for j
      using that False calculation(2) by (cases "j = i") auto
    ultimately show ?thesis by auto
  qed
qed

lemma get_next_pid_spec:
  "0 \<le> get_next_pid s \<and> get_next_pid s \<le> 6"
  "get_next_pid s < 6 \<Longrightarrow> process_array s (get_next_pid s) = 0"
  "0 \<le> j \<Longrightarrow> j < get_next_pid s \<Longrightarrow> process_array s j \<noteq> 0"
  using next_pid_from_eq [of 0 s] by (auto simp: get_next_pid_def)

section \<open>Round robin\<close>

text \<open>
  The choice of the scheduler as a specification: the first runnable process after the
  current one in cyclic order, or the current one when there is no other. The client of the
  locale shows that no runnable process waits for more than five switches.
\<close>

definition in_turn :: "(int \<Rightarrow> bool) \<Rightarrow> int \<Rightarrow> int" where
  "in_turn ready cur =
     (case find ready (map (\<lambda>k. (cur + k) mod 6) [1, 2, 3, 4, 5]) of None \<Rightarrow> cur | Some p \<Rightarrow> p)"

definition turns_to :: "int \<Rightarrow> int \<Rightarrow> nat" where
  "turns_to cur q = nat ((q - cur) mod 6)"

lemma in_turn_valid: "valid_pid cur \<Longrightarrow> valid_pid (in_turn ready cur)"
  by (auto simp: in_turn_def valid_pid_def split: if_splits)

lemma in_turn_ready: "in_turn ready cur \<noteq> cur \<Longrightarrow> ready (in_turn ready cur)"
  by (auto simp: in_turn_def split: if_splits)

lemma in_turn_closer:
  assumes "valid_pid cur" "valid_pid q" "ready q" "q \<noteq> cur"
  shows "turns_to (in_turn ready cur) q < turns_to cur q"
  using assms(1,2) [THEN valid_pid_cases] assms(3,4)
  by (elim disjE) (simp_all add: in_turn_def turns_to_def)

locale turn_scheduler =
  fixes step :: "'s \<Rightarrow> 's option" and current :: "'s \<Rightarrow> int" and ready :: "'s \<Rightarrow> int \<Rightarrow> bool" and inv :: "'s \<Rightarrow> bool"
  assumes inv_current: "inv s \<Longrightarrow> valid_pid (current s)"
    and step_turn: "inv s \<Longrightarrow> \<exists>s'. step s = Some s' \<and> inv s' \<and> current s' = in_turn (ready s) (current s) \<and> ready s' = ready s"
begin

primrec steps :: "nat \<Rightarrow> 's \<Rightarrow> 's option" where
  "steps 0 s = Some s"
| "steps (Suc n) s = do { s' \<leftarrow> step s; steps n s' }"

lemma no_starvation:
  assumes "inv s" "valid_pid q" "ready s q"
  shows "\<exists>n\<le>turns_to (current s) q. \<exists>s'. steps n s = Some s' \<and> current s' = q"
  using assms
proof (induction "turns_to (current s) q" arbitrary: s rule: less_induct)
  case less
  show ?case
  proof (cases "q = current s")
    case True
    then show ?thesis by (intro exI [of _ 0]) simp
  next
    case False
    obtain s' where s': "step s = Some s'" "inv s'" "current s' = in_turn (ready s) (current s)" "ready s' = ready s"
      using step_turn [OF less.prems(1)] by blast
    have cl: "turns_to (current s') q < turns_to (current s) q"
      using in_turn_closer [where ready = "ready s", OF inv_current [OF less.prems(1)] less.prems(2,3) False] s' by simp
    then obtain n s'' where "n \<le> turns_to (current s') q" "steps n s' = Some s''" "current s'' = q"
      using less.hyps [of s'] s' less.prems by auto
    then show ?thesis using s'(1) cl by (intro exI [of _ "Suc n"]) auto
  qed
qed

lemma turns_bound: "turns_to cur q \<le> 5"
  by (simp add: turns_to_def nat_le_iff)

end

text \<open>The search loop of \<open>pit_int\<close> is that choice, and it always ends.\<close>

lemma pick_next_in_turn:
  assumes "valid_pid cur"
  shows "pick_next 7 s cur (as_u8 ((cur + 1) smod 6)) = Some (in_turn (runnable s) cur)"
proof -
  have seven: "(7 :: nat) = Suc (Suc (Suc (Suc (Suc (Suc (Suc 0))))))" by simp
  have small: "as_u8 0 = 0" "as_u8 1 = 1" "as_u8 2 = 2" "as_u8 3 = 3" "as_u8 4 = 4" "as_u8 5 = 5"
    by (simp_all add: as_u8_def)
  have mods: "(1 :: int) smod 6 = 1" "(2 :: int) smod 6 = 2" "(3 :: int) smod 6 = 3" "(4 :: int) smod 6 = 4"
      "(5 :: int) smod 6 = 5" "(6 :: int) smod 6 = 0"
    by (simp_all add: smod_nonneg)
  show ?thesis
    unfolding seven using valid_pid_cases [OF assms]
    by (elim disjE) (simp_all add: in_turn_def small mods)
qed

definition curr_pid :: "'a process_sys_scheme \<Rightarrow> int" where
  "curr_pid s = terminal_array s (curr_terminal s)"

text \<open>
  The scheduler's invariant: the current process is one of the six and runnable, and every
  runnable process is the one its terminal's slot names.
\<close>

definition sched_ok :: "'a process_sys_scheme \<Rightarrow> bool" where
  "sched_ok s \<longleftrightarrow> valid_pid (curr_pid s) \<and> runnable s (curr_pid s) \<and>
     (\<forall>p\<in>{0, 1, 2, 3, 4, 5}. runnable s p \<longrightarrow> terminal_array s (pcb_terminal (pcbs s (pcb_of p))) = p)"

lemma sched_okD: "sched_ok s \<Longrightarrow> valid_pid p \<Longrightarrow> runnable s p \<Longrightarrow> terminal_array s (pcb_terminal (pcbs s (pcb_of p))) = p"
  by (auto simp: sched_ok_def dest: valid_pid_cases)

text \<open>Operations of the lower layers do not touch the process table.\<close>

lemma proc_frame [simp]:
  "pcbs (cli s) = pcbs s" "process_array (cli s) = process_array s" "terminal_array (cli s) = terminal_array s" "curr_terminal (cli s) = curr_terminal s" "esp (cli s) = esp s" "ebp (cli s) = ebp s"
  "pcbs (sti s) = pcbs s" "process_array (sti s) = process_array s" "terminal_array (sti s) = terminal_array s" "curr_terminal (sti s) = curr_terminal s" "esp (sti s) = esp s" "ebp (sti s) = ebp s"
  "pcbs (send_eoi n s) = pcbs s" "process_array (send_eoi n s) = process_array s" "terminal_array (send_eoi n s) = terminal_array s" "curr_terminal (send_eoi n s) = curr_terminal s" "esp (send_eoi n s) = esp s" "ebp (send_eoi n s) = ebp s"
  "pcbs (outb d p s) = pcbs s" "process_array (outb d p s) = process_array s" "terminal_array (outb d p s) = terminal_array s" "curr_terminal (outb d p s) = curr_terminal s" "esp (outb d p s) = esp s" "ebp (outb d p s) = ebp s"
  "pcbs (change_process q s) = pcbs s" "process_array (change_process q s) = process_array s" "terminal_array (change_process q s) = terminal_array s" "curr_terminal (change_process q s) = curr_terminal s" "esp (change_process q s) = esp s" "ebp (change_process q s) = ebp s"
  by (simp_all add: cli_def sti_def send_eoi_def outb_def change_process_def flush_tlb_def load_cr3_def Let_def)

lemma lower_frame [simp]:
  "user_window (send_eoi n s) = user_window s" "frames (send_eoi n s) = frames s"
  "user_window (cli s) = user_window s" "frames (cli s) = frames s"
  by (simp_all add: send_eoi_def outb_def cli_def)

lemma user_content_frame [simp]:
  "user_content q (send_eoi n s) = user_content q s" "user_content q (cli s) = user_content q s"
  by (simp_all add: user_content_def park_frames_def cong: if_cong option.case_cong)

lemma runnable_frame [simp]: "runnable (send_eoi n s) = runnable s" "runnable (cli s) = runnable s"
  by (simp_all add: runnable_def fun_eq_iff)

lemma pit_int_alone:
  assumes "valid_pid (curr_pid s)" "in_turn (runnable s) (curr_pid s) = curr_pid s"
  shows "pit_int s = Some (send_eoi PIT_IRQ (cli s))"
proof -
  have "curr_pid s \<noteq> -1" using assms(1) by (auto simp: valid_pid_def)
  then show ?thesis
    using assms pick_next_in_turn [OF assms(1), of "send_eoi PIT_IRQ (cli s)"]
    by (simp add: pit_int_def Let_def curr_pid_def MAX_OPEN_PROCESSES_def)
qed

definition save_context :: "int \<Rightarrow> 'a process_sys_scheme \<Rightarrow> 'a process_sys_scheme" where
  "save_context p s = update_pcb (pcb_of p) (\<lambda>b. b\<lparr>saved_esp := esp s, saved_ebp := ebp s\<rparr>) s"

definition resume_context :: "int \<Rightarrow> 'a process_sys_scheme \<Rightarrow> 'a process_sys_scheme" where
  "resume_context p s =
     leave_ret ((change_process p s)\<lparr>tss_esp0 := pcb_of p + 0x1FFC, curr_terminal := pcb_terminal (pcbs s (pcb_of p)),
       esp := saved_esp (pcbs s (pcb_of p)), ebp := saved_ebp (pcbs s (pcb_of p))\<rparr>)"

lemma kernel_stack_top: "K_MEM_END - K_STACK_SIZE * word_of_int p - WORD_SIZE = pcb_of p + 0x1FFC"
  by (simp add: pcb_of_def proc_consts algebra_simps)

lemma pit_int_switches:
  assumes "valid_pid (curr_pid s)" "in_turn (runnable s) (curr_pid s) \<noteq> curr_pid s"
  shows "pit_int s = Some (resume_context (in_turn (runnable s) (curr_pid s))
    (save_context (curr_pid s) (send_eoi PIT_IRQ (cli s))))"
proof -
  have "curr_pid s \<noteq> -1" using assms(1) by (auto simp: valid_pid_def)
  then show ?thesis
    using assms pick_next_in_turn [OF assms(1), of "send_eoi PIT_IRQ (cli s)"]
    by (simp add: pit_int_def Let_def curr_pid_def MAX_OPEN_PROCESSES_def resume_context_def save_context_def
        update_pcb_def kernel_stack_top)
qed

lemma save_context_frame [simp]:
  "process_array (save_context p s) = process_array s" "terminal_array (save_context p s) = terminal_array s"
  "curr_terminal (save_context p s) = curr_terminal s" "memory (save_context p s) = memory s"
  "user_window (save_context p s) = user_window s" "frames (save_context p s) = frames s"
  "leaf (pcbs (save_context p s) a) = leaf (pcbs s a)"
  "pcb_terminal (pcbs (save_context p s) a) = pcb_terminal (pcbs s a)"
  "file_array (pcbs (save_context p s) a) = file_array (pcbs s a)"
  by (simp_all add: save_context_def update_pcb_def)

lemma saved_context:
  "saved_esp (pcbs (save_context p s) (pcb_of p)) = esp s" "saved_ebp (pcbs (save_context p s) (pcb_of p)) = ebp s"
  "valid_pid p \<Longrightarrow> valid_pid q \<Longrightarrow> p \<noteq> q \<Longrightarrow> pcbs (save_context p s) (pcb_of q) = pcbs s (pcb_of q)"
  using pcb_of_inj [of p q] by (auto simp: save_context_def update_pcb_def)

lemma resume_context_frame [simp]:
  "pcbs (resume_context p s) = pcbs s" "process_array (resume_context p s) = process_array s"
  "terminal_array (resume_context p s) = terminal_array s"
  "curr_terminal (resume_context p s) = pcb_terminal (pcbs s (pcb_of p))"
  "memory (resume_context p s) = memory (change_process p s)"
  "tss_esp0 (resume_context p s) = pcb_of p + 0x1FFC"
  "user_window (resume_context p s) = Some (user_frame p)" "frames (resume_context p s) = frames (change_process p s)"
  "esp (resume_context p s) = saved_ebp (pcbs s (pcb_of p)) + 8"
  "ebp (resume_context p s) = read32 (memory (change_process p s)) (saved_ebp (pcbs s (pcb_of p)))"
  "eip (resume_context p s) = read32 (memory (change_process p s)) (saved_ebp (pcbs s (pcb_of p)) + 4)"
  by (simp_all add: resume_context_def leave_ret_def Let_def)

lemma user_content_cong:
  "memory s' = memory s \<Longrightarrow> user_window s' = user_window s \<Longrightarrow> frames s' = frames s \<Longrightarrow> user_content q s' = user_content q s"
  by (simp add: user_content_def park_frames_def cong: if_cong option.case_cong)

lemma user_content_context [simp]:
  "user_content q (save_context p s) = user_content q s" "user_content q (resume_context p s) = user_content q s"
proof -
  show "user_content q (save_context p s) = user_content q s" by (rule user_content_cong) simp_all
  have "user_content q (resume_context p s) = user_content q (change_process p s)" by (rule user_content_cong) simp_all
  then show "user_content q (resume_context p s) = user_content q s" by (simp add: content_change_process)
qed

lemma runnable_context [simp]: "runnable (save_context p s) = runnable s" "runnable (resume_context p s) = runnable s"
  by (simp_all add: runnable_def fun_eq_iff)

lemma pit_int_step:
  assumes "sched_ok s"
  shows "\<exists>s'. pit_int s = Some s' \<and> sched_ok s' \<and> curr_pid s' = in_turn (runnable s) (curr_pid s) \<and> runnable s' = runnable s"
proof -
  let ?n = "in_turn (runnable s) (curr_pid s)"
  have v: "valid_pid (curr_pid s)" and r: "runnable s (curr_pid s)" using assms by (simp_all add: sched_ok_def)
  have vn: "valid_pid ?n" using v by (rule in_turn_valid)
  show ?thesis
  proof (cases "?n = curr_pid s")
    case True
    then show ?thesis
      using pit_int_alone [OF v] assms by (simp add: curr_pid_def sched_ok_def)
  next
    case False
    let ?s = "resume_context ?n (save_context (curr_pid s) (send_eoi PIT_IRQ (cli s)))"
    have rn: "runnable s ?n" using in_turn_ready False by blast
    then have "curr_pid ?s = ?n"
      using sched_okD [OF assms vn] by (simp add: curr_pid_def)
    moreover have "sched_ok ?s"
      using assms vn rn calculation by (simp add: sched_ok_def)
    ultimately show ?thesis using pit_int_switches [OF v False] by simp
  qed
qed

interpretation pit: turn_scheduler pit_int curr_pid runnable sched_ok
  using pit_int_step by unfold_locales (auto simp: sched_ok_def)

section \<open>Entering user mode\<close>

lemma read32_write32_below:
  "4 \<le> unat (j - k) \<Longrightarrow> 4 \<le> unat (k - j) \<Longrightarrow> read32 (write32 m (a - j) v) (a - k) = read32 m (a - k)"
  by (rule read32_write32_other) simp_all

lemma return_to_user_frame:
  fixes s :: "'a process_sys_scheme" and p :: int
  defines "s' \<equiv> return_to_user p s"
  shows "eip s' = read32 (memory s) 0x08048018" "esp s' = 0x83FFFFC" "cs s' = USER_CS" "ss s' = USER_DS" "ds s' = USER_DS"
    and "tss_esp0 s' = pcb_of p + 0x1FFC" "tss_ss0 s' = KERNEL_DS" "int_flag s' = int_flag s"
    and "\<not> in_region x (esp s - 20) 20 \<Longrightarrow> memory s' x = memory s x"
proof -
  have b: "bit (v OR 0x200 :: u32) 9" "\<not> bit (v AND NOT 0x200 :: u32) 9" for v
    by (simp_all add: bit_simps bit_numeral_rec numeral_eq_Suc)
  note unf = return_to_user_def Let_def iret_def push32_def algebra_simps proc_consts eflags_image_def
  show "eip s' = read32 (memory s) 0x08048018" "esp s' = 0x83FFFFC" "cs s' = USER_CS" "ss s' = USER_DS" "ds s' = USER_DS"
      "tss_ss0 s' = KERNEL_DS"
    by (simp_all add: s'_def unf) (simp_all add: read32_write32_below mem_simps)
  show "int_flag s' = int_flag s"
    using b by (simp add: s'_def unf) (simp add: read32_write32_below mem_simps)
  show "tss_esp0 s' = pcb_of p + 0x1FFC" using kernel_stack_top [of p] by (simp add: s'_def return_to_user_def Let_def iret_def push32_def mult.commute)
  show "memory s' x = memory s x" if "\<not> in_region x (esp s - 20) 20"
  proof -
    have o: "write32 m (esp s - of_nat k) v x = m x" if "4 \<le> k" "k \<le> 20" for m v k
    proof -
      have "\<not> in_region x (esp s - of_nat k) 4"
      proof
        assume "in_region x (esp s - of_nat k) 4"
        then obtain i where i: "i < 4" "x = esp s - of_nat k + of_nat i" by (rule in_regionE)
        then have "x = esp s - 20 + of_nat (20 - k + i)" using that by (simp add: of_nat_diff)
        moreover have "in_region (esp s - 20 + of_nat (20 - k + i)) (esp s - 20) 20"
          by (rule in_region_offset) (use i that in auto)
        ultimately show False using \<open>\<not> in_region x (esp s - 20) 20\<close> by simp
      qed
      then show ?thesis by (simp add: write32_def write_bytes_outside)
    qed
    show ?thesis
      using o [of 4] o [of 8] o [of 12] o [of 16] o [of 20]
      by (simp add: s'_def return_to_user_def Let_def iret_def push32_def algebra_simps)
  qed
qed

section \<open>Main properties\<close>

text \<open>A concrete process table: the shells of the first two terminals, process 0 running.\<close>

definition demo_pcb :: "int \<Rightarrow> pcb_t" where
  "demo_pcb p = \<lparr>file_array = [], pcb_pid = p, leaf = 1, parent_esp = 0, parent_ebp = 0, saved_esp = pcb_of p + 0x1F00,
     saved_ebp = pcb_of p + 0x1F00, parent_pid = -1, pcb_terminal = p\<rparr>"

definition demo_process :: process_sys where
  "demo_process = rtc.extend demo_rtc (process_sys.fields (\<lambda>a. if a = pcb_of 0 then demo_pcb 0 else demo_pcb 1)
     (\<lambda>p. if p = 0 \<or> p = 1 then 1 else 0) (\<lambda>t. t) 0 0 0 (pcb_of 0 + 0x1F00) (pcb_of 0 + 0x1F00) 0 0 0 0 0)"

lemma demo_process_sel:
  "pcbs demo_process a = (if a = pcb_of 0 then demo_pcb 0 else demo_pcb 1)" "process_array demo_process p = (if p = 0 \<or> p = 1 then 1 else 0)"
  "terminal_array demo_process t = t" "curr_terminal demo_process = 0"
  by (simp_all add: demo_process_def demo_rtc_def demo_fs_def demo_paging_def paging.defs file_sys.defs rtc.defs process_sys.defs)

lemma demo_sched_ok: "sched_ok demo_process" and demo_runnable: "runnable demo_process 1"
  by (simp_all add: sched_ok_def valid_pid_def curr_pid_def runnable_def demo_process_sel demo_pcb_def pcb_of_inj)

text \<open>
  One timer interrupt. From a consistent process table \<open>pit_int\<close> always returns; the
  process that continues is the first runnable one after the current in the cyclic order of
  the six numbers (the current one if there is no other), the table stays consistent, the
  same processes are runnable, and no process's page of user memory changes.
\<close>
theorem pit_int_round_robin:
  assumes "sched_ok s"
  shows "\<exists>s'. pit_int s = Some s' \<and> sched_ok s' \<and> curr_pid s' = in_turn (runnable s) (curr_pid s) \<and> runnable s' = runnable s \<and>
    (\<forall>q. user_content q s' = user_content q s)"
proof -
  have "user_content q s' = user_content q s" if "pit_int s = Some s'" for q s'
  proof (cases "in_turn (runnable s) (curr_pid s) = curr_pid s")
    case True
    then show ?thesis using pit_int_alone [of s] assms that by (simp add: sched_ok_def)
  next
    case False
    then show ?thesis using pit_int_switches [of s] assms that by (auto simp: sched_ok_def)
  qed
  then show ?thesis using pit_int_step [OF assms] by blast
qed

theorem pit_int_round_robin_witness:
  "\<exists>s'. pit_int demo_process = Some s' \<and> curr_pid s' = 1"
proof -
  have "in_turn (runnable demo_process) (curr_pid demo_process) = 1"
    using demo_runnable by (simp add: in_turn_def curr_pid_def demo_process_sel)
  then show ?thesis using pit_int_round_robin [OF demo_sched_ok] by auto
qed

text \<open>Successive timer interrupts.\<close>

primrec pit_ticks :: "nat \<Rightarrow> 'a process_sys_scheme \<Rightarrow> 'a process_sys_scheme option" where
  "pit_ticks 0 s = Some s"
| "pit_ticks (Suc n) s = do { s' \<leftarrow> pit_int s; pit_ticks n s' }"

lemma pit_ticks_steps: "pit_ticks n s = pit.steps n s"
  by (induction n arbitrary: s) simp_all

text \<open>
  No starvation. From a consistent process table every runnable process gets the processor
  within five timer interrupts.
\<close>
theorem pit_int_no_starvation:
  assumes "sched_ok s" "valid_pid q" "runnable s q"
  shows "\<exists>n\<le>5. \<exists>s'. pit_ticks n s = Some s' \<and> curr_pid s' = q"
  using pit.no_starvation [OF assms] pit.turns_bound [of "curr_pid s" q] unfolding pit_ticks_steps by (blast intro: le_trans)

theorem pit_int_no_starvation_witness: "\<exists>n\<le>5. \<exists>s'. pit_ticks n demo_process = Some s' \<and> curr_pid s' = 1"
  by (rule pit_int_no_starvation [OF demo_sched_ok _ demo_runnable]) (simp add: valid_pid_def)

text \<open>
  C11: the context switch. When another process takes over, the stack registers of the outgoing
  one are stored in its own control block, and execution continues in the frame the other
  process saved: its base pointer gives the stack pointer, the caller's base pointer and the
  return address; its page of user memory is mapped, and the next interrupt from user mode
  will use the top of its own kernel stack.
\<close>
theorem pit_int_switches_context:
  assumes "sched_ok s" "in_turn (runnable s) (curr_pid s) = next" "next \<noteq> curr_pid s"
  shows "\<exists>s'. pit_int s = Some s' \<and>
    saved_esp (pcbs s' (pcb_of (curr_pid s))) = esp s \<and> saved_ebp (pcbs s' (pcb_of (curr_pid s))) = ebp s \<and>
    esp s' = saved_ebp (pcbs s (pcb_of next)) + 8 \<and>
    ebp s' = read32 (memory s') (saved_ebp (pcbs s (pcb_of next))) \<and> eip s' = read32 (memory s') (saved_ebp (pcbs s (pcb_of next)) + 4) \<and>
    user_window s' = Some (user_frame next) \<and> tss_esp0 s' = pcb_of next + 0x1FFC"
proof -
  have v: "valid_pid (curr_pid s)" "valid_pid next" using assms(1,2) in_turn_valid [of "curr_pid s" "runnable s"] by (auto simp: sched_ok_def)
  then show ?thesis
    using assms(2,3) pit_int_switches [OF v(1)] saved_context(3) [OF v assms(3) [symmetric], of "send_eoi PIT_IRQ (cli s)"] by (simp add: saved_context(1,2))
qed

theorem pit_int_switches_context_witness:
  "\<exists>s'. pit_int demo_process = Some s' \<and> esp s' = pcb_of 1 + 0x1F08 \<and> user_window s' = Some (user_frame 1)"
proof -
  have "in_turn (runnable demo_process) (curr_pid demo_process) = 1" "1 \<noteq> curr_pid demo_process"
    using demo_runnable by (simp_all add: in_turn_def curr_pid_def demo_process_sel)
  moreover have "saved_ebp (pcbs demo_process (pcb_of 1)) + 8 = pcb_of 1 + 0x1F08"
    by (simp add: demo_process_sel demo_pcb_def pcb_of_inj valid_pid_def)
  ultimately show ?thesis using pit_int_switches_context [OF demo_sched_ok] by metis
qed

text \<open>
  \<open>get_next_pid\<close> returns the lowest free process number, or 6 when none of the six is
  free.
\<close>
theorem get_next_pid_lowest:
  "if \<exists>p. 0 \<le> p \<and> p < 6 \<and> process_array s p = 0
   then 0 \<le> get_next_pid s \<and> get_next_pid s < 6 \<and> process_array s (get_next_pid s) = 0 \<and>
     (\<forall>j. 0 \<le> j \<and> j < get_next_pid s \<longrightarrow> process_array s j \<noteq> 0)
   else get_next_pid s = 6"
proof (cases "\<exists>p. 0 \<le> p \<and> p < 6 \<and> process_array s p = 0")
  case True
  then have "get_next_pid s < 6" using get_next_pid_spec(3) [where s = s] by force
  then show ?thesis using True get_next_pid_spec [where s = s] by auto
next
  case False
  then have "\<not> get_next_pid s < 6" using get_next_pid_spec(1,2) [where s = s] by blast
  then show ?thesis using False get_next_pid_spec(1) [of s] by auto
qed

text \<open>The witness of \<open>get_next_pid_lowest\<close>'s bounded part: with processes 0 and 1 running the next is 2.\<close>

theorem get_next_pid_lowest_witness: "process_array demo_process (get_next_pid demo_process) = 0 \<and> get_next_pid demo_process < 6"
proof -
  have "\<exists>p. 0 \<le> p \<and> p < 6 \<and> process_array demo_process p = 0" by (intro exI [of _ 2]) (simp add: demo_process_sel)
  then show ?thesis using get_next_pid_lowest [of demo_process] by presburger
qed

text \<open>
  The two ways the kernel finds a control block agree: for each of the six processes,
  masking any stack pointer inside its 8 KB kernel stack gives the address computed from its
  number.
\<close>
theorem stack_pointer_finds_pcb:
  assumes "valid_pid p" "in_region a (pcb_of p) 0x2000"
  shows "a AND PCB_BITMASK = pcb_of p"
  using assms by (rule esp_mask_pcb)

theorem stack_pointer_finds_pcb_witness: "(0x7FDEAC :: u32) AND PCB_BITMASK = pcb_of 1"
  by (rule stack_pointer_finds_pcb) (simp_all add: valid_pid_def pcb_of_def in_region_def proc_consts)

text \<open>
  \<open>return_to_user\<close>. The processor continues in user mode at the entry point stored in the
  program's header, with the user code and data segments, the stack at the end of the user
  page and the interrupt flag as it was; the kernel stack for the next interrupt is the
  process's own; and only the five words pushed on the kernel stack change in memory.
\<close>
theorem return_to_user_enters:
  "eip (return_to_user p s) = read32 (memory s) (USR_START_ADDR + 24) \<and> esp (return_to_user p s) = 0x83FFFFC \<and>
   cs (return_to_user p s) = USER_CS \<and> ss (return_to_user p s) = USER_DS \<and> ds (return_to_user p s) = USER_DS \<and>
   int_flag (return_to_user p s) = int_flag s \<and>
   tss_esp0 (return_to_user p s) = pcb_of p + 0x1FFC \<and> tss_ss0 (return_to_user p s) = KERNEL_DS \<and>
   (\<forall>x. \<not> in_region x (esp s - 20) 20 \<longrightarrow> memory (return_to_user p s) x = memory s x)"
  using return_to_user_frame [where s = s and p = p] by (simp add: USR_START_ADDR_def)

theorem return_to_user_enters_witness:
  "cs (return_to_user 0 demo_process) = USER_CS \<and> memory (return_to_user 0 demo_process) 0x1000 = memory demo_process 0x1000"
  using return_to_user_enters [of 0 demo_process]
  by (simp add: in_region_def demo_process_def demo_rtc_def demo_fs_def demo_paging_def paging.defs file_sys.defs rtc.defs process_sys.defs
      pcb_of_def proc_consts)

end
