(* ===== verification/Keyboard.thy ===== *)
theory Keyboard
  imports Process
begin

text \<open>
  The keyboard driver and the terminals of \<open>keyboard.c\<close>: per terminal a 128-byte line buffer
  with its write position, the modifier keys, and the handshake with a reader (\<open>read_lock\<close>,
  \<open>is_enter\<close>). The line buffers are bytes of memory at the address \<open>kbrd_buf\<close>, one row of 128
  after the other, and \<open>kbrd_read_buf\<close> is the address of the transfer buffer; both addresses
  are the linker's and never change.
\<close>

definition SCANCODE_LENGTH :: u8 where "SCANCODE_LENGTH = 0x80"
definition KBRD_IRQ :: u32 where "KBRD_IRQ = 1"
definition KBRD_PORT_DATA :: u16 where "KBRD_PORT_DATA = 0x60"
definition KBRD_PORT :: u16 where "KBRD_PORT = 0x64"
definition KBRD_BUF_LENGTH :: int where "KBRD_BUF_LENGTH = 128"
definition LCTRL_PRESS :: u8 where "LCTRL_PRESS = 0x1D"
definition LCTRL_RELEASE :: u8 where "LCTRL_RELEASE = 0x9D"
definition LSHIFT_PRESS :: u8 where "LSHIFT_PRESS = 0x2A"
definition RSHIFT_PRESS :: u8 where "RSHIFT_PRESS = 0x36"
definition LSHIFT_RELEASE :: u8 where "LSHIFT_RELEASE = 0xAA"
definition RSHIFT_RELEASE :: u8 where "RSHIFT_RELEASE = 0xB6"
definition LALT_PRESS :: u8 where "LALT_PRESS = 0x38"
definition LALT_RELEASE :: u8 where "LALT_RELEASE = 0xB8"
definition CAPS_PRESS :: u8 where "CAPS_PRESS = 0x3A"
definition BACKSPACE_PRESS :: u8 where "BACKSPACE_PRESS = 0x0E"
definition ENTER_PRESS :: u8 where "ENTER_PRESS = 0x1C"
definition F1_SCANCODE :: u8 where "F1_SCANCODE = 0x3B"
definition F2_SCANCODE :: u8 where "F2_SCANCODE = 0x3C"
definition F3_SCANCODE :: u8 where "F3_SCANCODE = 0x3D"
definition L_SCANCODE :: u8 where "L_SCANCODE = 0x6C"
definition NULL_SCANCODE :: u8 where "NULL_SCANCODE = 0"
definition SECOND_TERMINAL_CASE :: int where "SECOND_TERMINAL_CASE = 2"

lemmas kbrd_consts = SCANCODE_LENGTH_def KBRD_IRQ_def KBRD_PORT_DATA_def KBRD_PORT_def KBRD_BUF_LENGTH_def
  LCTRL_PRESS_def LCTRL_RELEASE_def LSHIFT_PRESS_def RSHIFT_PRESS_def LSHIFT_RELEASE_def RSHIFT_RELEASE_def
  LALT_PRESS_def LALT_RELEASE_def CAPS_PRESS_def BACKSPACE_PRESS_def ENTER_PRESS_def F1_SCANCODE_def
  F2_SCANCODE_def F3_SCANCODE_def L_SCANCODE_def NULL_SCANCODE_def SECOND_TERMINAL_CASE_def

section \<open>Scancode tables\<close>

text \<open>The entries after the last initialiser are zero.\<close>

definition kbrdscancode :: "u8 list" where
  "kbrdscancode = [
     0x00, 0x1B, 0x31, 0x32, 0x33, 0x34, 0x35, 0x36, 0x37, 0x38, 0x39, 0x30,
     0x2D, 0x3D, 0x08, 0x20, 0x71, 0x77, 0x65, 0x72, 0x74, 0x79, 0x75, 0x69,
     0x6F, 0x70, 0x5B, 0x5D, 0x0A, 0x00, 0x61, 0x73, 0x64, 0x66, 0x67, 0x68,
     0x6A, 0x6B, 0x6C, 0x3B, 0x27, 0x60, 0x00, 0x5C, 0x7A, 0x78, 0x63, 0x76,
     0x62, 0x6E, 0x6D, 0x2C, 0x2E, 0x2F, 0x00, 0x2A, 0x00, 0x20, 0x00, 0x00,
     0x00, 0x00, 0x00, 0x00, 0x00, 0x00, 0x00, 0x00, 0x00, 0x00, 0x00, 0x00,
     0x00, 0x00, 0x00, 0x00, 0x00, 0x00, 0x00, 0x00, 0x00, 0x00, 0x00, 0x00,
     0x00, 0x00, 0x00, 0x00, 0x00, 0x00] @ replicate 38 0"

definition capskbrdscancode :: "u8 list" where
  "capskbrdscancode = [
     0x00, 0x1B, 0x31, 0x32, 0x33, 0x34, 0x35, 0x36, 0x37, 0x38, 0x39, 0x30,
     0x2D, 0x3D, 0x08, 0x20, 0x51, 0x57, 0x45, 0x52, 0x54, 0x59, 0x55, 0x49,
     0x4F, 0x50, 0x5B, 0x5D, 0x0A, 0x00, 0x41, 0x53, 0x44, 0x46, 0x47, 0x48,
     0x4A, 0x4B, 0x4C, 0x3B, 0x27, 0x60, 0x00, 0x5C, 0x5A, 0x58, 0x43, 0x56,
     0x42, 0x4E, 0x4D, 0x2C, 0x2E, 0x2F, 0x00, 0x2A, 0x00, 0x20, 0x00, 0x00,
     0x00, 0x00, 0x00, 0x00, 0x00, 0x00, 0x00, 0x00, 0x00, 0x00, 0x00, 0x00,
     0x00, 0x00, 0x00, 0x00, 0x00, 0x00, 0x00, 0x00, 0x00, 0x00, 0x00, 0x00,
     0x00, 0x00, 0x00, 0x00, 0x00, 0x00] @ replicate 38 0"

definition shiftkbrdscancode :: "u8 list" where
  "shiftkbrdscancode = [
     0x00, 0x1B, 0x21, 0x40, 0x23, 0x24, 0x25, 0x5E, 0x26, 0x2A, 0x28, 0x29,
     0x5F, 0x2B, 0x08, 0x20, 0x51, 0x57, 0x45, 0x52, 0x54, 0x59, 0x55, 0x49,
     0x4F, 0x50, 0x7B, 0x7D, 0x0A, 0x00, 0x41, 0x53, 0x44, 0x46, 0x47, 0x48,
     0x4A, 0x4B, 0x4C, 0x3A, 0x22, 0x7E, 0x00, 0x7C, 0x5A, 0x58, 0x43, 0x56,
     0x42, 0x4E, 0x4D, 0x3C, 0x3E, 0x3F, 0x00, 0x2A, 0x00, 0x20, 0x00, 0x00,
     0x00, 0x00, 0x00, 0x00, 0x00, 0x00, 0x00, 0x00, 0x00, 0x00, 0x00, 0x00,
     0x00, 0x00, 0x00, 0x00, 0x00, 0x00, 0x00, 0x00, 0x00, 0x00, 0x00, 0x00,
     0x00, 0x00, 0x00, 0x00, 0x00, 0x00] @ replicate 38 0"

definition capsshiftkbrdscancode :: "u8 list" where
  "capsshiftkbrdscancode = [
     0x00, 0x1B, 0x21, 0x40, 0x23, 0x24, 0x25, 0x5E, 0x26, 0x2A, 0x28, 0x29,
     0x5F, 0x2B, 0x08, 0x20, 0x71, 0x77, 0x65, 0x72, 0x74, 0x79, 0x75, 0x69,
     0x6F, 0x70, 0x7B, 0x7D, 0x0A, 0x00, 0x61, 0x73, 0x64, 0x66, 0x67, 0x68,
     0x6A, 0x6B, 0x6C, 0x3A, 0x22, 0x7E, 0x00, 0x7C, 0x7A, 0x78, 0x63, 0x76,
     0x62, 0x6E, 0x6D, 0x3C, 0x3E, 0x3F, 0x00, 0x2A, 0x00, 0x20, 0x00, 0x00,
     0x00, 0x00, 0x00, 0x00, 0x00, 0x00, 0x00, 0x00, 0x00, 0x00, 0x00, 0x00,
     0x00, 0x00, 0x00, 0x00, 0x00, 0x00, 0x00, 0x00, 0x00, 0x00, 0x00, 0x00,
     0x00, 0x00, 0x00, 0x00, 0x00, 0x00] @ replicate 38 0"

section \<open>State\<close>

record keyboard = process_sys +
  read_lock :: "int \<Rightarrow> int"
  kbrd_buf_length :: "int \<Rightarrow> int"
  is_enter :: "int \<Rightarrow> int"
  is_shift :: "int \<Rightarrow> int"
  is_caps :: "int \<Rightarrow> int"
  is_ctrl :: "int \<Rightarrow> int"
  is_alt :: "int \<Rightarrow> int"
  current_terminal :: int
  line_marker :: "int \<Rightarrow> u8"
  kbrd_buf :: u32
  kbrd_read_buf :: u32

definition kbrd_row :: "'a keyboard_scheme \<Rightarrow> int \<Rightarrow> u32" where
  "kbrd_row s t = kbrd_buf s + word_of_int (KBRD_BUF_LENGTH * t)"

section \<open>Terminal operations\<close>

definition terminal_open :: "u32 \<Rightarrow> 'a keyboard_scheme \<Rightarrow> int \<times> 'a keyboard_scheme" where
  "terminal_open filename s = (0, s)"

definition terminal_close :: "u32 \<Rightarrow> 'a keyboard_scheme \<Rightarrow> int \<times> 'a keyboard_scheme" where
  "terminal_close fd s = (if fd = 0 then (-1, s) else (0, s))"

definition set_lock :: "int \<Rightarrow> int \<Rightarrow> 'a keyboard_scheme \<Rightarrow> 'a keyboard_scheme" where
  "set_lock t v s = s\<lparr>read_lock := (read_lock s)(t := v)\<rparr>"

definition set_enter :: "int \<Rightarrow> int \<Rightarrow> 'a keyboard_scheme \<Rightarrow> 'a keyboard_scheme" where
  "set_enter t v s = s\<lparr>is_enter := (is_enter s)(t := v)\<rparr>"

definition set_marker :: "int \<Rightarrow> u8 \<Rightarrow> 'a keyboard_scheme \<Rightarrow> 'a keyboard_scheme" where
  "set_marker t v s = s\<lparr>line_marker := (line_marker s)(t := v)\<rparr>"

definition set_length :: "int \<Rightarrow> int \<Rightarrow> 'a keyboard_scheme \<Rightarrow> 'a keyboard_scheme" where
  "set_length t v s = s\<lparr>kbrd_buf_length := (kbrd_buf_length s)(t := v)\<rparr>"

definition copy_row :: "u32 \<Rightarrow> u32 \<Rightarrow> int \<Rightarrow> mem \<Rightarrow> mem" where
  "copy_row dest src n m = fold (\<lambda>i m. m(dest + of_nat i := m (src + of_nat i))) [0..<nat n] m"

text \<open>The transfer of one line to the reader: \<open>count\<close> is \<open>nbytes\<close> or \<open>KBRD_BUF_LENGTH\<close>.\<close>

definition transfer_line :: "u32 \<Rightarrow> int \<Rightarrow> int \<Rightarrow> 'a keyboard_scheme \<Rightarrow> 'a keyboard_scheme" where
  "transfer_line buf count writeBytes s =
     (let t = current_terminal s; kb = kbrd_row s t; rb = kbrd_read_buf s;
          m = copy_row rb kb (count - 1) (memory s);
          m = m(rb + word_of_int (count - 1) := 0x0A);
          m = memcpy m buf rb (word_of_int count);
          m = memmove m kb (kb + word_of_int count - 1) (word_of_int writeBytes);
          m = memset m (kb + word_of_int writeBytes) (uint NULL_SCANCODE) (word_of_int count)
      in set_marker t (word_of_int writeBytes) (s\<lparr>memory := m\<rparr>))"

definition terminal_read :: "'a keyboard_scheme handler list \<Rightarrow> int \<Rightarrow> u32 \<Rightarrow> int \<Rightarrow> 'a keyboard_scheme \<Rightarrow>
    (int \<times> 'a keyboard_scheme) option" where
  "terminal_read handlers fd buf nbytes s =
     (if buf = 0 then Some (-1, s)
      else do {
        let s = set_lock (current_terminal s) 1 s;
        let s = set_enter (current_terminal s) 0 s;
        s \<leftarrow> spin_until (\<lambda>s. is_enter s (uint (get_curr_pcb_term s)) \<noteq> 0) handlers s;
        let s = cli s;
        let writeBytes = (if uint (line_marker s (current_terminal s)) - nbytes < 0 then 0
                          else uint (line_marker s (current_terminal s)) - (nbytes - 1));
        let s = (if nbytes < KBRD_BUF_LENGTH then transfer_line buf nbytes writeBytes s
                 else transfer_line buf KBRD_BUF_LENGTH writeBytes s);
        let s = sti s;
        let s = set_lock (current_terminal s) 0 s;
        let s = set_enter (current_terminal s) 0 s;
        Some (if nbytes < KBRD_BUF_LENGTH then nbytes else KBRD_BUF_LENGTH, s)
      })"

definition terminal_write :: "int \<Rightarrow> u32 \<Rightarrow> int \<Rightarrow> 'a keyboard_scheme \<Rightarrow> int \<times> 'a keyboard_scheme" where
  "terminal_write fd buf nbytes s =
     (if buf = 0 then (-1, s)
      else let s = cli s;
               s = fold (\<lambda>i s. putc (memory s (buf + of_nat i)) (get_curr_pcb_term s) s) [0..<nat nbytes] s;
               s = sti s
           in (nbytes, s))"

section \<open>Initialisation and the interrupt handler\<close>

definition kbrd_init :: "'a keyboard_scheme \<Rightarrow> 'a keyboard_scheme" where
  "kbrd_init s =
     (let t = current_terminal s;
          s = s\<lparr>is_shift := (is_shift s)(t := 0)\<rparr>;
          s = s\<lparr>is_caps := (is_caps s)(t := 0)\<rparr>;
          s = s\<lparr>is_ctrl := (is_ctrl s)(t := 0)\<rparr>;
          s = s\<lparr>is_alt := (is_alt s)(t := 0)\<rparr>;
          s = s\<lparr>memory := memset (memory s) (kbrd_row s t) (uint NULL_SCANCODE) (word_of_int KBRD_BUF_LENGTH)\<rparr>;
          s = s\<lparr>current_terminal := 0\<rparr>;
          s = update_curr_term 0 s
      in enable_irq KBRD_IRQ s)"

definition switch_terminal :: "int \<Rightarrow> 'a keyboard_scheme \<Rightarrow> 'a keyboard_scheme" where
  "switch_terminal t s =
     (if current_terminal s \<noteq> t
      then update_vidmem (word_of_int t) (update_curr_term (word_of_int t) (s\<lparr>current_terminal := t\<rparr>))
      else s)"

definition enter_key :: "u8 \<Rightarrow> 'a keyboard_scheme \<Rightarrow> 'a keyboard_scheme" where
  "enter_key key s =
     (let t = current_terminal s;
          s = putc key (word_of_int t) s;
          s = set_enter t 1 s;
          s = set_length t 0 s
      in if read_lock s t = 0
         then set_marker t 0 (s\<lparr>memory := memset (memory s) (kbrd_row s t) (uint NULL_SCANCODE) (word_of_int KBRD_BUF_LENGTH)\<rparr>)
         else s)"

definition backspace_key :: "'a keyboard_scheme \<Rightarrow> 'a keyboard_scheme" where
  "backspace_key s =
     (let t = current_terminal s
      in if kbrd_buf_length s t > 0
         then let s = backspace_helper (word_of_int t) s;
                  s = s\<lparr>memory := (memory s)(kbrd_row s t + word_of_int (uint (line_marker s t) - 1) := NULL_SCANCODE)\<rparr>;
                  s = set_length t (kbrd_buf_length s t - 1) s
              in set_marker t (line_marker s t - 1) s
         else s)"

definition shifted_key :: "u8 \<Rightarrow> u8 \<Rightarrow> 'a keyboard_scheme \<Rightarrow> u8" where
  "shifted_key scancode key s =
     (let t = current_terminal s
      in if is_shift s t = 1 \<and> is_caps s t = 0 then shiftkbrdscancode ! unat scancode
         else if is_shift s t = 1 \<and> is_caps s t = 1 then capsshiftkbrdscancode ! unat scancode
         else if is_shift s t = 0 \<and> is_caps s t = 1 then capskbrdscancode ! unat scancode
         else key)"

definition character_key :: "u8 \<Rightarrow> u8 \<Rightarrow> 'a keyboard_scheme \<Rightarrow> 'a keyboard_scheme option" where
  "character_key scancode key s =
     (let t = current_terminal s
      in if is_ctrl s t = 1 \<and> key = L_SCANCODE
         then map_option fst (puts (kbrd_row s t) (word_of_int t) (reset s))
         else let key = shifted_key scancode key s;
                  s = putc key (word_of_int t) s;
                  s = s\<lparr>memory := (memory s)(kbrd_row s t + ucast (line_marker s t) := key)\<rparr>;
                  s = set_marker t (line_marker s t + 1) s
              in Some (set_length t (kbrd_buf_length s t + 1) s))"

text \<open>
  The table look-up of a release code (\<open>0x80\<close> and up) reads past the table; the byte is never
  used, and is a zero here.
\<close>

definition handle_scancode :: "u8 \<Rightarrow> 'a keyboard_scheme \<Rightarrow> 'a keyboard_scheme option" where
  "handle_scancode scancode s =
     (let t = current_terminal s;
          key = (if scancode < SCANCODE_LENGTH then kbrdscancode ! unat scancode else 0)
      in if scancode = LCTRL_PRESS then Some (s\<lparr>is_ctrl := (is_ctrl s)(t := 1)\<rparr>)
         else if scancode = LCTRL_RELEASE then Some (s\<lparr>is_ctrl := (is_ctrl s)(t := 0)\<rparr>)
         else if scancode = LSHIFT_PRESS \<or> scancode = RSHIFT_PRESS then Some (s\<lparr>is_shift := (is_shift s)(t := 1)\<rparr>)
         else if scancode = LSHIFT_RELEASE \<or> scancode = RSHIFT_RELEASE then Some (s\<lparr>is_shift := (is_shift s)(t := 0)\<rparr>)
         else if scancode = LALT_PRESS then Some (s\<lparr>is_alt := (is_alt s)(t := 1)\<rparr>)
         else if scancode = LALT_RELEASE then Some (s\<lparr>is_alt := (is_alt s)(t := 0)\<rparr>)
         else if scancode = CAPS_PRESS then Some (s\<lparr>is_caps := (is_caps s)(t := if is_caps s t = 1 then 0 else 1)\<rparr>)
         else if scancode = F1_SCANCODE \<and> is_alt s t = 1 then Some (switch_terminal 0 s)
         else if scancode = F2_SCANCODE \<and> is_alt s t = 1 then Some (switch_terminal 1 s)
         else if scancode = F3_SCANCODE \<and> is_alt s t = 1 then Some (switch_terminal SECOND_TERMINAL_CASE s)
         else if scancode = ENTER_PRESS then Some (enter_key key s)
         else if scancode = BACKSPACE_PRESS then Some (backspace_key s)
         else if kbrd_buf_length s t < KBRD_BUF_LENGTH - 1 \<and> scancode < SCANCODE_LENGTH
         then character_key scancode key s
         else Some s)"

definition kbrd_int :: "'a keyboard_scheme \<Rightarrow> 'a keyboard_scheme option" where
  "kbrd_int s = do {
     s \<leftarrow> (if inb KBRD_PORT s AND 1 \<noteq> 0 then handle_scancode (ucast (inb KBRD_PORT_DATA s)) s else Some s);
     Some (send_eoi KBRD_IRQ s) }"

section \<open>The console does not touch the keyboard state\<close>

text \<open>The fields of this layer under the operations of the lower ones.\<close>

lemma kbrd_console_steps [simp]:
  "read_lock (outb d p s) = read_lock s" "kbrd_buf_length (outb d p s) = kbrd_buf_length s" "is_enter (outb d p s) = is_enter s" "is_shift (outb d p s) = is_shift s" "is_caps (outb d p s) = is_caps s" "is_ctrl (outb d p s) = is_ctrl s" "is_alt (outb d p s) = is_alt s" "current_terminal (outb d p s) = current_terminal s" "line_marker (outb d p s) = line_marker s" "kbrd_buf (outb d p s) = kbrd_buf s" "kbrd_read_buf (outb d p s) = kbrd_read_buf s" "pcbs (outb d p s) = pcbs s" "process_array (outb d p s) = process_array s" "terminal_array (outb d p s) = terminal_array s" "curr_terminal (outb d p s) = curr_terminal s"
  "read_lock (update_cursor s) = read_lock s" "kbrd_buf_length (update_cursor s) = kbrd_buf_length s" "is_enter (update_cursor s) = is_enter s" "is_shift (update_cursor s) = is_shift s" "is_caps (update_cursor s) = is_caps s" "is_ctrl (update_cursor s) = is_ctrl s" "is_alt (update_cursor s) = is_alt s" "current_terminal (update_cursor s) = current_terminal s" "line_marker (update_cursor s) = line_marker s" "kbrd_buf (update_cursor s) = kbrd_buf s" "kbrd_read_buf (update_cursor s) = kbrd_read_buf s" "pcbs (update_cursor s) = pcbs s" "process_array (update_cursor s) = process_array s" "terminal_array (update_cursor s) = terminal_array s" "curr_terminal (update_cursor s) = curr_terminal s"
  "read_lock (put_cell c t s) = read_lock s" "kbrd_buf_length (put_cell c t s) = kbrd_buf_length s" "is_enter (put_cell c t s) = is_enter s" "is_shift (put_cell c t s) = is_shift s" "is_caps (put_cell c t s) = is_caps s" "is_ctrl (put_cell c t s) = is_ctrl s" "is_alt (put_cell c t s) = is_alt s" "current_terminal (put_cell c t s) = current_terminal s" "line_marker (put_cell c t s) = line_marker s" "kbrd_buf (put_cell c t s) = kbrd_buf s" "kbrd_read_buf (put_cell c t s) = kbrd_read_buf s" "pcbs (put_cell c t s) = pcbs s" "process_array (put_cell c t s) = process_array s" "terminal_array (put_cell c t s) = terminal_array s" "curr_terminal (put_cell c t s) = curr_terminal s"
  "read_lock (vert_scroll t s) = read_lock s" "kbrd_buf_length (vert_scroll t s) = kbrd_buf_length s" "is_enter (vert_scroll t s) = is_enter s" "is_shift (vert_scroll t s) = is_shift s" "is_caps (vert_scroll t s) = is_caps s" "is_ctrl (vert_scroll t s) = is_ctrl s" "is_alt (vert_scroll t s) = is_alt s" "current_terminal (vert_scroll t s) = current_terminal s" "line_marker (vert_scroll t s) = line_marker s" "kbrd_buf (vert_scroll t s) = kbrd_buf s" "kbrd_read_buf (vert_scroll t s) = kbrd_read_buf s" "pcbs (vert_scroll t s) = pcbs s" "process_array (vert_scroll t s) = process_array s" "terminal_array (vert_scroll t s) = terminal_array s" "curr_terminal (vert_scroll t s) = curr_terminal s"
  "read_lock (set_x t v s) = read_lock s" "kbrd_buf_length (set_x t v s) = kbrd_buf_length s" "is_enter (set_x t v s) = is_enter s" "is_shift (set_x t v s) = is_shift s" "is_caps (set_x t v s) = is_caps s" "is_ctrl (set_x t v s) = is_ctrl s" "is_alt (set_x t v s) = is_alt s" "current_terminal (set_x t v s) = current_terminal s" "line_marker (set_x t v s) = line_marker s" "kbrd_buf (set_x t v s) = kbrd_buf s" "kbrd_read_buf (set_x t v s) = kbrd_read_buf s" "pcbs (set_x t v s) = pcbs s" "process_array (set_x t v s) = process_array s" "terminal_array (set_x t v s) = terminal_array s" "curr_terminal (set_x t v s) = curr_terminal s"
  "read_lock (set_y t v s) = read_lock s" "kbrd_buf_length (set_y t v s) = kbrd_buf_length s" "is_enter (set_y t v s) = is_enter s" "is_shift (set_y t v s) = is_shift s" "is_caps (set_y t v s) = is_caps s" "is_ctrl (set_y t v s) = is_ctrl s" "is_alt (set_y t v s) = is_alt s" "current_terminal (set_y t v s) = current_terminal s" "line_marker (set_y t v s) = line_marker s" "kbrd_buf (set_y t v s) = kbrd_buf s" "kbrd_read_buf (set_y t v s) = kbrd_read_buf s" "pcbs (set_y t v s) = pcbs s" "process_array (set_y t v s) = process_array s" "terminal_array (set_y t v s) = terminal_array s" "curr_terminal (set_y t v s) = curr_terminal s"
  by (simp_all add: outb_def update_cursor_def put_cell_def vert_scroll_def set_x_def set_y_def Let_def)

lemma kbrd_putc [simp]:
  "read_lock (putc c t s) = read_lock s" "kbrd_buf_length (putc c t s) = kbrd_buf_length s" "is_enter (putc c t s) = is_enter s" "is_shift (putc c t s) = is_shift s" "is_caps (putc c t s) = is_caps s" "is_ctrl (putc c t s) = is_ctrl s" "is_alt (putc c t s) = is_alt s" "current_terminal (putc c t s) = current_terminal s" "line_marker (putc c t s) = line_marker s" "kbrd_buf (putc c t s) = kbrd_buf s" "kbrd_read_buf (putc c t s) = kbrd_read_buf s" "pcbs (putc c t s) = pcbs s" "process_array (putc c t s) = process_array s" "terminal_array (putc c t s) = terminal_array s" "curr_terminal (putc c t s) = curr_terminal s"
  by (simp_all add: putc_def Let_def)

lemma kbrd_putcforcenoscroll [simp]:
  "read_lock (putcforcenoscroll c t s) = read_lock s" "kbrd_buf_length (putcforcenoscroll c t s) = kbrd_buf_length s" "is_enter (putcforcenoscroll c t s) = is_enter s" "is_shift (putcforcenoscroll c t s) = is_shift s" "is_caps (putcforcenoscroll c t s) = is_caps s" "is_ctrl (putcforcenoscroll c t s) = is_ctrl s" "is_alt (putcforcenoscroll c t s) = is_alt s" "current_terminal (putcforcenoscroll c t s) = current_terminal s" "line_marker (putcforcenoscroll c t s) = line_marker s" "kbrd_buf (putcforcenoscroll c t s) = kbrd_buf s" "kbrd_read_buf (putcforcenoscroll c t s) = kbrd_read_buf s" "pcbs (putcforcenoscroll c t s) = pcbs s" "process_array (putcforcenoscroll c t s) = process_array s" "terminal_array (putcforcenoscroll c t s) = terminal_array s" "curr_terminal (putcforcenoscroll c t s) = curr_terminal s"
  by (simp_all add: putcforcenoscroll_def Let_def)

lemma kbrd_backspace_helper [simp]:
  "read_lock (backspace_helper t s) = read_lock s" "kbrd_buf_length (backspace_helper t s) = kbrd_buf_length s" "is_enter (backspace_helper t s) = is_enter s" "is_shift (backspace_helper t s) = is_shift s" "is_caps (backspace_helper t s) = is_caps s" "is_ctrl (backspace_helper t s) = is_ctrl s" "is_alt (backspace_helper t s) = is_alt s" "current_terminal (backspace_helper t s) = current_terminal s" "line_marker (backspace_helper t s) = line_marker s" "kbrd_buf (backspace_helper t s) = kbrd_buf s" "kbrd_read_buf (backspace_helper t s) = kbrd_read_buf s" "pcbs (backspace_helper t s) = pcbs s" "process_array (backspace_helper t s) = process_array s" "terminal_array (backspace_helper t s) = terminal_array s" "curr_terminal (backspace_helper t s) = curr_terminal s"
  by (simp_all add: backspace_helper_def Let_def)

lemma kbrd_flags [simp]:
  "read_lock (cli s) = read_lock s" "kbrd_buf_length (cli s) = kbrd_buf_length s" "is_enter (cli s) = is_enter s" "is_shift (cli s) = is_shift s" "is_caps (cli s) = is_caps s" "is_ctrl (cli s) = is_ctrl s" "is_alt (cli s) = is_alt s" "current_terminal (cli s) = current_terminal s" "line_marker (cli s) = line_marker s" "kbrd_buf (cli s) = kbrd_buf s" "kbrd_read_buf (cli s) = kbrd_read_buf s"
  "read_lock (sti s) = read_lock s" "kbrd_buf_length (sti s) = kbrd_buf_length s" "is_enter (sti s) = is_enter s" "is_shift (sti s) = is_shift s" "is_caps (sti s) = is_caps s" "is_ctrl (sti s) = is_ctrl s" "is_alt (sti s) = is_alt s" "current_terminal (sti s) = current_terminal s" "line_marker (sti s) = line_marker s" "kbrd_buf (sti s) = kbrd_buf s" "kbrd_read_buf (sti s) = kbrd_read_buf s"
  "read_lock (send_eoi n s) = read_lock s" "kbrd_buf_length (send_eoi n s) = kbrd_buf_length s" "is_enter (send_eoi n s) = is_enter s" "is_shift (send_eoi n s) = is_shift s" "is_caps (send_eoi n s) = is_caps s" "is_ctrl (send_eoi n s) = is_ctrl s" "is_alt (send_eoi n s) = is_alt s" "current_terminal (send_eoi n s) = current_terminal s" "line_marker (send_eoi n s) = line_marker s" "kbrd_buf (send_eoi n s) = kbrd_buf s" "kbrd_read_buf (send_eoi n s) = kbrd_read_buf s"
  by (simp_all add: cli_def sti_def send_eoi_def outb_def)

lemma kbrd_setters_lock [simp]:
  "kbrd_buf_length (set_lock t v s) = kbrd_buf_length s" "is_enter (set_lock t v s) = is_enter s" "is_shift (set_lock t v s) = is_shift s" "is_caps (set_lock t v s) = is_caps s" "is_ctrl (set_lock t v s) = is_ctrl s" "is_alt (set_lock t v s) = is_alt s" "current_terminal (set_lock t v s) = current_terminal s" "line_marker (set_lock t v s) = line_marker s" "kbrd_buf (set_lock t v s) = kbrd_buf s" "kbrd_read_buf (set_lock t v s) = kbrd_read_buf s" "pcbs (set_lock t v s) = pcbs s" "process_array (set_lock t v s) = process_array s" "terminal_array (set_lock t v s) = terminal_array s" "curr_terminal (set_lock t v s) = curr_terminal s" "memory (set_lock t v s) = memory s" "screen_x (set_lock t v s) = screen_x s" "screen_y (set_lock t v s) = screen_y s" "int_flag (set_lock t v s) = int_flag s"
  by (simp_all add: set_lock_def)

lemma kbrd_setters_enter [simp]:
  "read_lock (set_enter t v s) = read_lock s" "kbrd_buf_length (set_enter t v s) = kbrd_buf_length s" "is_shift (set_enter t v s) = is_shift s" "is_caps (set_enter t v s) = is_caps s" "is_ctrl (set_enter t v s) = is_ctrl s" "is_alt (set_enter t v s) = is_alt s" "current_terminal (set_enter t v s) = current_terminal s" "line_marker (set_enter t v s) = line_marker s" "kbrd_buf (set_enter t v s) = kbrd_buf s" "kbrd_read_buf (set_enter t v s) = kbrd_read_buf s" "pcbs (set_enter t v s) = pcbs s" "process_array (set_enter t v s) = process_array s" "terminal_array (set_enter t v s) = terminal_array s" "curr_terminal (set_enter t v s) = curr_terminal s" "memory (set_enter t v s) = memory s" "screen_x (set_enter t v s) = screen_x s" "screen_y (set_enter t v s) = screen_y s" "int_flag (set_enter t v s) = int_flag s"
  by (simp_all add: set_enter_def)

lemma kbrd_setters_marker [simp]:
  "read_lock (set_marker t w s) = read_lock s" "kbrd_buf_length (set_marker t w s) = kbrd_buf_length s" "is_enter (set_marker t w s) = is_enter s" "is_shift (set_marker t w s) = is_shift s" "is_caps (set_marker t w s) = is_caps s" "is_ctrl (set_marker t w s) = is_ctrl s" "is_alt (set_marker t w s) = is_alt s" "current_terminal (set_marker t w s) = current_terminal s" "kbrd_buf (set_marker t w s) = kbrd_buf s" "kbrd_read_buf (set_marker t w s) = kbrd_read_buf s" "pcbs (set_marker t w s) = pcbs s" "process_array (set_marker t w s) = process_array s" "terminal_array (set_marker t w s) = terminal_array s" "curr_terminal (set_marker t w s) = curr_terminal s" "memory (set_marker t w s) = memory s" "screen_x (set_marker t w s) = screen_x s" "screen_y (set_marker t w s) = screen_y s" "int_flag (set_marker t w s) = int_flag s"
  by (simp_all add: set_marker_def)

lemma kbrd_setters_length [simp]:
  "read_lock (set_length t v s) = read_lock s" "is_enter (set_length t v s) = is_enter s" "is_shift (set_length t v s) = is_shift s" "is_caps (set_length t v s) = is_caps s" "is_ctrl (set_length t v s) = is_ctrl s" "is_alt (set_length t v s) = is_alt s" "current_terminal (set_length t v s) = current_terminal s" "line_marker (set_length t v s) = line_marker s" "kbrd_buf (set_length t v s) = kbrd_buf s" "kbrd_read_buf (set_length t v s) = kbrd_read_buf s" "pcbs (set_length t v s) = pcbs s" "process_array (set_length t v s) = process_array s" "terminal_array (set_length t v s) = terminal_array s" "curr_terminal (set_length t v s) = curr_terminal s" "memory (set_length t v s) = memory s" "screen_x (set_length t v s) = screen_x s" "screen_y (set_length t v s) = screen_y s" "int_flag (set_length t v s) = int_flag s"
  by (simp_all add: set_length_def)

lemma kbrd_set_sel [simp]:
  "read_lock (set_lock t v s) = (read_lock s)(t := v)" "is_enter (set_enter t v s) = (is_enter s)(t := v)"
  "line_marker (set_marker t w s) = (line_marker s)(t := w)" "kbrd_buf_length (set_length t v s) = (kbrd_buf_length s)(t := v)"
  by (simp_all add: set_lock_def set_enter_def set_marker_def set_length_def)

lemma kbrd_row_cong: "kbrd_buf s' = kbrd_buf s \<Longrightarrow> kbrd_row s' t = kbrd_row s t"
  by (simp add: kbrd_row_def)

section \<open>The line being edited\<close>

text \<open>
  \<open>typed_line\<close>: the characters in a terminal's buffer. \<open>line_ok\<close>: the counter and the write
  position agree, there is room for the newline, and the rest of the row is NUL.
\<close>

definition typed_line :: "int \<Rightarrow> 'a keyboard_scheme \<Rightarrow> u8 list" where
  "typed_line t s = read_bytes (memory s) (kbrd_row s t) (unat (line_marker s t))"

definition line_ok :: "int \<Rightarrow> 'a keyboard_scheme \<Rightarrow> bool" where
  "line_ok t s \<longleftrightarrow> kbrd_buf_length s t = int (unat (line_marker s t)) \<and> unat (line_marker s t) \<le> 127 \<and>
     read_bytes (memory s) (kbrd_row s t) 128 = typed_line t s @ replicate (128 - unat (line_marker s t)) 0"

text \<open>The line buffers lie outside the character pages and the displayed page.\<close>

definition kbrd_layout :: "'a keyboard_scheme \<Rightarrow> bool" where
  "kbrd_layout s \<longleftrightarrow> list_all (\<lambda>a. disjoint_regions (kbrd_buf s) 384 a 4096) [VIDEO, VID1, VID2, VID3]"

definition valid_term :: "int \<Rightarrow> bool" where
  "valid_term t \<longleftrightarrow> 0 \<le> t \<and> t < 3"

lemma valid_term_cases: "valid_term t \<Longrightarrow> t = 0 \<or> t = 1 \<or> t = 2"
  by (auto simp: valid_term_def)

lemma row_in_buffers:
  assumes "valid_term t" "i < 128"
  shows "in_region (kbrd_row s t + of_nat i) (kbrd_buf s) 384"
proof -
  have "kbrd_row s t + of_nat i = kbrd_buf s + of_nat (nat (128 * t) + i)"
    using valid_term_cases [OF assms(1)] by (auto simp: kbrd_row_def KBRD_BUF_LENGTH_def)
  moreover have "in_region (kbrd_buf s + of_nat (nat (128 * t) + i)) (kbrd_buf s) 384"
    using assms by (intro in_region_offset) (auto simp: valid_term_def)
  ultimately show ?thesis by (simp only:)
qed

lemma page_of_term: "valid_term u \<Longrightarrow> page (word_of_int u) \<in> {VID1, VID2, VID3}"
  by (auto dest!: valid_term_cases simp: console_consts)

lemma row_off_page:
  assumes "kbrd_layout s" "valid_term t" "valid_term u" "i < 128"
  shows "\<not> in_region (kbrd_row s t + of_nat i) (page (word_of_int u)) 4000"
proof -
  have "disjoint_regions (kbrd_buf s) 384 (page (word_of_int u)) 4096"
    using assms(1) page_of_term [OF assms(3)] by (auto simp: kbrd_layout_def)
  then have "\<not> in_region (kbrd_row s t + of_nat i) (page (word_of_int u)) 4096"
    using disjoint_regionsD row_in_buffers [OF assms(2,4)] by blast
  then show ?thesis by (auto simp: in_region_def)
qed

lemma page_off_row:
  assumes "kbrd_layout s" "valid_term t" "valid_term u" "i < 128" "r < 25" "c < 80"
  shows "kbrd_row s t + of_nat i \<noteq> cell_addr (word_of_int u) r c"
proof
  assume eq: "kbrd_row s t + of_nat i = cell_addr (word_of_int u) r c"
  have "in_region (cell_addr (word_of_int u) r c) (page (word_of_int u)) 4000"
    using unat_cell [OF assms(5,6)] assms(5,6) by (simp add: in_region_def)
  then show False using row_off_page [OF assms(1-4)] eq by simp
qed

lemma putc_row:
  assumes "kbrd_layout s" "valid_term t" "valid_term u" "cursor_ok (word_of_int u) s" "n \<le> 128"
  shows "read_bytes (memory (putc c (word_of_int u) s)) (kbrd_row s t) n = read_bytes (memory s) (kbrd_row s t) n"
  using assms by (intro read_bytes_cong putc_frame row_off_page) auto

lemma read_bytes_upd:
  assumes "n < l" "l \<le> 2 ^ 32"
  shows "read_bytes (m(a + of_nat n := k)) a l = (read_bytes m a l)[n := k]"
proof (rule nth_equalityI)
  fix i assume "i < length (read_bytes (m(a + of_nat n := k)) a l)"
  then have i: "i < l" by simp
  have "a + of_nat i = a + of_nat n \<longleftrightarrow> i = n"
    using i assms by (metis add_left_cancel order_less_le_trans unat_of_nat_u32)
  then show "read_bytes (m(a + of_nat n := k)) a l ! i = (read_bytes m a l)[n := k] ! i"
    using i by (simp add: nth_list_update)
qed simp

lemma take_read_bytes: "n \<le> l \<Longrightarrow> take n (read_bytes m a l) = read_bytes m a n"
  by (rule nth_equalityI) auto

text \<open>\<open>line_ok\<close> from the row's contents.\<close>

lemma line_okI:
  assumes "kbrd_buf_length s t = int (length xs)" "unat (line_marker s t) = length xs" "length xs \<le> 127"
    and "read_bytes (memory s) (kbrd_row s t) 128 = xs @ replicate (128 - length xs) 0"
  shows "line_ok t s" "typed_line t s = xs"
proof -
  show "typed_line t s = xs"
    using take_read_bytes [of "length xs" 128 "memory s" "kbrd_row s t"] assms by (simp add: typed_line_def)
  then show "line_ok t s" using assms by (simp add: line_ok_def)
qed

lemma line_okD:
  assumes "line_ok t s"
  shows "kbrd_buf_length s t = int (length (typed_line t s))" "unat (line_marker s t) = length (typed_line t s)"
    and "length (typed_line t s) \<le> 127"
    and "read_bytes (memory s) (kbrd_row s t) 128 = typed_line t s @ replicate (128 - length (typed_line t s)) 0"
  using assms by (simp_all add: line_ok_def typed_line_def)

lemma kbrd_row_memory [simp]: "kbrd_row (s\<lparr>memory := m\<rparr>) t = kbrd_row s t"
  by (simp add: kbrd_row_def)

lemma kbrd_row_frame [simp]:
  "kbrd_row (putc c u s) = kbrd_row s" "kbrd_row (backspace_helper u s) = kbrd_row s" "kbrd_row (set_marker t v s) = kbrd_row s"
  "kbrd_row (set_length t n s) = kbrd_row s" "kbrd_row (set_enter t n s) = kbrd_row s" "kbrd_row (set_lock t n s) = kbrd_row s"
  by (simp_all add: kbrd_row_def fun_eq_iff)

lemma screen_of_row_write:
  assumes "kbrd_layout s" "valid_term t" "valid_term u" "i < 128"
  shows "screen_of (word_of_int u) (s\<lparr>memory := m(kbrd_row s t + of_nat i := k)\<rparr>) = screen_of (word_of_int u) (s\<lparr>memory := m\<rparr>)"
  using page_off_row [OF assms, THEN not_sym] by (auto simp: screen_of_def fun_eq_iff)

lemma character_key_edit:
  fixes s :: "'a keyboard_scheme" and sc key :: u8
  defines "t \<equiv> current_terminal s" and "k \<equiv> shifted_key sc key s"
  defines "w \<equiv> word_of_int t :: u32"
  assumes lay: "kbrd_layout s" and t: "valid_term t" and ok: "line_ok t s" and cur: "cursor_ok w s"
    and room: "kbrd_buf_length s t < 127" and noctrl: "is_ctrl s t \<noteq> 1 \<or> key \<noteq> L_SCANCODE"
  obtains s' where "character_key sc key s = Some s'" "typed_line t s' = typed_line t s @ [k]" "line_ok t s'"
    and "screen_of w s' = put_char k (screen_of w s)" "cursor_ok w s'"
    and "kbrd_buf s' = kbrd_buf s" "current_terminal s' = t" "is_ctrl s' = is_ctrl s" "is_shift s' = is_shift s" "is_caps s' = is_caps s"
proof -
  let ?xs = "typed_line t s" and ?s1 = "putc k w s"
  let ?m = "(memory ?s1)(kbrd_row s t + of_nat (length ?xs) := k)"
  let ?s' = "set_length t (kbrd_buf_length s t + 1) (set_marker t (line_marker s t + 1) (?s1\<lparr>memory := ?m\<rparr>))"
  note D = line_okD [OF ok]
  have len: "length ?xs < 127" using room D(1) by simp
  have Suc_len: "128 - length ?xs = Suc (127 - length ?xs)" using len by simp
  have mk: "(ucast (line_marker s t) :: u32) = of_nat (length ?xs)" by (simp flip: D(2))
  have "character_key sc key s = Some ?s'"
    using noctrl mk by (auto simp: character_key_def Let_def t_def w_def k_def)
  moreover have row: "read_bytes ?m (kbrd_row s t) 128 = (?xs @ [k]) @ replicate (128 - length (?xs @ [k])) 0"
  proof -
    have "read_bytes ?m (kbrd_row s t) 128 = (read_bytes (memory ?s1) (kbrd_row s t) 128)[length ?xs := k]"
      using len by (intro read_bytes_upd) auto
    also have "\<dots> = (?xs @ replicate (128 - length ?xs) 0)[length ?xs := k]"
      using putc_row [OF lay t t cur [unfolded w_def], of 128] D(4) by (simp add: w_def)
    also have "\<dots> = (?xs @ [k]) @ replicate (128 - length (?xs @ [k])) 0"
      using Suc_len by (simp add: list_update_append)
    finally show ?thesis .
  qed
  have um: "unat (line_marker s t + 1) = length (?xs @ [k])"
    using len D(2) by (simp add: unat_word_ariths)
  have "line_ok t ?s'" "typed_line t ?s' = ?xs @ [k]"
    using line_okI [of ?s' t "?xs @ [k]"] len D(1) um row by simp_all
  moreover have "screen_of w ?s' = put_char k (screen_of w s)"
  proof -
    have "screen_of w ?s' = screen_of w (?s1\<lparr>memory := ?m\<rparr>)" by (rule screen_of_cong) simp_all
    also have "\<dots> = screen_of w ?s1"
      using screen_of_row_write [of ?s1 t t "length ?xs" "memory ?s1" k] lay t len by (simp add: w_def kbrd_layout_def)
    finally show ?thesis using putc_refines [OF cur] by simp
  qed
  moreover have "cursor_ok w ?s'" using putc_cursor_ok [OF cur] by (simp add: cursor_ok_def)
  ultimately show ?thesis using that [of ?s'] by (simp add: t_def)
qed

text \<open>Backspace removes the last character from the line and from the screen.\<close>

lemma backspace_frame:
  assumes "cursor_ok t s" "screen_x s t \<noteq> 0 \<or> screen_y s t \<noteq> 0" "\<not> in_region x (page t) 4000"
  shows "memory (backspace_helper t s) x = memory s x"
proof (cases "screen_x s t = 0")
  case True
  let ?s = "set_y t (screen_y s t - 1) (set_x t 79 s)"
  have "cursor_ok t ?s" using assms True by (auto simp: cursor_ok_def NUM_COLS_def NUM_ROWS_def)
  then show ?thesis
    using assms(3) cell_address(2) [of t ?s] True by (auto simp: backspace_wrap put_cell_apply in_region_def)
next
  case False
  let ?s = "set_x t (screen_x s t - 1) s"
  have "cursor_ok t ?s" using assms(1) False by (auto simp: cursor_ok_def)
  then show ?thesis
    using assms(3) cell_address(2) [of t ?s] False by (auto simp: backspace_left [OF assms(1)] put_cell_apply in_region_def)
qed

lemma backspace_key_edit:
  fixes s :: "'a keyboard_scheme"
  defines "t \<equiv> current_terminal s"
  defines "w \<equiv> word_of_int t :: u32"
  assumes lay: "kbrd_layout s" and t: "valid_term t" and ok: "line_ok t s" and cur: "cursor_ok w s"
    and pos: "screen_x s w \<noteq> 0 \<or> screen_y s w \<noteq> 0" and ne: "typed_line t s \<noteq> []"
  shows "typed_line t (backspace_key s) = butlast (typed_line t s)" "line_ok t (backspace_key s)"
    and "screen_of w (backspace_key s) = back_space (screen_of w s)" "cursor_ok w (backspace_key s)"
proof -
  obtain ys y where xs: "typed_line t s = ys @ [y]" using ne by (metis append_butlast_last_id)
  let ?s1 = "backspace_helper w s" and ?n = "length ys"
  let ?m = "(memory ?s1)(kbrd_row s t + of_nat ?n := 0)"
  let ?s' = "set_marker t (line_marker s t - 1) (set_length t (kbrd_buf_length s t - 1) (?s1\<lparr>memory := ?m\<rparr>))"
  note D = line_okD [OF ok, unfolded xs]
  have "(ucast (line_marker s t) :: u32) = of_nat (length (ys @ [y]))" unfolding D(2) [symmetric] by simp
  then have mk: "(ucast (line_marker s t) :: u32) = 1 + of_nat ?n" by simp
  have eq: "backspace_key s = ?s'"
    using mk D(1) by (simp add: backspace_key_def Let_def NULL_SCANCODE_def flip: t_def w_def)
  have row: "read_bytes ?m (kbrd_row s t) 128 = ys @ replicate (128 - length ys) 0"
  proof -
    have "read_bytes (memory ?s1) (kbrd_row s t) 128 = read_bytes (memory s) (kbrd_row s t) 128"
      using row_off_page [OF lay t t] by (intro read_bytes_cong backspace_frame [OF cur pos]) (simp add: w_def)
    then have "read_bytes ?m (kbrd_row s t) 128 = (ys @ y # replicate (127 - length ys) 0)[?n := 0]"
      using read_bytes_upd [of ?n 128 "memory ?s1" "kbrd_row s t" 0] D(3,4) by simp
    also have "\<dots> = ys @ replicate (Suc (127 - length ys)) 0" by (simp add: list_update_append)
    also have "Suc (127 - length ys) = 128 - length ys" using D(3) by simp
    finally show ?thesis .
  qed
  have "line_marker s t \<noteq> 0" using D(2) by auto
  then have um: "unat (line_marker s t - 1) = length ys" using D(2) by (simp add: unat_minus_one)
  show "typed_line t (backspace_key s) = butlast (typed_line t s)" "line_ok t (backspace_key s)"
    unfolding eq using line_okI [of ?s' t ys] D(1,3) um row xs by simp_all
  have "screen_of w ?s' = screen_of w (?s1\<lparr>memory := ?m\<rparr>)" by (rule screen_of_cong) simp_all
  also have "\<dots> = screen_of w ?s1"
    using screen_of_row_write [of ?s1 t t ?n "memory ?s1" 0] lay t D(3) by (simp add: w_def kbrd_layout_def)
  finally show "screen_of w (backspace_key s) = back_space (screen_of w s)"
    using backspace_refines [OF cur pos] eq by simp
  show "cursor_ok w (backspace_key s)" using backspace_cursor_ok [OF cur pos] by (simp add: eq cursor_ok_def)
qed

section \<open>Handing a line to the reader\<close>

lemma unat_offset_diff:
  assumes "k \<le> j" "j < 2 ^ 31"
  shows "unat (a + of_nat j - (a + of_nat k) :: u32) = j - k"
proof -
  have eq: "a + of_nat j - (a + of_nat k) = (of_nat (j - k) :: u32)" using assms(1) by (simp add: of_nat_diff)
  show ?thesis unfolding eq by (rule unat_of_nat_u32) (use assms in simp)
qed

lemma in_region_offsets:
  assumes "j < 2 ^ 31" "k < 2 ^ 31" "l \<le> 2 ^ 31"
  shows "in_region (a + of_nat j) (a + of_nat k) l \<longleftrightarrow> k \<le> j \<and> j < k + l"
proof (cases "k \<le> j")
  case True
  then show ?thesis using assms unat_offset_diff [OF True assms(1)] unfolding in_region_def by (simp only:) auto
next
  case False
  have eq: "a + of_nat j - (a + of_nat k) = (of_nat j - of_nat k :: u32)" by simp
  have u: "unat (of_nat j :: u32) = j" "unat (of_nat k :: u32) = k" using assms by (simp_all add: unat_of_nat_u32)
  have "unat (of_nat j - of_nat k :: u32) = j + 2 ^ 32 - k"
    using False by (subst unat_sub_if') (simp add: u)
  then show ?thesis using False assms unfolding in_region_def eq by simp
qed

lemma write_bytes_at_offset:
  assumes "j < 2 ^ 31" "k < 2 ^ 31" "length xs \<le> 2 ^ 31"
  shows "write_bytes m (a + of_nat k) xs (a + of_nat j) = (if k \<le> j \<and> j < k + length xs then xs ! (j - k) else m (a + of_nat j))"
proof (cases "k \<le> j \<and> j < k + length xs")
  case True
  then have "in_region (a + of_nat j) (a + of_nat k) (length xs)" using assms by (simp only: in_region_offsets)
  moreover have "unat (a + of_nat j - (a + of_nat k)) = j - k" using True assms by (intro unat_offset_diff) auto
  moreover have "length xs \<le> 2 ^ 32" using assms by simp
  ultimately show ?thesis using True by (simp only: write_bytes_apply if_True simp_thms)
next
  case False
  then have "\<not> in_region (a + of_nat j) (a + of_nat k) (length xs)" using assms by (simp only: in_region_offsets) simp
  then show ?thesis using False assms by (auto simp: write_bytes_outside)
qed

lemma copy_row_eq:
  assumes "disjoint_regions dest 128 src 128" "n \<le> 128"
  shows "copy_row dest src (int n) m = write_bytes m dest (read_bytes m src n)"
  using assms(2)
proof (induction n)
  case 0
  then show ?case by (simp add: copy_row_def)
next
  case (Suc n)
  have "write_bytes m dest (read_bytes m src n) (src + of_nat n) = m (src + of_nat n)"
    using Suc.prems by (intro write_bytes_disjoint_read [OF assms(1)]) auto
  moreover have "read_bytes m src (Suc n) = read_bytes m src n @ [m (src + of_nat n)]"
    using read_bytes_add [of m src n 1] by (simp add: read_bytes_def)
  moreover have "copy_row dest src (int (Suc n)) m =
      (copy_row dest src (int n) m)(dest + of_nat n := copy_row dest src (int n) m (src + of_nat n))"
    by (simp add: copy_row_def del: of_nat_Suc)
  ultimately show ?case using Suc by (simp add: write_bytes_snoc del: of_nat_Suc)
qed

text \<open>The memory after a transfer of \<open>n\<close> bytes: what the reader gets and what stays in the row.\<close>

lemma transfer_memory:
  fixes m :: mem and kb rb buf :: u32
  assumes row: "read_bytes m kb 128 = xs @ replicate (128 - length xs) 0" "length xs \<le> 127"
    and n: "1 \<le> n" "n \<le> 128" and nowrap: "unat kb + 128 \<le> 2 ^ 32"
    and d1: "disjoint_regions rb 128 kb 128" and d2: "disjoint_regions buf n rb 128" and d3: "disjoint_regions buf n kb 128"
    and wb: "wb = (if length xs < n then 0 else length xs - (n - 1))"
  defines "m2 \<equiv> (copy_row rb kb (int (n - 1)) m)(rb + of_nat (n - 1) := 0x0A)"
  defines "m5 \<equiv> memset (memmove (memcpy m2 buf rb (of_nat n)) kb (kb + of_nat (n - 1)) (of_nat wb)) (kb + of_nat wb) 0 (of_nat n)"
  shows "read_bytes m5 buf n = take (n - 1) (xs @ replicate (128 - length xs) 0) @ [0x0A]"
    and "read_bytes m5 kb 128 = drop (n - 1) xs @ replicate (128 - length (drop (n - 1) xs)) 0"
proof -
  let ?R = "xs @ replicate (128 - length xs) 0"
  let ?L = "take (n - 1) ?R @ [0x0A]"
  have lenL: "length ?L = n" using n row(2) by simp
  have fits: "wb + n \<le> 128" "n - 1 + wb \<le> 128" using n row(2) by (auto simp: wb)
  have un: "unat (of_nat n :: u32) = n" and uw: "unat (of_nat wb :: u32) = wb"
    using n(2) fits(1) by (intro unat_of_nat_u32, simp)+
  have "read_bytes m kb (n - 1) = take (n - 1) ?R"
    using take_read_bytes [of "n - 1" 128 m kb] row(1) n by simp
  moreover have "length (take (n - 1) ?R) = n - 1" using n row(2) by simp
  ultimately have m2: "m2 = write_bytes m rb ?L"
    using copy_row_eq [OF d1, of "n - 1" m] n(2) unfolding m2_def by (simp only: write_bytes_snoc)
  have "read_bytes m2 rb n = ?L" using read_write_bytes [of ?L m rb] lenL n by (simp add: m2)
  then have m3: "memcpy m2 buf rb (of_nat n) = write_bytes m2 buf ?L"
    using memcpy_eq [of buf "of_nat n" rb m2] disjoint_regions_prefix [OF d2, of n n] n un by simp
  let ?m3 = "write_bytes m2 buf ?L"
  have R3: "?m3 (kb + of_nat j) = ?R ! j" if "j < 128" for j
  proof -
    have "?m3 (kb + of_nat j) = m2 (kb + of_nat j)"
      using that lenL n by (intro write_bytes_disjoint_read [OF d3]) auto
    also have "\<dots> = m (kb + of_nat j)"
      unfolding m2 using that lenL n by (intro write_bytes_disjoint_read [OF d1]) auto
    finally show ?thesis using that row(1) by (metis nth_read_bytes)
  qed
  have a: "unat (kb + of_nat (n - 1)) = unat kb + (n - 1)" using nowrap n by (intro unat_add_nowrap) simp
  have m4: "memmove ?m3 kb (kb + of_nat (n - 1)) (of_nat wb) = write_bytes ?m3 kb (read_bytes ?m3 (kb + of_nat (n - 1)) wb)"
    using memmove_eq [of "kb + of_nat (n - 1)" "of_nat wb" kb ?m3] a uw nowrap fits by simp
  have m5: "m5 = write_bytes (write_bytes ?m3 kb (read_bytes ?m3 (kb + of_nat (n - 1)) wb)) (kb + of_nat wb) (replicate n 0)"
    by (simp only: m5_def m3 m4 memset_eq un of_int_0)
  have at: "m5 (kb + of_nat j) = (if wb \<le> j \<and> j < wb + n then 0 else if j < wb then ?R ! (n - 1 + j) else ?R ! j)" if "j < 128" for j
  proof -
    have "m5 (kb + of_nat j) = (if wb \<le> j \<and> j < wb + n then 0
        else write_bytes ?m3 (kb + of_nat 0) (read_bytes ?m3 (kb + of_nat (n - 1)) wb) (kb + of_nat j))"
      using that fits n unfolding m5 by (subst write_bytes_at_offset) auto
    also have "write_bytes ?m3 (kb + of_nat 0) (read_bytes ?m3 (kb + of_nat (n - 1)) wb) (kb + of_nat j) =
        (if j < wb then ?m3 (kb + of_nat (n - 1 + j)) else ?m3 (kb + of_nat j))"
      using that fits by (subst write_bytes_at_offset) (auto simp: add.assoc)
    finally show ?thesis using that fits R3 [of j] R3 [of "n - 1 + j"] by auto
  qed
  show "read_bytes m5 kb 128 = drop (n - 1) xs @ replicate (128 - length (drop (n - 1) xs)) 0"
  proof (rule nth_equalityI)
    show "length (read_bytes m5 kb 128) = length (drop (n - 1) xs @ replicate (128 - length (drop (n - 1) xs)) 0)" using row(2) by simp
    fix j assume "j < length (read_bytes m5 kb 128)"
    then have j: "j < 128" by simp
    show "read_bytes m5 kb 128 ! j = (drop (n - 1) xs @ replicate (128 - length (drop (n - 1) xs)) 0) ! j"
      using j n row(2) by (auto simp: at wb nth_append)
  qed
  show "read_bytes m5 buf n = ?L"
  proof (rule nth_equalityI)
    fix i assume "i < length (read_bytes m5 buf n)"
    then have i: "i < n" by simp
    have off: "\<not> in_region (buf + of_nat i) kb 128"
      using disjoint_regionsD [OF d3] in_region_offset [of i n buf] i n by auto
    have "m5 (buf + of_nat i) = ?m3 (buf + of_nat i)"
    proof -
      have "\<not> in_region (buf + of_nat i) (kb + of_nat wb) n"
      proof
        assume "in_region (buf + of_nat i) (kb + of_nat wb) n"
        then obtain j where "j < n" "buf + of_nat i = kb + of_nat wb + of_nat j" by (rule in_regionE)
        then have "buf + of_nat i = kb + of_nat (wb + j)" "wb + j < 128" using fits by (simp_all add: add.assoc)
        then show False using off in_region_offset [of "wb + j" 128 kb] by simp
      qed
      moreover have "\<not> in_region (buf + of_nat i) kb wb" using off fits by (auto simp: in_region_def)
      ultimately show ?thesis using n fits unfolding m5 by (simp add: write_bytes_outside)
    qed
    then show "read_bytes m5 buf n ! i = ?L ! i"
      using i lenL n write_bytes_inside [of ?L i m2 buf] by simp
  qed (simp only: length_read_bytes lenL)
qed

text \<open>
  \<open>row_ok\<close>: the row holds the typed characters and nothing else. It is what a reader finds:
  Enter resets the counter of the line but, while a read is pending, not the row.
\<close>

definition row_ok :: "int \<Rightarrow> 'a keyboard_scheme \<Rightarrow> bool" where
  "row_ok t s \<longleftrightarrow> length (typed_line t s) \<le> 127 \<and>
     read_bytes (memory s) (kbrd_row s t) 128 = typed_line t s @ replicate (128 - length (typed_line t s)) 0"

lemma line_ok_row_ok: "line_ok t s \<Longrightarrow> row_ok t s"
  using line_okD [of t s] by (simp add: row_ok_def)

definition read_layout :: "int \<Rightarrow> u32 \<Rightarrow> nat \<Rightarrow> 'a keyboard_scheme \<Rightarrow> bool" where
  "read_layout t buf n s \<longleftrightarrow> unat (kbrd_row s t) + 128 \<le> 2 ^ 32 \<and>
     disjoint_regions (kbrd_read_buf s) 128 (kbrd_row s t) 128 \<and>
     disjoint_regions buf n (kbrd_read_buf s) 128 \<and> disjoint_regions buf n (kbrd_row s t) 128"

lemma length_typed_line [simp]: "length (typed_line t s) = unat (line_marker s t)"
  by (simp add: typed_line_def)

lemma transfer_line_eq:
  fixes s :: "'a keyboard_scheme" and n :: nat
  defines "t \<equiv> current_terminal s"
  assumes ok: "row_ok t s" and n: "1 \<le> n" "n \<le> 128" and lay: "read_layout t buf n s"
    and wb: "wb = (if length (typed_line t s) < n then 0 else length (typed_line t s) - (n - 1))"
  shows "read_bytes (memory (transfer_line buf (int n) (int wb) s)) buf n =
      take (n - 1) (typed_line t s @ replicate (128 - length (typed_line t s)) 0) @ [0x0A]"
    and "typed_line t (transfer_line buf (int n) (int wb) s) = drop (n - 1) (typed_line t s)"
    and "row_ok t (transfer_line buf (int n) (int wb) s)"
proof -
  let ?xs = "typed_line t s" and ?kb = "kbrd_row s t" and ?rb = "kbrd_read_buf s"
  let ?s' = "transfer_line buf (int n) (int wb) s"
  have len: "length ?xs \<le> 127" and row: "read_bytes (memory s) ?kb 128 = ?xs @ replicate (128 - length ?xs) 0"
    using ok by (simp_all only: row_ok_def)
  let ?m2 = "(copy_row ?rb ?kb (int (n - 1)) (memory s))(?rb + of_nat (n - 1) := 0x0A)"
  let ?m5 = "memset (memmove (memcpy ?m2 buf ?rb (of_nat n)) ?kb (?kb + of_nat (n - 1)) (of_nat wb)) (?kb + of_nat wb) 0 (of_nat n)"
  have i: "int n - 1 = int (n - 1)" using n(1) by simp
  have kn: "?kb + of_nat n - 1 = ?kb + of_nat (n - Suc 0)" using n(1) by (simp add: of_nat_diff)
  have mem: "memory ?s' = ?m5" and mk: "line_marker ?s' t = of_nat wb" and kr: "kbrd_row ?s' t = ?kb"
    by (simp_all add: transfer_line_def Let_def i kn NULL_SCANCODE_def flip: t_def)
  note spec = transfer_memory [OF row len n _ _ _ _ wb, of ?rb buf]
  have b: "read_bytes ?m5 buf n = take (n - 1) (?xs @ replicate (128 - length ?xs) 0) @ [0x0A]"
    and k: "read_bytes ?m5 ?kb 128 = drop (n - 1) ?xs @ replicate (128 - length (drop (n - 1) ?xs)) 0"
    using spec lay unfolding read_layout_def by (simp_all only:)
  show "read_bytes (memory ?s') buf n = take (n - 1) (?xs @ replicate (128 - length ?xs) 0) @ [0x0A]"
    unfolding mem by (rule b)
  have wbl: "wb = length (drop (n - 1) ?xs)" using n len unfolding wb by auto
  then have um: "unat (of_nat wb :: u8) = length (drop (n - 1) ?xs)" using len by (simp add: unat_of_nat take_bit_nat_eq_self)
  show td: "typed_line t ?s' = drop (n - 1) ?xs"
  proof -
    have "typed_line t ?s' = read_bytes ?m5 ?kb (length (drop (n - 1) ?xs))"
      unfolding typed_line_def [of t ?s'] mem mk kr um ..
    also have "\<dots> = take (length (drop (n - 1) ?xs)) (read_bytes ?m5 ?kb 128)"
      using len by (intro take_read_bytes [symmetric]) simp
    finally show ?thesis unfolding k by (simp only: append_eq_conv_conj [THEN iffD1, OF refl, THEN conjunct1] take_append) simp
  qed
  show "row_ok t ?s'"
    using k len unfolding row_ok_def td mem kr by simp
qed

lemma terminal_read_null: "terminal_read hs fd 0 nbytes s = Some (-1, s)"
  by (simp add: terminal_read_def)

lemma cli_row_ok: "row_ok t (cli s) = row_ok t s" "typed_line t (cli s) = typed_line t s" "read_layout t buf n (cli s) = read_layout t buf n s"
  by (simp_all add: row_ok_def typed_line_def kbrd_row_def read_layout_def)

text \<open>
  A read of at least one byte, once Enter has been seen: the reader gets the start of the
  line padded with NULs to one byte less than it asked for, and a newline in the last byte;
  what did not fit stays in the line for the next read.
\<close>

lemma terminal_read_line:
  assumes buf: "buf \<noteq> 0" and nb: "1 \<le> nbytes" and n: "n = nat (min nbytes 128)"
    and woken: "spin_until (\<lambda>s. is_enter s (uint (get_curr_pcb_term s)) \<noteq> 0) hs
      (set_enter (current_terminal s) 0 (set_lock (current_terminal s) 1 s)) = Some s1"
    and t: "t = current_terminal s1" and ok: "row_ok t s1" and lay: "read_layout t buf n s1"
  obtains s' where "terminal_read hs fd buf nbytes s = Some (int n, s')"
    and "read_bytes (memory s') buf n = take (n - 1) (typed_line t s1 @ replicate (128 - length (typed_line t s1)) 0) @ [0x0A]"
    and "typed_line t s' = drop (n - 1) (typed_line t s1)" "row_ok t s'"
    and "read_lock s' t = 0" "is_enter s' t = 0" "int_flag s'"
proof -
  let ?xs = "typed_line t s1"
  let ?wb = "if length ?xs < n then 0 else length ?xs - (n - 1)"
  have n': "1 \<le> n" "n \<le> 128" using nb n by auto
  have len: "length ?xs \<le> 127" using ok by (simp only: row_ok_def)
  have um: "uint (line_marker s1 t) = int (length ?xs)" by (simp only: length_typed_line uint_nat)
  have wbeq: "(if uint (line_marker s1 t) - nbytes < 0 then 0 else uint (line_marker s1 t) - (nbytes - 1)) = int ?wb"
  proof -
    have N: "int n = min nbytes 128" using nb n by simp
    show ?thesis
    proof (cases "length ?xs < n")
      case True
      then have "int (length ?xs) - nbytes < 0" using N by linarith
      then show ?thesis unfolding um using True by (simp only: if_True of_nat_0)
    next
      case False
      then have "nbytes < 128" "\<not> int (length ?xs) - nbytes < 0" "int (length ?xs - (n - 1)) = int (length ?xs) - (nbytes - 1)"
        using N len n' by linarith+
      then show ?thesis unfolding um using False by (simp only: if_False)
    qed
  qed
  have cnt: "(if nbytes < 128 then nbytes else 128) = int n" using nb n by auto
  let ?s2 = "transfer_line buf (int n) (int ?wb) (cli s1)"
  let ?s' = "set_enter t 0 (set_lock t 0 (sti ?s2))"
  have ct: "current_terminal ?s2 = t" by (simp add: transfer_line_def Let_def t)
  have tr: "(if nbytes < 128 then transfer_line buf nbytes (int ?wb) (cli s1)
      else transfer_line buf 128 (int ?wb) (cli s1)) = ?s2"
    using cnt by (cases "nbytes < 128") (simp_all only: if_True if_False)
  have "terminal_read hs fd buf nbytes s = Some (int n, ?s')"
    using buf woken
    by (simp only: terminal_read_def Let_def if_False bind.bind_lunit kbrd_flags t [symmetric] wbeq KBRD_BUF_LENGTH_def tr ct kbrd_setters_lock cnt)
  moreover note spec = transfer_line_eq [of "cli s1" n buf ?wb, unfolded cli_row_ok kbrd_flags, folded t, OF ok n' lay refl]
  have "read_bytes (memory ?s') buf n = take (n - 1) (?xs @ replicate (128 - length ?xs) 0) @ [0x0A]"
    using spec(1) by (simp only: kbrd_setters_enter kbrd_setters_lock sti_simps)
  moreover have "typed_line t ?s' = typed_line t ?s2" "row_ok t ?s' = row_ok t ?s2"
    by (simp_all add: row_ok_def typed_line_def kbrd_row_def)
  moreover have "read_lock ?s' t = 0" "is_enter ?s' t = 0" "int_flag ?s'" by simp_all
  ultimately show ?thesis using spec(2,3) by (intro that [of ?s']) (simp_all only:)
qed

section \<open>Writing to a terminal\<close>

lemma get_curr_pcb_term_putc [simp]: "get_curr_pcb_term (putc c t s) = get_curr_pcb_term s"
  for s :: "'a keyboard_scheme"
  by (simp add: get_curr_pcb_term_def)

lemma terminal_write_loop:
  fixes s :: "'a keyboard_scheme"
  assumes ok: "cursor_ok w s" and w: "w = get_curr_pcb_term s"
    and off: "\<And>i. i < n \<Longrightarrow> \<not> in_region (buf + of_nat i) (page w) 4000"
  shows "fold (\<lambda>i s. putc (memory s (buf + of_nat i)) (get_curr_pcb_term s) s) [0..<n] s = put_all (read_bytes (memory s) buf n) w s
    \<and> get_curr_pcb_term (put_all (read_bytes (memory s) buf n) w s) = w"
  using off
proof (induction n)
  case 0
  then show ?case using w by simp
next
  case (Suc n)
  let ?s = "put_all (read_bytes (memory s) buf n) w s"
  have IH: "fold (\<lambda>i s. putc (memory s (buf + of_nat i)) (get_curr_pcb_term s) s) [0..<n] s = ?s" "get_curr_pcb_term ?s = w"
    using Suc by auto
  have "memory ?s (buf + of_nat n) = memory s (buf + of_nat n)"
    using Suc.prems [of n] by (intro put_all_frame [OF ok]) simp
  moreover have "read_bytes (memory s) buf (Suc n) = read_bytes (memory s) buf n @ [memory s (buf + of_nat n)]"
    using read_bytes_add [of "memory s" buf n 1] by (simp add: read_bytes_def)
  ultimately show ?case using IH by (simp add: put_all_snoc)
qed

lemma terminal_write_eq:
  fixes s :: "'a keyboard_scheme"
  defines "w \<equiv> get_curr_pcb_term s"
  assumes "buf \<noteq> 0" "cursor_ok w s" "\<And>i. i < nat nbytes \<Longrightarrow> \<not> in_region (buf + of_nat i) (page w) 4000"
  shows "terminal_write fd buf nbytes s = (nbytes, sti (put_all (read_bytes (memory s) buf (nat nbytes)) w (cli s)))"
proof -
  have "w = get_curr_pcb_term (cli s)" "cursor_ok w (cli s)"
    using assms(3) by (simp_all add: w_def get_curr_pcb_term_def cursor_ok_def cli_def)
  then show ?thesis
    using terminal_write_loop [of w "cli s" "nat nbytes" buf] assms(2,4) by (simp add: terminal_write_def Let_def)
qed

lemma screen_of_flags [simp]: "screen_of t (sti s) = screen_of t s" "screen_of t (cli s) = screen_of t s"
  by (rule screen_of_cong; simp add: cli_def sti_def)+

section \<open>Enter and the other keys\<close>

lemma enter_key_pending:
  fixes s :: "'a keyboard_scheme"
  defines "t \<equiv> current_terminal s"
  defines "w \<equiv> word_of_int t :: u32"
  assumes lay: "kbrd_layout s" and t: "valid_term t" and ok: "row_ok t s" and cur: "cursor_ok w s"
    and lock: "read_lock s t \<noteq> 0"
  shows "typed_line t (enter_key k s) = typed_line t s" "row_ok t (enter_key k s)" "is_enter (enter_key k s) t = 1"
    and "kbrd_buf_length (enter_key k s) t = 0" "screen_of w (enter_key k s) = put_char k (screen_of w s)"
proof -
  let ?s' = "set_length t 0 (set_enter t 1 (putc k w s))"
  have eq: "enter_key k s = ?s'" using lock by (simp add: enter_key_def Let_def flip: t_def w_def)
  have "unat (line_marker s t) \<le> 127" using ok by (simp add: row_ok_def)
  then have rows: "read_bytes (memory ?s') (kbrd_row s t) n = read_bytes (memory s) (kbrd_row s t) n" if "n \<le> 128" for n
    using putc_row [OF lay t t cur [unfolded w_def] that] by (simp add: w_def)
  show tl: "typed_line t (enter_key k s) = typed_line t s"
    using rows [of "unat (line_marker s t)"] \<open>unat (line_marker s t) \<le> 127\<close> by (simp add: eq typed_line_def)
  then show "row_ok t (enter_key k s)"
    using ok rows [of 128] unfolding row_ok_def tl by (simp add: eq)
  show "is_enter (enter_key k s) t = 1" "kbrd_buf_length (enter_key k s) t = 0" by (simp_all add: eq)
  have "screen_of w ?s' = screen_of w (putc k w s)" by (rule screen_of_cong) simp_all
  then show "screen_of w (enter_key k s) = put_char k (screen_of w s)" using putc_refines [OF cur] by (simp add: eq)
qed

lemma enter_key_idle:
  fixes s :: "'a keyboard_scheme"
  defines "t \<equiv> current_terminal s"
  assumes "read_lock s t = 0"
  shows "typed_line t (enter_key k s) = []" "line_ok t (enter_key k s)" "is_enter (enter_key k s) t = 1"
proof -
  let ?w = "word_of_int t :: u32"
  let ?s1 = "set_length t 0 (set_enter t 1 (putc k ?w s))"
  let ?s' = "set_marker t 0 (?s1\<lparr>memory := write_bytes (memory ?s1) (kbrd_row s t) (replicate 128 0)\<rparr>)"
  have eq: "enter_key k s = ?s'"
    using assms(2) by (simp add: enter_key_def Let_def memset_eq KBRD_BUF_LENGTH_def NULL_SCANCODE_def flip: t_def)
  have "read_bytes (memory ?s') (kbrd_row ?s' t) 128 = [] @ replicate (128 - length []) 0"
    using read_write_bytes [of "replicate 128 0" "memory ?s1" "kbrd_row s t"] by simp
  then show "typed_line t (enter_key k s) = []" "line_ok t (enter_key k s)"
    unfolding eq using line_okI [of ?s' t "[]"] by simp_all
  show "is_enter (enter_key k s) t = 1" by (simp add: eq)
qed

section \<open>Typing a line while a program reads\<close>

text \<open>
  One keyboard interrupt at which the controller reports a key and offers its scan code.
\<close>

definition key_event :: "u8 \<Rightarrow> 'a keyboard_scheme handler" where
  "key_event scancode s =
     map_option (\<lambda>s'. s'\<lparr>device := device s\<rparr>)
       (kbrd_int (s\<lparr>device := (\<lambda>_ port. if port = KBRD_PORT_DATA then scancode else 1)\<rparr>))"

definition plain_key :: "u8 \<Rightarrow> bool" where
  "plain_key sc \<longleftrightarrow> sc < SCANCODE_LENGTH \<and> sc \<notin> {LCTRL_PRESS, LSHIFT_PRESS, RSHIFT_PRESS, LALT_PRESS, CAPS_PRESS, ENTER_PRESS,
     BACKSPACE_PRESS, F1_SCANCODE, F2_SCANCODE, F3_SCANCODE}"

text \<open>A line is being typed at terminal \<open>t\<close>, no modifier held, for a process of that terminal that waits in a read.\<close>

definition reading :: "int \<Rightarrow> u8 list \<Rightarrow> 'a keyboard_scheme \<Rightarrow> bool" where
  "reading t xs s \<longleftrightarrow> valid_term t \<and> current_terminal s = t \<and> get_curr_pcb_term s = word_of_int t \<and> kbrd_layout s \<and>
     line_ok t s \<and> typed_line t s = xs \<and> cursor_ok (word_of_int t) s \<and> is_ctrl s t \<noteq> 1 \<and> is_shift s t = 0 \<and> is_caps s t = 0 \<and>
     is_enter s t = 0 \<and> read_lock s t = 1 \<and> int_flag s"

lemma putc_machine [simp]: "int_flag (putc c t s) = int_flag s" "device (putc c t s) = device s"
  by (simp_all add: putc_def update_cursor_def vert_scroll_def put_cell_def set_x_def set_y_def Let_def)

lemma set_fields_machine [simp]:
  "int_flag (set_length t v s) = int_flag s" "device (set_length t v s) = device s" "get_curr_pcb_term (set_length t v s) = get_curr_pcb_term s"
  "int_flag (set_marker t w s) = int_flag s" "device (set_marker t w s) = device s" "get_curr_pcb_term (set_marker t w s) = get_curr_pcb_term s"
  "int_flag (set_enter t v s) = int_flag s" "device (set_enter t v s) = device s" "get_curr_pcb_term (set_enter t v s) = get_curr_pcb_term s"
  "int_flag (set_lock t v s) = int_flag s" "device (set_lock t v s) = device s" "get_curr_pcb_term (set_lock t v s) = get_curr_pcb_term s"
  by (simp_all add: set_length_def set_marker_def set_enter_def set_lock_def get_curr_pcb_term_def)

lemma get_curr_pcb_term_memory [simp]: "get_curr_pcb_term (s\<lparr>memory := m\<rparr>) = get_curr_pcb_term s"
  by (simp add: get_curr_pcb_term_def)

lemma character_key_frame:
  assumes "character_key sc key s = Some s'" "is_ctrl s (current_terminal s) \<noteq> 1"
  shows "is_enter s' = is_enter s" "read_lock s' = read_lock s" "get_curr_pcb_term s' = get_curr_pcb_term s"
    and "kbrd_read_buf s' = kbrd_read_buf s" "int_flag s' = int_flag s"
  using assms by (auto simp: character_key_def Let_def)

lemma character_key_memory:
  assumes "character_key sc key s = Some s'" "is_ctrl s (current_terminal s) \<noteq> 1"
  shows "memory s' = (memory (putc (shifted_key sc key s) (word_of_int (current_terminal s)) s))
    (kbrd_row s (current_terminal s) + ucast (line_marker s (current_terminal s)) := shifted_key sc key s)"
  using assms by (auto simp: character_key_def Let_def)

text \<open>The view of the line is not changed by the device, the log and the interrupt flag.\<close>

lemma reading_cong:
  assumes "memory s' = memory s" "screen_x s' = screen_x s" "screen_y s' = screen_y s" "current_terminal s' = current_terminal s"
    "get_curr_pcb_term s' = get_curr_pcb_term s" "kbrd_buf s' = kbrd_buf s" "kbrd_buf_length s' = kbrd_buf_length s"
    "line_marker s' = line_marker s" "is_ctrl s' = is_ctrl s" "is_shift s' = is_shift s" "is_caps s' = is_caps s"
    "is_enter s' = is_enter s" "read_lock s' = read_lock s" "int_flag s' = int_flag s"
  shows "reading t xs s' = reading t xs s"
  using assms by (simp add: reading_def kbrd_layout_def line_ok_def typed_line_def kbrd_row_def cursor_ok_def)

lemma handle_ordinary:
  assumes "plain_key sc"
  shows "handle_scancode sc s =
    (if kbrd_buf_length s (current_terminal s) < 127 then character_key sc (kbrdscancode ! unat sc) s else Some s)"
proof -
  have "sc < SCANCODE_LENGTH" using assms by (simp add: plain_key_def)
  then have "sc \<noteq> LCTRL_RELEASE" "sc \<noteq> LSHIFT_RELEASE" "sc \<noteq> RSHIFT_RELEASE" "sc \<noteq> LALT_RELEASE" by (auto simp: kbrd_consts)
  then show ?thesis using assms by (simp add: plain_key_def handle_scancode_def Let_def KBRD_BUF_LENGTH_def)
qed

lemma handle_plain_key:
  assumes "plain_key sc" "kbrd_buf_length s (current_terminal s) < 127"
  shows "handle_scancode sc s = character_key sc (kbrdscancode ! unat sc) s"
  using assms by (simp add: handle_ordinary)

lemma handle_full_line:
  assumes "plain_key sc" "\<not> kbrd_buf_length s (current_terminal s) < 127"
  shows "handle_scancode sc s = Some s"
  using assms by (simp add: handle_ordinary)

lemma key_event_eq:
  "key_event sc s = map_option (\<lambda>s'. (send_eoi KBRD_IRQ s')\<lparr>device := device s\<rparr>)
     (handle_scancode sc (s\<lparr>device := (\<lambda>_ port. if port = KBRD_PORT_DATA then sc else 1)\<rparr>))"
  by (simp add: key_event_def kbrd_int_def inb_def kbrd_consts map_option_case split: option.split)

text \<open>One ordinary key adds its character to the line.\<close>

lemma key_event_types:
  assumes r: "reading t xs s" and k: "plain_key sc" "length xs < 127"
  shows "\<exists>s'. take_interrupt (key_event sc) s = Some s' \<and> reading t (xs @ [kbrdscancode ! unat sc]) s' \<and> kbrd_read_buf s' = kbrd_read_buf s \<and>
    kbrd_buf s' = kbrd_buf s"
proof -
  let ?d = "\<lambda>_ port. if port = KBRD_PORT_DATA then sc else 1"
  let ?s = "s\<lparr>int_flag := False, device := ?d\<rparr>"
  let ?k = "kbrdscancode ! unat sc"
  have view: "kbrd_layout ?s" "line_ok t ?s" "cursor_ok (word_of_int t) ?s" "current_terminal ?s = t" "is_ctrl ?s t \<noteq> 1" "valid_term t"
    "typed_line t ?s = xs" "kbrd_buf_length ?s t < 127"
    using r k(2) line_okD(1) [of t s] by (auto simp: reading_def kbrd_layout_def line_ok_def typed_line_def kbrd_row_def cursor_ok_def)
  have sk: "shifted_key sc ?k ?s = ?k" using r by (simp add: shifted_key_def reading_def Let_def)
  obtain s' where s': "character_key sc ?k ?s = Some s'" "typed_line t s' = typed_line t ?s @ [?k]" "line_ok t s'"
    "screen_of (word_of_int t) s' = put_char ?k (screen_of (word_of_int t) ?s)" "cursor_ok (word_of_int t) s'"
    "kbrd_buf s' = kbrd_buf ?s" "current_terminal s' = t" "is_ctrl s' = is_ctrl ?s" "is_shift s' = is_shift ?s" "is_caps s' = is_caps ?s"
    by (rule character_key_edit [of ?s ?k sc, unfolded view(4) sk, OF view(1,6,2,3,8) disjI1 [OF view(5)]])
  note fr = character_key_frame [OF s'(1)]
  define u where "u = ((send_eoi KBRD_IRQ s')\<lparr>device := device s\<rparr>)\<lparr>int_flag := True\<rparr>"
  have "take_interrupt (key_event sc) s = Some u"
    using r s'(1) handle_plain_key [of sc ?s] k(1) view(4,8)
    by (simp add: take_interrupt_def key_event_eq u_def reading_def)
  moreover have "reading t (xs @ [?k]) u"
    using r s' fr view(4,5,7)
    by (simp add: u_def reading_def kbrd_layout_def line_ok_def typed_line_def kbrd_row_def cursor_ok_def get_curr_pcb_term_def send_eoi_def outb_def)
  moreover have "kbrd_read_buf u = kbrd_read_buf s" "kbrd_buf u = kbrd_buf s"
    using fr(4) s'(6) view(4,5) by (simp_all add: u_def send_eoi_def outb_def)
  ultimately show ?thesis by blast
qed

lemma key_events_type:
  assumes "reading t xs s" "list_all plain_key scs" "length xs + length scs \<le> 127"
  shows "\<exists>s'. take_interrupts (map key_event scs) s = Some s' \<and> reading t (xs @ map (\<lambda>sc. kbrdscancode ! unat sc) scs) s' \<and>
    kbrd_read_buf s' = kbrd_read_buf s \<and> kbrd_buf s' = kbrd_buf s"
  using assms
proof (induction scs arbitrary: xs s)
  case Nil
  then show ?case by simp
next
  case (Cons sc scs)
  obtain u where u: "take_interrupt (key_event sc) s = Some u" "reading t (xs @ [kbrdscancode ! unat sc]) u"
    "kbrd_read_buf u = kbrd_read_buf s" "kbrd_buf u = kbrd_buf s"
    using key_event_types [of t xs s sc] Cons.prems by auto
  then show ?case using Cons.IH [OF u(2)] Cons.prems by auto
qed

lemma row_view_cong:
  assumes "memory s' = memory s" "kbrd_buf s' = kbrd_buf s" "line_marker s' = line_marker s"
  shows "row_ok t s' = row_ok t s" "typed_line t s' = typed_line t s"
  using assms by (simp_all add: row_ok_def typed_line_def kbrd_row_def)

text \<open>Enter, with the read pending: the line stays, the reader is released.\<close>

lemma enter_event:
  assumes r: "reading t xs s"
  shows "\<exists>s'. take_interrupt (key_event ENTER_PRESS) s = Some s' \<and> is_enter s' t = 1 \<and> current_terminal s' = t \<and>
    get_curr_pcb_term s' = word_of_int t \<and> row_ok t s' \<and> typed_line t s' = xs \<and> kbrd_read_buf s' = kbrd_read_buf s \<and> kbrd_buf s' = kbrd_buf s"
proof -
  let ?d = "\<lambda>_ port. if port = KBRD_PORT_DATA then ENTER_PRESS else 1"
  let ?s = "s\<lparr>int_flag := False, device := ?d\<rparr>" and ?k = "0x0A :: u8"
  have view: "kbrd_layout ?s" "row_ok t ?s" "cursor_ok (word_of_int t) ?s" "current_terminal ?s = t" "valid_term t"
    "typed_line t ?s = xs" "read_lock ?s t \<noteq> 0"
    using r line_ok_row_ok [of t s]
    by (auto simp: reading_def kbrd_layout_def row_ok_def typed_line_def kbrd_row_def cursor_ok_def)
  note ek = enter_key_pending [of ?s, unfolded view(4), OF view(1,5,2,3,7), of ?k]
  have fr: "current_terminal (enter_key ?k ?s) = t" "kbrd_read_buf (enter_key ?k ?s) = kbrd_read_buf s" "kbrd_buf (enter_key ?k ?s) = kbrd_buf s"
    "get_curr_pcb_term (enter_key ?k ?s) = word_of_int t"
    using r view(4,7) by (simp_all add: enter_key_def Let_def reading_def) (simp add: get_curr_pcb_term_def)
  define u where "u = ((send_eoi KBRD_IRQ (enter_key ?k ?s))\<lparr>device := device s\<rparr>)\<lparr>int_flag := True\<rparr>"
  have "handle_scancode ENTER_PRESS ?s = Some (enter_key ?k ?s)"
    by (simp add: handle_scancode_def Let_def kbrd_consts kbrdscancode_def)
  then have "take_interrupt (key_event ENTER_PRESS) s = Some u"
    using r by (simp add: take_interrupt_def key_event_eq u_def reading_def)
  moreover have "row_ok t u = row_ok t (enter_key ?k ?s)" "typed_line t u = typed_line t (enter_key ?k ?s)"
    by (intro row_view_cong; simp add: u_def send_eoi_def outb_def)+
  moreover have "is_enter u t = 1" "current_terminal u = t" "get_curr_pcb_term u = word_of_int t"
    "kbrd_read_buf u = kbrd_read_buf s" "kbrd_buf u = kbrd_buf s"
    using ek(3) fr by (simp_all add: u_def get_curr_pcb_term_def send_eoi_def outb_def)
  ultimately show ?thesis using ek(1,2) view(6) by (intro exI [of _ u]) simp
qed

text \<open>
  The whole exchange: the reader spins, the keys arrive, Enter releases it.
\<close>

lemma typed_line_read:
  fixes s :: "'a keyboard_scheme"
  defines "t \<equiv> current_terminal s"
  assumes start: "reading t xs (set_enter t 0 (set_lock t 1 s))"
    and keys: "list_all plain_key scs" "length xs + length scs \<le> 127"
    and buf: "buf \<noteq> 0" "1 \<le> nbytes" and n: "n = nat (min nbytes 128)" and lay: "read_layout t buf n s"
    and line: "line = xs @ map (\<lambda>sc. kbrdscancode ! unat sc) scs"
  shows "\<exists>s'. terminal_read (map key_event scs @ key_event ENTER_PRESS # later) fd buf nbytes s = Some (int n, s') \<and>
    read_bytes (memory s') buf n = take (n - 1) (line @ replicate (128 - length line) 0) @ [0x0A] \<and>
    typed_line t s' = drop (n - 1) line \<and> row_ok t s' \<and> read_lock s' t = 0 \<and> is_enter s' t = 0"
proof -
  let ?s0 = "set_enter t 0 (set_lock t 1 s)" and ?p = "\<lambda>s. is_enter s (uint (get_curr_pcb_term s)) \<noteq> 0"
  have t: "valid_term t" using start by (simp add: reading_def)
  then have ut: "uint (word_of_int t :: u32) = t" by (auto dest: valid_term_cases)
  obtain u where u: "take_interrupts (map key_event scs) ?s0 = Some u" "reading t line u"
    "kbrd_read_buf u = kbrd_read_buf s" "kbrd_buf u = kbrd_buf s"
    using key_events_type [OF start keys] line by auto
  obtain s1 where s1: "take_interrupt (key_event ENTER_PRESS) u = Some s1" "is_enter s1 t = 1" "current_terminal s1 = t"
    "get_curr_pcb_term s1 = word_of_int t" "row_ok t s1" "typed_line t s1 = line" "kbrd_read_buf s1 = kbrd_read_buf s" "kbrd_buf s1 = kbrd_buf s"
    using enter_event [OF u(2)] u(3,4) by auto
  have waits: "\<not> ?p v" if "take_interrupts (take k (map key_event scs)) ?s0 = Some v" for k v
  proof -
    have "list_all plain_key (take k scs)" using keys(1) by (metis list_all_append append_take_drop_id)
    moreover have "length xs + length (take k scs) \<le> 127" using keys(2) by (auto simp: min_def)
    ultimately obtain w where "take_interrupts (map key_event (take k scs)) ?s0 = Some w" "reading t (xs @ map (\<lambda>sc. kbrdscancode ! unat sc) (take k scs)) w"
      using key_events_type [OF start, of "take k scs"] by blast
    then show ?thesis using that ut by (simp add: take_map reading_def)
  qed
  have woken: "spin_until ?p (map key_event scs @ key_event ENTER_PRESS # later) ?s0 = Some s1"
    using start u(1) s1 waits ut by (intro spin_until_returns) (auto simp: reading_def)
  have lay1: "read_layout t buf n s1" using lay s1(7,8) by (simp add: read_layout_def kbrd_row_def)
  show ?thesis
    using terminal_read_line [OF buf n woken [unfolded t_def] s1(3) [symmetric] s1(5) lay1] s1(6) by metis
qed

section \<open>Main properties\<close>

definition demo_keyboard :: "(u32 \<times> u8 list) list \<Rightarrow> keyboard" where
  "demo_keyboard segs = process_sys.extend (demo_process\<lparr>memory := mem_of (segs @ demo_image), int_flag := True\<rparr>)
     (keyboard.fields (\<lambda>_. 0) (\<lambda>_. 0) (\<lambda>_. 0) (\<lambda>_. 0) (\<lambda>_. 0) (\<lambda>_. 0) (\<lambda>_. 0) 0 (\<lambda>_. 0) 0x600000 0x600200)"

lemmas demo_defs = demo_keyboard_def demo_process_def demo_rtc_def demo_fs_def demo_paging_def paging.defs file_sys.defs rtc.defs
  process_sys.defs keyboard.defs

lemma demo_keyboard_sel [simp]:
  "memory (demo_keyboard segs) = mem_of (segs @ demo_image)" "int_flag (demo_keyboard segs)" "curr_term (demo_keyboard segs) = 0"
  "screen_x (demo_keyboard segs) t = 0" "screen_y (demo_keyboard segs) t = 0" "boot_block (demo_keyboard segs) = 0x500000"
  "current_terminal (demo_keyboard segs) = 0" "kbrd_buf (demo_keyboard segs) = 0x600000" "kbrd_read_buf (demo_keyboard segs) = 0x600200"
  "kbrd_buf_length (demo_keyboard segs) i = 0" "line_marker (demo_keyboard segs) i = 0" "is_ctrl (demo_keyboard segs) i = 0"
  "is_shift (demo_keyboard segs) i = 0" "is_caps (demo_keyboard segs) i = 0" "is_alt (demo_keyboard segs) i = 0"
  "pcbs (demo_keyboard segs) a = (if a = pcb_of 0 then demo_pcb 0 else demo_pcb 1)"
  "process_array (demo_keyboard segs) p = (if p = 0 \<or> p = 1 then 1 else 0)" "terminal_array (demo_keyboard segs) p = p"
  "curr_terminal (demo_keyboard segs) = 0" "esp (demo_keyboard segs) = pcb_of 0 + 0x1F00" "ebp (demo_keyboard segs) = pcb_of 0 + 0x1F00"
  by (simp_all add: demo_defs)

lemma demo_cursor_ok [simp]: "cursor_ok t (demo_keyboard segs)"
  by (simp add: cursor_ok_def console_consts)

lemma demo_layout [simp]: "kbrd_layout (demo_keyboard segs)"
  by (simp add: kbrd_layout_def disjoint_regions_def console_consts)

lemma demo_image_high: "0x600000 \<le> x \<Longrightarrow> mem_of demo_image x = 0"
  for x :: u32
  by (simp add: mem_of_def demo_image_def demo_file_def, simp add: word_less_nat_alt word_le_nat_alt unat_sub_if_size word_size, arith)

text \<open>
  C10: a line typed at the keyboard is what the waiting program reads. A process of the displayed
  terminal calls \<open>terminal_read\<close>; then the keyboard interrupts for any keys without a special
  meaning arrive (at most 127 characters in the line), and finally Enter. The read returns
  (with the smaller of the count asked for and 128), and its buffer holds the characters of
  the keys in the order they were pressed, cut or padded with NULs to one less than that
  count, and a newline in the last byte; characters that did not fit stay in the line for the
  next read, and the lock of the terminal is released.
\<close>
theorem typed_line_is_read:
  assumes "t = current_terminal s" "reading t xs (set_enter t 0 (set_lock t 1 s))"
    and "list_all plain_key scs" "length xs + length scs \<le> 127"
    and "buf \<noteq> 0" "1 \<le> nbytes" "n = nat (min nbytes 128)" "read_layout t buf n s"
    and "line = xs @ map (\<lambda>sc. kbrdscancode ! unat sc) scs"
  shows "\<exists>s'. terminal_read (map key_event scs @ key_event ENTER_PRESS # later) fd buf nbytes s = Some (int n, s') \<and>
    read_bytes (memory s') buf n = take (n - 1) (line @ replicate (128 - length line) 0) @ [0x0A] \<and>
    typed_line t s' = drop (n - 1) line \<and> row_ok t s' \<and> read_lock s' t = 0 \<and> is_enter s' t = 0"
  using typed_line_read [OF assms(2-9) [unfolded assms(1)]] unfolding assms(1) .

lemma demo_reading: "reading 0 [] (set_enter 0 0 (set_lock 0 1 (demo_keyboard [])))"
proof -
  have "read_bytes (mem_of demo_image) 0x600000 128 = replicate 128 0"
    by (rule nth_equalityI) (simp_all add: demo_image_high word_le_nat_alt unat_word_ariths unat_of_nat_u32)
  then have "line_ok 0 (set_enter 0 0 (set_lock 0 1 (demo_keyboard [])))"
    by (simp add: line_ok_def typed_line_def kbrd_row_def)
  then show ?thesis
    by (simp add: reading_def valid_term_def typed_line_def get_curr_pcb_term_def demo_pcb_def kbrd_layout_def cursor_ok_def disjoint_regions_def
        console_consts)
qed

theorem typed_line_is_read_witness:
  "\<exists>s'. terminal_read (map key_event [0x26, 0x1F] @ key_event ENTER_PRESS # []) 0 0x1000 4 (demo_keyboard []) = Some (4, s') \<and>
     read_bytes (memory s') 0x1000 4 = [0x6C, 0x73, 0, 0x0A]"
proof -
  have "list_all plain_key [0x26, 0x1F]" by (simp add: plain_key_def kbrd_consts)
  moreover have "read_layout 0 0x1000 4 (demo_keyboard [])"
    by (simp add: read_layout_def kbrd_row_def disjoint_regions_def)
  moreover have "[0x6C, 0x73] = [] @ map (\<lambda>sc. kbrdscancode ! unat sc) [0x26, 0x1F :: u8]" by (simp add: kbrdscancode_def)
  moreover note demo_reading
  ultimately have "\<exists>s'. terminal_read (map key_event [0x26, 0x1F] @ key_event ENTER_PRESS # []) 0 0x1000 4 (demo_keyboard []) = Some (int 4, s') \<and>
      read_bytes (memory s') 0x1000 4 = take (4 - 1) ([0x6C, 0x73] @ replicate (128 - length [0x6C, 0x73 :: u8]) 0) @ [0x0A] \<and>
      typed_line 0 s' = drop (4 - 1) [0x6C, 0x73] \<and> row_ok 0 s' \<and> read_lock s' 0 = 0 \<and> is_enter s' 0 = 0"
    by (intro typed_line_is_read) simp_all
  moreover have "take (4 - 1) ([0x6C, 0x73] @ replicate (128 - length [0x6C, 0x73 :: u8]) 0) @ [0x0A] = [0x6C, 0x73, 0, 0x0A :: u8]"
    by (simp add: numeral_eq_Suc)
  ultimately show ?thesis by auto
qed

text \<open>
  Backspace with a line being edited removes the last character from the line and erases it
  on the screen; counter, write position and buffer stay consistent and the cursor stays on
  the screen.
\<close>
theorem backspace_key_edits_line:
  assumes "t = current_terminal s" "kbrd_layout s" "valid_term t" "line_ok t s" "cursor_ok (word_of_int t) s"
    and "screen_x s (word_of_int t) \<noteq> 0 \<or> screen_y s (word_of_int t) \<noteq> 0" "typed_line t s \<noteq> []"
  shows "typed_line t (backspace_key s) = butlast (typed_line t s) \<and> line_ok t (backspace_key s) \<and>
    screen_of (word_of_int t) (backspace_key s) = back_space (screen_of (word_of_int t) s) \<and> cursor_ok (word_of_int t) (backspace_key s)"
  using backspace_key_edit [of s] assms by simp

definition demo_editing :: keyboard where
  "demo_editing = (demo_keyboard [(0x600000, [0x61])])\<lparr>line_marker := (\<lambda>_. 1), kbrd_buf_length := (\<lambda>_. 1), screen_x := (\<lambda>_. 1)\<rparr>"

theorem backspace_key_edits_line_witness: "typed_line 0 (backspace_key demo_editing) = []"
proof -
  have t: "typed_line 0 demo_editing = [0x61]"
    by (simp add: typed_line_def kbrd_row_def demo_editing_def read_bytes_def mem_of_def)
  have "read_bytes (mem_of ((0x600000, [0x61]) # demo_image)) 0x600001 127 = replicate 127 0"
    by (rule nth_equalityI)
      (simp_all add: mem_of_Cons demo_image_high word_le_nat_alt word_less_nat_alt unat_word_ariths unat_of_nat_u32)
  moreover have "read_bytes m a 128 = m a # read_bytes m (a + 1) 127" for m a using read_bytes_Suc [of m a 127] by simp
  ultimately have "line_ok 0 demo_editing"
    using t by (simp add: line_ok_def kbrd_row_def demo_editing_def mem_of_Cons)
  then show ?thesis
    using backspace_key_edits_line [of 0 demo_editing] t
    by (simp add: demo_editing_def kbrd_layout_def valid_term_def cursor_ok_def disjoint_regions_def console_consts)
qed

lemma cursor_ok_cli: "cursor_ok w (cli s) = cursor_ok w s"
  by (simp add: cursor_ok_def cli_def)

text \<open>
  \<open>terminal_write\<close> prints on the terminal of the running process exactly the bytes of the
  buffer, in order, and returns the count; interrupts are on afterwards.
\<close>
theorem terminal_write_prints:
  assumes "w = get_curr_pcb_term s" "buf \<noteq> 0" "cursor_ok w s" "disjoint_regions buf (nat nbytes) (page w) 4000" "nbytes < 2 ^ 31"
  shows "\<exists>s'. terminal_write fd buf nbytes s = (nbytes, s') \<and>
    screen_of w s' = fold put_char (read_bytes (memory s) buf (nat nbytes)) (screen_of w s) \<and> int_flag s'"
proof -
  have off: "\<not> in_region (buf + of_nat i) (page w) 4000" if "i < nat nbytes" for i
  proof -
    have "nat nbytes \<le> 2 ^ 32" using assms(5) by simp
    then show ?thesis using disjoint_regionsD [OF assms(4) in_region_offset [OF that]] by auto
  qed
  have "screen_of w (put_all xs w (cli s)) = fold put_char xs (screen_of w s)" for xs
    using put_all_refines [of w "cli s" xs] assms(3) by (simp add: cursor_ok_cli)
  then show ?thesis using terminal_write_eq [of buf s nbytes fd] assms(1-3) off by simp
qed

theorem terminal_write_prints_witness:
  "\<exists>s'. terminal_write 1 0x1000 2 (demo_keyboard [(0x1000, [0x68, 0x69])]) = (2, s') \<and>
    screen_of 0 s' = fold put_char [0x68, 0x69] (screen_of 0 (demo_keyboard [(0x1000, [0x68, 0x69])]))"
proof -
  let ?s = "demo_keyboard [(0x1000, [0x68, 0x69])]"
  have "get_curr_pcb_term ?s = 0" by (simp add: get_curr_pcb_term_def demo_pcb_def)
  moreover have "read_bytes (memory ?s) 0x1000 (nat 2) = [0x68, 0x69]" by (simp add: read_bytes_def mem_of_Cons upt_rec)
  moreover have "disjoint_regions 0x1000 (nat 2) (page 0) 4000" by (simp add: disjoint_regions_def)
  ultimately show ?thesis using terminal_write_prints [of 0 ?s "0x1000" 2 1] by auto
qed

text \<open>
  Switching the displayed terminal (Alt with F1, F2 or F3). The hardware page becomes the
  chosen terminal's page, its number is the one the keyboard and the console use from then on,
  and nothing else in memory changes: the pages and the half-typed lines of all three
  terminals are kept.
\<close>
theorem switch_terminal_shows_page:
  assumes "(scancode, t) \<in> {(F1_SCANCODE, 0), (F2_SCANCODE, 1), (F3_SCANCODE, 2)}" "is_alt s (current_terminal s) = 1" "current_terminal s \<noteq> t"
  shows "\<exists>s'. handle_scancode scancode s = Some s' \<and> current_terminal s' = t \<and> curr_term s' = word_of_int t \<and>
    read_bytes (memory s') VIDEO 4096 = read_bytes (memory s) (page (word_of_int t)) 4096 \<and>
    (\<forall>x. \<not> in_region x VIDEO 4096 \<longrightarrow> memory s' x = memory s x) \<and>
    line_marker s' = line_marker s \<and> kbrd_buf_length s' = kbrd_buf_length s"
proof -
  have t: "valid_term t" "handle_scancode scancode s = Some (switch_terminal t s)"
    using assms by (auto simp: valid_term_def handle_scancode_def Let_def kbrd_consts)
  have "page (word_of_int t) \<in> {VID1, VID2, VID3}" using t(1) by (rule page_of_term)
  then have "disjoint_regions VIDEO 4096 (page (word_of_int t)) 4096" using vid_disjoint by auto
  then have "memcpy (memory s) VIDEO (page (word_of_int t)) FOUR_KB = write_bytes (memory s) VIDEO (read_bytes (memory s) (page (word_of_int t)) 4096)"
    by (simp add: memcpy_eq FOUR_KB_def)
  then have m: "memory (switch_terminal t s) = write_bytes (memory s) VIDEO (read_bytes (memory s) (page (word_of_int t)) 4096)"
    using assms(3) by (simp add: switch_terminal_def update_vidmem_def update_curr_term_def page_def_fold)
  have "current_terminal (switch_terminal t s) = t" "curr_term (switch_terminal t s) = word_of_int t"
    "line_marker (switch_terminal t s) = line_marker s" "kbrd_buf_length (switch_terminal t s) = kbrd_buf_length s"
    using assms(3) t(1) by (auto simp: switch_terminal_def update_vidmem_def update_curr_term_def SECOND_TERMINAL_def dest!: valid_term_cases)
  then show ?thesis
    using t(2) m read_write_bytes [of "read_bytes (memory s) (page (word_of_int t)) 4096" "memory s" VIDEO] by (simp add: write_bytes_outside)
qed

theorem switch_terminal_shows_page_witness:
  "\<exists>s'. handle_scancode F2_SCANCODE ((demo_keyboard [])\<lparr>is_alt := (\<lambda>_. 1)\<rparr>) = Some s' \<and> current_terminal s' = 1"
  using switch_terminal_shows_page [of F2_SCANCODE 1 "(demo_keyboard [])\<lparr>is_alt := (\<lambda>_. 1)\<rparr>"] by auto

text \<open>
  An ordinary key never leaves the line buffer. With a consistent line, pressing a key
  without a special meaning appends its character when the line has fewer than 127 and is
  ignored otherwise; the line stays consistent, and memory changes only inside the terminal's
  own 128-byte row and its page.
\<close>
theorem plain_key_stays_in_row:
  assumes "t = current_terminal s" "kbrd_layout s" "valid_term t" "line_ok t s" "cursor_ok (word_of_int t) s" "is_ctrl s t \<noteq> 1" "plain_key sc"
  shows "\<exists>s'. handle_scancode sc s = Some s' \<and> line_ok t s' \<and>
    typed_line t s' = (if length (typed_line t s) < 127 then typed_line t s @ [shifted_key sc (kbrdscancode ! unat sc) s] else typed_line t s) \<and>
    (\<forall>x. \<not> in_region x (kbrd_row s t) 128 \<longrightarrow> \<not> in_region x (page (word_of_int t)) 4000 \<longrightarrow> memory s' x = memory s x)"
proof (cases "length (typed_line t s) < 127")
  case True
  note D = line_okD [OF assms(4)]
  have room: "kbrd_buf_length s t < 127" using True D(1) by linarith
  let ?key = "kbrdscancode ! unat sc"
  obtain s' where s': "character_key sc ?key s = Some s'" "typed_line t s' = typed_line t s @ [shifted_key sc ?key s]" "line_ok t s'"
    using character_key_edit [of s ?key sc] assms room by auto
  have "memory s' x = memory s x" if "\<not> in_region x (kbrd_row s t) 128" "\<not> in_region x (page (word_of_int t)) 4000" for x
  proof -
    note character_key_memory [OF s'(1), folded assms(1), OF assms(6)]
    moreover have "in_region (kbrd_row s t + ucast (line_marker s t)) (kbrd_row s t) 128"
      using in_region_offset [of "unat (line_marker s t)" 128 "kbrd_row s t"] True by simp
    ultimately show ?thesis using that putc_frame [OF assms(5)] by auto
  qed
  then show ?thesis using s' handle_plain_key [OF assms(7), of s] room assms(1) True by (intro exI [of _ s']) simp
next
  case False
  then have "\<not> kbrd_buf_length s t < 127" using line_okD(1) [OF assms(4)] by linarith
  then have "handle_scancode sc s = Some s" using handle_full_line [OF assms(7), of s] assms(1) by simp
  then show ?thesis using False assms(4) by auto
qed

theorem plain_key_stays_in_row_witness: "\<exists>s'. handle_scancode 0x1E (demo_keyboard []) = Some s' \<and> typed_line 0 s' = [0x61]"
proof -
  have "line_ok 0 (demo_keyboard [])"
    using demo_reading by (simp add: reading_def line_ok_def typed_line_def)
  moreover have "plain_key 0x1E" by (simp add: plain_key_def kbrd_consts)
  moreover have "shifted_key 0x1E (kbrdscancode ! unat (0x1E :: u8)) (demo_keyboard []) = 0x61" by (simp add: shifted_key_def Let_def kbrdscancode_def)
  moreover have "typed_line 0 (demo_keyboard []) = []" by (simp add: typed_line_def)
  ultimately show ?thesis using plain_key_stays_in_row [of 0 "demo_keyboard []" "0x1E"] by (auto simp: valid_term_def)
qed



end
