(* ===== verification/Syscalls.thy ===== *)
theory Syscalls
  imports Keyboard
begin

text \<open>
  The system calls of \<open>syscall_handler.c\<close> and their dispatch in \<open>int_wrapper.S\<close>. A call
  either returns a number to its caller, or leaves the kernel for user code (\<open>execute\<close>, and
  \<open>halt\<close> in a base shell), or continues in the frame of the parent's \<open>execute\<close> (\<open>halt\<close>).
  The addresses of local arrays and of the string literal compared with a program's first
  bytes are given by a record \<open>locals\<close>; what the handlers of interrupts do while a read
  blocks is given by a list of handlers.
\<close>

datatype 's outcome = Return int 's | Enter_user 's | Resume int 's

record locals =
  l_fname :: u32
  l_buf :: u32
  l_dentry :: u32
  l_args :: u32
  l_elf :: u32
  l_sub :: u32
  l_conv :: u32

definition MAX_NAME_LENGTH :: nat where "MAX_NAME_LENGTH = 32"
definition BUFSIZE :: int where "BUFSIZE = 4"
definition USER_VID_MEM :: u32 where "USER_VID_MEM = 0x8400000"
definition FOUR_MB :: u32 where "FOUR_MB = 0x400000"
definition PUSHED_REGS_SIZE :: u32 where "PUSHED_REGS_SIZE = 68"
definition READ_INDEX :: nat where "READ_INDEX = 0"
definition WRITE_INDEX :: nat where "WRITE_INDEX = 1"
definition OPEN_INDEX :: nat where "OPEN_INDEX = 2"
definition CLOSE_INDEX :: nat where "CLOSE_INDEX = 3"
definition shell_name :: "u8 list" where "shell_name = [0x73, 0x68, 0x65, 0x6C, 0x6C, 0]"

lemmas sys_consts = MAX_NAME_LENGTH_def BUFSIZE_def USER_VID_MEM_def FOUR_MB_def PUSHED_REGS_SIZE_def
  READ_INDEX_def WRITE_INDEX_def OPEN_INDEX_def CLOSE_INDEX_def shell_name_def

section \<open>Calls through a jump table\<close>

text \<open>
  A slot of a jump table only ever holds a function of that kind or \<open>no_func\<close>; the callee's
  local directory entry is at \<open>l_sub\<close>.
\<close>

definition no_func :: "'a keyboard_scheme \<Rightarrow> int \<times> 'a keyboard_scheme" where
  "no_func s = (-1, s)"

definition call_read :: "locals \<Rightarrow> 'a keyboard_scheme handler list \<Rightarrow> fop \<Rightarrow> int \<Rightarrow> u32 \<Rightarrow> int \<Rightarrow> int \<Rightarrow> 'a keyboard_scheme \<Rightarrow>
    (int \<times> 'a keyboard_scheme) option" where
  "call_read L handlers f inode buf nbytes pos s =
     (case f of
        Terminal_read \<Rightarrow> terminal_read handlers inode buf nbytes s
      | Rtc_read \<Rightarrow> rtc_read handlers inode buf nbytes s
      | Dir_read \<Rightarrow> dir_read (l_sub L) inode buf nbytes (word_of_int pos) s
      | File_read \<Rightarrow> Some (file_read inode buf nbytes (word_of_int pos) s)
      | No_func \<Rightarrow> Some (no_func s)
      | _ \<Rightarrow> None)"

definition call_write :: "fop \<Rightarrow> int \<Rightarrow> u32 \<Rightarrow> int \<Rightarrow> 'a keyboard_scheme \<Rightarrow> (int \<times> 'a keyboard_scheme) option" where
  "call_write f inode buf nbytes s =
     (case f of
        Terminal_write \<Rightarrow> Some (terminal_write inode buf nbytes s)
      | Rtc_write \<Rightarrow> Some (rtc_write inode buf nbytes s)
      | Dir_write \<Rightarrow> Some (dir_write inode buf nbytes s)
      | File_write \<Rightarrow> Some (file_write inode buf nbytes s)
      | No_func \<Rightarrow> Some (no_func s)
      | _ \<Rightarrow> None)"

definition call_open :: "locals \<Rightarrow> fop \<Rightarrow> u32 \<Rightarrow> 'a keyboard_scheme \<Rightarrow> (int \<times> 'a keyboard_scheme) option" where
  "call_open L f filename s =
     (case f of
        Terminal_open \<Rightarrow> Some (terminal_open filename s)
      | Rtc_open \<Rightarrow> Some (rtc_open filename s)
      | Dir_open \<Rightarrow> dir_open (l_sub L) filename s
      | File_open \<Rightarrow> file_open (l_sub L) filename s
      | No_func \<Rightarrow> Some (no_func s)
      | _ \<Rightarrow> None)"

definition call_close :: "fop \<Rightarrow> int \<Rightarrow> 'a keyboard_scheme \<Rightarrow> (int \<times> 'a keyboard_scheme) option" where
  "call_close f inode s =
     (case f of
        Terminal_close \<Rightarrow> Some (terminal_close (word_of_int inode) s)
      | Rtc_close \<Rightarrow> Some (rtc_close inode s)
      | Dir_close \<Rightarrow> Some (dir_close inode s)
      | File_close \<Rightarrow> Some (file_close inode s)
      | No_func \<Rightarrow> Some (no_func s)
      | _ \<Rightarrow> None)"

section \<open>File descriptor calls\<close>

definition curr_pcb :: "'a keyboard_scheme \<Rightarrow> u32" where
  "curr_pcb s = esp s AND PCB_BITMASK"

definition fd_at :: "u32 \<Rightarrow> int \<Rightarrow> 'a keyboard_scheme \<Rightarrow> fd_t" where
  "fd_at pcb fd s = file_array (pcbs s pcb) ! nat fd"

definition set_fd :: "u32 \<Rightarrow> int \<Rightarrow> (fd_t \<Rightarrow> fd_t) \<Rightarrow> 'a keyboard_scheme \<Rightarrow> 'a keyboard_scheme" where
  "set_fd pcb fd f s = update_pcb pcb (update_fd (nat fd) f) s"

definition read_fd :: "locals \<Rightarrow> 'a keyboard_scheme handler list \<Rightarrow> int \<Rightarrow> u32 \<Rightarrow> int \<Rightarrow> 'a keyboard_scheme \<Rightarrow>
    (int \<times> 'a keyboard_scheme) option" where
  "read_fd L handlers fd buf nbytes s =
     (let pcb = curr_pcb s
      in if fd < 0 \<or> fd \<ge> MAX_OPEN_FILES \<or> buf = 0 then Some (FAILURE, s)
         else do {
           let s = sti s;
           let f = fd_at pcb fd s;
           (retval, s) \<leftarrow> call_read L handlers (fop_jump_table f ! READ_INDEX) (fd_inode f) buf nbytes (file_position f) s;
           let s = set_fd pcb fd (\<lambda>f. f\<lparr>file_position := file_position f
                 + (if fd_file_type f = 1 then (if retval > 0 then 1 else 0) else retval)\<rparr>) s;
           if fd_flags (fd_at pcb fd s) = 0 \<and> retval = 1 then Some (FAILURE, s) else Some (retval, s)
         })"

definition write_fd :: "int \<Rightarrow> u32 \<Rightarrow> int \<Rightarrow> 'a keyboard_scheme \<Rightarrow> (int \<times> 'a keyboard_scheme) option" where
  "write_fd fd buf nbytes s =
     (let pcb = curr_pcb s
      in if fd < 0 \<or> fd \<ge> MAX_OPEN_FILES \<or> buf = 0 then Some (FAILURE, s)
         else let f = fd_at pcb fd s
              in call_write (fop_jump_table f ! WRITE_INDEX) (fd_inode f) buf nbytes s)"

definition free_fd :: "fd_t list \<Rightarrow> nat" where
  "free_fd fs = length (takeWhile (\<lambda>f. fd_flags f \<noteq> 0) fs)"

definition opened_fd :: "u32 \<Rightarrow> u32 \<Rightarrow> fd_t \<Rightarrow> fd_t" where
  "opened_fd file_type inode_num f =
     f\<lparr>fop_jump_table := file_table ! unat file_type, fd_inode := sint inode_num, fd_file_type := sint file_type,
       file_position := 0, fd_flags := 1\<rparr>"

definition closed_fd :: "fd_t \<Rightarrow> fd_t" where
  "closed_fd f = f\<lparr>fd_inode := 0, fd_file_type := -1, file_position := 0, fd_flags := 0\<rparr>"

text \<open>A directory entry whose type is none of the three reads past \<open>file_table\<close>: no result.\<close>

definition open_fd :: "locals \<Rightarrow> u32 \<Rightarrow> 'a keyboard_scheme \<Rightarrow> (int \<times> 'a keyboard_scheme) option" where
  "open_fd L filename s =
     (let pcb = curr_pcb s
      in if filename = 0 then Some (FAILURE, s)
         else do {
           (test, s) \<leftarrow> read_dentry_by_name filename (l_dentry L) s;
           if test = -1 then Some (FAILURE, s)
           else let i = free_fd (file_array (pcbs s pcb))
                in if int i = MAX_OPEN_FILES then Some (FAILURE, s)
                   else let ft = dentry_file_type (memory s) (l_dentry L); ino = dentry_inode_num (memory s) (l_dentry L)
                        in if ft \<ge> 3 then None
                           else do {
                             let s = set_fd pcb (int i) (opened_fd ft ino) s;
                             (r, s) \<leftarrow> call_open L (fop_jump_table (fd_at pcb (int i) s) ! OPEN_INDEX) filename s;
                             if r \<noteq> 0 then Some (FAILURE, s) else Some (int i, s)
                           }
         })"

definition close_fd :: "int \<Rightarrow> 'a keyboard_scheme \<Rightarrow> (int \<times> 'a keyboard_scheme) option" where
  "close_fd fd s =
     (let pcb = curr_pcb s
      in if fd < 0 \<or> fd \<ge> MAX_OPEN_FILES then Some (FAILURE, s)
         else let f = fd_at pcb fd s
              in if fd_flags f = 0 then Some (FAILURE, s)
                 else do {
                   (retval, s) \<leftarrow> call_close (fop_jump_table f ! CLOSE_INDEX) (fd_inode f) s;
                   Some (retval, set_fd pcb fd closed_fd s)
                 })"

section \<open>Arguments, video memory, signals\<close>

definition getargs :: "u32 \<Rightarrow> int \<Rightarrow> 'a keyboard_scheme \<Rightarrow> (int \<times> 'a keyboard_scheme) option" where
  "getargs buf nbytes s =
     (if buf = 0 \<or> nbytes = 0 then Some (FAILURE, s)
      else do {
        let args = pcb_of (terminal_array s (curr_terminal s));
        l \<leftarrow> strlen (memory s) args;
        if l > word_of_int nbytes then Some (FAILURE, s)
        else do {
          let m = fold (\<lambda>i m. m(buf + of_nat i := 0)) [0..<ARGS_SIZE] (memory s);
          m \<leftarrow> strcpy m buf args;
          Some (SUCCESS, s\<lparr>memory := m\<rparr>)
        }
      })"

definition vidmap :: "u32 \<Rightarrow> 'a keyboard_scheme \<Rightarrow> int \<times> 'a keyboard_scheme" where
  "vidmap screen_start s =
     (if screen_start = 0 then (-1, s)
      else if screen_start < USER_VID_MEM - FOUR_MB then (-1, s)
      else if screen_start \<ge> USER_VID_MEM then (-1, s)
      else (0, s\<lparr>memory := write32 (memory s) screen_start USER_VID_MEM\<rparr>))"

definition set_handler :: "int \<Rightarrow> u32 \<Rightarrow> 'a keyboard_scheme \<Rightarrow> int \<times> 'a keyboard_scheme" where
  "set_handler signum handler_address s = (-1, s)"

definition sigreturn :: "'a keyboard_scheme \<Rightarrow> int \<times> 'a keyboard_scheme" where
  "sigreturn s = (-1, s)"

section \<open>Starting and ending programs\<close>

definition initial_fds :: "(nat \<Rightarrow> u32) \<Rightarrow> fd_t list" where
  "initial_fds flag =
     map (\<lambda>k. \<lparr>fop_jump_table = (if k < STD_FILES then std_table ! k else nofunc_table),
               fd_inode = 0, fd_file_type = -1, file_position = 0, fd_flags = flag k\<rparr>) [0..<nat MAX_OPEN_FILES]"

text \<open>\<open>for(j = 0; src[j] != '\0'; j++) dest[j] = src[j]\<close>, returning the final \<open>j\<close>.\<close>

partial_function (option) copy_until_nul :: "u32 \<Rightarrow> u32 \<Rightarrow> mem \<Rightarrow> u32 \<Rightarrow> (mem \<times> u32) option" where
  "copy_until_nul dest src m j =
     (if m (src + j) \<noteq> 0 then copy_until_nul dest src (m(dest + j := m (src + j))) (j + 1) else Some (m, j))"

text \<open>\<open>for(i = 0; i < MAX_NAME_LENGTH \<and> command[i] != ' '; i++) fname[i] = command[i]\<close>, with the final \<open>i\<close>.\<close>

primrec copy_command :: "nat \<Rightarrow> nat \<Rightarrow> u32 \<Rightarrow> u32 \<Rightarrow> mem \<Rightarrow> mem \<times> nat" where
  "copy_command 0 i fname command m = (m, i)"
| "copy_command (Suc n) i fname command m =
     (if m (command + of_nat i) \<noteq> 0x20
      then copy_command n (i + 1) fname command (m(fname + of_nat i := m (command + of_nat i)))
      else (m, i))"

definition zero_fill :: "u32 \<Rightarrow> nat \<Rightarrow> mem \<Rightarrow> mem" where
  "zero_fill a n m = fold (\<lambda>i m. m(a + of_nat i := 0)) [0..<n] m"

text \<open>The PCB of a new program; \<open>parent\<close> is the PCB found from the stack pointer.\<close>

definition setup_pcb :: "int \<Rightarrow> 'a keyboard_scheme \<Rightarrow> 'a keyboard_scheme" where
  "setup_pcb pid s =
     (let pcb = pcb_of pid; parent = curr_pcb s;
          s = update_pcb pcb (\<lambda>p. p\<lparr>file_array := initial_fds (\<lambda>k. if k < STD_FILES then 1 else 0)\<rparr>) s;
          s = update_pcb pcb (\<lambda>p. p\<lparr>pcb_pid := pid\<rparr>) s;
          s = update_pcb pcb (\<lambda>p. p\<lparr>parent_esp := esp s, parent_ebp := ebp s\<rparr>) s;
          s = update_pcb pcb (\<lambda>p. p\<lparr>pcb_terminal := pcb_terminal (pcbs s parent)\<rparr>) s;
          s = update_pcb parent (\<lambda>p. p\<lparr>leaf := 0\<rparr>) s;
          s = update_pcb pcb (\<lambda>p. p\<lparr>leaf := 1\<rparr>) s;
          s = update_pcb pcb (\<lambda>p. p\<lparr>parent_pid := pcb_pid (pcbs s parent)\<rparr>) s
      in s\<lparr>terminal_array := (terminal_array s)(pcb_terminal (pcbs s parent) := pid)\<rparr>)"

definition execute :: "locals \<Rightarrow> u32 \<Rightarrow> 'a keyboard_scheme \<Rightarrow> 'a keyboard_scheme outcome option" where
  "execute L command s =
     (let s = s\<lparr>memory := zero_fill (l_fname L) NAME_SIZE (memory s)\<rparr>;
          s = s\<lparr>memory := zero_fill (l_args L) ARGS_SIZE (memory s)\<rparr>
      in if command = 0 then Some (Return FAILURE s)
         else let pid = get_next_pid s
              in if pid \<ge> MAX_OPEN_PROCESSES then Some (Return FAILURE s)
                 else do {
                   let (m, i) = copy_command MAX_NAME_LENGTH 0 (l_fname L) command (memory s);
                   (m, j) \<leftarrow> copy_until_nul (l_args L) (command + of_nat (i + 1)) m 0;
                   let s = s\<lparr>memory := m(l_args L + j := 0)\<rparr>;
                   (r, s) \<leftarrow> read_dentry_by_name (l_fname L) (l_dentry L) s;
                   if r \<noteq> 0 then Some (Return FAILURE s)
                   else let inode = sint (dentry_inode_num (memory s) (l_dentry L));
                            (r, s) = file_read inode (l_buf L) BUFSIZE 0 s
                        in if r = 0 then Some (Return FAILURE s)
                           else if strncmp (memory s) (l_buf L) (l_elf L) (word_of_int BUFSIZE) \<noteq> 0 then Some (Return FAILURE s)
                           else let s = change_process pid s;
                                    (r, s) = load_program (sint (dentry_inode_num (memory s) (l_dentry L))) USR_START_ADDR s
                                in if r \<noteq> 0 then Some (Return FAILURE s)
                                   else do {
                                     let s = s\<lparr>process_array := (process_array s)(pid := 1)\<rparr>;
                                     let s = s\<lparr>terminal_array := (terminal_array s)(curr_terminal s := pid)\<rparr>;
                                     let s = s\<lparr>memory := zero_fill (pcb_of pid) ARGS_SIZE (memory s)\<rparr>;
                                     (m, _) \<leftarrow> copy_until_nul (pcb_of pid) (l_args L) (memory s) 0;
                                     let s = s\<lparr>memory := m\<rparr>;
                                     Some (Enter_user (return_to_user pid (setup_pcb pid s)))
                                   }
                 })"

text \<open>The loop of \<open>halt\<close> that closes the open descriptors, up to the first free one.\<close>

primrec close_from :: "nat \<Rightarrow> u32 \<Rightarrow> int \<Rightarrow> 'a keyboard_scheme \<Rightarrow> 'a keyboard_scheme option" where
  "close_from 0 pcb i s = Some s"
| "close_from (Suc n) pcb i s =
     (if fd_flags (fd_at pcb i s) \<noteq> 0 then do { (_, s) \<leftarrow> close_fd i s; close_from n pcb (i + 1) s } else Some s)"

definition halt_message :: "u8 list" where
  "halt_message = map (\<lambda>c. word_of_nat (of_char c)) ''Sorry you can't halt the base shell'' @ [0x0A]"

definition halt :: "locals \<Rightarrow> u8 \<Rightarrow> 'a keyboard_scheme \<Rightarrow> 'a keyboard_scheme outcome option" where
  "halt L status s =
     (let pcb = pcb_of (terminal_array s (curr_terminal s))
      in if parent_pid (pcbs s pcb) < 0
         then do {
           (s, _) \<leftarrow> printf (l_conv L) halt_message [] s;
           let s = s\<lparr>memory := write_bytes (memory s) (l_fname L) shell_name\<rparr>;
           (r, s) \<leftarrow> read_dentry_by_name (l_fname L) (l_dentry L) s;
           if r \<noteq> 0 then Some (Return FAILURE s)
           else let (r, s) = file_read (sint (dentry_inode_num (memory s) (l_dentry L))) (l_buf L) 4 0 s
                in if r = 0 then Some (Return FAILURE s)
                   else if strncmp (memory s) (l_buf L) (l_elf L) 4 \<noteq> 0 then Some (Return FAILURE s)
                   else Some (Enter_user (return_to_user (terminal_array s (curr_terminal s)) s))
         }
         else do {
           s \<leftarrow> close_from 8 pcb 0 s;
           let s = change_process (parent_pid (pcbs s pcb)) s;
           let s = s\<lparr>tss_esp0 := K_MEM_END - K_STACK_SIZE * word_of_int (parent_pid (pcbs s pcb)) - WORD_SIZE\<rparr>;
           let s = s\<lparr>process_array := (process_array s)(terminal_array s (curr_terminal s) := 0)\<rparr>;
           let s = s\<lparr>terminal_array := (terminal_array s)(curr_terminal s := parent_pid (pcbs s pcb))\<rparr>;
           let s = update_pcb (pcb_of (parent_pid (pcbs s pcb))) (\<lambda>p. p\<lparr>leaf := 1\<rparr>) s;
           let s = s\<lparr>esp := parent_esp (pcbs s pcb)\<rparr>;
           let s = push32 0 s;
           let s = s\<lparr>ebp := parent_ebp (pcbs s pcb)\<rparr>;
           let eax = read32 (memory s) (esp s);
           let s = s\<lparr>esp := esp s + 4\<rparr>;
           Some (Resume (sint eax) (leave_ret s))
         })"

section \<open>The three base shells\<close>

text \<open>
  The first kernel stack frame of a shell that has not run yet: what \<open>pit_int\<close> and the end
  of \<open>pit_int_w\<close> (at \<open>ret_addr\<close>, the address of \<open>pit_int_ret\<close>) pop on the way to user mode.
\<close>

definition first_frame :: "u32 \<Rightarrow> u32 \<Rightarrow> 'a keyboard_scheme \<Rightarrow> 'a keyboard_scheme" where
  "first_frame ret_addr EIP s =
     (let ecx = esp s; edx = ebp s; eax = tss_esp0 s;
          s = s\<lparr>esp := eax\<rparr>;
          s = s\<lparr>ebp := eax\<rparr>;
          s = push32 USER_DS s;
          s = push32 USR_STACK_ADDR s;
          s = push32 (eflags_image s) s;
          s = push32 USER_CS s;
          s = push32 EIP s;
          s = (push32 0 ^^ 9) s;
          s = push32 ret_addr s;
          s = push32 eax s
      in s\<lparr>esp := ecx, ebp := edx\<rparr>)"

definition setup_shell :: "u32 \<Rightarrow> locals \<Rightarrow> int \<Rightarrow> 'a keyboard_scheme \<Rightarrow> bool \<times> 'a keyboard_scheme" where
  "setup_shell ret_addr L i s =
     (let s = s\<lparr>terminal_array := (terminal_array s)(i := i)\<rparr>;
          s = s\<lparr>process_array := (process_array s)(i := 1)\<rparr>;
          s = change_process i s;
          (r, s) = load_program (sint (dentry_inode_num (memory s) (l_dentry L))) USR_START_ADDR s
      in if r \<noteq> 0 then (False, s)
         else let EIP = read32 (memory s) (USR_START_ADDR + ADDR_DIST_EIP);
                  pcb = pcb_of i;
                  s = update_pcb pcb (\<lambda>p. p\<lparr>file_array := initial_fds (\<lambda>k. if i < int STD_FILES then 1 else 0),
                        pcb_pid := i, leaf := 1, pcb_terminal := i, parent_pid := -1\<rparr>) s;
                  s = s\<lparr>tss_esp0 := K_MEM_END - word_of_int i * K_STACK_SIZE - WORD_SIZE\<rparr>;
                  s = s\<lparr>tss_ss0 := KERNEL_DS\<rparr>;
                  s = (if i \<noteq> 0 then first_frame ret_addr EIP s else s);
                  saved = K_MEM_END - word_of_int i * K_STACK_SIZE - PUSHED_REGS_SIZE
              in (True, update_pcb pcb (\<lambda>p. p\<lparr>saved_ebp := saved, saved_esp := saved\<rparr>) s))"

primrec setup_shells :: "u32 \<Rightarrow> locals \<Rightarrow> int list \<Rightarrow> 'a keyboard_scheme \<Rightarrow> bool \<times> 'a keyboard_scheme" where
  "setup_shells ret_addr L [] s = (True, s)"
| "setup_shells ret_addr L (i # is) s =
     (let (ok, s) = setup_shell ret_addr L i s in if ok then setup_shells ret_addr L is s else (False, s))"

definition execute_shells :: "u32 \<Rightarrow> locals \<Rightarrow> 'a keyboard_scheme \<Rightarrow> 'a keyboard_scheme outcome option" where
  "execute_shells ret_addr L s =
     do {
       let s = s\<lparr>memory := write_bytes (memory s) (l_fname L) shell_name\<rparr>;
       (r, s) \<leftarrow> read_dentry_by_name (l_fname L) (l_dentry L) s;
       if r \<noteq> 0 then Some (Return FAILURE s)
       else let (r, s) = file_read (sint (dentry_inode_num (memory s) (l_dentry L))) (l_buf L) BUFSIZE 0 s
            in if r = 0 then Some (Return FAILURE s)
               else let (ok, s) = setup_shells ret_addr L [2, 1, 0] s
                    in if \<not> ok then Some (Return FAILURE s)
                       else let pcb = pcb_of 0;
                                s = s\<lparr>curr_terminal := pcb_terminal (pcbs s pcb)\<rparr>;
                                s = sti s
                            in Some (Enter_user (return_to_user (pcb_pid (pcbs s pcb)) s))
     }"

section \<open>Dispatch\<close>

text \<open>\<open>sys_int_w\<close>: the call number in \<open>eax\<close>, the arguments in \<open>ebx\<close>, \<open>ecx\<close> and \<open>edx\<close>.\<close>

definition returning :: "(int \<times> 's) \<Rightarrow> 's outcome" where
  "returning p = Return (fst p) (snd p)"

definition sys_int_w :: "locals \<Rightarrow> 'a keyboard_scheme handler list \<Rightarrow> u32 \<Rightarrow> u32 \<Rightarrow> u32 \<Rightarrow> u32 \<Rightarrow> 'a keyboard_scheme \<Rightarrow>
    'a keyboard_scheme outcome option" where
  "sys_int_w L handlers eax ebx ecx edx s =
     (if eax > 10 \<or> sint eax \<le> 0 then Some (Return (-1) s)
      else if eax = 1 then halt L (ucast ebx) s
      else if eax = 2 then execute L ebx s
      else if eax = 3 then map_option returning (read_fd L handlers (sint ebx) ecx (sint edx) s)
      else if eax = 4 then map_option returning (write_fd (sint ebx) ecx (sint edx) s)
      else if eax = 5 then map_option returning (open_fd L ebx s)
      else if eax = 6 then map_option returning (close_fd (sint ebx) s)
      else if eax = 7 then map_option returning (getargs ebx (sint ecx) s)
      else if eax = 8 then Some (returning (vidmap ebx s))
      else if eax = 9 then Some (returning (set_handler (sint ebx) ecx s))
      else Some (returning (sigreturn s)))"

section \<open>The file system calls only write memory\<close>

lemma find_dentry_memory:
  assumes "find_dentry fname dentry n i s = Some (r, s')"
  shows "\<exists>m. s' = s\<lparr>memory := m\<rparr>"
  using assms
proof (induction fname dentry n i s rule: find_dentry.induct)
  case (1 fname dentry num_bits i s)
  have self: "\<exists>m. s = s\<lparr>memory := m\<rparr>" by (rule exI [of _ "memory s"]) simp
  show ?case
    using "1.prems" "1.IH" self
    by (subst (asm) find_dentry.simps) (auto simp: Let_def copy_dentry_def bind_eq_Some_conv split: if_splits)
qed

lemma read_dentry_memory: "read_dentry_by_name f d s = Some (r, s') \<Longrightarrow> \<exists>m. s' = s\<lparr>memory := m\<rparr>"
proof -
  have "\<exists>m. s = s\<lparr>memory := m\<rparr>" by (rule exI [of _ "memory s"]) simp
  then show "read_dentry_by_name f d s = Some (r, s') \<Longrightarrow> \<exists>m. s' = s\<lparr>memory := m\<rparr>"
    by (auto simp: read_dentry_by_name_def Let_def bind_eq_Some_conv dest: find_dentry_memory split: if_splits)
qed

lemma read_data_memory: "read_data k off buf n s = (r, s') \<Longrightarrow> \<exists>m. s' = s\<lparr>memory := m\<rparr>"
proof -
  have "\<exists>m. s = s\<lparr>memory := m\<rparr>" by (rule exI [of _ "memory s"]) simp
  then show "read_data k off buf n s = (r, s') \<Longrightarrow> \<exists>m. s' = s\<lparr>memory := m\<rparr>"
    by (auto simp: read_data_def Let_def split: if_splits)
qed

lemma file_read_memory: "file_read fd buf n off s = (r, s') \<Longrightarrow> \<exists>m. s' = s\<lparr>memory := m\<rparr>"
proof -
  assume "file_read fd buf n off s = (r, s')"
  then obtain m where "s' = (s\<lparr>memory := zero_name NAME_SIZE buf (memory s)\<rparr>)\<lparr>memory := m\<rparr>"
    using read_data_memory unfolding file_read_def by blast
  then show ?thesis by auto
qed

lemma load_program_memory: "load_program fd a s = (r, s') \<Longrightarrow> \<exists>m. s' = s\<lparr>memory := m\<rparr>"
  by (auto simp: load_program_def Let_def dest: file_read_memory split: prod.splits if_splits)

lemma update_pcb_sel [simp]:
  "pcbs (update_pcb a f s) = (pcbs s)(a := f (pcbs s a))" "process_array (update_pcb a f s) = process_array s"
  "terminal_array (update_pcb a f s) = terminal_array s" "curr_terminal (update_pcb a f s) = curr_terminal s"
  "memory (update_pcb a f s) = memory s" "esp (update_pcb a f s) = esp s" "ebp (update_pcb a f s) = ebp s"
  "user_window (update_pcb a f s) = user_window s" "frames (update_pcb a f s) = frames s" "boot_block (update_pcb a f s) = boot_block s"
  "tss_esp0 (update_pcb a f s) = tss_esp0 s" "park_frames (update_pcb a f s) = park_frames s"
  by (simp_all add: update_pcb_def park_frames_def cong: option.case_cong)

section \<open>Errors of the descriptor calls\<close>

lemma bad_descriptor:
  assumes "fd < 0 \<or> 8 \<le> fd"
  shows "read_fd L hs fd buf n s = Some (-1, s)" "write_fd fd buf n s = Some (-1, s)" "close_fd fd s = Some (-1, s)"
  using assms by (auto simp: read_fd_def write_fd_def close_fd_def Let_def MAX_OPEN_FILES_def FAILURE_def)

lemma null_buffer: "read_fd L hs fd 0 n s = Some (-1, s)" "write_fd fd 0 n s = Some (-1, s)" "open_fd L 0 s = Some (-1, s)"
  by (auto simp: read_fd_def write_fd_def open_fd_def Let_def FAILURE_def)

lemma close_closed: "fd_flags (fd_at (curr_pcb s) fd s) = 0 \<Longrightarrow> close_fd fd s = Some (-1, s)"
  by (auto simp: close_fd_def Let_def FAILURE_def)

section \<open>The descriptor table invariant\<close>

text \<open>
  Every descriptor's jump table is one of the six tables of the file, and there are eight of
  them: so no call through a table reaches a function of the wrong kind.
\<close>

definition tables :: "fop list list" where
  "tables = nofunc_table # std_table @ file_table"

definition fds_ok :: "fd_t list \<Rightarrow> bool" where
  "fds_ok fs \<longleftrightarrow> length fs = 8 \<and> list_all (\<lambda>f. fop_jump_table f \<in> set tables) fs"

lemmas table_defs = tables_def nofunc_table_def std_table_def file_table_def

lemma fds_ok_update: "fds_ok fs \<Longrightarrow> fop_jump_table f \<in> set tables \<Longrightarrow> fds_ok (fs[i := f])"
  using set_update_subset_insert [of fs i f] by (auto simp: fds_ok_def list_all_iff)

lemma fds_ok_nth: "fds_ok fs \<Longrightarrow> i < 8 \<Longrightarrow> fop_jump_table (fs ! i) \<in> set tables"
  by (auto simp: fds_ok_def list_all_length)

lemma fds_ok_initial: "fds_ok (initial_fds flag)"
  by (simp add: fds_ok_def initial_fds_def list_all_length MAX_OPEN_FILES_def STD_FILES_def table_defs nth_Cons split: nat.split)

lemma call_close_total:
  assumes "t \<in> set tables"
  obtains r where "call_close (t ! CLOSE_INDEX) inode s = Some (r, s)"
  using assms that by (cases "word_of_int inode = (0 :: u32)") (auto simp: table_defs call_close_def CLOSE_INDEX_def
      no_func_def terminal_close_def rtc_close_def dir_close_def file_close_def)

lemma call_write_total:
  assumes "t \<in> set tables"
  shows "\<exists>r s'. call_write (t ! WRITE_INDEX) inode buf n s = Some (r, s')"
  using assms by (auto simp: table_defs call_write_def WRITE_INDEX_def)

lemma set_fd_frame [simp]:
  "process_array (set_fd a i f s) = process_array s" "terminal_array (set_fd a i f s) = terminal_array s"
  "curr_terminal (set_fd a i f s) = curr_terminal s" "memory (set_fd a i f s) = memory s" "esp (set_fd a i f s) = esp s"
  "ebp (set_fd a i f s) = ebp s" "user_window (set_fd a i f s) = user_window s" "frames (set_fd a i f s) = frames s"
  "boot_block (set_fd a i f s) = boot_block s"
  "pcbs (set_fd a i f s) = (pcbs s)(a := update_fd (nat i) f (pcbs s a))"
  by (simp_all add: set_fd_def)

lemma curr_pcb_frame [simp]:
  "curr_pcb (set_fd a i f s) = curr_pcb s" "curr_pcb (s\<lparr>memory := m\<rparr>) = curr_pcb s" "curr_pcb (sti s) = curr_pcb s"
  by (simp_all add: curr_pcb_def)

lemma update_fd_sel [simp]:
  "file_array (update_fd i f p) = (file_array p)[i := f (file_array p ! i)]" "leaf (update_fd i f p) = leaf p"
  "parent_pid (update_fd i f p) = parent_pid p" "parent_esp (update_fd i f p) = parent_esp p"
  "parent_ebp (update_fd i f p) = parent_ebp p" "pcb_pid (update_fd i f p) = pcb_pid p" "pcb_terminal (update_fd i f p) = pcb_terminal p"
  "saved_esp (update_fd i f p) = saved_esp p" "saved_ebp (update_fd i f p) = saved_ebp p"
  by (simp_all add: update_fd_def)

text \<open>Closing an open descriptor always returns, frees exactly that descriptor and keeps the invariant.\<close>

lemma close_fd_open:
  assumes ok: "fds_ok (file_array (pcbs s (curr_pcb s)))" and fd: "0 \<le> fd" "fd < 8"
    and opn: "fd_flags (fd_at (curr_pcb s) fd s) \<noteq> 0"
  obtains r where "close_fd fd s = Some (r, set_fd (curr_pcb s) fd closed_fd s)"
proof -
  have "fop_jump_table (fd_at (curr_pcb s) fd s) \<in> set tables"
    using fds_ok_nth [OF ok] fd by (simp add: fd_at_def)
  then obtain r where "call_close (fop_jump_table (fd_at (curr_pcb s) fd s) ! CLOSE_INDEX) (fd_inode (fd_at (curr_pcb s) fd s)) s = Some (r, s)"
    by (rule call_close_total)
  then show ?thesis using fd opn that by (simp add: close_fd_def Let_def MAX_OPEN_FILES_def)
qed

lemma fds_ok_closed: "fds_ok fs \<Longrightarrow> i < 8 \<Longrightarrow> fds_ok (fs[i := closed_fd (fs ! i)])"
  using fds_ok_nth [of fs i] by (intro fds_ok_update) (auto simp: closed_fd_def)

lemma close_from_effect:
  assumes "fds_ok (file_array (pcbs s pcb))" "curr_pcb s = pcb" "int n + i \<le> 8" "0 \<le> i"
  shows "\<exists>fs. fds_ok fs \<and> close_from n pcb i s = Some (update_pcb pcb (\<lambda>p. p\<lparr>file_array := fs\<rparr>) s)"
  using assms
proof (induction n arbitrary: i s)
  case 0
  have "update_pcb pcb (\<lambda>p. p\<lparr>file_array := file_array (pcbs s pcb)\<rparr>) s = s" by (simp add: update_pcb_def)
  then show ?case using 0 by (intro exI [of _ "file_array (pcbs s pcb)"]) simp
next
  case (Suc n)
  show ?case
  proof (cases "fd_flags (fd_at pcb i s) = 0")
    case True
    have "update_pcb pcb (\<lambda>p. p\<lparr>file_array := file_array (pcbs s pcb)\<rparr>) s = s" by (simp add: update_pcb_def)
    then show ?thesis using Suc.prems True by (intro exI [of _ "file_array (pcbs s pcb)"]) simp
  next
    case False
    have i: "i < 8" using Suc.prems by simp
    obtain r where r: "close_fd i s = Some (r, set_fd pcb i closed_fd s)"
      using close_fd_open [of s i] Suc.prems False i by auto
    let ?s = "set_fd pcb i closed_fd s"
    have "fds_ok (file_array (pcbs ?s pcb))" using fds_ok_closed [OF Suc.prems(1), of "nat i"] i Suc.prems(4) by simp
    then obtain fs where fs: "fds_ok fs" "close_from n pcb (i + 1) ?s = Some (update_pcb pcb (\<lambda>p. p\<lparr>file_array := fs\<rparr>) ?s)"
      using Suc.IH [of ?s "i + 1"] Suc.prems by auto
    moreover have "update_pcb pcb (\<lambda>p. p\<lparr>file_array := fs\<rparr>) ?s = update_pcb pcb (\<lambda>p. p\<lparr>file_array := fs\<rparr>) s"
      by (simp add: update_pcb_def set_fd_def update_fd_def)
    ultimately show ?thesis using r False by (intro exI [of _ fs]) simp
  qed
qed

section \<open>What a successful execute has done\<close>

lemma push32_frame [simp]:
  "pcbs (push32 v s) = pcbs s" "process_array (push32 v s) = process_array s" "terminal_array (push32 v s) = terminal_array s"
  "curr_terminal (push32 v s) = curr_terminal s" "ebp (push32 v s) = ebp s" "user_window (push32 v s) = user_window s"
  "frames (push32 v s) = frames s" "tss_esp0 (push32 v s) = tss_esp0 s" "esp (push32 v s) = esp s - 4"
  "memory (push32 v s) = write32 (memory s) (esp s - 4) v"
  by (simp_all add: push32_def)

lemma return_to_user_tables [simp]:
  "pcbs (return_to_user p s) = pcbs s" "process_array (return_to_user p s) = process_array s"
  "terminal_array (return_to_user p s) = terminal_array s" "curr_terminal (return_to_user p s) = curr_terminal s"
  "user_window (return_to_user p s) = user_window s"
  by (simp_all add: return_to_user_def Let_def iret_def)

lemma setup_pcb_frame:
  fixes s :: "'a keyboard_scheme" and c :: int
  defines "s' \<equiv> setup_pcb c s"
  assumes ne: "curr_pcb s \<noteq> pcb_of c"
  shows "process_array s' = process_array s" "curr_terminal s' = curr_terminal s" "user_window s' = user_window s"
    and "terminal_array s' = (terminal_array s)(pcb_terminal (pcbs s (curr_pcb s)) := c)"
    and "pcbs s' (curr_pcb s) = (pcbs s (curr_pcb s))\<lparr>leaf := 0\<rparr>"
    and "a \<noteq> curr_pcb s \<Longrightarrow> a \<noteq> pcb_of c \<Longrightarrow> pcbs s' a = pcbs s a"
    and "pcbs s' (pcb_of c) = (pcbs s (pcb_of c))\<lparr>file_array := initial_fds (\<lambda>k. if k < STD_FILES then 1 else 0), pcb_pid := c,
      leaf := 1, parent_esp := esp s, parent_ebp := ebp s, parent_pid := pcb_pid (pcbs s (curr_pcb s)),
      pcb_terminal := pcb_terminal (pcbs s (curr_pcb s))\<rparr>"
  using ne by (simp_all add: s'_def setup_pcb_def Let_def update_pcb_def)

lemma execute_enters:
  assumes ex: "execute L command s = Some (Enter_user s1)"
  obtains s0 where "s1 = return_to_user (get_next_pid s) (setup_pcb (get_next_pid s) s0)"
    and "0 \<le> get_next_pid s" "get_next_pid s < 6" "process_array s (get_next_pid s) = 0"
    and "pcbs s0 = pcbs s" "process_array s0 = (process_array s)(get_next_pid s := 1)"
    and "terminal_array s0 = (terminal_array s)(curr_terminal s := get_next_pid s)"
    and "curr_terminal s0 = curr_terminal s" "esp s0 = esp s" "ebp s0 = ebp s"
    and "user_window s0 = Some (user_frame (get_next_pid s))"
proof -
  have np: "get_next_pid (s\<lparr>memory := m\<rparr>) = get_next_pid s" for m
  proof -
    have "next_pid_from (s\<lparr>memory := m\<rparr>) i = next_pid_from s i" for i
      by (induction s i rule: next_pid_from.induct) (subst (1 2) next_pid_from.simps, simp)
    then show ?thesis by (simp add: get_next_pid_def)
  qed
  let ?c = "get_next_pid s"
  obtain m1 r i2 r2 s2 r3 s3 s4 k m4 where lt: "\<not> ?c \<ge> 6"
    and s2: "read_dentry_by_name (l_fname L) (l_dentry L) (s\<lparr>memory := m1\<rparr>) = Some (r, s2)"
    and s3: "file_read i2 (l_buf L) BUFSIZE 0 s2 = (r2, s3)"
    and s4: "load_program k USR_START_ADDR (change_process ?c s3) = (r3, s4)"
    and eq: "s1 = return_to_user ?c (setup_pcb ?c (s4\<lparr>process_array := (process_array s4)(?c := 1),
        terminal_array := (terminal_array s4)(curr_terminal s4 := ?c), memory := m4\<rparr>))"
    using ex by (auto simp: execute_def Let_def np MAX_OPEN_PROCESSES_def bind_eq_Some_conv split: if_splits prod.splits)
  obtain m where m: "s3 = s\<lparr>memory := m\<rparr>"
    using read_dentry_memory [OF s2] file_read_memory [OF s3] by auto
  obtain m5 where m5: "s4 = (change_process ?c s3)\<lparr>memory := m5\<rparr>"
    using load_program_memory [OF s4] by auto
  show ?thesis
    using eq get_next_pid_spec(1,2) [of s] lt
    by (intro that [of "s4\<lparr>process_array := (process_array s4)(?c := 1),
        terminal_array := (terminal_array s4)(curr_terminal s4 := ?c), memory := m4\<rparr>"]) (auto simp: m5 m)
qed

section \<open>What halt does\<close>

lemma change_process_sel [simp]: "pcbs (change_process q s) = pcbs s" for s :: "'a keyboard_scheme"
  by simp

lemma halt_resumes:
  fixes s :: "'a keyboard_scheme"
  defines "q \<equiv> curr_pid s"
  defines "b \<equiv> pcbs s (pcb_of q)"
  defines "p \<equiv> parent_pid b"
  assumes q: "valid_pid q" and p: "valid_pid p" "p \<noteq> q" and stk: "curr_pcb s = pcb_of q"
    and ok: "fds_ok (file_array b)"
  obtains s' fs where "halt L status s = Some (Resume 0 s')"
    and "curr_terminal s' = curr_terminal s" "terminal_array s' = (terminal_array s)(curr_terminal s := p)"
    and "process_array s' = (process_array s)(q := 0)"
    and "pcbs s' = (pcbs s)(pcb_of q := b\<lparr>file_array := fs\<rparr>, pcb_of p := (pcbs s (pcb_of p))\<lparr>leaf := 1\<rparr>)"
    and "user_window s' = Some (user_frame p)" "tss_esp0 s' = pcb_of p + 0x1FFC"
    and "esp s' = parent_ebp b + 8"
    and "memory s' = write32 (memory (change_process p s)) (parent_esp b - 4) 0"
    and "frames s' = park_frames s"
    and "ebp s' = read32 (memory s') (parent_ebp b)" "eip s' = read32 (memory s') (parent_ebp b + 4)"
proof -
  have "fds_ok (file_array (pcbs s (pcb_of q)))" using ok by (simp add: b_def)
  then obtain fs where cl: "close_from 8 (pcb_of q) 0 s = Some (update_pcb (pcb_of q) (\<lambda>p. p\<lparr>file_array := fs\<rparr>) s)"
    using close_from_effect [of s "pcb_of q" 8 0] stk by auto
  let ?s1 = "update_pcb (pcb_of q) (\<lambda>p. p\<lparr>file_array := fs\<rparr>) s"
  have np: "\<not> parent_pid b < 0" using p(1) by (simp add: p_def valid_pid_def)
  have ne: "pcb_of p \<noteq> pcb_of q" using pcb_of_inj [OF p(1) q] p(2) by simp
  have par: "parent_pid (pcbs ?s1 (pcb_of q)) = p" by (simp add: p_def b_def)
  have mem: "memory (change_process p ?s1) = memory (change_process p s)" "frames (change_process p ?s1) = park_frames s"
    by (simp_all add: memory_change_process park_frames_def cong: option.case_cong if_cong)
  let ?s2 = "(change_process p ?s1)\<lparr>tss_esp0 := pcb_of p + 0x1FFC, process_array := (process_array s)(q := 0),
      terminal_array := (terminal_array s)(curr_terminal s := p)\<rparr>"
  let ?s3 = "push32 0 ((update_pcb (pcb_of p) (\<lambda>p. p\<lparr>leaf := 1\<rparr>) ?s2)\<lparr>esp := parent_esp b\<rparr>)"
  let ?s' = "leave_ret (?s3\<lparr>ebp := parent_ebp b, esp := esp ?s3 + 4\<rparr>)"
  have eax: "sint (read32 (memory ?s3) (esp ?s3)) = 0" by (simp add: read32_write32)
  have "halt L status s = Some (Resume 0 ?s')"
    using cl np ne eax
    by (simp add: halt_def Let_def kernel_stack_top par p_def [symmetric] b_def [symmetric] q_def [symmetric] curr_pid_def [of s, symmetric])
  then show ?thesis
    using ne by (intro that [of ?s' fs]) (simp_all add: leave_ret_def Let_def mem b_def)
qed

section \<open>A program runs and its parent continues\<close>

text \<open>
  \<open>running_on p s\<close>: the kernel runs on behalf of process \<open>p\<close>: it is the one its terminal
  names, the stack pointer is on its kernel stack, and its PCB says so.
\<close>

definition running_on :: "int \<Rightarrow> 'a keyboard_scheme \<Rightarrow> bool" where
  "running_on p s \<longleftrightarrow> valid_pid p \<and> curr_pid s = p \<and> curr_pcb s = pcb_of p \<and>
     pcb_pid (pcbs s (pcb_of p)) = p \<and> pcb_terminal (pcbs s (pcb_of p)) = curr_terminal s \<and> process_array s p \<noteq> 0"

text \<open>What the kernel's tables keep while the child runs in user mode.\<close>

definition same_tables :: "'a keyboard_scheme \<Rightarrow> 'a keyboard_scheme \<Rightarrow> bool" where
  "same_tables s s' \<longleftrightarrow> pcbs s' = pcbs s \<and> process_array s' = process_array s \<and>
     terminal_array s' = terminal_array s \<and> curr_terminal s' = curr_terminal s"

lemma execute_then_halt:
  assumes run: "running_on p s" and ex: "execute L command s = Some (Enter_user s1)"
    and same: "same_tables s1 s2" and stk: "curr_pcb s2 = pcb_of (curr_pid s2)"
  obtains s3 where "halt L status s2 = Some (Resume 0 s3)"
    and "curr_terminal s3 = curr_terminal s" "terminal_array s3 = terminal_array s" "process_array s3 = process_array s"
    and "pcbs s3 (pcb_of p) = (pcbs s (pcb_of p))\<lparr>leaf := 1\<rparr>"
    and "user_window s3 = Some (user_frame p)" "esp s3 = ebp s + 8" "tss_esp0 s3 = pcb_of p + 0x1FFC"
proof -
  let ?c = "get_next_pid s"
  obtain s0 where s1: "s1 = return_to_user ?c (setup_pcb ?c s0)"
    and c: "0 \<le> ?c" "?c < 6" "process_array s ?c = 0"
    and s0: "pcbs s0 = pcbs s" "process_array s0 = (process_array s)(?c := 1)"
      "terminal_array s0 = (terminal_array s)(curr_terminal s := ?c)" "curr_terminal s0 = curr_terminal s"
      "esp s0 = esp s" "ebp s0 = ebp s"
    using execute_enters [OF ex] by metis
  have p: "valid_pid p" "terminal_array s (curr_terminal s) = p" "curr_pcb s0 = pcb_of p" "process_array s p \<noteq> 0"
    "pcb_pid (pcbs s (pcb_of p)) = p" "pcb_terminal (pcbs s (pcb_of p)) = curr_terminal s"
    using run s0 by (auto simp: running_on_def curr_pid_def curr_pcb_def)
  have vc: "valid_pid ?c" using c by (simp add: valid_pid_def)
  have ne: "p \<noteq> ?c" using p(4) c(3) by auto
  then have ad: "pcb_of p \<noteq> pcb_of ?c" using pcb_of_inj [OF p(1) vc] by simp
  note fr = setup_pcb_frame [of s0 ?c, unfolded p(3), OF ad]
  have tab: "terminal_array s2 = (terminal_array s)(curr_terminal s := ?c)" "process_array s2 = (process_array s)(?c := 1)"
      "curr_terminal s2 = curr_terminal s" "pcbs s2 = pcbs (setup_pcb ?c s0)"
    using same fr(1,2,4) s0 p by (simp_all add: same_tables_def s1)
  then have q: "curr_pid s2 = ?c" by (simp add: curr_pid_def)
  let ?b = "pcbs s2 (pcb_of ?c)"
  have b: "parent_pid ?b = p" "parent_ebp ?b = ebp s" "file_array ?b = initial_fds (\<lambda>k. if k < STD_FILES then 1 else 0)"
    using fr(7) s0 p by (simp_all add: tab)
  have prem: "valid_pid (curr_pid s2)" "valid_pid (parent_pid (pcbs s2 (pcb_of (curr_pid s2))))"
      "parent_pid (pcbs s2 (pcb_of (curr_pid s2))) \<noteq> curr_pid s2" "curr_pcb s2 = pcb_of (curr_pid s2)"
      "fds_ok (file_array (pcbs s2 (pcb_of (curr_pid s2))))"
    using vc p(1) ne stk fds_ok_initial unfolding q b by auto
  obtain s3 fs where h: "halt L status s2 = Some (Resume 0 s3)"
    and r: "curr_terminal s3 = curr_terminal s2" "terminal_array s3 = (terminal_array s2)(curr_terminal s2 := p)"
      "process_array s3 = (process_array s2)(?c := 0)"
      "pcbs s3 = (pcbs s2)(pcb_of ?c := ?b\<lparr>file_array := fs\<rparr>, pcb_of p := (pcbs s2 (pcb_of p))\<lparr>leaf := 1\<rparr>)"
      "user_window s3 = Some (user_frame p)" "esp s3 = ebp s + 8" "tss_esp0 s3 = pcb_of p + 0x1FFC"
    using halt_resumes [OF prem, of L status] unfolding q b by metis
  have "process_array s3 = process_array s" using r(3) tab(2) c(3) by auto
  moreover have "terminal_array s3 = terminal_array s" using r(2) tab p(2) by auto
  moreover have "pcbs s3 (pcb_of p) = (pcbs s (pcb_of p))\<lparr>leaf := 1\<rparr>"
    using r(4) fr(5) s0 tab(4) by simp
  ultimately show ?thesis using h r tab by (intro that) auto
qed

section \<open>Opening a file\<close>

lemma copied_dentry:
  "dentry_file_type (memory (copy_dentry d i s)) d = dentry_file_type (memory s) (dentry_at (boot_block s) i)"
  "dentry_inode_num (memory (copy_dentry d i s)) d = dentry_inode_num (memory s) (dentry_at (boot_block s) i)"
proof -
  let ?e = "dentry_at (boot_block s) i" and ?m = "memory (copy_dentry d i s)"
  have h: "?m (d + of_nat j) = memory s (?e + of_nat j)" if "j < 64" for j
    using write_bytes_inside [of "read_bytes (memory s) ?e 64" j "memory s" d] that by (simp add: copy_dentry_def)
  have b: "?m (d + of_nat j + of_nat k) = memory s (?e + of_nat j + of_nat k)" if "j + k < 64" for j k
    using h [OF that] by (simp add: add.assoc)
  have "read32 ?m (d + of_nat j) = read32 (memory s) (?e + of_nat j)" if "j + 3 < 64" for j
    using that b [of j 0] b [of j 1] b [of j 2] b [of j 3] by (simp add: read32_def)
  from this [of 32] this [of 36]
  show "dentry_file_type ?m d = dentry_file_type (memory s) ?e" "dentry_inode_num ?m d = dentry_inode_num (memory s) ?e"
    by (simp_all add: dentry_file_type_def dentry_inode_num_def)
qed

lemma file_name_image: "same_image m m' bb 4096 \<Longrightarrow> i < 63 \<Longrightarrow> file_name m' bb i = file_name m bb i"
  using dentry_bytes_image [of m m' bb i] take_read_bytes [of 32 64 m "dentry_at bb i"] take_read_bytes [of 32 64 m' "dentry_at bb i"]
  by (simp add: file_name_def)

lemma find_file_image: "same_image m m' bb 4096 \<Longrightarrow> find_file m' bb xs = find_file m bb xs"
  unfolding find_file_def by (rule find_cong) (auto simp: file_name_image)

text \<open>Where the directory entries the call copies may go: off the string, the directory and each other's business.\<close>

definition dentry_buffer :: "u32 \<Rightarrow> u32 \<Rightarrow> nat \<Rightarrow> 'a keyboard_scheme \<Rightarrow> bool" where
  "dentry_buffer d filename l s \<longleftrightarrow> d \<noteq> 0 \<and> disjoint_regions d 64 (boot_block s) 4096 \<and> disjoint_regions d 64 filename (Suc l)"

lemma dentry_buffer_keeps:
  assumes "dentry_buffer d filename (length xs) s" "cstr_at (memory s) filename xs"
  shows "cstr_at (memory (copy_dentry d i s)) filename xs"
    and "same_image (memory s) (memory (copy_dentry d i s)) (boot_block s) 4096"
proof -
  have d: "disjoint_regions d 64 (boot_block s) 4096" "disjoint_regions d 64 filename (Suc (length xs))"
    using assms(1) by (simp_all add: dentry_buffer_def)
  show "cstr_at (memory (copy_dentry d i s)) filename xs"
  proof (rule cstr_at_cong [OF _ assms(2)])
    fix j assume "j \<le> length xs"
    then show "memory (copy_dentry d i s) (filename + of_nat j) = memory s (filename + of_nat j)"
      using cstr_at_length [OF assms(2)] write_bytes_disjoint_read [OF d(2), of _ j] by (simp add: copy_dentry_def)
  qed
  show "same_image (memory s) (memory (copy_dentry d i s)) (boot_block s) 4096"
    using same_image_write [OF d(1)] by (simp add: copy_dentry_def)
qed

lemma free_fd_less:
  "free_fd fs < length fs \<Longrightarrow> fd_flags (fs ! free_fd fs) = 0"
  "j < free_fd fs \<Longrightarrow> fd_flags (fs ! j) \<noteq> 0"
  using nth_length_takeWhile [of "\<lambda>f. fd_flags f \<noteq> 0" fs] nth_mem [of j "takeWhile (\<lambda>f. fd_flags f \<noteq> 0) fs"] set_takeWhileD [of _ "\<lambda>f. fd_flags f \<noteq> 0" fs]
  by (auto simp: free_fd_def takeWhile_nth)

lemma open_fd_succeeds:
  fixes s :: "'a keyboard_scheme"
  defines "pcb \<equiv> curr_pcb s"
  assumes str: "cstr_at (memory s) filename xs" and ne: "xs \<noteq> []" and fn: "filename \<noteq> 0"
    and found: "find_file (memory s) (boot_block s) xs = Some i"
    and ft: "dentry_file_type (memory s) (dentry_at (boot_block s) i) < 3"
    and d: "dentry_buffer (l_dentry L) filename (length xs) s" and e: "dentry_buffer (l_sub L) filename (length xs) s"
    and ok: "fds_ok (file_array (pcbs s pcb))" and room: "free_fd (file_array (pcbs s pcb)) < 8"
  obtains m where "open_fd L filename s = Some (int (free_fd (file_array (pcbs s pcb))),
      set_fd pcb (int (free_fd (file_array (pcbs s pcb))))
        (opened_fd (dentry_file_type (memory s) (dentry_at (boot_block s) i)) (dentry_inode_num (memory s) (dentry_at (boot_block s) i)))
        (s\<lparr>memory := m\<rparr>))"
    and "\<And>x. \<not> in_region x (l_dentry L) 64 \<Longrightarrow> \<not> in_region x (l_sub L) 64 \<Longrightarrow> m x = memory s x"
proof -
  let ?j = "free_fd (file_array (pcbs s pcb))" and ?s1 = "copy_dentry (l_dentry L) i s"
  let ?ft = "dentry_file_type (memory s) (dentry_at (boot_block s) i)" and ?in = "dentry_inode_num (memory s) (dentry_at (boot_block s) i)"
  have rd: "read_dentry_by_name filename (l_dentry L) s = Some (SUCCESS, ?s1)"
    using read_dentry_by_name_eq [OF str] d ne found by (simp add: dentry_buffer_def)
  have s1: "?s1 = s\<lparr>memory := memory ?s1\<rparr>" by (simp add: copy_dentry_def)
  then have fr: "pcbs ?s1 = pcbs s" "boot_block ?s1 = boot_block s" "curr_pcb ?s1 = pcb"
    by (simp_all add: copy_dentry_def pcb_def)
  let ?s2 = "set_fd pcb (int ?j) (opened_fd ?ft ?in) ?s1"
  have len: "?j < length (file_array (pcbs s pcb))" using ok room by (simp add: fds_ok_def)
  have tab: "fop_jump_table (fd_at pcb (int ?j) ?s2) = file_table ! unat ?ft"
    using len fr by (simp add: fd_at_def opened_fd_def)
  have e': "dentry_buffer (l_sub L) filename (length xs) ?s1" using e fr by (simp add: dentry_buffer_def)
  have again: "read_dentry_by_name filename (l_sub L) ?s2 = Some (SUCCESS, copy_dentry (l_sub L) i ?s2)"
    using read_dentry_by_name_eq [of ?s2 filename xs "l_sub L"] dentry_buffer_keeps [OF d str, of i] find_file_image [of "memory s" "memory ?s1" "boot_block s" xs]
      found ne e by (simp add: dentry_buffer_def fr)
  have sub: "copy_dentry (l_sub L) i ?s2 = set_fd pcb (int ?j) (opened_fd ?ft ?in) (s\<lparr>memory := memory (copy_dentry (l_sub L) i ?s2)\<rparr>)"
    by (subst s1) (simp add: copy_dentry_def set_fd_def update_pcb_def)
  have s2: "?s2 = set_fd pcb (int ?j) (opened_fd ?ft ?in) (s\<lparr>memory := memory ?s1\<rparr>)"
    using s1 by simp
  have "unat ?ft < 3" using ft by (simp add: word_less_nat_alt)
  then have "unat ?ft = 0 \<or> unat ?ft = 1 \<or> unat ?ft = 2" by linarith
  then have co: "call_open L (file_table ! unat ?ft ! OPEN_INDEX) filename ?s2 = Some (0, ?s2) \<or>
      call_open L (file_table ! unat ?ft ! OPEN_INDEX) filename ?s2 = Some (0, copy_dentry (l_sub L) i ?s2)"
    using again by (auto simp: file_table_def OPEN_INDEX_def call_open_def rtc_open_def dir_open_def file_open_def SUCCESS_def)
  have "open_fd L filename s = do { (r, s) \<leftarrow> call_open L (file_table ! unat ?ft ! OPEN_INDEX) filename ?s2;
      if r \<noteq> 0 then Some (FAILURE, s) else Some (int ?j, s) }"
    using fn rd room ft [folded not_le] tab fr(1) copied_dentry [of "l_dentry L" i s]
    by (simp add: open_fd_def Let_def SUCCESS_def MAX_OPEN_FILES_def flip: pcb_def cong: if_cong)
  then have "open_fd L filename s = Some (int ?j, ?s2) \<or> open_fd L filename s = Some (int ?j, copy_dentry (l_sub L) i ?s2)"
    using co by auto
  moreover have "memory ?s1 x = memory s x" if "\<not> in_region x (l_dentry L) 64" for x
    using that by (simp add: copy_dentry_def write_bytes_outside)
  moreover have "memory (copy_dentry (l_sub L) i ?s2) x = memory ?s1 x" if "\<not> in_region x (l_sub L) 64" for x
    using that by (simp add: copy_dentry_def write_bytes_outside)
  ultimately show ?thesis using sub s2 that [of "memory ?s1"] that [of "memory (copy_dentry (l_sub L) i ?s2)"] by metis
qed

section \<open>The first frame of a shell\<close>

lemma nine_pushes: "(push32 0 ^^ 9) s = push32 0 (push32 0 (push32 0 (push32 0 (push32 0 (push32 0 (push32 0 (push32 0 (push32 0 s))))))))"
  by (simp add: eval_nat_numeral)

lemma eflags_image_push [simp]: "eflags_image (push32 v s) = eflags_image s" "eflags_image (s\<lparr>esp := e\<rparr>) = eflags_image s" "eflags_image (s\<lparr>ebp := e\<rparr>) = eflags_image s"
  by (simp_all add: eflags_image_def push32_def)

text \<open>The sixteen words below the top of the stack, the last pushed first.\<close>

definition frame_words :: "u32 \<Rightarrow> u32 \<Rightarrow> u32 \<Rightarrow> u32 \<Rightarrow> u32 list" where
  "frame_words stack_top ret_addr EIP fl = [stack_top, ret_addr] @ replicate 9 0 @ [EIP, USER_CS, fl, USR_STACK_ADDR, USER_DS]"

definition read_words :: "mem \<Rightarrow> u32 \<Rightarrow> nat \<Rightarrow> u32 list" where
  "read_words m a n = map (\<lambda>k. read32 m (a + of_nat (4 * k))) [0..<n]"

lemma first_frame_words:
  "read_words (memory (first_frame ret_addr EIP s)) (tss_esp0 s - 64) 16 = frame_words (tss_esp0 s) ret_addr EIP (eflags_image s)"
proof -
  let ?m = "memory (first_frame ret_addr EIP s)" and ?t = "tss_esp0 s"
  have m: "?m = write32 (write32 (write32 (write32 (write32 (write32 (write32 (write32 (write32 (write32 (write32 (write32
      (write32 (write32 (write32 (write32 (memory s) (?t - 4) USER_DS) (?t - 8) USR_STACK_ADDR) (?t - 12) (eflags_image s))
      (?t - 16) USER_CS) (?t - 20) EIP) (?t - 24) 0) (?t - 28) 0) (?t - 32) 0) (?t - 36) 0) (?t - 40) 0) (?t - 44) 0)
      (?t - 48) 0) (?t - 52) 0) (?t - 56) 0) (?t - 60) ret_addr) (?t - 64) ?t"
    by (simp add: first_frame_def Let_def nine_pushes)
  have w: "[0..<16] = [0, 1, 2, 3, 4, 5, 6, 7, 8, 9, 10, 11, 12, 13, 14, 15]" by (simp add: upt_rec)
  have r9: "replicate 9 (0 :: u32) = [0, 0, 0, 0, 0, 0, 0, 0, 0]" by (simp add: eval_nat_numeral)
  show ?thesis
    unfolding read_words_def frame_words_def w r9 m list.map append.simps
    by (simp add: read32_write32_below mem_simps)
qed

lemma setup_shell_frame:
  assumes ok: "setup_shell ret_addr L i s = (True, s')" and i: "i = 1 \<or> i = 2"
  obtains EIP fl where "read_words (memory s') (pcb_of i + 0x1FBC) 16 = frame_words (pcb_of i + 0x1FFC) ret_addr EIP fl"
    and "EIP = read32 (memory s') 0x08048018" "saved_ebp (pcbs s' (pcb_of i)) = pcb_of i + 0x1FBC"
    and "leaf (pcbs s' (pcb_of i)) = 1" "pcb_pid (pcbs s' (pcb_of i)) = i" "pcb_terminal (pcbs s' (pcb_of i)) = i"
    and "parent_pid (pcbs s' (pcb_of i)) = -1" "terminal_array s' i = i" "process_array s' i = 1"
proof -
  let ?a = "change_process i (s\<lparr>terminal_array := (terminal_array s)(i := i), process_array := (process_array s)(i := 1)\<rparr>)"
  obtain k s1 where ld: "load_program k USR_START_ADDR ?a = (0, s1)"
    and s': "s' = update_pcb (pcb_of i) (\<lambda>p. p\<lparr>saved_ebp := pcb_of i + 0x1FBC, saved_esp := pcb_of i + 0x1FBC\<rparr>)
       (first_frame ret_addr (read32 (memory s1) 0x08048018)
         ((update_pcb (pcb_of i) (\<lambda>p. p\<lparr>file_array := initial_fds (\<lambda>k. if i < int STD_FILES then 1 else 0),
             pcb_pid := i, leaf := 1, pcb_terminal := i, parent_pid := -1\<rparr>) s1)
          \<lparr>tss_esp0 := pcb_of i + 0x1FFC, tss_ss0 := KERNEL_DS\<rparr>))"
  proof -
    have c: "K_MEM_END - word_of_int i * K_STACK_SIZE - WORD_SIZE = pcb_of i + 0x1FFC"
        "K_MEM_END - word_of_int i * K_STACK_SIZE - PUSHED_REGS_SIZE = pcb_of i + 0x1FBC"
        "USR_START_ADDR + ADDR_DIST_EIP = 0x08048018"
      by (simp_all add: pcb_of_def proc_consts PUSHED_REGS_SIZE_def algebra_simps)
    show ?thesis
      using ok i that unfolding setup_shell_def Let_def c by (auto split: prod.splits if_splits)
  qed
  obtain m1 where s1: "s1 = ?a\<lparr>memory := m1\<rparr>" using load_program_memory [OF ld] by auto
  let ?s2 = "(update_pcb (pcb_of i) (\<lambda>p. p\<lparr>file_array := initial_fds (\<lambda>k. if i < int STD_FILES then 1 else 0),
      pcb_pid := i, leaf := 1, pcb_terminal := i, parent_pid := -1\<rparr>) s1)\<lparr>tss_esp0 := pcb_of i + 0x1FFC, tss_ss0 := KERNEL_DS\<rparr>"
  let ?E = "read32 (memory s1) 0x08048018"
  have fr: "pcbs (first_frame r E t) = pcbs t" "terminal_array (first_frame r E t) = terminal_array t"
      "process_array (first_frame r E t) = process_array t" for r E and t :: "'a keyboard_scheme"
    by (simp_all add: first_frame_def Let_def nine_pushes)
  have words: "read_words (memory s') (pcb_of i + 0x1FBC) 16 = frame_words (pcb_of i + 0x1FFC) ret_addr ?E (eflags_image ?s2)"
  proof -
    have "memory s' = memory (first_frame ret_addr ?E ?s2)" by (simp only: s' update_pcb_sel)
    moreover have t: "tss_esp0 ?s2 = pcb_of i + 0x1FFC" by simp
    moreover have "tss_esp0 ?s2 - 64 = pcb_of i + 0x1FBC" unfolding t by simp
    ultimately show ?thesis using first_frame_words [of ret_addr ?E ?s2] by (simp only:)
  qed
  have "?E = read32 (memory s') 0x08048018"
    using i by (auto simp: s' first_frame_def Let_def nine_pushes pcb_of_def proc_consts read32_write32_other)
  then show ?thesis
    using words by (intro that [OF words]) (simp_all add: s' fr s1)
qed

section \<open>Arguments\<close>

lemma zero_loop: "fold (\<lambda>i m. m(a + of_nat i := 0)) [0..<n] m = write_bytes m a (replicate n 0)"
proof (induction n)
  case 0
  then show ?case by simp
next
  case (Suc n)
  have "write_bytes m a (replicate (Suc n) 0) = (write_bytes m a (replicate n 0))(a + of_nat n := 0)"
    using write_bytes_snoc [of m a "replicate n 0" 0] by (simp add: replicate_append_same)
  then show ?case using Suc by (simp cong: if_cong)
qed

lemma getargs_eq:
  fixes s :: "'a keyboard_scheme"
  defines "args \<equiv> pcb_of (curr_pid s)"
  assumes str: "cstr_at (memory s) args xs" and len: "length xs < 1024" and buf: "buf \<noteq> 0" and nb: "0 < nbytes" "nbytes < 2 ^ 31"
    and dis: "disjoint_regions buf 1024 args (Suc (length xs))"
  shows "getargs buf nbytes s = Some (if int (length xs) > nbytes then (FAILURE, s)
    else (SUCCESS, s\<lparr>memory := write_bytes (memory s) buf (xs @ replicate (1024 - length xs) 0)\<rparr>))"
proof -
  have un: "unat (word_of_int nbytes :: u32) = nat nbytes" using nb by (simp add: unsigned_of_int take_bit_int_eq_self)
  have ul: "unat (of_nat (length xs) :: u32) = length xs" using len by (simp add: unat_of_nat_u32)
  have gt: "(of_nat (length xs) :: u32) > word_of_int nbytes \<longleftrightarrow> int (length xs) > nbytes"
    using nb by (auto simp: word_less_nat_alt un ul)
  let ?m = "write_bytes (memory s) buf (replicate 1024 0)"
  have "cstr_at ?m args xs"
  proof (rule cstr_at_cong [OF _ str])
    fix i assume "i \<le> length xs"
    then show "?m (args + of_nat i) = memory s (args + of_nat i)"
      using len by (intro write_bytes_disjoint_read [OF dis]) auto
  qed
  then have cp: "strcpy ?m buf args = Some (write_bytes ?m buf (xs @ [0]))"
    using disjoint_regions_prefix [OF dis, of "Suc (length xs)" "Suc (length xs)"] len by (intro strcpy_cstr) auto
  have w: "write_bytes ?m buf (xs @ [0]) = write_bytes (memory s) buf (xs @ replicate (1024 - length xs) 0)"
  proof
    fix x
    have "1024 - length xs = Suc (1023 - length xs)" using len by simp
    then show "write_bytes ?m buf (xs @ [0]) x = write_bytes (memory s) buf (xs @ replicate (1024 - length xs) 0) x"
      using len by (auto simp: write_bytes_apply in_region_def nth_append)
  qed
  have z: "getargs buf nbytes s = Some (if of_nat (length xs) > (word_of_int nbytes :: u32) then (FAILURE, s)
    else (SUCCESS, s\<lparr>memory := the (strcpy ?m buf args)\<rparr>))"
    using buf nb(1) cp
    by (simp add: getargs_def Let_def zero_loop ARGS_SIZE_def strlen_cstr [OF str] flip: args_def curr_pid_def)
  show ?thesis unfolding z gt cp option.sel w ..
qed

section \<open>Reading an open file\<close>

text \<open>The position of a descriptor after a read that returned \<open>r\<close>.\<close>

definition advance :: "int \<Rightarrow> fd_t \<Rightarrow> fd_t" where
  "advance r f = f\<lparr>file_position := file_position f + (if fd_file_type f = 1 then (if r > 0 then 1 else 0) else r)\<rparr>"

lemma read_fd_file:
  fixes s :: "'a keyboard_scheme" and off n :: nat and fd :: int
  defines "f \<equiv> fd_at (curr_pcb s) fd s"
  assumes fd: "0 \<le> fd" "fd < 8" and tab: "fop_jump_table f = file_table ! 2" "fd_file_type f = 2" "fd_flags f \<noteq> 0"
    and len8: "length (file_array (pcbs s (curr_pcb s))) = 8"
    and pos: "file_position f = int off" "off \<le> file_size (memory s) (boot_block s) (word_of_int (fd_inode f))"
    and ok: "file_ok (memory s) (boot_block s) blocks (word_of_int (fd_inode f))"
    and buf: "buf \<noteq> 0" and nb: "0 \<le> nbytes" "nbytes < 2 ^ 31"
    and n: "n = min (nat nbytes) (file_size (memory s) (boot_block s) (word_of_int (fd_inode f)) - off)"
    and dis: "disjoint_regions buf (max 32 n) (boot_block s) (blocks * 4096)"
  obtains m where "read_fd L hs fd buf nbytes s = Some (int n, set_fd (curr_pcb s) fd (advance (int n)) ((sti s)\<lparr>memory := m\<rparr>))"
    and "read_bytes m buf n = map (file_byte (memory s) (boot_block s) (word_of_int (fd_inode f))) [off..<off + n]"
    and "\<And>x. \<not> in_region x buf (max 32 n) \<Longrightarrow> m x = memory s x"
    and "file_position (fd_at (curr_pcb s) fd (set_fd (curr_pcb s) fd (advance (int n)) ((sti s)\<lparr>memory := m\<rparr>))) = int (off + n)"
proof -
  let ?s = "sti s"
  have fr: "memory ?s = memory s" "boot_block ?s = boot_block s" "fd_at (curr_pcb s) fd ?s = f"
    by (simp_all add: sti_def f_def fd_at_def)
  obtain r s1 where rd: "file_read (fd_inode f) buf nbytes (of_nat off) ?s = (r, s1)" by fastforce
  note spec = file_read_bytes [OF ok [folded fr(1,2)] pos(2) [folded fr(1,2)] buf nb n [folded fr(1,2)] dis [folded fr(2)] rd, unfolded fr]
  obtain m where s1: "s1 = ?s\<lparr>memory := m\<rparr>" using file_read_memory [OF rd] by auto
  let ?s' = "set_fd (curr_pcb s) fd (advance r) s1"
  have at: "fd_at (curr_pcb s) fd ?s' = f\<lparr>file_position := int (off + n)\<rparr>"
    using fd len8 tab(2) pos(1) spec(1) by (simp add: fd_at_def s1 f_def advance_def)
  have "call_read L hs (fop_jump_table f ! READ_INDEX) (fd_inode f) buf nbytes (file_position f) ?s = Some (r, s1)"
    using tab(1) rd pos(1) by (simp add: file_table_def READ_INDEX_def call_read_def)
  then have "read_fd L hs fd buf nbytes s = Some (r, ?s')"
    using fd buf tab(3) at by (simp add: read_fd_def Let_def MAX_OPEN_FILES_def fr(3) advance_def [abs_def])
  then show ?thesis using spec at s1 by (intro that [of m]) simp_all
qed

section \<open>Main properties\<close>

text \<open>A process of the concrete state with a full table of descriptors: the two terminals and one open file.\<close>

definition demo_fds :: "fd_t list" where
  "demo_fds = (initial_fds (\<lambda>k. if k < 2 then 1 else 0))[2 := \<lparr>fop_jump_table = file_table ! 2, fd_inode = 0, fd_file_type = 2,
     file_position = 4, fd_flags = 1\<rparr>]"

definition demo_kernel :: "(u32 \<times> u8 list) list \<Rightarrow> keyboard" where
  "demo_kernel segs = (demo_keyboard segs)\<lparr>pcbs := (\<lambda>a. (if a = pcb_of 0 then demo_pcb 0 else demo_pcb 1)\<lparr>file_array := demo_fds\<rparr>)\<rparr>"

definition demo_locals :: locals where
  "demo_locals = \<lparr>l_fname = 0x7FF000, l_buf = 0x7FF100, l_dentry = 0x7FF200, l_args = 0x7FF800, l_elf = 0x402000, l_sub = 0x7FF300,
     l_conv = 0x7FF400\<rparr>"

lemma demo_kernel_sel [simp]:
  "memory (demo_kernel segs) = mem_of (segs @ demo_image)" "boot_block (demo_kernel segs) = 0x500000"
  "pcbs (demo_kernel segs) a = (if a = pcb_of 0 then demo_pcb 0 else demo_pcb 1)\<lparr>file_array := demo_fds\<rparr>"
  "process_array (demo_kernel segs) p = (if p = 0 \<or> p = 1 then 1 else 0)" "terminal_array (demo_kernel segs) p = p"
  "curr_terminal (demo_kernel segs) = 0" "esp (demo_kernel segs) = pcb_of 0 + 0x1F00" "ebp (demo_kernel segs) = pcb_of 0 + 0x1F00"
  "int_flag (demo_kernel segs)"
  by (simp_all add: demo_kernel_def)

lemma demo_curr_pcb [simp]: "curr_pcb (demo_kernel segs) = pcb_of 0"
  by (simp add: curr_pcb_def pcb_of_def proc_consts)

lemma demo_fds_eval: "length demo_fds = 8" "fds_ok demo_fds" "free_fd demo_fds = 3" "demo_fds ! 2 = \<lparr>fop_jump_table = file_table ! 2, fd_inode = 0,
  fd_file_type = 2, file_position = 4, fd_flags = 1\<rparr>"
  by (simp_all add: demo_fds_def initial_fds_def fds_ok_def free_fd_def table_defs upt_rec STD_FILES_def MAX_OPEN_FILES_def)

lemma demo_fd_2 [simp]: "fd_at (pcb_of 0) 2 (demo_kernel segs) = \<lparr>fop_jump_table = file_table ! 2, fd_inode = 0, fd_file_type = 2, file_position = 4, fd_flags = 1\<rparr>"
  by (simp add: fd_at_def demo_fds_eval)

text \<open>
  C35: what the dispatcher refuses. A call number that is not 1 to 10 gives -1; so do \<open>read\<close>,
  \<open>write\<close> and \<open>close\<close> of a descriptor that is not 0 to 7, and \<open>read\<close>, \<open>write\<close>, \<open>open\<close>,
  \<open>getargs\<close> and \<open>vidmap\<close> with a NULL pointer; \<open>vidmap\<close> also refuses every address outside
  the user page, and the two signal calls always fail. In each case the state is unchanged.
\<close>
theorem system_call_errors:
  "(eax = 0 \<or> 10 < eax \<longrightarrow> sys_int_w L hs eax ebx ecx edx s = Some (Return (-1) s)) \<and>
   (sint ebx < 0 \<or> 8 \<le> sint ebx \<longrightarrow> (\<forall>n\<in>{3, 4, 6}. sys_int_w L hs n ebx ecx edx s = Some (Return (-1) s))) \<and>
   (\<forall>n\<in>{3, 4}. sys_int_w L hs n ebx 0 edx s = Some (Return (-1) s)) \<and>
   (\<forall>n\<in>{5, 7, 8}. sys_int_w L hs n 0 ecx edx s = Some (Return (-1) s)) \<and>
   (ebx < 0x8000000 \<or> 0x8400000 \<le> ebx \<longrightarrow> sys_int_w L hs 8 ebx ecx edx s = Some (Return (-1) s)) \<and>
   (\<forall>n\<in>{9, 10}. sys_int_w L hs n ebx ecx edx s = Some (Return (-1) s))"
proof -
  have *: "0 < sint n" if "n \<in> {3, 4, 5, 6, 7, 8, 9, 10 :: u32}" for n using that by auto
  have "eax = 0 \<or> 10 < eax \<Longrightarrow> sys_int_w L hs eax ebx ecx edx s = Some (Return (-1) s)" by (auto simp: sys_int_w_def)
  moreover have "sint ebx < 0 \<or> 8 \<le> sint ebx \<Longrightarrow> n \<in> {3, 4, 6} \<Longrightarrow> sys_int_w L hs n ebx ecx edx s = Some (Return (-1) s)" for n
    using bad_descriptor [of "sint ebx"] by (auto simp: sys_int_w_def returning_def)
  moreover have "n \<in> {3, 4} \<Longrightarrow> sys_int_w L hs n ebx 0 edx s = Some (Return (-1) s)" for n
    by (auto simp: sys_int_w_def returning_def null_buffer)
  moreover have "n \<in> {5, 7, 8} \<Longrightarrow> sys_int_w L hs n 0 ecx edx s = Some (Return (-1) s)" for n
    by (auto simp: sys_int_w_def returning_def null_buffer getargs_def vidmap_def FAILURE_def)
  moreover have "ebx < 0x8000000 \<or> 0x8400000 \<le> ebx \<Longrightarrow> sys_int_w L hs 8 ebx ecx edx s = Some (Return (-1) s)"
    by (auto simp: sys_int_w_def returning_def vidmap_def USER_VID_MEM_def FOUR_MB_def)
  moreover have "n \<in> {9, 10} \<Longrightarrow> sys_int_w L hs n ebx ecx edx s = Some (Return (-1) s)" for n
    by (auto simp: sys_int_w_def returning_def set_handler_def sigreturn_def)
  ultimately show ?thesis by blast
qed

theorem system_call_errors_witness:
  "sys_int_w demo_locals [] 11 0 0 0 (demo_kernel []) = Some (Return (-1) (demo_kernel [])) \<and>
   sys_int_w demo_locals [] 6 9 0 0 (demo_kernel []) = Some (Return (-1) (demo_kernel []))"
  using system_call_errors [of 11 demo_locals "[]" 9 0 0 "demo_kernel []"] system_call_errors [of 11 demo_locals "[]" 0 0 0 "demo_kernel []"] by simp

text \<open>
  C17: \<open>open\<close>. For an existing file of a known type and a free descriptor, the call returns the
  lowest free descriptor, and that entry then holds the operations of the file's type, its
  inode number and type, position 0 and the in-use flag; no other entry of any process changes.
\<close>
theorem open_lowest_descriptor:
  assumes "cstr_at (memory s) filename xs" "xs \<noteq> []" "filename \<noteq> 0" "find_file (memory s) (boot_block s) xs = Some i"
    and "dentry_file_type (memory s) (dentry_at (boot_block s) i) = ft" "ft < 3"
    and "dentry_buffer (l_dentry L) filename (length xs) s" "dentry_buffer (l_sub L) filename (length xs) s"
    and "fds_ok (file_array (pcbs s (curr_pcb s)))" "n < 8" "fd_flags (fd_at (curr_pcb s) (int n) s) = 0"
    and "\<forall>j<n. fd_flags (fd_at (curr_pcb s) (int j) s) \<noteq> 0"
  shows "\<exists>s'. open_fd L filename s = Some (int n, s') \<and>
    fd_at (curr_pcb s) (int n) s' = \<lparr>fop_jump_table = file_table ! unat ft,
      fd_inode = sint (dentry_inode_num (memory s) (dentry_at (boot_block s) i)), fd_file_type = sint ft, file_position = 0, fd_flags = 1\<rparr> \<and>
    (\<forall>a j. (a, j) \<noteq> (curr_pcb s, n) \<longrightarrow> file_array (pcbs s' a) ! j = file_array (pcbs s a) ! j)"
proof -
  let ?fs = "file_array (pcbs s (curr_pcb s))"
  have len: "length ?fs = 8" using assms(9) by (simp add: fds_ok_def)
  have "takeWhile (\<lambda>f. fd_flags f \<noteq> 0) ?fs = take n ?fs"
    using assms(10-12) len by (intro takeWhile_eq_take_P_nth) (auto simp: fd_at_def)
  then have n: "free_fd ?fs = n" using assms(10) len by (simp add: free_fd_def)
  obtain m where "open_fd L filename s = Some (int n, set_fd (curr_pcb s) (int n) (opened_fd ft (dentry_inode_num (memory s) (dentry_at (boot_block s) i)))
      (s\<lparr>memory := m\<rparr>))"
    using open_fd_succeeds [OF assms(1-4) _ assms(7-9)] assms(5,6,10) n by auto
  then show ?thesis using len assms(10) by (auto simp: fd_at_def opened_fd_def nth_list_update split: if_splits)
qed

lemma find_file_first: "file_name m bb 0 = take 32 xs \<Longrightarrow> find_file m bb xs = Some 0"
  by (simp add: find_file_def upt_conv_Cons)

theorem open_lowest_descriptor_witness:
  "\<exists>s'. open_fd demo_locals 0x1000 (demo_kernel [(0x1000, [0x68, 0x69])]) = Some (3, s') \<and>
     fop_jump_table (fd_at (pcb_of 0) 3 s') = [File_read, File_write, File_open, File_close]"
proof -
  let ?s = "demo_kernel [(0x1000, [0x68, 0x69])]"
  have "cstr_at (memory ?s) 0x1000 [0x68, 0x69]"
    by (simp add: cstr_at_def read_bytes_def mem_of_def demo_image_def demo_file_def)
  moreover have "find_file (memory ?s) (boot_block ?s) [0x68, 0x69] = Some 0"
    by (rule find_file_first) (simp add: file_name_def read_bytes_def upt_rec dentry_at_def mem_of_def demo_image_def demo_file_def)
  moreover have "dentry_file_type (memory ?s) (dentry_at (boot_block ?s) 0) = 2"
    by (simp add: dentry_file_type_def dentry_at_def read32_def mem_of_def demo_image_def demo_file_def)
  moreover have "dentry_buffer (l_dentry demo_locals) 0x1000 (length [0x68, 0x69 :: u8]) ?s" "dentry_buffer (l_sub demo_locals) 0x1000 (length [0x68, 0x69 :: u8]) ?s"
    by (simp_all add: dentry_buffer_def demo_locals_def disjoint_regions_def)
  moreover have "fds_ok (file_array (pcbs ?s (curr_pcb ?s)))" by (simp add: demo_fds_eval)
  moreover have "fd_flags (fd_at (curr_pcb ?s) (int 3) ?s) = 0" "\<forall>j<3. fd_flags (fd_at (curr_pcb ?s) (int j) ?s) \<noteq> 0"
    using free_fd_less [where fs = demo_fds] by (simp_all add: fd_at_def demo_fds_eval)
  ultimately obtain s' where "open_fd demo_locals 0x1000 ?s = Some (int 3, s')" "fop_jump_table (fd_at (curr_pcb ?s) (int 3) s') = file_table ! unat (2 :: u32)"
    using open_lowest_descriptor [of ?s "0x1000" "[0x68, 0x69]" 0 2 demo_locals 3] by auto
  then show ?thesis by (auto simp: file_table_def)
qed

text \<open>
  \<open>close\<close>. Closing an open descriptor always returns; the entry is then free with position 0,
  the table stays well formed, and no other entry of any process changes. Closing it again
  gives -1.
\<close>
theorem close_frees_descriptor:
  assumes "fds_ok (file_array (pcbs s (curr_pcb s)))" "n < 8" "fd_flags (fd_at (curr_pcb s) (int n) s) \<noteq> 0"
  shows "\<exists>r s'. close_fd (int n) s = Some (r, s') \<and> fd_flags (fd_at (curr_pcb s) (int n) s') = 0 \<and> file_position (fd_at (curr_pcb s) (int n) s') = 0 \<and>
    fds_ok (file_array (pcbs s' (curr_pcb s))) \<and> (\<forall>a j. (a, j) \<noteq> (curr_pcb s, n) \<longrightarrow> file_array (pcbs s' a) ! j = file_array (pcbs s a) ! j) \<and>
    close_fd (int n) s' = Some (-1, s')"
proof -
  have len: "length (file_array (pcbs s (curr_pcb s))) = 8" using assms(1) by (simp add: fds_ok_def)
  obtain r where r: "close_fd (int n) s = Some (r, set_fd (curr_pcb s) (int n) closed_fd s)"
    using close_fd_open [OF assms(1), of "int n"] assms(2,3) by auto
  let ?s' = "set_fd (curr_pcb s) (int n) closed_fd s"
  have f: "fd_at (curr_pcb s) (int n) ?s' = closed_fd (fd_at (curr_pcb s) (int n) s)" using len assms(2) by (simp add: fd_at_def)
  then have "close_fd (int n) ?s' = Some (-1, ?s')" by (intro close_closed) (simp add: closed_fd_def)
  moreover have "fds_ok (file_array (pcbs ?s' (curr_pcb s)))" using fds_ok_closed [OF assms(1,2)] by simp
  ultimately show ?thesis using r f by (intro exI [of _ r] exI [of _ ?s']) (auto simp: closed_fd_def nth_list_update split: if_splits)
qed

theorem close_frees_descriptor_witness: "\<exists>r s'. close_fd 2 (demo_kernel []) = Some (r, s') \<and> close_fd 2 s' = Some (-1, s')"
  using close_frees_descriptor [of "demo_kernel []" 2] by (auto simp: demo_fds_eval)

text \<open>
  \<open>read\<close> of an open file. The call returns the smaller of the count asked for and what is
  left after the descriptor's position; the buffer holds exactly the next bytes of the file and
  the position moves past them, so successive reads return successive pieces.
\<close>
theorem read_advances_position:
  assumes "f = fd_at (curr_pcb s) fd s" "k = word_of_int (fd_inode f)" "0 \<le> fd" "fd < 8"
    and "fop_jump_table f = file_table ! 2" "fd_file_type f = 2" "fd_flags f \<noteq> 0" "length (file_array (pcbs s (curr_pcb s))) = 8"
    and "file_position f = int off" "off \<le> file_size (memory s) (boot_block s) k" "file_ok (memory s) (boot_block s) blocks k"
    and "buf \<noteq> 0" "0 \<le> nbytes" "nbytes < 2 ^ 31" "n = min (nat nbytes) (file_size (memory s) (boot_block s) k - off)"
    and "disjoint_regions buf (max 32 n) (boot_block s) (blocks * 4096)"
  shows "\<exists>s'. read_fd L hs fd buf nbytes s = Some (int n, s') \<and>
    read_bytes (memory s') buf n = map (file_byte (memory s) (boot_block s) k) [off..<off + n] \<and>
    file_position (fd_at (curr_pcb s) fd s') = int (off + n)"
proof -
  note hyps = assms(3-16) [unfolded assms(2), unfolded assms(1)]
  show ?thesis unfolding assms(2) unfolding assms(1) by (rule read_fd_file [OF hyps, of L hs]) auto
qed

theorem read_advances_position_witness:
  "\<exists>s'. read_fd demo_locals [] 2 0x1000 10 (demo_kernel []) = Some (10, s') \<and> file_position (fd_at (pcb_of 0) 2 s') = 14"
proof -
  let ?s = "demo_kernel []"
  have "file_ok (memory ?s) (boot_block ?s) 3 0" "file_size (memory ?s) (boot_block ?s) 0 = 28" by (simp_all add: demo_file_ok demo_file_size)
  moreover have "disjoint_regions 0x1000 (max 32 10) (boot_block ?s) (3 * 4096)" by (simp add: disjoint_regions_def)
  ultimately show ?thesis
    using read_advances_position [of "fd_at (curr_pcb ?s) 2 ?s" ?s 2 0 4 3 "0x1000" 10 10 demo_locals "[]"] by (auto simp: demo_fds_eval)
qed

text \<open>
  \<open>getargs\<close>. With an argument string of fewer than 1024 characters in the running process's
  control block, the call fails, changing nothing, if the string is longer than the count
  given; otherwise it returns 0 and fills 1024 bytes of the buffer with the string and NULs,
  however small the count.
\<close>
theorem getargs_copies_arguments:
  assumes "cstr_at (memory s) (pcb_of (curr_pid s)) xs" "length xs < 1024" "buf \<noteq> 0" "0 < nbytes" "nbytes < 2 ^ 31"
    and "disjoint_regions buf 1024 (pcb_of (curr_pid s)) (Suc (length xs))"
  shows "getargs buf nbytes s = Some (if nbytes < int (length xs) then (-1, s)
    else (0, s\<lparr>memory := write_bytes (memory s) buf (xs @ replicate (1024 - length xs) 0)\<rparr>))"
  using getargs_eq [OF assms] by (simp add: FAILURE_def SUCCESS_def)

theorem getargs_copies_arguments_witness:
  "\<exists>s'. getargs 0x1000 1 (demo_kernel [(0x7FE000, [0x61])]) = Some (0, s') \<and> memory s' 0x1000 = 0x61 \<and> memory s' 0x13FF = 0"
proof -
  let ?s = "demo_kernel [(0x7FE000, [0x61])]"
  have c: "pcb_of (curr_pid ?s) = 0x7FE000" by (simp add: curr_pid_def pcb_of_def proc_consts)
  have "cstr_at (memory ?s) 0x7FE000 [0x61]"
    by (simp add: cstr_at_def read_bytes_def mem_of_def demo_image_def demo_file_def)
  then have "getargs 0x1000 1 ?s = Some (0, ?s\<lparr>memory := write_bytes (memory ?s) 0x1000 ([0x61] @ replicate (1024 - length [0x61 :: u8]) 0)\<rparr>)"
    using getargs_copies_arguments [of ?s "[0x61]" "0x1000" 1] by (simp add: c disjoint_regions_def)
  then show ?thesis by (simp add: write_bytes_apply in_region_def)
qed

text \<open>
  The descriptors of the base shells. \<open>setup_shell\<close> takes the in-use flag from the number of
  the shell instead of the number of the descriptor: after it, all eight descriptors of shells
  0 and 1 count as open, so that \<open>open\<close> can never find a free one there, and none of shell 2,
  not even its standard input and output.
\<close>
theorem shell_descriptor_flags:
  assumes "setup_shell ret_addr L i s = (True, s')" "i \<in> {0, 1, 2}"
  shows "free_fd (file_array (pcbs s' (pcb_of i))) = (if i = 2 then 0 else 8)"
proof -
  have "file_array (pcbs s' (pcb_of i)) = initial_fds (\<lambda>k. if i < int STD_FILES then 1 else 0)"
    using assms(1) by (auto simp: setup_shell_def first_frame_def nine_pushes Let_def split: prod.splits if_splits)
  then show ?thesis using assms(2) by (auto simp: free_fd_def initial_fds_def STD_FILES_def MAX_OPEN_FILES_def upt_rec)
qed

lemma demo_loads:
  fixes s :: "'a keyboard_scheme"
  assumes "memory s = mem_of demo_image" "boot_block s = 0x500000"
  shows "\<exists>s'. load_program 0 USR_START_ADDR (change_process p s) = (0, s')"
proof -
  have "same_image (mem_of demo_image) (memory (change_process p s)) 0x500000 (3 * 4096)"
    unfolding same_image_def
  proof (intro allI impI)
    fix j :: nat assume "j < 3 * 4096"
    then have "unat (0x500000 + of_nat j - USER_PAGE :: u32) \<ge> 0x400000"
      by (simp add: USER_PAGE_def unat_sub_if' unat_of_nat_u32 unat_word_ariths)
    then show "memory (change_process p s) (0x500000 + of_nat j) = mem_of demo_image (0x500000 + of_nat j)"
      by (simp add: memory_change_process in_user_page_def in_region_def assms)
  qed
  note keep = same_file_ok [OF this demo_file_ok]
  have bb: "boot_block (change_process p s) = 0x500000" by (simp add: change_process_def flush_tlb_def load_cr3_def Let_def assms(2))
  obtain s' where "load_program 0 USR_START_ADDR (change_process p s) = (0, s')"
    by (rule load_program_eq [of "change_process p s" 3 0 USR_START_ADDR])
      (simp_all add: bb keep demo_file_size USR_START_ADDR_def disjoint_regions_def)
  then show ?thesis by blast
qed

theorem shell_descriptor_flags_witness:
  "\<exists>s'. setup_shell 0x400100 demo_locals 1 (demo_kernel []) = (True, s') \<and> free_fd (file_array (pcbs s' (pcb_of 1))) = 8"
proof -
  let ?s = "(demo_kernel [])\<lparr>terminal_array := (terminal_array (demo_kernel []))(1 := 1), process_array := (process_array (demo_kernel []))(1 := 1)\<rparr>"
  obtain s1 where s1: "load_program 0 USR_START_ADDR (change_process 1 ?s) = (0, s1)" using demo_loads [of ?s 1] by auto
  have "dentry_inode_num (memory (change_process 1 ?s)) (l_dentry demo_locals) = 0"
    by (simp add: dentry_inode_num_def memory_change_process demo_locals_def read32_def in_user_page_def in_region_def USER_PAGE_def mem_of_def
        demo_image_def demo_file_def)
  then obtain s' where "setup_shell 0x400100 demo_locals 1 (demo_kernel []) = (True, s')"
    using s1 by (simp add: setup_shell_def Let_def)
  then show ?thesis using shell_descriptor_flags [of "0x400100" demo_locals 1 "demo_kernel []" s'] by auto
qed

end
