(* ===== verification/Execute.thy ===== *)
theory Execute
  imports Syscalls
begin

text \<open>
  The successful path of \<open>execute\<close>, from the command string to the first user instruction:
  the name and the arguments are split off, the file is found and its header checked, the
  program is copied into the new process's page, the arguments into its control block, and
  the processor enters user mode at the program's entry point. The stages are followed on
  memory, with \<open>same_image\<close> saying which blocks a stage leaves alone.
\<close>

section \<open>Blocks that a write leaves alone\<close>

lemma same_image_refl [simp]: "same_image m m a n"
  by (simp add: same_image_def)

lemma same_image_trans: "same_image m m' a n \<Longrightarrow> same_image m' m'' a n \<Longrightarrow> same_image m m'' a n"
  by (simp add: same_image_def)

lemma same_image_prefix: "same_image m m' a n \<Longrightarrow> k \<le> n \<Longrightarrow> same_image m m' a k"
  by (simp add: same_image_def)

lemma same_image_cstr: "same_image m m' a n \<Longrightarrow> length xs < n \<Longrightarrow> cstr_at m a xs \<Longrightarrow> cstr_at m' a xs"
  by (rule cstr_at_cong) (auto simp: same_image_def)

lemma same_image_bytes: "same_image m m' a n \<Longrightarrow> k \<le> n \<Longrightarrow> read_bytes m' a k = read_bytes m a k"
  by (rule read_bytes_cong) (simp add: same_image_def)

lemma same_image_outside:
  assumes "\<And>x. \<not> in_region x b k \<Longrightarrow> m' x = m x" "disjoint_regions b k a n" "n \<le> 0x100000000"
  shows "same_image m m' a n"
  unfolding same_image_def
proof (intro allI impI)
  fix j assume "j < n"
  then have "in_region (a + of_nat j) a n" using assms(3) by (intro in_region_offset) simp_all
  then show "m' (a + of_nat j) = m (a + of_nat j)" using assms(1) disjoint_regionsD [OF assms(2)] by blast
qed

lemma disjoint_subregion:
  assumes "disjoint_regions a n b k" "j + l \<le> k" "k \<le> 2 ^ 32" "0 < l"
  shows "disjoint_regions a n (b + of_nat j) l"
proof (cases "n = 0 \<or> k = 0")
  case True
  then show ?thesis using assms(2,4) by (auto simp: disjoint_regions_def)
next
  case False
  then have d: "n \<le> unat (b - a)" "k \<le> unat (a - b)" using assms(1) by (auto simp: disjoint_regions_def)
  then have ne: "a - b \<noteq> 0" using False by auto
  have uj: "unat (of_nat j :: u32) = j" using assms(2-4) by (intro unat_of_nat_u32) linarith
  have "unat a \<noteq> unat b" using ne by (metis right_minus_eq unsigned_word_eqI)
  then have sum: "unat (b - a) + unat (a - b) = 2 ^ 32"
    using unat_lt_u32 [of a] unat_lt_u32 [of b] by (auto simp: unat_sub_if')
  have shift: "b + of_nat j - a = b - a + of_nat j" "a - (b + of_nat j) = a - b - of_nat j" by simp_all
  have "unat (b - a + of_nat j) = unat (b - a) + j" using sum d(2) assms(2,4) by (intro unat_add_nowrap) linarith
  moreover have "unat (a - b - of_nat j) = unat (a - b) - j" using d(2) assms(2) uj by (simp add: unat_sub word_le_nat_alt)
  ultimately show ?thesis using d assms(2) unfolding disjoint_regions_def shift by auto
qed

section \<open>Splitting the command\<close>

definition command_name :: "mem \<Rightarrow> u32 \<Rightarrow> u8 list" where
  "command_name m command = takeWhile (\<lambda>c. c \<noteq> 0x20) (read_bytes m command 32)"

lemma length_command_name: "length (command_name m command) \<le> 32"
  using length_takeWhile_le [of _ "read_bytes m command 32"] by (simp add: command_name_def)

lemma command_name_nth:
  assumes "i < length (command_name m command)"
  shows "command_name m command ! i = m (command + of_nat i)" "m (command + of_nat i) \<noteq> 0x20"
proof -
  have i: "i < 32" using assms length_command_name [of m command] by simp
  show eq: "command_name m command ! i = m (command + of_nat i)"
    using assms i takeWhile_nth [of i _ "read_bytes m command 32"] by (simp add: command_name_def)
  show "m (command + of_nat i) \<noteq> 0x20"
    using nth_mem [OF assms] set_takeWhileD [of "command_name m command ! i" _ "read_bytes m command 32"] eq by (auto simp: command_name_def)
qed

lemma command_name_stop: "length (command_name m command) < 32 \<Longrightarrow> m (command + of_nat (length (command_name m command))) = 0x20"
  using nth_length_takeWhile [of "\<lambda>c. c \<noteq> 0x20" "read_bytes m command 32"] by (simp add: command_name_def)

lemma copy_command_from:
  assumes dis: "disjoint_regions fname 32 command 32"
  shows "i \<le> length (command_name m command) \<Longrightarrow> i + k = 32 \<Longrightarrow>
    copy_command k i fname command (write_bytes m fname (take i (command_name m command))) =
      (write_bytes m fname (command_name m command), length (command_name m command))"
proof (induction k arbitrary: i)
  case 0
  then have "i = length (command_name m command)" using length_command_name [of m command] by simp
  then show ?case by simp
next
  case (Suc k)
  let ?cb = "command_name m command"
  have rd: "write_bytes m fname (take i ?cb) (command + of_nat i) = m (command + of_nat i)"
    using Suc.prems by (intro write_bytes_disjoint_read [OF dis]) auto
  show ?case
  proof (cases "i < length ?cb")
    case True
    then show ?thesis
      using Suc.IH [of "Suc i"] Suc.prems rd command_name_nth [OF True] write_bytes_take_Suc [OF True, of m fname] by simp
  next
    case False
    then have "i = length ?cb" using Suc.prems by simp
    then show ?thesis using rd command_name_stop [of m command] Suc.prems by simp
  qed
qed

lemma copy_command_eq:
  "disjoint_regions fname 32 command 32 \<Longrightarrow>
   copy_command 32 0 fname command m = (write_bytes m fname (command_name m command), length (command_name m command))"
  using copy_command_from [of fname command 0 m 32] by simp

lemma copy_until_nul_from:
  assumes src: "cstr_at m src xs" and dis: "disjoint_regions dest (Suc (length xs)) src (Suc (length xs))"
  shows "i \<le> length xs \<Longrightarrow>
    copy_until_nul dest src (write_bytes m dest (take i xs)) (of_nat i) = Some (write_bytes m dest xs, of_nat (length xs))"
proof (induction "length xs - i" arbitrary: i)
  case 0
  then have "i = length xs" by simp
  moreover have "write_bytes m dest xs (src + of_nat (length xs)) = 0"
    using write_bytes_disjoint_read [OF dis, of xs "length xs" m] cstr_at_end [OF src] cstr_at_length [OF src] by simp
  ultimately show ?case by (subst copy_until_nul.simps) simp
next
  case (Suc k)
  then have i: "i < length xs" by simp
  have rd: "write_bytes m dest (take i xs) (src + of_nat i) = xs ! i" "xs ! i \<noteq> 0"
    using write_bytes_disjoint_read [OF dis, of "take i xs" i m] cstr_at_nth [OF src i]
      cstr_at_nth_nonzero [OF src i] cstr_at_length [OF src] i by simp_all
  have "copy_until_nul dest src (write_bytes m dest (take (Suc i) xs)) (of_nat (Suc i)) = Some (write_bytes m dest xs, of_nat (length xs))"
    using Suc.hyps(2) i by (intro Suc.hyps(1)) auto
  then show ?case using rd i by (subst copy_until_nul.simps) (simp add: write_bytes_take_Suc add.commute)
qed

lemma copy_until_nul_eq:
  "cstr_at m src xs \<Longrightarrow> disjoint_regions dest (Suc (length xs)) src (Suc (length xs)) \<Longrightarrow>
   copy_until_nul dest src m 0 = Some (write_bytes m dest xs, of_nat (length xs))"
  using copy_until_nul_from [of m src xs dest 0] by simp

lemma off_region:
  "disjoint_regions a n b k \<Longrightarrow> j < k \<Longrightarrow> k \<le> 2 ^ 32 \<Longrightarrow> \<not> in_region (b + of_nat j) a n"
  using disjoint_regionsD in_region_offset by blast

lemma write_bytes_off: "length xs \<le> n \<Longrightarrow> n \<le> 2 ^ 32 \<Longrightarrow> \<not> in_region x a n \<Longrightarrow> write_bytes m a xs x = m x"
  using in_region_mono write_bytes_outside by (metis order_trans)

text \<open>The two copies of the command line: the name, NUL-terminated inside its 32 bytes, and the arguments.\<close>

lemma exec_parse:
  fixes m :: mem and fname args command :: u32 and xs :: "u8 list"
  defines "cb \<equiv> command_name m command"
  defines "name \<equiv> takeWhile (\<lambda>c. c \<noteq> 0) cb" and "m2 \<equiv> zero_fill args 1024 (zero_fill fname 32 m)"
  defines "m3 \<equiv> write_bytes m2 fname cb"
  defines "mA \<equiv> write_bytes m3 args (xs @ [0])"
  assumes d1: "disjoint_regions fname 32 command (34 + length xs)" and d2: "disjoint_regions args 1024 command (34 + length xs)"
    and d3: "disjoint_regions fname 32 args 1024"
    and arg: "cstr_at m (command + of_nat (length cb + 1)) xs" "length xs < 1024" and nm: "length name < 32"
  shows "copy_command 32 0 fname command m2 = (m3, length cb)"
    and "copy_until_nul args (command + of_nat (length cb + 1)) m3 0 = Some (write_bytes m3 args xs, of_nat (length xs))"
    and "(write_bytes m3 args xs)(args + of_nat (length xs) := 0) = mA"
    and "cstr_at mA fname name" "cstr_at mA args xs"
    and "\<not> in_region x fname 32 \<Longrightarrow> \<not> in_region x args 1024 \<Longrightarrow> mA x = m x"
proof -
  have lcb: "length cb \<le> 32" by (simp add: cb_def length_command_name)
  have m2: "m2 = write_bytes (write_bytes m fname (replicate 32 0)) args (replicate 1024 0)"
    by (simp add: m2_def zero_fill_def zero_loop)
  have out2: "m2 x = m x" if "\<not> in_region x fname 32" "\<not> in_region x args 1024" for x
    using that by (simp add: m2 write_bytes_outside)
  have out3: "m3 x = m x" if "\<not> in_region x fname 32" "\<not> in_region x args 1024" for x
    using that out2 write_bytes_off [OF lcb _ that(1)] by (simp add: m3_def)
  have cmd: "m2 (command + of_nat j) = m (command + of_nat j)" "m3 (command + of_nat j) = m (command + of_nat j)" if "j < 34 + length xs" for j
    using off_region [OF d1 that] off_region [OF d2 that] arg(2) by (simp_all add: out2 out3)
  have "read_bytes m2 command 32 = read_bytes m command 32" by (rule read_bytes_cong) (simp add: cmd)
  then have cb2: "command_name m2 command = cb" by (simp add: cb_def command_name_def)
  show "copy_command 32 0 fname command m2 = (m3, length cb)"
    using copy_command_eq [OF disjoint_regions_prefix [OF d1, of 32 32], of m2] by (simp add: cb2 m3_def)
  have "cstr_at m3 (command + of_nat (length cb + 1)) xs"
  proof (rule cstr_at_cong [OF _ arg(1)])
    fix i assume "i \<le> length xs"
    then have "m3 (command + of_nat (length cb + 1 + i)) = m (command + of_nat (length cb + 1 + i))" using lcb by (intro cmd) simp
    then show "m3 (command + of_nat (length cb + 1) + of_nat i) = m (command + of_nat (length cb + 1) + of_nat i)" by (simp add: add.assoc)
  qed
  moreover have "disjoint_regions args (Suc (length xs)) (command + of_nat (length cb + 1)) (Suc (length xs))"
    using disjoint_regions_prefix [OF d2, of "Suc (length xs)" "34 + length xs"] arg(2) lcb by (intro disjoint_subregion [of _ _ _ "34 + length xs"]) auto
  ultimately show "copy_until_nul args (command + of_nat (length cb + 1)) m3 0 = Some (write_bytes m3 args xs, of_nat (length xs))"
    by (rule copy_until_nul_eq)
  show "(write_bytes m3 args xs)(args + of_nat (length xs) := 0) = mA" by (simp add: mA_def write_bytes_snoc)
  show "cstr_at mA args xs" using arg by (auto simp: mA_def cstr_at_def intro!: cstr_at_written [unfolded cstr_at_def, THEN conjunct2, THEN conjunct2])
  have outA: "mA x = m3 x" if "\<not> in_region x args 1024" for x
    using write_bytes_off [of "xs @ [0]" 1024 x args] that arg(2) by (simp add: mA_def)
  show "\<not> in_region x fname 32 \<Longrightarrow> \<not> in_region x args 1024 \<Longrightarrow> mA x = m x" by (simp add: outA out3)
  have "read_bytes mA fname 32 = cb @ replicate (32 - length cb) 0"
  proof (rule nth_equalityI)
    fix i assume "i < length (read_bytes mA fname 32)"
    then have i: "i < 32" by simp
    then have off: "\<not> in_region (fname + of_nat i) args 1024" using off_region [of args 1024 fname 32 i] d3 by (simp add: disjoint_regions_sym)
    have "in_region (fname + of_nat i) fname 32" "unat (of_nat i :: u32) = i" using i in_region_offset [of i 32] by (auto simp: unat_of_nat_u32)
    then have "m2 (fname + of_nat i) = 0" using off i by (simp add: m2 write_bytes_outside write_bytes_inside)
    then show "read_bytes mA fname 32 ! i = (cb @ replicate (32 - length cb) 0) ! i"
      using i off lcb by (simp add: outA m3_def write_bytes_apply in_region_def unat_of_nat_u32 nth_append)
  qed (use lcb in simp)
  moreover have "takeWhile (\<lambda>c. c \<noteq> 0) (cb @ replicate (32 - length cb) 0) = name"
  proof (cases "0 \<in> set cb")
    case True
    then show ?thesis by (simp add: name_def takeWhile_append1 [of 0])
  next
    case False
    then have "takeWhile (\<lambda>c. c \<noteq> 0) cb = cb" by (auto simp: takeWhile_eq_all_conv)
    moreover have "takeWhile (\<lambda>c. c \<noteq> 0) (cb @ replicate (32 - length cb) 0) = cb" using False by (subst takeWhile_append2) auto
    ultimately show ?thesis by (simp only: name_def)
  qed
  ultimately show "cstr_at mA fname name" using cstr_takeWhile [of mA fname 32] nm by simp
qed

section \<open>Checking the file\<close>

lemma strncmp_equal_bytes:
  assumes "read_bytes m a n = read_bytes m b n" "n < 2 ^ 32"
  shows "strncmp m a b (of_nat n) = 0"
proof -
  have "m (a + of_nat i) = m (b + of_nat i)" if "i < n" for i
    using assms(1) that nth_read_bytes [of i n m a] nth_read_bytes [of i n m b] by metis
  then show ?thesis using assms(2) by (simp add: strncmp_0 agree_upto_def unat_of_nat_u32)
qed

lemma sint_word_of_int [simp]: "word_of_int (sint (w :: u32)) = w"
  by simp

definition elf_magic :: "u8 list" where
  "elf_magic = [0x7F, 0x45, 0x4C, 0x46]"

text \<open>Looking the file up and reading its first four bytes.\<close>

lemma read_header:
  fixes s :: "'a keyboard_scheme" and blocks :: nat and name :: "u8 list" and i :: nat and L :: locals
  defines "ino \<equiv> dentry_inode_num (memory s) (dentry_at (boot_block s) i)"
  assumes str: "cstr_at (memory s) (l_fname L) name" "name \<noteq> []" and found: "find_file (memory s) (boot_block s) name = Some i"
    and fil: "file_ok (memory s) (boot_block s) blocks ino" "28 \<le> file_size (memory s) (boot_block s) ino"
    and nz: "l_dentry L \<noteq> 0" "l_buf L \<noteq> 0"
    and img: "disjoint_regions (l_dentry L) 64 (boot_block s) (blocks * 4096)" "disjoint_regions (l_buf L) 32 (boot_block s) (blocks * 4096)"
    and de: "disjoint_regions (l_buf L) 32 (l_dentry L) 64"
  obtains s1 m where "read_dentry_by_name (l_fname L) (l_dentry L) s = Some (0, s1)"
    and "sint (dentry_inode_num (memory s1) (l_dentry L)) = sint ino"
    and "file_read (sint ino) (l_buf L) BUFSIZE 0 s1 = (4, s\<lparr>memory := m\<rparr>)"
    and "read_bytes m (l_buf L) 4 = map (file_byte (memory s) (boot_block s) ino) [0..<4]"
    and "dentry_inode_num m (l_dentry L) = ino"
    and "\<And>x. \<not> in_region x (l_dentry L) 64 \<Longrightarrow> \<not> in_region x (l_buf L) 32 \<Longrightarrow> m x = memory s x"
proof -
  let ?bb = "boot_block s" and ?m0 = "memory s"
  let ?s1 = "copy_dentry (l_dentry L) i s"
  have blk: "blocks * 4096 \<le> 0x100000000" using fil(1) by (simp add: file_ok_def)
  have rd: "read_dentry_by_name (l_fname L) (l_dentry L) s = Some (0, ?s1)"
    using read_dentry_by_name_eq [OF str(1) nz(1)] str(2) found by (simp add: SUCCESS_def)
  have m1: "memory ?s1 = write_bytes ?m0 (l_dentry L) (read_bytes ?m0 (dentry_at ?bb i) 64)" "boot_block ?s1 = ?bb"
    by (simp_all add: copy_dentry_def)
  have out1: "memory ?s1 x = ?m0 x" if "\<not> in_region x (l_dentry L) 64" for x
    using that by (simp add: m1 write_bytes_outside)
  have same: "same_image ?m0 (memory ?s1) ?bb (blocks * 4096)" using out1 img(1) blk by (rule same_image_outside)
  note keep = same_file_ok [OF same fil(1)]
  have sz: "file_size (memory ?s1) ?bb ino = file_size ?m0 ?bb ino" by (rule keep(2))
  obtain r s2 where fr: "file_read (sint ino) (l_buf L) 4 (of_nat 0) ?s1 = (r, s2)" by fastforce
  have n4: "4 = min (nat 4) (file_size (memory ?s1) (boot_block ?s1) (word_of_int (sint ino)) - 0)" using fil(2) by (simp add: m1(2) sz)
  have dis: "disjoint_regions (l_buf L) (max 32 4) (boot_block ?s1) (blocks * 4096)" using img(2) by (simp add: m1(2))
  have ok1: "file_ok (memory ?s1) (boot_block ?s1) blocks (word_of_int (sint ino))" using keep(1) by (simp add: m1(2))
  note rdb = file_read_bytes [OF ok1 _ nz(2) _ _ n4 dis fr, simplified]
  obtain m where m: "s2 = s\<lparr>memory := m\<rparr>" using file_read_memory [OF fr] by (auto simp: copy_dentry_def)
  have out2: "m x = memory ?s1 x" if "\<not> in_region x (l_buf L) 32" for x using rdb(3) that m by simp
  have "read_bytes m (l_buf L) 4 = map (file_byte (memory ?s1) ?bb ino) [0..<4]" using rdb(2) m by (simp add: m1(2))
  also have "\<dots> = map (file_byte ?m0 ?bb ino) [0..<4]" using keep(3) fil(2) by (intro map_cong) auto
  finally have head: "read_bytes m (l_buf L) 4 = map (file_byte ?m0 ?bb ino) [0..<4]" .
  have "dentry_inode_num m (l_dentry L) = ino"
  proof -
    have "same_image (memory ?s1) m (l_dentry L) 64" using out2 de by (rule same_image_outside) simp_all
    then have "read32 m (l_dentry L + of_nat 36) = read32 (memory ?s1) (l_dentry L + of_nat 36)" by (rule same_image_read32) simp
    then show ?thesis using copied_dentry(2) [of "l_dentry L" i s] by (simp add: dentry_inode_num_def ino_def)
  qed
  then show ?thesis
    using that [of ?s1 m] rd fr m rdb(1) copied_dentry(2) [of "l_dentry L" i s] out1 out2 head by (simp add: BUFSIZE_def ino_def)
qed

lemma exec_check:
  fixes s :: "'a keyboard_scheme" and blocks :: nat and name :: "u8 list" and i :: nat and L :: locals
  defines "ino \<equiv> dentry_inode_num (memory s) (dentry_at (boot_block s) i)"
  assumes str: "cstr_at (memory s) (l_fname L) name" "name \<noteq> []" and found: "find_file (memory s) (boot_block s) name = Some i"
    and fil: "file_ok (memory s) (boot_block s) blocks ino" "28 \<le> file_size (memory s) (boot_block s) ino"
    and magic: "map (file_byte (memory s) (boot_block s) ino) [0..<4] = elf_magic" "read_bytes (memory s) (l_elf L) 4 = elf_magic"
    and nz: "l_dentry L \<noteq> 0" "l_buf L \<noteq> 0"
    and img: "disjoint_regions (l_dentry L) 64 (boot_block s) (blocks * 4096)" "disjoint_regions (l_buf L) 32 (boot_block s) (blocks * 4096)"
    and elf: "disjoint_regions (l_dentry L) 64 (l_elf L) 4" "disjoint_regions (l_buf L) 32 (l_elf L) 4"
    and de: "disjoint_regions (l_buf L) 32 (l_dentry L) 64"
  obtains s1 m where "read_dentry_by_name (l_fname L) (l_dentry L) s = Some (0, s1)"
    and "sint (dentry_inode_num (memory s1) (l_dentry L)) = sint ino"
    and "file_read (sint ino) (l_buf L) BUFSIZE 0 s1 = (4, s\<lparr>memory := m\<rparr>)"
    and "strncmp m (l_buf L) (l_elf L) (word_of_int BUFSIZE) = 0"
    and "dentry_inode_num m (l_dentry L) = ino"
    and "\<And>x. \<not> in_region x (l_dentry L) 64 \<Longrightarrow> \<not> in_region x (l_buf L) 32 \<Longrightarrow> m x = memory s x"
proof -
  obtain s1 m where h: "read_dentry_by_name (l_fname L) (l_dentry L) s = Some (0, s1)"
    "sint (dentry_inode_num (memory s1) (l_dentry L)) = sint ino" "file_read (sint ino) (l_buf L) BUFSIZE 0 s1 = (4, s\<lparr>memory := m\<rparr>)"
    "read_bytes m (l_buf L) 4 = elf_magic" "dentry_inode_num m (l_dentry L) = ino"
    and out: "\<And>x. \<not> in_region x (l_dentry L) 64 \<Longrightarrow> \<not> in_region x (l_buf L) 32 \<Longrightarrow> m x = memory s x"
    using read_header [OF str found fil [unfolded ino_def] nz img de] magic(1) unfolding ino_def by metis
  have "same_image (memory s) m (l_elf L) 4"
    unfolding same_image_def using out off_region [OF elf(1)] off_region [OF elf(2)] by simp
  then have "read_bytes m (l_elf L) 4 = elf_magic" using magic(2) by (simp add: same_image_bytes)
  then have "strncmp m (l_buf L) (l_elf L) (word_of_int BUFSIZE) = 0"
    using strncmp_equal_bytes [of m "l_buf L" 4 "l_elf L"] h(4) by (simp add: BUFSIZE_def)
  then show ?thesis using that h out by blast
qed

section \<open>Loading the program\<close>

lemma change_process_outside:
  assumes "disjoint_regions a n USER_PAGE 0x400000" "n \<le> 0x100000000"
  shows "same_image (memory s) (memory (change_process pid s)) a n"
proof (rule same_image_outside [OF _ _ assms(2)])
  show "disjoint_regions USER_PAGE 0x400000 a n" using assms(1) by (simp add: disjoint_regions_sym)
  show "\<And>x. \<not> in_region x USER_PAGE 0x400000 \<Longrightarrow> memory (change_process pid s) x = memory s x"
    by (simp add: memory_change_process in_user_page_def)
qed

lemma program_region:
  assumes "disjoint_regions a n USER_PAGE 0x400000" "0 < k" "k \<le> 0x3B8000"
  shows "disjoint_regions a n USR_START_ADDR k"
proof -
  have "USR_START_ADDR = USER_PAGE + of_nat 0x48000" by (simp add: USR_START_ADDR_def USER_PAGE_def)
  then show ?thesis using disjoint_subregion [OF assms(1), of "0x48000" k] assms(2,3) by simp
qed

lemma exec_load:
  fixes s :: "'a keyboard_scheme" and pid :: int and L :: locals and ino :: u32
  defines "sz0 \<equiv> file_size (memory s) (boot_block s) ino"
  assumes ok: "file_ok (memory s) (boot_block s) blocks ino" and sz: "sz0 \<le> 0x3B8000" "0 < sz0"
    and user: "disjoint_regions (boot_block s) (blocks * 4096) USER_PAGE 0x400000" "disjoint_regions (l_dentry L) 64 USER_PAGE 0x400000"
      "disjoint_regions (l_args L) 1024 USER_PAGE 0x400000" "disjoint_regions (pcb_of pid) 1024 USER_PAGE 0x400000"
    and ino: "dentry_inode_num (memory s) (l_dentry L) = ino"
    and arg: "cstr_at (memory s) (l_args L) xs" "length xs < 1024" "disjoint_regions (pcb_of pid) 1024 (l_args L) 1024"
  obtains m1 m where "dentry_inode_num (memory (change_process pid s)) (l_dentry L) = ino"
    and "load_program (sint ino) USR_START_ADDR (change_process pid s) = (0, (change_process pid s)\<lparr>memory := m1\<rparr>)"
    and "copy_until_nul (pcb_of pid) (l_args L) (zero_fill (pcb_of pid) ARGS_SIZE m1) 0 = Some (m, of_nat (length xs))"
    and "read_bytes m USR_START_ADDR sz0 = map (file_byte (memory s) (boot_block s) ino) [0..<sz0]"
    and "cstr_at m (pcb_of pid) xs"
proof -
  let ?c = "change_process pid s" and ?bb = "boot_block s"
  have bb: "boot_block ?c = ?bb" by (simp add: change_process_def flush_tlb_def load_cr3_def Let_def)
  have blk: "blocks * 4096 \<le> 0x100000000" using ok by (simp add: file_ok_def)
  have same: "same_image (memory s) (memory ?c) ?bb (blocks * 4096)" using user(1) blk by (rule change_process_outside)
  note keep = same_file_ok [OF same ok]
  have ino1: "dentry_inode_num (memory ?c) (l_dentry L) = ino"
    using same_image_read32 [OF change_process_outside [OF user(2), where s = s and pid = pid], of 36] ino by (simp add: dentry_inode_num_def)
  have max_sz: "max 32 sz0 \<le> 0x3B8000" "0 < max 32 sz0" using sz by auto
  have "disjoint_regions USR_START_ADDR (max 32 (file_size (memory ?c) (boot_block ?c) ino)) (boot_block ?c) (blocks * 4096)"
    using program_region [OF user(1) max_sz(2,1)] by (simp add: disjoint_regions_sym bb keep(2) sz0_def)
  then obtain s1 where s1: "load_program (sint ino) USR_START_ADDR ?c = (0, s1)"
    "read_bytes (memory s1) USR_START_ADDR (file_size (memory ?c) (boot_block ?c) ino) =
      map (file_byte (memory ?c) (boot_block ?c) ino) [0..<file_size (memory ?c) (boot_block ?c) ino]"
    "\<And>x. \<not> in_region x USR_START_ADDR (max 32 (file_size (memory ?c) (boot_block ?c) ino)) \<Longrightarrow> memory s1 x = memory ?c x"
    using load_program_eq [of ?c blocks "sint ino" USR_START_ADDR] keep(1) by (auto simp: bb USR_START_ADDR_def)
  obtain m1 where m1: "s1 = ?c\<lparr>memory := m1\<rparr>" using load_program_memory [OF s1(1)] by blast
  let ?mz = "write_bytes m1 (pcb_of pid) (replicate 1024 0)" and ?m = "write_bytes (write_bytes m1 (pcb_of pid) (replicate 1024 0)) (pcb_of pid) xs"
  have out1: "m1 x = memory ?c x" if "\<not> in_region x USR_START_ADDR (max 32 sz0)" for x
    using s1(3) that by (simp add: m1 bb keep(2) sz0_def)
  have argm: "same_image (memory s) ?mz (l_args L) 1024"
  proof -
    have "disjoint_regions USR_START_ADDR (max 32 sz0) (l_args L) 1024"
      using program_region [OF user(3) max_sz(2,1)] by (simp add: disjoint_regions_sym)
    then have "same_image (memory ?c) m1 (l_args L) 1024" using out1 by (intro same_image_outside) auto
    moreover have "same_image m1 ?mz (l_args L) 1024" by (rule same_image_write [OF arg(3)]) simp_all
    ultimately show ?thesis using change_process_outside [OF user(3), where s = s and pid = pid] by (auto intro: same_image_trans)
  qed
  have "copy_until_nul (pcb_of pid) (l_args L) ?mz 0 = Some (?m, of_nat (length xs))"
    using same_image_cstr [OF argm arg(2) arg(1)] disjoint_regions_prefix [OF arg(3)] arg(2) by (intro copy_until_nul_eq) simp_all
  moreover have "read_bytes ?m USR_START_ADDR sz0 = map (file_byte (memory s) ?bb ino) [0..<sz0]"
  proof -
    have d: "disjoint_regions USR_START_ADDR sz0 (pcb_of pid) 1024"
      using program_region [OF user(4) sz(2,1)] by (simp add: disjoint_regions_sym)
    have "read_bytes ?m USR_START_ADDR sz0 = read_bytes m1 USR_START_ADDR sz0"
      using read_bytes_write_disjoint [of USR_START_ADDR sz0 "pcb_of pid" xs ?mz] disjoint_regions_prefix [OF d, of sz0 "length xs"]
        read_bytes_write_disjoint [of USR_START_ADDR sz0 "pcb_of pid" "replicate 1024 0" m1] d arg(2) sz(1) by simp
    then show ?thesis using s1(2) keep(2,3) by (auto simp: m1 bb sz0_def intro!: nth_equalityI)
  qed
  moreover have "cstr_at ?m (pcb_of pid) xs"
    using arg by (intro cstr_atI) (auto simp: write_bytes_apply in_region_def unat_of_nat_u32 cstr_at_def)
  ultimately show ?thesis
    using that [of m1 ?m] ino1 s1(1) by (simp add: m1 zero_fill_def zero_loop ARGS_SIZE_def)
qed

section \<open>The whole call\<close>

fun all_disjoint :: "(u32 \<times> nat) list \<Rightarrow> bool" where
  "all_disjoint [] = True"
| "all_disjoint ((a, n) # rs) = (list_all (\<lambda>(b, k). disjoint_regions a n b k) rs \<and> all_disjoint rs)"

text \<open>
  Where things stand in memory: the local arrays of the call (of which \<open>file_read\<close> may clear 32
  bytes from \<open>buf\<close> on), the string literal, the file system image, the argument array of the
  new control block and the words below the stack pointer are disjoint from each other and
  from the user page.
\<close>

definition exec_blocks :: "locals \<Rightarrow> nat \<Rightarrow> int \<Rightarrow> 'a keyboard_scheme \<Rightarrow> (u32 \<times> nat) list" where
  "exec_blocks L blocks pid s =
     [(l_fname L, 32), (l_args L, 1024), (l_dentry L, 64), (l_buf L, 32), (l_elf L, 4), (boot_block s, blocks * 4096),
      (pcb_of pid, 1024), (esp s - 20, 20)]"

definition exec_layout :: "locals \<Rightarrow> nat \<Rightarrow> int \<Rightarrow> 'a keyboard_scheme \<Rightarrow> bool" where
  "exec_layout L blocks pid s \<longleftrightarrow> l_dentry L \<noteq> 0 \<and> l_buf L \<noteq> 0 \<and> read_bytes (memory s) (l_elf L) 4 = elf_magic \<and>
     all_disjoint (exec_blocks L blocks pid s) \<and>
     list_all (\<lambda>(a, n). disjoint_regions a n USER_PAGE 0x400000) (exec_blocks L blocks pid s)"

text \<open>The command names a program and its arguments are the string after the first blank (or after 33 bytes).\<close>

definition command_line :: "locals \<Rightarrow> u32 \<Rightarrow> u8 list \<Rightarrow> u8 list \<Rightarrow> 'a keyboard_scheme \<Rightarrow> bool" where
  "command_line L command name args s \<longleftrightarrow> command \<noteq> 0 \<and>
     name = takeWhile (\<lambda>c. c \<noteq> 0) (command_name (memory s) command) \<and> name \<noteq> [] \<and> length name < 32 \<and> length args < 1024 \<and>
     cstr_at (memory s) (command + of_nat (length (command_name (memory s) command) + 1)) args \<and>
     disjoint_regions (l_fname L) 32 command (34 + length args) \<and> disjoint_regions (l_args L) 1024 command (34 + length args)"

definition executable :: "nat \<Rightarrow> u32 \<Rightarrow> 'a keyboard_scheme \<Rightarrow> bool" where
  "executable blocks ino s \<longleftrightarrow> file_ok (memory s) (boot_block s) blocks ino \<and> 28 \<le> file_size (memory s) (boot_block s) ino \<and>
     file_size (memory s) (boot_block s) ino \<le> 0x3B8000 \<and> map (file_byte (memory s) (boot_block s) ino) [0..<4] = elf_magic"

lemma get_next_pid_memory [simp]: "get_next_pid (s\<lparr>memory := m\<rparr>) = get_next_pid s"
proof -
  have "next_pid_from (s\<lparr>memory := m\<rparr>) i = next_pid_from s i" for i
    by (induction s i rule: next_pid_from.induct) (subst (1 2) next_pid_from.simps, simp)
  then show ?thesis by (simp add: get_next_pid_def)
qed

lemma setup_pcb_memory [simp]: "memory (setup_pcb pid s) = memory s" "esp (setup_pcb pid s) = esp s"
  by (simp_all add: setup_pcb_def Let_def)

lemma execute_success:
  fixes s :: "'a keyboard_scheme" and L :: locals and i :: nat
  defines "ino \<equiv> dentry_inode_num (memory s) (dentry_at (boot_block s) i)"
  assumes pid: "get_next_pid s = pid" "pid < 6" and lay: "exec_layout L blocks pid s" and cmd: "command_line L command name args s"
    and found: "find_file (memory s) (boot_block s) name = Some i" and exe: "executable blocks ino s"
  obtains s0 where "execute L command s = Some (Enter_user (return_to_user pid (setup_pcb pid s0)))"
    and "esp s0 = esp s" "user_window s0 = Some (user_frame pid)" "process_array s0 = (process_array s)(pid := 1)"
    and "read_bytes (memory s0) USR_START_ADDR (file_size (memory s) (boot_block s) ino) =
      map (file_byte (memory s) (boot_block s) ino) [0..<file_size (memory s) (boot_block s) ino]"
    and "cstr_at (memory s0) (pcb_of pid) args"
proof -
  let ?m = "memory s" and ?bb = "boot_block s"
  define cb where "cb = command_name ?m command"
  define m2 where "m2 = zero_fill (l_args L) 1024 (zero_fill (l_fname L) 32 ?m)"
  define m3 where "m3 = write_bytes m2 (l_fname L) cb"
  define mA where "mA = write_bytes m3 (l_args L) (args @ [0])"
  note D = lay [unfolded exec_layout_def exec_blocks_def, simplified]
  note C = cmd [unfolded command_line_def, folded cb_def]
  note E = exe [unfolded executable_def]
  have blk: "blocks * 4096 \<le> 0x100000000" "4096 \<le> blocks * 4096" using E by (auto simp: file_ok_def)
  note parse = exec_parse [of "l_fname L" command args "l_args L" ?m, folded cb_def m2_def, folded m3_def, folded mA_def]
  have pA: "copy_command 32 0 (l_fname L) command m2 = (m3, length cb)"
    "copy_until_nul (l_args L) (command + of_nat (length cb + 1)) m3 0 = Some (write_bytes m3 (l_args L) args, of_nat (length args))"
    "(write_bytes m3 (l_args L) args)(l_args L + of_nat (length args) := 0) = mA" "cstr_at mA (l_fname L) name" "cstr_at mA (l_args L) args"
    using parse C D by auto
  have outA: "mA x = ?m x" if "\<not> in_region x (l_fname L) 32" "\<not> in_region x (l_args L) 1024" for x
    using parse(6) C D that by auto
  have keepA: "same_image ?m mA a n" if "disjoint_regions (l_fname L) 32 a n" "disjoint_regions (l_args L) 1024 a n" "n \<le> 0x100000000" for a n
    unfolding same_image_def using outA off_region [OF that(1)] off_region [OF that(2)] that(3) by simp
  have imgA: "same_image ?m mA ?bb (blocks * 4096)" using D blk by (intro keepA) auto
  note fA = same_file_ok [OF imgA conjunct1 [OF E]]
  have i: "i < 63" using found by (auto simp: find_file_def find_Some_iff)
  have inoA: "dentry_inode_num mA (dentry_at ?bb i) = ino"
  proof -
    have "read32 mA (?bb + of_nat (100 + 64 * i)) = read32 ?m (?bb + of_nat (100 + 64 * i))"
      using i blk by (intro same_image_read32 [OF imgA]) linarith
    then show ?thesis by (simp add: ino_def dentry_inode_num_def dentry_at_def algebra_simps)
  qed
  have foundA: "find_file mA ?bb name = Some i" using found find_file_image [OF same_image_prefix [OF imgA blk(2)]] by simp
  have "map (file_byte mA ?bb ino) [0..<4] = map (file_byte ?m ?bb ino) [0..<4]"
    by (rule map_cong) (use fA(3) E in auto)
  then have magA: "map (file_byte mA ?bb ino) [0..<4] = elf_magic" "read_bytes mA (l_elf L) 4 = elf_magic"
    using E keepA [of "l_elf L" 4] D by (auto simp: same_image_bytes)
  obtain s1 m where chk: "read_dentry_by_name (l_fname L) (l_dentry L) (s\<lparr>memory := mA\<rparr>) = Some (0, s1)"
    "sint (dentry_inode_num (memory s1) (l_dentry L)) = sint ino"
    "file_read (sint ino) (l_buf L) BUFSIZE 0 s1 = (4, s\<lparr>memory := m\<rparr>)"
    "strncmp m (l_buf L) (l_elf L) (word_of_int BUFSIZE) = 0" "dentry_inode_num m (l_dentry L) = ino"
    and outm: "\<And>x. \<not> in_region x (l_dentry L) 64 \<Longrightarrow> \<not> in_region x (l_buf L) 32 \<Longrightarrow> m x = mA x"
  proof (rule exec_check [of "s\<lparr>memory := mA\<rparr>" L name i blocks])
  qed (use pA(4) C foundA fA(1,2) E magA D inoA in \<open>auto simp: disjoint_regions_sym\<close>)
  have keepm: "same_image mA m a n" if "disjoint_regions (l_dentry L) 64 a n" "disjoint_regions (l_buf L) 32 a n" "n \<le> 0x100000000" for a n
    unfolding same_image_def using outm off_region [OF that(1)] off_region [OF that(2)] that(3) by simp
  have imgm: "same_image ?m m ?bb (blocks * 4096)" using imgA keepm [of ?bb "blocks * 4096"] D blk by (auto intro: same_image_trans)
  note fm = same_file_ok [OF imgm conjunct1 [OF E]]
  have argm: "cstr_at m (l_args L) args"
    using same_image_cstr [OF keepm [of "l_args L" 1024]] pA(5) C D by (auto simp: disjoint_regions_sym)
  obtain m1 m' where ld: "dentry_inode_num (memory (change_process pid (s\<lparr>memory := m\<rparr>))) (l_dentry L) = ino"
    "load_program (sint ino) USR_START_ADDR (change_process pid (s\<lparr>memory := m\<rparr>)) = (0, (change_process pid (s\<lparr>memory := m\<rparr>))\<lparr>memory := m1\<rparr>)"
    "copy_until_nul (pcb_of pid) (l_args L) (zero_fill (pcb_of pid) ARGS_SIZE m1) 0 = Some (m', of_nat (length args))"
    "read_bytes m' USR_START_ADDR (file_size m ?bb ino) = map (file_byte m ?bb ino) [0..<file_size m ?bb ino]" "cstr_at m' (pcb_of pid) args"
  proof (rule exec_load [of "s\<lparr>memory := m\<rparr>" blocks ino L pid args])
  qed (use fm(1,2) E D argm C chk(5) in \<open>auto simp: disjoint_regions_sym\<close>)
  let ?c = "change_process pid (s\<lparr>memory := m\<rparr>)"
  let ?s0 = "?c\<lparr>process_array := (process_array ?c)(pid := 1), terminal_array := (terminal_array ?c)(curr_terminal ?c := pid), memory := m'\<rparr>"
  have "execute L command s = Some (Enter_user (return_to_user pid (setup_pcb pid ?s0)))"
    using C pid pA(1-3) chk ld
    by (simp add: execute_def Let_def NAME_SIZE_def ARGS_SIZE_def MAX_OPEN_PROCESSES_def MAX_NAME_LENGTH_def m2_def)
  moreover have "map (file_byte m ?bb ino) [0..<file_size m ?bb ino] = map (file_byte ?m ?bb ino) [0..<file_size ?m ?bb ino]"
    using fm(2) by (intro map_cong) (auto simp: fm(3))
  ultimately show ?thesis using that [of ?s0] ld(4,5) fm(2) by simp
qed

section \<open>Main properties\<close>

lemma bytes32_at: "bytes32 (read32 m a) = read_bytes m a 4"
  by (simp add: bytes32_read32 read_bytes_def upt_rec)

lemma read_bytes_slice: "j + k \<le> n \<Longrightarrow> read_bytes m (a + of_nat j) k = take k (drop j (read_bytes m a n))"
proof (rule nth_equalityI)
  fix i assume "j + k \<le> n" "i < length (read_bytes m (a + of_nat j) k)"
  then show "read_bytes m (a + of_nat j) k ! i = take k (drop j (read_bytes m a n)) ! i" by (simp add: add.assoc)
qed simp

text \<open>
  C1: \<open>execute\<close> starts the program. When a process number is free, the command names an existing
  executable file (ELF magic, at least 28 bytes, small enough for the user page) and the
  areas the call uses do not overlap, the call succeeds: the processor enters user mode at the
  entry point stored in bytes 24 to 27 of the file, with the stack at the end of the user page;
  the page of the new process is the one mapped and holds the whole file at \<open>0x8048000\<close>; its
  control block holds the argument string; and its process number is taken.
\<close>
theorem execute_starts_program:
  assumes "get_next_pid s = pid" "pid < 6" "exec_layout L blocks pid s" "command_line L command name args s"
    and "find_file (memory s) (boot_block s) name = Some i" "ino = dentry_inode_num (memory s) (dentry_at (boot_block s) i)" "executable blocks ino s"
  shows "\<exists>s1. execute L command s = Some (Enter_user s1) \<and>
    bytes32 (eip s1) = map (file_byte (memory s) (boot_block s) ino) [24..<28] \<and> esp s1 = 0x83FFFFC \<and> cs s1 = USER_CS \<and>
    user_window s1 = Some (user_frame pid) \<and>
    read_bytes (memory s1) USR_START_ADDR (file_size (memory s) (boot_block s) ino) =
      map (file_byte (memory s) (boot_block s) ino) [0..<file_size (memory s) (boot_block s) ino] \<and>
    cstr_at (memory s1) (pcb_of pid) args \<and> process_array s1 = (process_array s)(pid := 1)"
proof -
  let ?n = "file_size (memory s) (boot_block s) ino" and ?f = "file_byte (memory s) (boot_block s) ino"
  obtain s0 where s0: "execute L command s = Some (Enter_user (return_to_user pid (setup_pcb pid s0)))" "esp s0 = esp s"
    "user_window s0 = Some (user_frame pid)" "process_array s0 = (process_array s)(pid := 1)"
    "read_bytes (memory s0) USR_START_ADDR ?n = map ?f [0..<?n]" "cstr_at (memory s0) (pcb_of pid) args"
    using execute_success [OF assms(1-5)] assms(6,7) by blast
  let ?s1 = "return_to_user pid (setup_pcb pid s0)"
  note fr = return_to_user_frame [where s = "setup_pcb pid s0" and p = pid]
  have sz: "28 \<le> ?n" "?n \<le> 0x3B8000" and xs: "length args < 1024" using assms(4,7) by (auto simp: executable_def command_line_def)
  have out: "memory ?s1 x = memory s0 x" if "\<not> in_region x (esp s - 20) 20" for x using fr(9) that s0(2) by simp
  have d: "disjoint_regions (esp s - 20) 20 USR_START_ADDR ?n" "disjoint_regions (esp s - 20) 20 (pcb_of pid) 1024"
    using assms(3) program_region [of "esp s - 20" 20 ?n] sz by (auto simp: exec_layout_def exec_blocks_def disjoint_regions_sym)
  have prog: "read_bytes (memory ?s1) USR_START_ADDR ?n = map ?f [0..<?n]"
    using same_image_bytes [OF same_image_outside [OF out d(1)]] sz(2) s0(5) by simp
  have arg: "cstr_at (memory ?s1) (pcb_of pid) args"
    using same_image_cstr [OF same_image_outside [OF out d(2)] xs s0(6)] by simp
  have "bytes32 (eip ?s1) = read_bytes (memory s0) (USR_START_ADDR + of_nat 24) 4"
    using fr(1) by (simp add: bytes32_at USR_START_ADDR_def)
  also have "\<dots> = take 4 (drop 24 (map ?f [0..<?n]))" using read_bytes_slice [of 24 4 ?n] sz(1) s0(5) by simp
  also have "\<dots> = map ?f [24..<28]" using sz(1) by (simp add: take_map drop_map)
  finally have eip: "bytes32 (eip ?s1) = map ?f [24..<28]" .
  have "user_window ?s1 = Some (user_frame pid)" "process_array ?s1 = (process_array s)(pid := 1)"
    using s0(3,4) by (simp_all add: setup_pcb_def Let_def)
  then show ?thesis using s0(1) eip fr(2,3) prog arg by blast
qed

text \<open>The concrete command line, in the user page of the calling process.\<close>

definition demo_exec :: keyboard where
  "demo_exec = demo_kernel [(0x8100000, [0x68, 0x69, 0x20, 0x78]), (0x402000, elf_magic)]"

lemma demo_exec_pid: "get_next_pid demo_exec = 2"
  by (simp add: get_next_pid_def demo_exec_def) (simp add: next_pid_from.simps MAX_OPEN_PROCESSES_def)

lemma demo_exec_layout: "exec_layout demo_locals 3 2 demo_exec"
  by (simp add: exec_layout_def exec_blocks_def demo_exec_def demo_locals_def disjoint_regions_def pcb_of_def proc_consts USER_PAGE_def
      read_bytes_def upt_rec mem_of_def elf_magic_def)

lemma demo_command_name: "command_name (memory demo_exec) 0x8100000 = [0x68, 0x69]"
  by (simp add: command_name_def demo_exec_def read_bytes_def upt_rec mem_of_Cons elf_magic_def)

lemma demo_command: "command_line demo_locals 0x8100000 [0x68, 0x69] [0x78] demo_exec"
  unfolding command_line_def demo_command_name
  by (simp add: demo_exec_def demo_locals_def disjoint_regions_def cstr_at_def read_bytes_def mem_of_Cons elf_magic_def)
    (simp add: mem_of_def demo_image_def demo_file_def)

lemma demo_exec_image: "same_image (mem_of demo_image) (memory demo_exec) 0x500000 (3 * 4096)"
  by (simp add: same_image_def demo_exec_def mem_of_Cons elf_magic_def word_less_nat_alt unat_sub_if' unat_word_ariths unat_of_nat_u32)

lemma demo_exec_found: "find_file (memory demo_exec) (boot_block demo_exec) [0x68, 0x69] = Some 0"
  and demo_exec_inode: "dentry_inode_num (memory demo_exec) (dentry_at (boot_block demo_exec) 0) = 0"
proof -
  show "find_file (memory demo_exec) (boot_block demo_exec) [0x68, 0x69] = Some 0"
    by (rule find_file_first) (simp add: demo_exec_def file_name_def read_bytes_def upt_rec dentry_at_def mem_of_def demo_image_def demo_file_def elf_magic_def)
  show "dentry_inode_num (memory demo_exec) (dentry_at (boot_block demo_exec) 0) = 0"
    by (simp add: demo_exec_def dentry_inode_num_def dentry_at_def read32_def mem_of_def demo_image_def demo_file_def elf_magic_def)
qed

lemma demo_executable: "executable 3 0 demo_exec"
proof -
  note keep = same_file_ok [OF demo_exec_image demo_file_ok]
  have "map (file_byte (memory demo_exec) 0x500000 0) [0..<4] = map (file_byte (mem_of demo_image) 0x500000 0) [0..<4]"
    by (rule map_cong) (auto simp: keep(3) demo_file_size)
  also have "\<dots> = take 4 (map (file_byte (mem_of demo_image) 0x500000 0) [0..<28])" by (simp add: take_map)
  also have "\<dots> = elf_magic" unfolding demo_file_bytes by (simp add: demo_file_def elf_magic_def)
  finally show ?thesis using keep(1,2) by (simp add: executable_def demo_file_size demo_exec_def)
qed

theorem execute_starts_program_witness:
  "\<exists>s1. execute demo_locals 0x8100000 demo_exec = Some (Enter_user s1) \<and> cs s1 = USER_CS \<and> cstr_at (memory s1) (pcb_of 2) [0x78]"
  using execute_starts_program [OF demo_exec_pid _ demo_exec_layout demo_command demo_exec_found demo_exec_inode [symmetric] demo_executable] by auto

text \<open>
  C19: a program gets its arguments. After a successful \<open>execute\<close> by a process, \<open>getargs\<close> of
  the new process (with a buffer outside its control block and a count that is large enough)
  returns 0 and leaves exactly the argument string of the command line in the buffer.
\<close>
theorem arguments_reach_program:
  assumes "get_next_pid s = pid" "pid < 6" "exec_layout L blocks pid s" "command_line L command name args s"
    and "find_file (memory s) (boot_block s) name = Some i" "executable blocks (dentry_inode_num (memory s) (dentry_at (boot_block s) i)) s"
    and "running_on p s" "buf \<noteq> 0" "disjoint_regions buf 1024 (pcb_of pid) 1024" "0 < nbytes" "int (length args) \<le> nbytes" "nbytes < 2 ^ 31"
  shows "\<exists>s1 s2. execute L command s = Some (Enter_user s1) \<and> getargs buf nbytes s1 = Some (0, s2) \<and> cstr_at (memory s2) buf args"
proof -
  obtain s1 where s1: "execute L command s = Some (Enter_user s1)" "cstr_at (memory s1) (pcb_of pid) args"
  proof -
    obtain s0 where s0: "execute L command s = Some (Enter_user (return_to_user pid (setup_pcb pid s0)))" "esp s0 = esp s"
      "cstr_at (memory s0) (pcb_of pid) args"
      using execute_success [OF assms(1-6)] by blast
    have "disjoint_regions (esp s - 20) 20 (pcb_of pid) 1024" "length args < 1024"
      using assms(3,4) by (auto simp: exec_layout_def exec_blocks_def command_line_def disjoint_regions_sym)
    then have "cstr_at (memory (return_to_user pid (setup_pcb pid s0))) (pcb_of pid) args"
      using same_image_cstr [OF same_image_outside _ s0(3), of "esp s - 20" 20] return_to_user_frame(9) [where s = "setup_pcb pid s0" and p = pid] s0(2)
      by simp
    then show thesis using that s0(1) by blast
  qed
  obtain s0 where s0: "s1 = return_to_user pid (setup_pcb pid s0)" "0 \<le> pid" "process_array s pid = 0" "pcbs s0 = pcbs s"
    "terminal_array s0 = (terminal_array s)(curr_terminal s := pid)" "curr_terminal s0 = curr_terminal s" "esp s0 = esp s"
    using execute_enters [OF s1(1)] assms(1) by metis
  have pc: "curr_pcb s0 = pcb_of p" "pcb_terminal (pcbs s0 (pcb_of p)) = curr_terminal s"
    using assms(7) s0(4,7) by (simp_all add: running_on_def curr_pcb_def)
  have "pcb_of p \<noteq> pcb_of pid" using assms(2,7) s0(2,3) pcb_of_inj [of p pid] by (auto simp: running_on_def valid_pid_def)
  then have pid: "curr_pid s1 = pid" using setup_pcb_frame(2,4) [of s0 pid] pc s0(5,6) by (simp add: s0(1) curr_pid_def)
  have len: "length args < 1024" using assms(4) by (simp add: command_line_def)
  have "disjoint_regions buf 1024 (pcb_of (curr_pid s1)) (Suc (length args))" using disjoint_regions_prefix [OF assms(9)] len pid by simp
  then have "getargs buf nbytes s1 = Some (0, s1\<lparr>memory := write_bytes (memory s1) buf (args @ replicate (1024 - length args) 0)\<rparr>)"
    using getargs_eq [of s1 args buf nbytes] s1(2) len assms(8,10-12) pid by (simp add: SUCCESS_def)
  moreover have "cstr_at (write_bytes (memory s1) buf (args @ replicate (1024 - length args) 0)) buf args"
    using s1(2) len by (intro cstr_atI) (auto simp: cstr_at_def write_bytes_apply in_region_def unat_of_nat_u32 nth_append)
  ultimately show ?thesis using s1(1) by auto
qed

lemma demo_running: "running_on 0 demo_exec"
  by (simp add: running_on_def demo_exec_def curr_pid_def valid_pid_def demo_pcb_def)

theorem arguments_reach_program_witness:
  "\<exists>s1 s2. execute demo_locals 0x8100000 demo_exec = Some (Enter_user s1) \<and> getargs 0x8200000 100 s1 = Some (0, s2) \<and>
     cstr_at (memory s2) 0x8200000 [0x78]"
proof -
  have "disjoint_regions 0x8200000 1024 (pcb_of 2) 1024" by (simp add: disjoint_regions_def pcb_of_def proc_consts)
  moreover have "executable 3 (dentry_inode_num (memory demo_exec) (dentry_at (boot_block demo_exec) 0)) demo_exec"
    using demo_executable by (simp add: demo_exec_inode)
  ultimately show ?thesis
    using arguments_reach_program [OF demo_exec_pid _ demo_exec_layout demo_command demo_exec_found _ demo_running] by simp
qed

text \<open>
  C2: a program runs and its parent continues. A process executes a program; whatever the program
  then does to memory and registers, as long as the kernel's tables are as \<open>execute\<close> left
  them when it halts on its own kernel stack, \<open>halt\<close> returns to the parent's frame in
  \<open>execute\<close>: the process and terminal tables are exactly as they were before, the parent is
  runnable again with its other bookkeeping unchanged, its page is mapped, its stack pointer
  is that of its call and the kernel stack for the next interrupt is its own.
\<close>
theorem execute_halt_round_trip:
  assumes "running_on p s" "execute L command s = Some (Enter_user s1)" "same_tables s1 s2" "curr_pcb s2 = pcb_of (curr_pid s2)"
  shows "\<exists>s3. halt L status s2 = Some (Resume 0 s3) \<and> curr_terminal s3 = curr_terminal s \<and> terminal_array s3 = terminal_array s \<and>
    process_array s3 = process_array s \<and> pcbs s3 (pcb_of p) = (pcbs s (pcb_of p))\<lparr>leaf := 1\<rparr> \<and>
    user_window s3 = Some (user_frame p) \<and> esp s3 = ebp s + 8 \<and> tss_esp0 s3 = pcb_of p + 0x1FFC"
  using execute_then_halt [OF assms] by blast

theorem execute_halt_round_trip_witness:
  "\<exists>s1 s3. execute demo_locals 0x8100000 demo_exec = Some (Enter_user s1) \<and>
     halt demo_locals 0 (s1\<lparr>esp := pcb_of (curr_pid s1) + 0x1F00\<rparr>) = Some (Resume 0 s3) \<and> process_array s3 = process_array demo_exec"
proof -
  obtain s0 where "execute demo_locals 0x8100000 demo_exec = Some (Enter_user (return_to_user 2 (setup_pcb 2 s0)))"
    using execute_success [OF demo_exec_pid _ demo_exec_layout demo_command demo_exec_found] demo_executable demo_exec_inode by auto
  then obtain s1 where s1: "execute demo_locals 0x8100000 demo_exec = Some (Enter_user s1)" by blast
  have v: "valid_pid (curr_pid s1)"
  proof -
    obtain s0 where s0: "s1 = return_to_user 2 (setup_pcb 2 s0)" "pcbs s0 = pcbs demo_exec" "terminal_array s0 = (terminal_array demo_exec)(curr_terminal demo_exec := 2)"
      "curr_terminal s0 = curr_terminal demo_exec" "esp s0 = esp demo_exec"
      using execute_enters [OF s1] demo_exec_pid by metis
    have "curr_pcb s0 \<noteq> pcb_of 2" using s0(5) by (simp add: curr_pcb_def demo_exec_def pcb_of_def proc_consts)
    then show ?thesis
      using setup_pcb_frame(2,4) [of s0 2] s0(2-4) by (simp add: s0(1) curr_pid_def valid_pid_def demo_exec_def)
  qed
  let ?s2 = "s1\<lparr>esp := pcb_of (curr_pid s1) + 0x1F00\<rparr>"
  have "in_region (pcb_of (curr_pid s1) + 0x1F00) (pcb_of (curr_pid s1)) 0x2000" by (simp add: in_region_def)
  then have "curr_pcb ?s2 = pcb_of (curr_pid ?s2)" using esp_mask_pcb [OF v] by (simp add: curr_pcb_def curr_pid_def)
  moreover have "same_tables s1 ?s2" by (simp add: same_tables_def)
  ultimately show ?thesis using execute_halt_round_trip [OF demo_running s1] s1 by metis
qed

text \<open>
  C37: a failing \<open>execute\<close> starts nothing. When the call comes back to its caller it returns -1,
  and no control block, process slot, terminal slot or stack register has changed.
\<close>
theorem execute_failure_starts_nothing:
  assumes "execute L command s = Some (Return r s')"
  shows "r = -1 \<and> pcbs s' = pcbs s \<and> process_array s' = process_array s \<and> terminal_array s' = terminal_array s \<and>
    curr_terminal s' = curr_terminal s \<and> esp s' = esp s \<and> ebp s' = ebp s"
proof -
  show ?thesis
    using assms
    by (auto simp: execute_def Let_def bind_eq_Some_conv FAILURE_def split: if_splits prod.splits
        dest!: read_dentry_memory file_read_memory load_program_memory)
qed

theorem execute_failure_starts_nothing_witness:
  "\<exists>s'. execute demo_locals 0 demo_exec = Some (Return (-1) s') \<and> process_array s' = process_array demo_exec"
proof -
  obtain s' where "execute demo_locals 0 demo_exec = Some (Return (-1) s')" by (simp add: execute_def Let_def FAILURE_def)
  then show ?thesis using execute_failure_starts_nothing by blast
qed

end
