(* ===== verification/Shells.thy ===== *)
theory Shells
  imports Execute
begin

text \<open>
  Starting the three base shells. \<open>execute_shells\<close> loads the same program into the pages of
  processes 0, 1 and 2, prepares the kernel stacks of 1 and 2 so that the timer interrupt can
  switch to them, and enters process 0.
\<close>

section \<open>The first frame only touches the top of the stack\<close>

lemma write32_outside: "\<not> in_region x a 4 \<Longrightarrow> write32 m a v x = m x"
  by (simp add: write32_def write_bytes_outside)

lemma first_frame_outside:
  assumes "\<not> in_region x (tss_esp0 s - 64) 64"
  shows "memory (first_frame ret_addr EIP s) x = memory s x"
proof -
  have off: "\<not> in_region x (tss_esp0 s - 64 + of_nat j) 4" if "j + 4 \<le> 64" for j
  proof
    assume "in_region x (tss_esp0 s - 64 + of_nat j) 4"
    then obtain i where "i < 4" "x = tss_esp0 s - 64 + of_nat (j + i)" by (auto elim!: in_regionE simp: add.assoc)
    then show False using assms in_region_offset [of "j + i" 64 "tss_esp0 s - 64"] that by simp
  qed
  show ?thesis
    using off [of 0] off [of 4] off [of 8] off [of 12] off [of 16] off [of 20] off [of 24] off [of 28] off [of 32] off [of 36]
      off [of 40] off [of 44] off [of 48] off [of 52] off [of 56] off [of 60]
    by (simp add: first_frame_def Let_def nine_pushes write32_outside)
qed

lemma first_frame_memory: "first_frame ret_addr EIP s = s\<lparr>memory := memory (first_frame ret_addr EIP s)\<rparr>"
  by (simp add: first_frame_def Let_def nine_pushes push32_def)

section \<open>One shell\<close>

definition shell_pcb :: "int \<Rightarrow> pcb_t \<Rightarrow> pcb_t" where
  "shell_pcb i b = b\<lparr>file_array := initial_fds (\<lambda>k. if i < 2 then 1 else 0), pcb_pid := i, leaf := 1, pcb_terminal := i,
     parent_pid := -1, saved_ebp := pcb_of i + 0x1FBC, saved_esp := pcb_of i + 0x1FBC\<rparr>"

definition shell_state :: "int \<Rightarrow> mem \<Rightarrow> 'a keyboard_scheme \<Rightarrow> 'a keyboard_scheme" where
  "shell_state i m s = (change_process i s)\<lparr>memory := m, terminal_array := (terminal_array s)(i := i),
     process_array := (process_array s)(i := 1), pcbs := (pcbs s)(pcb_of i := shell_pcb i (pcbs s (pcb_of i))),
     tss_esp0 := pcb_of i + 0x1FFC, tss_ss0 := KERNEL_DS\<rparr>"

lemma change_process_of_tables:
  "change_process i (s\<lparr>terminal_array := t\<rparr>) = (change_process i s)\<lparr>terminal_array := t\<rparr>"
  "change_process i (s\<lparr>process_array := p\<rparr>) = (change_process i s)\<lparr>process_array := p\<rparr>"
  for s :: "'a keyboard_scheme"
  by (rule keyboard.equality; simp add: change_process_def flush_tlb_def load_cr3_def park_frames_def Let_def cong: option.case_cong if_cong)+

lemma user_program_region: "in_region x USR_START_ADDR k \<Longrightarrow> k \<le> 0x3B8000 \<Longrightarrow> in_user_page x"
proof -
  assume "in_region x USR_START_ADDR k" "k \<le> 0x3B8000"
  then obtain i where i: "i < 0x3B8000" "x = USR_START_ADDR + of_nat i" 
    by (meson in_regionE order_less_le_trans)
  then have "x = USER_PAGE + of_nat (0x48000 + i)" by (simp add: USR_START_ADDR_def USER_PAGE_def)
  then show ?thesis using i(1) in_region_offset [of "0x48000 + i" "0x400000" USER_PAGE] by (simp only: in_user_page_def) simp
qed

lemma setup_shell_success:
  fixes s :: "'a keyboard_scheme" and i :: int and ino :: u32
  defines "sz \<equiv> file_size (memory s) (boot_block s) ino"
  assumes ok: "file_ok (memory s) (boot_block s) blocks ino" and sz: "0 < sz" "sz \<le> 0x3B8000"
    and user: "disjoint_regions (boot_block s) (blocks * 4096) USER_PAGE 0x400000" "disjoint_regions (l_dentry L) 64 USER_PAGE 0x400000"
      "disjoint_regions (pcb_of i + 0x1FBC) 64 USER_PAGE 0x400000"
    and ino: "dentry_inode_num (memory s) (l_dentry L) = ino"
  obtains m fl where "setup_shell ret_addr L i s = (True, shell_state i m s)"
    and "\<And>x. \<not> in_user_page x \<Longrightarrow> i = 0 \<or> \<not> in_region x (pcb_of i + 0x1FBC) 64 \<Longrightarrow> m x = memory s x"
    and "read_bytes m USR_START_ADDR sz = map (file_byte (memory s) (boot_block s) ino) [0..<sz]"
    and "i \<noteq> 0 \<Longrightarrow> read_words m (pcb_of i + 0x1FBC) 16 =
      frame_words (pcb_of i + 0x1FFC) ret_addr (read32 m (USR_START_ADDR + ADDR_DIST_EIP)) fl"
proof -
  let ?c = "change_process i s" and ?bb = "boot_block s"
  let ?t = "(terminal_array s)(i := i)" and ?p = "(process_array s)(i := 1)"
  have bb: "boot_block ?c = ?bb" by (simp add: change_process_def flush_tlb_def load_cr3_def Let_def)
  have blk: "blocks * 4096 \<le> 0x100000000" using ok by (simp add: file_ok_def)
  have same: "same_image (memory s) (memory ?c) ?bb (blocks * 4096)" using user(1) blk by (rule change_process_outside)
  note keep = same_file_ok [OF same ok]
  have ino1: "dentry_inode_num (memory ?c) (l_dentry L) = ino"
    using same_image_read32 [OF change_process_outside [OF user(2), where s = s and pid = i], of 36] ino by (simp add: dentry_inode_num_def)
  have "disjoint_regions USR_START_ADDR (max 32 sz) ?bb (blocks * 4096)"
    using program_region [OF user(1), of "max 32 sz"] sz by (simp add: disjoint_regions_sym)
  then obtain s1 where ld: "load_program (sint ino) USR_START_ADDR (?c\<lparr>terminal_array := ?t, process_array := ?p\<rparr>) = (0, s1)"
    and rd: "read_bytes (memory s1) USR_START_ADDR sz = map (file_byte (memory ?c) ?bb ino) [0..<sz]"
    and out: "\<And>x. \<not> in_region x USR_START_ADDR (max 32 sz) \<Longrightarrow> memory s1 x = memory ?c x"
    using load_program_eq [of "?c\<lparr>terminal_array := ?t, process_array := ?p\<rparr>" blocks "sint ino" USR_START_ADDR] keep(1,2)
    by (auto simp: bb USR_START_ADDR_def sz_def)
  obtain m1 where m1: "s1 = ?c\<lparr>terminal_array := ?t, process_array := ?p, memory := m1\<rparr>" using load_program_memory [OF ld] by auto
  define E where "E = read32 m1 (USR_START_ADDR + ADDR_DIST_EIP)"
  define s2 where "s2 = (update_pcb (pcb_of i) (\<lambda>p. p\<lparr>file_array := initial_fds (\<lambda>k. if i < int STD_FILES then 1 else 0),
      pcb_pid := i, leaf := 1, pcb_terminal := i, parent_pid := -1\<rparr>) s1)\<lparr>tss_esp0 := pcb_of i + 0x1FFC, tss_ss0 := KERNEL_DS\<rparr>"
  define m where "m = (if i \<noteq> 0 then memory (first_frame ret_addr E s2) else m1)"
  have c: "K_MEM_END - word_of_int i * K_STACK_SIZE - WORD_SIZE = pcb_of i + 0x1FFC"
      "K_MEM_END - word_of_int i * K_STACK_SIZE - PUSHED_REGS_SIZE = pcb_of i + 0x1FBC"
    by (simp_all add: pcb_of_def proc_consts PUSHED_REGS_SIZE_def algebra_simps)
  have top: "tss_esp0 s2 = pcb_of i + 0x1FFC" "memory s2 = m1" by (simp_all add: s2_def m1)
  have base: "tss_esp0 s2 - 64 = pcb_of i + 0x1FBC" by (simp add: top)
  have ff: "(if i \<noteq> 0 then first_frame ret_addr E s2 else s2) = s2\<lparr>memory := m\<rparr>"
    using first_frame_memory [of ret_addr E s2] top(2) by (auto simp: m_def)
  have "setup_shell ret_addr L i s = (True, update_pcb (pcb_of i) (\<lambda>p. p\<lparr>saved_ebp := pcb_of i + 0x1FBC, saved_esp := pcb_of i + 0x1FBC\<rparr>)
      (if i \<noteq> 0 then first_frame ret_addr E s2 else s2))"
    using ld ino1 unfolding setup_shell_def Let_def c change_process_of_tables by (simp add: E_def s2_def m1)
  also have "\<dots> = (True, shell_state i m s)"
    unfolding ff by (simp add: s2_def m1 shell_state_def shell_pcb_def update_pcb_def STD_FILES_def) 
  finally have run: "setup_shell ret_addr L i s = (True, shell_state i m s)" .
  have outf: "m x = m1 x" if "i = 0 \<or> \<not> in_region x (pcb_of i + 0x1FBC) 64" for x
    using that first_frame_outside [of x s2 ret_addr E, unfolded base] top(2) by (auto simp: m_def)
  have frame_prog: "same_image m1 m USR_START_ADDR (max 32 sz)"
    using program_region [OF user(3), of "max 32 sz"] sz outf by (intro same_image_outside [of "pcb_of i + 0x1FBC" 64]) auto
  have "m x = memory s x" if "\<not> in_user_page x" "i = 0 \<or> \<not> in_region x (pcb_of i + 0x1FBC) 64" for x
  proof -
    have "\<not> in_region x USR_START_ADDR (max 32 sz)"
      using that(1) user_program_region [of x "max 32 sz"] sz by auto
    then show ?thesis using outf [OF that(2)] out that(1) m1 by (simp add: memory_change_process)
  qed
  moreover have "read_bytes m USR_START_ADDR sz = map (file_byte (memory s) ?bb ino) [0..<sz]"
    using same_image_bytes [OF same_image_prefix [OF frame_prog, of sz]] rd m1 keep(3) by (auto simp: sz_def)
  moreover have "read_words m (pcb_of i + 0x1FBC) 16 = frame_words (pcb_of i + 0x1FFC) ret_addr (read32 m (USR_START_ADDR + ADDR_DIST_EIP)) (eflags_image s2)"
    if "i \<noteq> 0"
  proof -
    have "read32 m (USR_START_ADDR + of_nat 24) = read32 m1 (USR_START_ADDR + of_nat 24)"
      by (rule same_image_read32 [OF frame_prog]) simp
    then show ?thesis
      using first_frame_words [of ret_addr E s2, unfolded base] that top by (simp add: m_def E_def ADDR_DIST_EIP_def)
  qed
  ultimately show ?thesis using run that by blast
qed

lemma shell_state_sel [simp]:
  "memory (shell_state i m s) = m" "terminal_array (shell_state i m s) = (terminal_array s)(i := i)"
  "process_array (shell_state i m s) = (process_array s)(i := 1)" "boot_block (shell_state i m s) = boot_block s"
  "pcbs (shell_state i m s) = (pcbs s)(pcb_of i := shell_pcb i (pcbs s (pcb_of i)))" "esp (shell_state i m s) = esp s"
  "user_window (shell_state i m s) = Some (user_frame i)" "curr_terminal (shell_state i m s) = curr_terminal s"
  "frames (shell_state i m s) = park_frames s"
  by (simp_all add: shell_state_def) (simp add: change_process_def flush_tlb_def load_cr3_def Let_def)

lemma shell_state_content:
  assumes "valid_pid i" "valid_pid q"
  shows "user_content q (shell_state i m s) = (if q = i then (\<lambda>a. if in_user_page a then m a else 0) else user_content q s)"
  using user_frame_inj [OF assms] by (auto simp: user_content_def fun_eq_iff park_frames_def [of "shell_state i m s"])

section \<open>All three\<close>

text \<open>The program to load: the file of the found entry, with its contents.\<close>

definition loadable :: "locals \<Rightarrow> nat \<Rightarrow> u32 \<Rightarrow> u8 list \<Rightarrow> 'a keyboard_scheme \<Rightarrow> bool" where
  "loadable L blocks ino f s \<longleftrightarrow> file_ok (memory s) (boot_block s) blocks ino \<and> dentry_inode_num (memory s) (l_dentry L) = ino \<and>
     map (file_byte (memory s) (boot_block s) ino) [0..<file_size (memory s) (boot_block s) ino] = f"

definition shells_blocks :: "locals \<Rightarrow> nat \<Rightarrow> 'a keyboard_scheme \<Rightarrow> (u32 \<times> nat) list" where
  "shells_blocks L blocks s =
     [(l_fname L, 6), (l_dentry L, 64), (l_buf L, 32), (boot_block s, blocks * 4096), (pcb_of 1 + 0x1FBC, 64), (pcb_of 2 + 0x1FBC, 64),
      (esp s - 20, 20)]"

definition shells_layout :: "locals \<Rightarrow> nat \<Rightarrow> 'a keyboard_scheme \<Rightarrow> bool" where
  "shells_layout L blocks s \<longleftrightarrow> l_dentry L \<noteq> 0 \<and> l_buf L \<noteq> 0 \<and> all_disjoint (shells_blocks L blocks s) \<and>
     list_all (\<lambda>(a, n). disjoint_regions a n USER_PAGE 0x400000) (shells_blocks L blocks s)"

lemma outside_user_page: "disjoint_regions a n USER_PAGE 0x400000 \<Longrightarrow> j < n \<Longrightarrow> n \<le> 0x100000000 \<Longrightarrow> \<not> in_user_page (a + of_nat j)"
  using disjoint_regionsD [of a n USER_PAGE "0x400000"] in_region_offset [of j n a] by (auto simp: in_user_page_def)

lemma loadable_keeps:
  assumes ld: "loadable L blocks ino f s" and bb: "boot_block s' = boot_block s"
    and img: "same_image (memory s) (memory s') (boot_block s) (blocks * 4096)" and den: "same_image (memory s) (memory s') (l_dentry L) 64"
  shows "loadable L blocks ino f s'"
proof -
  have ok: "file_ok (memory s) (boot_block s) blocks ino" using ld by (simp add: loadable_def)
  note keep = same_file_ok [OF img ok]
  have "dentry_inode_num (memory s') (l_dentry L) = dentry_inode_num (memory s) (l_dentry L)"
    using same_image_read32 [OF den, of 36] by (simp add: dentry_inode_num_def)
  moreover have "map (file_byte (memory s') (boot_block s) ino) [0..<file_size (memory s) (boot_block s) ino] =
      map (file_byte (memory s) (boot_block s) ino) [0..<file_size (memory s) (boot_block s) ino]"
    using keep(3) by (intro map_cong) auto
  ultimately show ?thesis using ld keep(1,2) bb by (simp add: loadable_def del: map_eq_conv)
qed

lemma read_words_image:
  assumes "same_image m m' a 64"
  shows "read_words m' a 16 = read_words m a 16"
  unfolding read_words_def
proof (rule map_cong)
  fix k assume "k \<in> set [0..<16]"
  then show "read32 m' (a + of_nat (4 * k)) = read32 m (a + of_nat (4 * k))" by (intro same_image_read32 [OF assms]) simp
qed simp

definition frame_ready :: "u32 \<Rightarrow> u8 list \<Rightarrow> int \<Rightarrow> mem \<Rightarrow> bool" where
  "frame_ready ret_addr f i m \<longleftrightarrow> (\<exists>EIP fl. bytes32 EIP = take 4 (drop 24 f) \<and>
     read_words m (pcb_of i + 0x1FBC) 16 = frame_words (pcb_of i + 0x1FFC) ret_addr EIP fl)"

lemma frame_ready_image: "frame_ready ret_addr f i m \<Longrightarrow> same_image m m' (pcb_of i + 0x1FBC) 64 \<Longrightarrow> frame_ready ret_addr f i m'"
  using read_words_image [of m m' "pcb_of i + 0x1FBC"] by (simp add: frame_ready_def)

lemma setup_shell_loadable:
  fixes s :: "'a keyboard_scheme"
  assumes ld: "loadable L blocks ino f s" and f: "28 \<le> length f" "length f \<le> 0x3B8000"
    and user: "disjoint_regions (boot_block s) (blocks * 4096) USER_PAGE 0x400000" "disjoint_regions (l_dentry L) 64 USER_PAGE 0x400000"
      "disjoint_regions (pcb_of i + 0x1FBC) 64 USER_PAGE 0x400000"
    and stk: "i = 0 \<or> disjoint_regions (boot_block s) (blocks * 4096) (pcb_of i + 0x1FBC) 64 \<and> disjoint_regions (l_dentry L) 64 (pcb_of i + 0x1FBC) 64"
  obtains m where "setup_shell ret_addr L i s = (True, shell_state i m s)" "loadable L blocks ino f (shell_state i m s)"
    and "\<And>x. \<not> in_user_page x \<Longrightarrow> i = 0 \<or> \<not> in_region x (pcb_of i + 0x1FBC) 64 \<Longrightarrow> m x = memory s x"
    and "read_bytes m USR_START_ADDR (length f) = f" "bytes32 (read32 m (USR_START_ADDR + ADDR_DIST_EIP)) = take 4 (drop 24 f)"
    and "i \<noteq> 0 \<Longrightarrow> frame_ready ret_addr f i m"
proof -
  have ok: "file_ok (memory s) (boot_block s) blocks ino" and ino: "dentry_inode_num (memory s) (l_dentry L) = ino"
    and cont: "map (file_byte (memory s) (boot_block s) ino) [0..<file_size (memory s) (boot_block s) ino] = f"
    and len: "length f = file_size (memory s) (boot_block s) ino"
    using ld by (auto simp: loadable_def)
  have blk: "blocks * 4096 \<le> 0x100000000" using ok by (simp add: file_ok_def)
  obtain m fl where m: "setup_shell ret_addr L i s = (True, shell_state i m s)"
    "\<And>x. \<not> in_user_page x \<Longrightarrow> i = 0 \<or> \<not> in_region x (pcb_of i + 0x1FBC) 64 \<Longrightarrow> m x = memory s x"
    "read_bytes m USR_START_ADDR (length f) = f"
    "i \<noteq> 0 \<Longrightarrow> read_words m (pcb_of i + 0x1FBC) 16 = frame_words (pcb_of i + 0x1FFC) ret_addr (read32 m (USR_START_ADDR + ADDR_DIST_EIP)) fl"
    using setup_shell_success [OF ok _ _ user ino, of ret_addr] f cont len by auto
  have keep: "same_image (memory s) m a n"
    if "disjoint_regions a n USER_PAGE 0x400000" "i = 0 \<or> disjoint_regions a n (pcb_of i + 0x1FBC) 64" "n \<le> 0x100000000" for a n
    using that outside_user_page [OF that(1)] disjoint_regionsD [of a n "pcb_of i + 0x1FBC" 64] in_region_offset [of _ n a]
    by (auto simp: same_image_def intro!: m(2))
  have "loadable L blocks ino f (shell_state i m s)"
    using loadable_keeps [OF ld, of "shell_state i m s"] keep [OF user(1)] keep [OF user(2)] stk blk by auto
  moreover have "bytes32 (read32 m (USR_START_ADDR + ADDR_DIST_EIP)) = take 4 (drop 24 f)"
    using read_bytes_slice [of 24 4 "length f" m USR_START_ADDR] f m(3) by (simp add: bytes32_at ADDR_DIST_EIP_def)
  moreover from this have "frame_ready ret_addr f i m" if "i \<noteq> 0" using m(4) that unfolding frame_ready_def by blast
  ultimately show ?thesis using that m(1-3) by blast
qed

lemma stacks_apart:
  "disjoint_regions (pcb_of 0 + 0x1FBC) 64 USER_PAGE 0x400000" "disjoint_regions (pcb_of 1 + 0x1FBC) 64 USER_PAGE 0x400000"
  "disjoint_regions (pcb_of 2 + 0x1FBC) 64 USER_PAGE 0x400000" "disjoint_regions (pcb_of 2 + 0x1FBC) 64 (pcb_of 1 + 0x1FBC) 64"
  by (simp_all add: disjoint_regions_def pcb_of_def proc_consts USER_PAGE_def)

lemma content_program:
  assumes "read_bytes m USR_START_ADDR n = f" "n \<le> 0x3B8000"
  shows "read_bytes (\<lambda>a. if in_user_page a then m a else 0) USR_START_ADDR n = f"
proof -
  have "in_user_page (USR_START_ADDR + of_nat i)" if "i < n" for i
    using user_program_region [of "USR_START_ADDR + of_nat i" n] in_region_offset [of i n USR_START_ADDR] that assms(2) by simp
  then show ?thesis using assms(1) by (auto simp: read_bytes_def)
qed

lemma setup_shells_all:
  fixes s :: "'a keyboard_scheme"
  assumes ld: "loadable L blocks ino f s" and f: "28 \<le> length f" "length f \<le> 0x3B8000" and lay: "shells_layout L blocks s"
  obtains m2 m1 m0 where "setup_shells ret_addr L [2, 1, 0] s = (True, shell_state 0 m0 (shell_state 1 m1 (shell_state 2 m2 s)))"
    and "frame_ready ret_addr f 1 m0" "frame_ready ret_addr f 2 m0"
    and "read_bytes m2 USR_START_ADDR (length f) = f" "read_bytes m1 USR_START_ADDR (length f) = f" "read_bytes m0 USR_START_ADDR (length f) = f"
    and "bytes32 (read32 m0 (USR_START_ADDR + ADDR_DIST_EIP)) = take 4 (drop 24 f)"
proof -
  note D = lay [unfolded shells_layout_def shells_blocks_def, simplified]
  have stk: "i = 0 \<or> disjoint_regions (boot_block s) (blocks * 4096) (pcb_of i + 0x1FBC) 64 \<and> disjoint_regions (l_dentry L) 64 (pcb_of i + 0x1FBC) 64"
    if "i \<in> {0, 1, 2}" for i
    using D that by auto
  have u: "disjoint_regions (boot_block s) (blocks * 4096) USER_PAGE 0x400000" "disjoint_regions (l_dentry L) 64 USER_PAGE 0x400000"
    using D by auto
  obtain m2 where 2: "setup_shell ret_addr L 2 s = (True, shell_state 2 m2 s)" "loadable L blocks ino f (shell_state 2 m2 s)"
    "read_bytes m2 USR_START_ADDR (length f) = f" "frame_ready ret_addr f 2 m2"
    using setup_shell_loadable [OF ld f u stacks_apart(3) stk, of ret_addr] by auto
  let ?s2 = "shell_state 2 m2 s"
  obtain m1 where 1: "setup_shell ret_addr L 1 ?s2 = (True, shell_state 1 m1 ?s2)" "loadable L blocks ino f (shell_state 1 m1 ?s2)"
    "read_bytes m1 USR_START_ADDR (length f) = f" "frame_ready ret_addr f 1 m1"
    "\<And>x. \<not> in_user_page x \<Longrightarrow> \<not> in_region x (pcb_of 1 + 0x1FBC) 64 \<Longrightarrow> m1 x = m2 x"
    using setup_shell_loadable [OF 2(2) f _ _ stacks_apart(2), of ret_addr] u stk [of 1] by auto
  let ?s1 = "shell_state 1 m1 ?s2"
  obtain m0 where 0: "setup_shell ret_addr L 0 ?s1 = (True, shell_state 0 m0 ?s1)"
    "read_bytes m0 USR_START_ADDR (length f) = f" "bytes32 (read32 m0 (USR_START_ADDR + ADDR_DIST_EIP)) = take 4 (drop 24 f)"
    "\<And>x. \<not> in_user_page x \<Longrightarrow> m0 x = m1 x"
    using setup_shell_loadable [OF 1(2) f _ _ stacks_apart(1), of ret_addr] u by auto
  have out: "\<not> in_user_page (pcb_of i + 0x1FBC + of_nat j)" if "i \<in> {1, 2}" "j < 64" for i j
    using that outside_user_page [OF stacks_apart(2), of j] outside_user_page [OF stacks_apart(3), of j] by auto
  have same1: "same_image m1 m0 (pcb_of i + 0x1FBC) 64" if "i \<in> {1, 2}" for i
    using out [OF that] 0(4) by (simp add: same_image_def)
  have "same_image m2 m1 (pcb_of 2 + 0x1FBC) 64"
    using out [of 2] 1(5) disjoint_regionsD [OF stacks_apart(4)] in_region_offset [of _ 64 "pcb_of 2 + 0x1FBC"] by (auto simp: same_image_def)
  then have "frame_ready ret_addr f 2 m0" "frame_ready ret_addr f 1 m0"
    using frame_ready_image 1(4) 2(4) same1 by blast+
  then show ?thesis using that 0 1 2 by simp
qed

section \<open>The whole call\<close>

definition shell_file :: "u8 list" where
  "shell_file = [0x73, 0x68, 0x65, 0x6C, 0x6C]"

lemma shell_name_string: "cstr_at (write_bytes m a shell_name) a shell_file"
  using cstr_at_written [of shell_file m a] by (simp add: shell_file_def shell_name_def)

lemma execute_shells_runs:
  fixes s :: "'a keyboard_scheme" and ino :: u32 and i :: nat
  defines "ino \<equiv> dentry_inode_num (memory s) (dentry_at (boot_block s) i)"
  assumes found: "find_file (memory s) (boot_block s) shell_file = Some i"
    and ok: "file_ok (memory s) (boot_block s) blocks ino"
    and f: "f = map (file_byte (memory s) (boot_block s) ino) [0..<file_size (memory s) (boot_block s) ino]" "28 \<le> length f" "length f \<le> 0x3B8000"
    and lay: "shells_layout L blocks s"
  obtains m m2 m1 m0 where "execute_shells ret_addr L s = Some (Enter_user (return_to_user 0
      (sti ((shell_state 0 m0 (shell_state 1 m1 (shell_state 2 m2 (s\<lparr>memory := m\<rparr>))))\<lparr>curr_terminal := 0\<rparr>))))"
    and "frame_ready ret_addr f 1 m0" "frame_ready ret_addr f 2 m0"
    and "read_bytes m2 USR_START_ADDR (length f) = f" "read_bytes m1 USR_START_ADDR (length f) = f" "read_bytes m0 USR_START_ADDR (length f) = f"
    and "bytes32 (read32 m0 (USR_START_ADDR + ADDR_DIST_EIP)) = take 4 (drop 24 f)"
proof -
  let ?m = "memory s" and ?bb = "boot_block s" and ?mA = "write_bytes (memory s) (l_fname L) shell_name"
  note D = lay [unfolded shells_layout_def shells_blocks_def, simplified]
  have blk: "blocks * 4096 \<le> 0x100000000" "4096 \<le> blocks * 4096" using ok by (auto simp: file_ok_def)
  have imgA: "same_image ?m ?mA ?bb (blocks * 4096)"
    using D blk by (intro same_image_write [of _ 6]) (auto simp: shell_name_def)
  note fA = same_file_ok [OF imgA ok]
  have i: "i < 63" using found by (auto simp: find_file_def find_Some_iff)
  have inoA: "dentry_inode_num ?mA (dentry_at ?bb i) = ino"
  proof -
    have "read32 ?mA (?bb + of_nat (100 + 64 * i)) = read32 ?m (?bb + of_nat (100 + 64 * i))"
      using i blk by (intro same_image_read32 [OF imgA]) linarith
    then show ?thesis by (simp add: ino_def dentry_inode_num_def dentry_at_def algebra_simps)
  qed
  have foundA: "find_file ?mA ?bb shell_file = Some i" using found find_file_image [OF same_image_prefix [OF imgA blk(2)]] by simp
  have sz: "28 \<le> file_size ?m ?bb ino" using f(1,2) by simp
  obtain s1 m where h: "read_dentry_by_name (l_fname L) (l_dentry L) (s\<lparr>memory := ?mA\<rparr>) = Some (0, s1)"
    "sint (dentry_inode_num (memory s1) (l_dentry L)) = sint ino" "file_read (sint ino) (l_buf L) BUFSIZE 0 s1 = (4, s\<lparr>memory := m\<rparr>)"
    "dentry_inode_num m (l_dentry L) = ino"
    and out: "\<And>x. \<not> in_region x (l_dentry L) 64 \<Longrightarrow> \<not> in_region x (l_buf L) 32 \<Longrightarrow> m x = ?mA x"
  proof (rule read_header [of "s\<lparr>memory := ?mA\<rparr>" L shell_file i blocks])
  qed (use shell_name_string foundA fA(1,2) sz D inoA in \<open>auto simp: disjoint_regions_sym shell_file_def\<close>)
  have imgm: "same_image ?m m ?bb (blocks * 4096)"
  proof (rule same_image_trans [OF imgA])
    show "same_image ?mA m ?bb (blocks * 4096)"
      unfolding same_image_def using out off_region [of "l_dentry L" 64 ?bb "blocks * 4096"] off_region [of "l_buf L" 32 ?bb "blocks * 4096"] D blk by simp
  qed
  note fm = same_file_ok [OF imgm ok]
  have "map (file_byte m ?bb ino) [0..<file_size m ?bb ino] = f" using fm(2,3) f(1) by (auto intro!: map_cong)
  then have ld: "loadable L blocks ino f (s\<lparr>memory := m\<rparr>)" using fm(1) h(4) by (simp add: loadable_def)
  have lay': "shells_layout L blocks (s\<lparr>memory := m\<rparr>)" using lay by (simp add: shells_layout_def shells_blocks_def)
  obtain m2 m1 m0 where r: "setup_shells ret_addr L [2, 1, 0] (s\<lparr>memory := m\<rparr>) =
      (True, shell_state 0 m0 (shell_state 1 m1 (shell_state 2 m2 (s\<lparr>memory := m\<rparr>))))"
    "frame_ready ret_addr f 1 m0" "frame_ready ret_addr f 2 m0"
    "read_bytes m2 USR_START_ADDR (length f) = f" "read_bytes m1 USR_START_ADDR (length f) = f" "read_bytes m0 USR_START_ADDR (length f) = f"
    "bytes32 (read32 m0 (USR_START_ADDR + ADDR_DIST_EIP)) = take 4 (drop 24 f)"
    using setup_shells_all [OF ld f(2,3) lay'] by blast
  have "execute_shells ret_addr L s = Some (Enter_user (return_to_user 0
      (sti ((shell_state 0 m0 (shell_state 1 m1 (shell_state 2 m2 (s\<lparr>memory := m\<rparr>))))\<lparr>curr_terminal := 0\<rparr>))))"
    using h r(1) by (simp add: execute_shells_def Let_def shell_pcb_def sti_def)
  then show ?thesis using that r by blast
qed

lemma return_to_user_frames [simp]: "frames (return_to_user p s) = frames s" "boot_block (return_to_user p s) = boot_block s"
  for s :: "'a keyboard_scheme"
  by (simp_all add: return_to_user_def iret_def push32_def Let_def)

lemma return_to_user_content:
  fixes s :: "'a keyboard_scheme"
  assumes "disjoint_regions (esp s - 20) 20 USER_PAGE 0x400000"
  shows "user_content q (return_to_user p s) = user_content q s"
proof -
  have "memory (return_to_user p s) a = memory s a" if "in_user_page a" for a
    using return_to_user_frame(9) [where s = s and p = p and x = a] disjoint_regionsD [OF assms] that by (auto simp: in_user_page_def)
  then show ?thesis by (auto simp: user_content_def park_frames_def fun_eq_iff split: option.split)
qed

lemma shells_started:
  fixes s :: "'a keyboard_scheme"
  assumes "find_file (memory s) (boot_block s) shell_file = Some i" "ino = dentry_inode_num (memory s) (dentry_at (boot_block s) i)"
    and "file_ok (memory s) (boot_block s) blocks ino"
    and "f = map (file_byte (memory s) (boot_block s) ino) [0..<file_size (memory s) (boot_block s) ino]" "28 \<le> length f" "length f \<le> 0x3B8000"
    and "shells_layout L blocks s" "process_array s 3 = 0" "process_array s 4 = 0" "process_array s 5 = 0"
  obtains m m2 m1 m0 s' where "s' = return_to_user 0
      (sti ((shell_state 0 m0 (shell_state 1 m1 (shell_state 2 m2 (s\<lparr>memory := m\<rparr>))))\<lparr>curr_terminal := 0\<rparr>))"
    and "execute_shells ret_addr L s = Some (Enter_user s')"
    and "bytes32 (eip s') = take 4 (drop 24 f) \<and> esp s' = 0x83FFFFC \<and>
    cs s' = USER_CS \<and> int_flag s' \<and> curr_pid s' = 0 \<and> sched_ok s' \<and> (\<forall>p. valid_pid p \<longrightarrow> runnable s' p = (p \<in> {0, 1, 2})) \<and>
    (\<forall>p\<in>{0, 1, 2}. pcb_terminal (pcbs s' (pcb_of p)) = p \<and> read_bytes (user_content p s') USR_START_ADDR (length f) = f) \<and>
    (\<forall>p\<in>{1, 2}. saved_ebp (pcbs s' (pcb_of p)) = pcb_of p + 0x1FBC \<and> frame_ready ret_addr f p (memory s'))"
proof -
  obtain m m2 m1 m0 where r: "execute_shells ret_addr L s = Some (Enter_user (return_to_user 0
      (sti ((shell_state 0 m0 (shell_state 1 m1 (shell_state 2 m2 (s\<lparr>memory := m\<rparr>))))\<lparr>curr_terminal := 0\<rparr>))))"
    "frame_ready ret_addr f 1 m0" "frame_ready ret_addr f 2 m0"
    "read_bytes m2 USR_START_ADDR (length f) = f" "read_bytes m1 USR_START_ADDR (length f) = f" "read_bytes m0 USR_START_ADDR (length f) = f"
    "bytes32 (read32 m0 (USR_START_ADDR + ADDR_DIST_EIP)) = take 4 (drop 24 f)"
    using execute_shells_runs [where s = s and i = i and ret_addr = ret_addr] assms by metis
  define t where "t = sti ((shell_state 0 m0 (shell_state 1 m1 (shell_state 2 m2 (s\<lparr>memory := m\<rparr>))))\<lparr>curr_terminal := 0\<rparr>)"
  let ?s' = "return_to_user 0 t"
  note D = assms(7) [unfolded shells_layout_def shells_blocks_def, simplified]
  have t: "memory t = m0" "esp t = esp s" "curr_terminal t = 0" "int_flag t"
    "process_array t = (process_array s)(2 := 1, 1 := 1, 0 := 1)" "terminal_array t = (terminal_array s)(2 := 2, 1 := 1, 0 := 0)"
    by (simp_all add: t_def sti_def)
  have inj: "pcb_of 0 \<noteq> pcb_of 1" "pcb_of 0 \<noteq> pcb_of 2" "pcb_of 1 \<noteq> pcb_of 2" by (simp_all add: pcb_of_inj valid_pid_def)
  have pcb: "pcbs t (pcb_of p) = shell_pcb p (pcbs s (pcb_of p))" if "p \<in> {0, 1, 2}" for p
    using that inj by (auto simp: t_def)
  have run: "runnable ?s' p = (p \<in> {0, 1, 2})" if "valid_pid p" for p
    using valid_pid_cases [OF that] assms(8-10) pcb t(5) by (elim disjE) (simp_all add: runnable_def shell_pcb_def)
  have "sched_ok ?s'"
    unfolding sched_ok_def using run t(3,6) pcb by (auto simp: curr_pid_def valid_pid_def shell_pcb_def)
  moreover have "read_bytes (user_content p ?s') USR_START_ADDR (length f) = f" if "p \<in> {0, 1, 2}" for p
  proof -
    have "user_content p ?s' = user_content p (shell_state 0 m0 (shell_state 1 m1 (shell_state 2 m2 (s\<lparr>memory := m\<rparr>))))"
      using return_to_user_content [of t p 0] D t(2)
      by (simp add: t_def user_content_def park_frames_def sti_def cong: if_cong option.case_cong)
    then show ?thesis
      using that content_program [OF r(4) assms(6)] content_program [OF r(5) assms(6)] content_program [OF r(6) assms(6)]
      by (auto simp: shell_state_content valid_pid_def)
  qed
  moreover have "frame_ready ret_addr f p (memory ?s')" if "p \<in> {1, 2}" for p
  proof -
    have "same_image m0 (memory ?s') (pcb_of p + 0x1FBC) 64"
      using that D return_to_user_frame(9) [where s = t and p = 0] t(1,2)
      by (intro same_image_outside [of "esp s - 20" 20]) (auto simp: disjoint_regions_sym)
    then show ?thesis using that r(2,3) frame_ready_image by auto
  qed
  moreover have "bytes32 (eip ?s') = take 4 (drop 24 f)"
    using return_to_user_frame(1) [where s = t and p = 0] r(7) t(1) by (simp add: USR_START_ADDR_def ADDR_DIST_EIP_def)
  ultimately show ?thesis
    using r(1) run pcb t(3,4,6) return_to_user_frame(2,3,8) [where s = t and p = 0] unfolding t_def [symmetric]
    by (intro that [of ?s' m0 m1 m2 m] arg_cong [OF t_def]) (auto simp: curr_pid_def shell_pcb_def)
qed

section \<open>Main properties\<close>

text \<open>
  C4: starting the system's shells. When the image holds a file named \<open>shell\<close> (at least 28
  bytes, small enough for the user page), the areas the call uses do not overlap and no process
  beyond the first three exists, \<open>execute_shells\<close> enters user mode in process 0 at the entry
  point stored in the file, with interrupts on; processes 0, 1 and 2 are exactly the runnable
  ones, one per terminal, and the scheduler's invariant holds; each of the three pages of user
  memory holds the whole program; and the saved base pointer of processes 1 and 2 points at a
  frame that returns to the end of the timer wrapper with zeroed registers and from there to
  the program's entry point in user mode.
\<close>
theorem shells_start:
  assumes "find_file (memory s) (boot_block s) shell_file = Some i" "ino = dentry_inode_num (memory s) (dentry_at (boot_block s) i)"
    and "file_ok (memory s) (boot_block s) blocks ino"
    and "f = map (file_byte (memory s) (boot_block s) ino) [0..<file_size (memory s) (boot_block s) ino]" "28 \<le> length f" "length f \<le> 0x3B8000"
    and "shells_layout L blocks s" "process_array s 3 = 0" "process_array s 4 = 0" "process_array s 5 = 0"
  shows "\<exists>s'. execute_shells ret_addr L s = Some (Enter_user s') \<and> bytes32 (eip s') = take 4 (drop 24 f) \<and> esp s' = 0x83FFFFC \<and>
    cs s' = USER_CS \<and> int_flag s' \<and> curr_pid s' = 0 \<and> sched_ok s' \<and> (\<forall>p. valid_pid p \<longrightarrow> runnable s' p = (p \<in> {0, 1, 2})) \<and>
    (\<forall>p\<in>{0, 1, 2}. pcb_terminal (pcbs s' (pcb_of p)) = p \<and> read_bytes (user_content p s') USR_START_ADDR (length f) = f) \<and>
    (\<forall>p\<in>{1, 2}. saved_ebp (pcbs s' (pcb_of p)) = pcb_of p + 0x1FBC \<and> frame_ready ret_addr f p (memory s'))"
  using shells_started [OF assms] by metis

definition demo_shells :: keyboard where
  "demo_shells = demo_kernel [(0x500040, shell_file)]"

lemma demo_shells_sel:
  "memory demo_shells = mem_of ((0x500040, shell_file) # demo_image)" "boot_block demo_shells = 0x500000" "esp demo_shells = 0x7FFF00"
  "process_array demo_shells p = (if p = 0 \<or> p = 1 then 1 else 0)"
  by (simp_all add: demo_shells_def pcb_of_def proc_consts)

lemma demo_shells_layout: "shells_layout demo_locals 3 demo_shells"
  by (simp add: shells_layout_def shells_blocks_def demo_shells_sel demo_locals_def disjoint_regions_def pcb_of_def proc_consts USER_PAGE_def)

lemma demo_shells_file:
  "find_file (memory demo_shells) 0x500000 shell_file = Some 0" "file_ok (memory demo_shells) 0x500000 3 0" "file_size (memory demo_shells) 0x500000 0 = 28"
  "dentry_inode_num (memory demo_shells) (dentry_at 0x500000 0) = 0"
proof -
  show "find_file (memory demo_shells) 0x500000 shell_file = Some 0"
    by (rule find_file_first)
       (simp add: file_name_def demo_shells_sel dentry_at_def NAME_SIZE_def read_bytes_def upt_rec mem_of_def shell_file_def demo_image_def demo_file_def)
  show "file_ok (memory demo_shells) 0x500000 3 0" "file_size (memory demo_shells) 0x500000 0 = 28"
      "dentry_inode_num (memory demo_shells) (dentry_at 0x500000 0) = 0"
    by (simp_all add: file_ok_def num_inodes_def file_size_def inode_length_def inode_data_block_def inode_at_def read32_def dentry_at_def
        dentry_inode_num_def demo_shells_sel mem_of_def demo_image_def demo_file_def shell_file_def)
qed

theorem shells_start_witness:
  "\<exists>s'. execute_shells 0x400100 demo_locals demo_shells = Some (Enter_user s') \<and> sched_ok s' \<and> curr_pid s' = 0 \<and> runnable s' 2"
proof -
  let ?f = "map (file_byte (memory demo_shells) (boot_block demo_shells) 0) [0..<file_size (memory demo_shells) (boot_block demo_shells) 0]"
  have "\<exists>s'. execute_shells 0x400100 demo_locals demo_shells = Some (Enter_user s') \<and> bytes32 (eip s') = take 4 (drop 24 ?f) \<and> esp s' = 0x83FFFFC \<and>
    cs s' = USER_CS \<and> int_flag s' \<and> curr_pid s' = 0 \<and> sched_ok s' \<and> (\<forall>p. valid_pid p \<longrightarrow> runnable s' p = (p \<in> {0, 1, 2})) \<and>
    (\<forall>p\<in>{0, 1, 2}. pcb_terminal (pcbs s' (pcb_of p)) = p \<and> read_bytes (user_content p s') USR_START_ADDR (length ?f) = ?f) \<and>
    (\<forall>p\<in>{1, 2}. saved_ebp (pcbs s' (pcb_of p)) = pcb_of p + 0x1FBC \<and> frame_ready 0x400100 ?f p (memory s'))"
    by (rule shells_start [where i = 0 and blocks = 3 and ino = 0])
       (use demo_shells_file demo_shells_layout in \<open>simp_all add: demo_shells_sel\<close>)
  then obtain s' where "execute_shells 0x400100 demo_locals demo_shells = Some (Enter_user s')" "curr_pid s' = 0" "sched_ok s'"
    "\<forall>p. valid_pid p \<longrightarrow> runnable s' p = (p \<in> {0, 1, 2})" by blast
  then show ?thesis by (auto simp: valid_pid_def)
qed

end
