(* ===== verification/Printf.thy ===== *)
theory Printf
  imports Console
begin

text \<open>
  What \<open>printf\<close> prints: a reference rendering of a format and its arguments, and the proof
  that the character loop with its conversions puts exactly that text on the displayed
  terminal, changing nothing else than the page, the cursor and the local buffer.
\<close>

text \<open>The bytes of a string literal.\<close>

definition ascii :: "string \<Rightarrow> u8 list" where
  "ascii = map (\<lambda>c. word_of_nat (of_char c))"

section \<open>Reference rendering\<close>

definition hex8 :: "u32 \<Rightarrow> u8 list" where
  "hex8 a = replicate (8 - length (numeral_string 16 (unat a))) 0x30 @ numeral_string 16 (unat a)"

definition signed_string :: "u32 \<Rightarrow> u8 list" where
  "signed_string a = (if sint a < 0 then 0x2D # numeral_string 10 (nat (- sint a)) else numeral_string 10 (nat (sint a)))"

text \<open>The text of one conversion; \<open>strs\<close> gives the string at an address.\<close>

definition conversion :: "(u32 \<Rightarrow> u8 list) \<Rightarrow> bool \<Rightarrow> u8 \<Rightarrow> u32 \<Rightarrow> u8 list" where
  "conversion strs alternate c a =
     (if c = 0x78 then if alternate then hex8 a else numeral_string 16 (unat a)
      else if c = 0x75 then numeral_string 10 (unat a)
      else if c = 0x64 then signed_string a
      else if c = 0x63 then [ucast a]
      else strs a)"

text \<open>\<open>render\<close> gives the text and the addresses used as strings; \<open>None\<close> for a malformed call.\<close>

fun render :: "(u32 \<Rightarrow> u8 list) \<Rightarrow> u8 list \<Rightarrow> u32 list \<Rightarrow> (u8 list \<times> u32 list) option"
  and render_conv :: "(u32 \<Rightarrow> u8 list) \<Rightarrow> bool \<Rightarrow> u8 list \<Rightarrow> u32 list \<Rightarrow> (u8 list \<times> u32 list) option" where
  "render strs [] args = Some ([], [])"
| "render strs (c # cs) args =
     (if c = 0x25 then render_conv strs False cs args else map_option (map_prod (Cons c) id) (render strs cs args))"
| "render_conv strs alternate [] args = None"
| "render_conv strs alternate (c # cs) args =
     (if c = 0x25 then map_option (map_prod (Cons 0x25) id) (render strs cs args)
      else if c = 0x23 then render_conv strs True cs args
      else if c \<in> {0x78, 0x75, 0x64, 0x63, 0x73}
      then (case args of [] \<Rightarrow> None
            | a # as \<Rightarrow> map_option (map_prod (\<lambda>xs. conversion strs alternate c a @ xs) (\<lambda>ys. (if c = 0x73 then [a] else []) @ ys))
                         (render strs cs as))
      else render strs cs args)"

section \<open>Printing a text\<close>

text \<open>The state changes only in the page, the cursors and the port log of the cursor registers.\<close>

definition console_only :: "'a console_scheme \<Rightarrow> 'a console_scheme \<Rightarrow> bool" where
  "console_only s s' \<longleftrightarrow> (\<exists>m x y l. s' = s\<lparr>memory := m, screen_x := x, screen_y := y, io_log := l @ io_log s\<rparr> \<and>
     set (map fst l) \<subseteq> {CURSOR_PORT, CURSOR_PORT + 1})"

definition shown :: "u32 \<Rightarrow> u32 \<Rightarrow> u8 list \<Rightarrow> 'a console_scheme \<Rightarrow> 'a console_scheme \<Rightarrow> bool" where
  "shown conv t out s s' \<longleftrightarrow> cursor_ok t s' \<and> screen_of t s' = fold put_char out (screen_of t s) \<and>
     (\<forall>x. \<not> in_region x (page t) 4000 \<longrightarrow> \<not> in_region x conv 64 \<longrightarrow> memory s' x = memory s x) \<and> console_only s s'"

lemma console_only_refl: "console_only s s"
  unfolding console_only_def
  by (intro exI [of _ "memory s"] exI [of _ "screen_x s"] exI [of _ "screen_y s"] exI [of _ "[]"]) simp

lemma console_only_memory: "console_only s (s\<lparr>memory := m\<rparr>)"
  unfolding console_only_def
  by (intro exI [of _ m] exI [of _ "screen_x s"] exI [of _ "screen_y s"] exI [of _ "[]"]) simp

lemma console_only_trans: "console_only s s' \<Longrightarrow> console_only s' s'' \<Longrightarrow> console_only s s''"
proof -
  assume "console_only s s'" "console_only s' s''"
  then obtain m x y l m' x' y' l' where "s' = s\<lparr>memory := m, screen_x := x, screen_y := y, io_log := l @ io_log s\<rparr>"
      "set (map fst l) \<subseteq> {CURSOR_PORT, CURSOR_PORT + 1}" "s'' = s'\<lparr>memory := m', screen_x := x', screen_y := y', io_log := l' @ io_log s'\<rparr>"
      "set (map fst l') \<subseteq> {CURSOR_PORT, CURSOR_PORT + 1}"
    unfolding console_only_def by blast
  then show ?thesis
    unfolding console_only_def
    by (intro exI [of _ m'] exI [of _ x'] exI [of _ y'] exI [of _ "l' @ l"]) simp
qed

lemma console_only_curr_term: "console_only s s' \<Longrightarrow> curr_term s' = curr_term s"
  by (auto simp: console_only_def)

lemma console_only_steps:
  "console_only s (update_cursor s)" "console_only s (set_x t v s)" "console_only s (set_y t v s)"
  "console_only s (put_cell c t s)" "console_only s (vert_scroll t s)"
proof -
  show "console_only s (update_cursor s)"
    unfolding console_only_def update_cursor_def outb_def Let_def
    by (intro exI [of _ "memory s"] exI [of _ "screen_x s"] exI [of _ "screen_y s"])
       (rule exI [of _ "[_, _, _, _]"], auto)
  show "console_only s (set_x t v s)"
    unfolding console_only_def set_x_def
    by (intro exI [of _ "memory s"] exI [of _ "(screen_x s)(t := v)"] exI [of _ "screen_y s"] exI [of _ "[]"]) simp
  show "console_only s (set_y t v s)"
    unfolding console_only_def set_y_def
    by (intro exI [of _ "memory s"] exI [of _ "screen_x s"] exI [of _ "(screen_y s)(t := v)"] exI [of _ "[]"]) simp
  show "console_only s (put_cell c t s)" "console_only s (vert_scroll t s)"
    by (simp_all add: put_cell_def vert_scroll_def Let_def console_only_memory)
qed

lemmas console_only_after = console_only_trans [OF _ console_only_steps(1)] console_only_trans [OF _ console_only_steps(2)]
  console_only_trans [OF _ console_only_steps(3)] console_only_trans [OF _ console_only_steps(4)]
  console_only_trans [OF _ console_only_steps(5)]

lemma putc_console_only: "console_only s (putc c t s)"
  by (simp add: putc_def Let_def) (auto intro!: console_only_after console_only_refl)

lemma put_all_console_only: "console_only s (put_all cs t s)"
  by (induction cs arbitrary: s) (auto intro: console_only_refl console_only_trans putc_console_only)

lemma shown_trans:
  "shown conv t xs s s' \<Longrightarrow> shown conv t ys s' s'' \<Longrightarrow> shown conv t (xs @ ys) s s''"
  unfolding shown_def by (auto intro: console_only_trans)

lemma shown_Nil: "cursor_ok t s \<Longrightarrow> shown conv t [] s s"
  by (simp add: shown_def console_only_refl)

lemma shown_putc: "cursor_ok t s \<Longrightarrow> shown conv t [c] s (putc c t s)"
  by (simp add: shown_def putc_cursor_ok putc_refines putc_frame putc_console_only)

lemma shown_put_all: "cursor_ok t s \<Longrightarrow> shown conv t xs s (put_all xs t s)"
  by (simp add: shown_def put_all_cursor_ok put_all_refines put_all_frame put_all_console_only)

text \<open>Writing into the local buffer shows nothing.\<close>

lemma shown_buffer:
  assumes ok: "cursor_ok t s" and dis: "disjoint_regions conv 64 (page t) 4000"
    and mem: "\<And>x. \<not> in_region x conv 64 \<Longrightarrow> m x = memory s x"
  shows "shown conv t [] s (s\<lparr>memory := m\<rparr>)"
proof -
  have "m (cell_addr t r c) = memory s (cell_addr t r c)" if "r < 25" "c < 80" for r c
    using disjoint_regionsD [OF dis] in_region_offset [of "2 * (80 * r + c)" 4000 "page t"] that
    by (intro mem) (auto simp: cell_addr_def)
  then show ?thesis
    using ok mem by (auto simp: shown_def screen_of_def console_only_memory fun_eq_iff)
qed

text \<open>Printing a string that was just made in the local buffer.\<close>

lemma shown_made:
  assumes ok: "cursor_ok t s" and dis: "disjoint_regions conv 64 (page t) 4000"
    and mem: "\<And>x. \<not> in_region x conv 64 \<Longrightarrow> m x = memory s x"
    and str: "cstr_at m (conv + of_nat k) xs" and fits: "k + length xs < 64"
  shows "\<exists>s'. puts (conv + of_nat k) t (s\<lparr>memory := m\<rparr>) = Some (s', of_nat (length xs)) \<and> shown conv t xs s s'"
proof -
  let ?s = "s\<lparr>memory := m\<rparr>"
  have "puts (conv + of_nat k) t ?s = Some (put_all xs t ?s, of_nat (length xs))"
  proof (rule puts_cstr)
    show "\<not> in_region (conv + of_nat k + of_nat i) (page t) 4000" if "i \<le> length xs" for i
      using disjoint_regionsD [OF dis, of "conv + of_nat (k + i)"] in_region_offset [of "k + i" 64 conv] that fits
      by (auto simp: add.assoc)
  qed (use ok str in simp_all)
  moreover have "shown conv t xs s (put_all xs t ?s)"
    using shown_trans [OF shown_buffer [OF ok dis mem] shown_put_all [of t ?s conv xs]] ok by simp
  ultimately show ?thesis by blast
qed

section \<open>The number conversions\<close>

lemma lsd_digits_bound: "2 \<le> r \<Longrightarrow> v < r ^ k \<Longrightarrow> length (lsd_digits r v) \<le> k"
proof (induction r v arbitrary: k rule: lsd_digits.induct)
  case (1 r v)
  show ?case
  proof (cases "v = 0")
    case False
    then obtain k' where k: "k = Suc k'" using "1.prems" by (cases k) auto
    then have "v div r < r ^ k'" using "1.prems" by (simp add: less_mult_imp_div_less mult.commute)
    then show ?thesis using False k "1" by (subst lsd_digits.simps) simp
  qed (simp add: lsd_digits.simps)
qed

lemma hex_digits: "length (numeral_string 16 (unat w)) \<le> 8" for w :: u32
  using lsd_digits_bound [of 16 "unat w" 8] unat_lt_u32 [of w] by (simp add: numeral_string_def)

lemma unat_uminus_signed: "sint w < 0 \<Longrightarrow> unat (- w) = nat (- sint w)" for w :: u32
proof -
  assume a: "sint w < 0"
  define k where "k = - sint w"
  have "0 < k" "k \<le> 2 ^ 31" using a sint_ge [of w] by (simp_all add: k_def)
  then have "uint (word_of_int k :: u32) = k" by (simp add: uint_word_of_int)
  moreover have "word_of_int k = - w" by (simp add: k_def)
  ultimately show ?thesis using k_def by (simp add: unat_eq_nat_uint)
qed

lemma unat_signed: "0 \<le> sint w \<Longrightarrow> unat w = nat (sint w)" for w :: u32
proof -
  assume a: "0 \<le> sint w"
  define k where "k = sint w"
  have "0 \<le> k" "k < 2 ^ 31" using a sint_lt [of w] by (simp_all add: k_def)
  then have "uint (word_of_int k :: u32) = k" by (simp add: uint_word_of_int)
  moreover have "word_of_int k = w" by (simp add: k_def)
  ultimately show ?thesis using k_def by (simp add: unat_eq_nat_uint)
qed

lemma written_string:
  assumes "0 \<notin> set xs" "length xs < 64"
  shows "cstr_at (write_bytes m a (xs @ [0])) a xs"
  using assms by (intro cstr_at_written) auto

lemma written_outside: "\<not> in_region x conv 64 \<Longrightarrow> k + length xs \<le> 64 \<Longrightarrow> write_bytes m (conv + of_nat k) xs x = m x"
proof (rule write_bytes_outside)
  assume a: "\<not> in_region x conv 64" "k + length xs \<le> 64"
  show "length xs \<le> 2 ^ 32" using a by simp
  show "\<not> in_region x (conv + of_nat k) (length xs)"
  proof
    assume "in_region x (conv + of_nat k) (length xs)"
    then obtain i where "i < length xs" "x = conv + of_nat k + of_nat i" by (rule in_regionE)
    then show False using a in_region_offset [of "k + i" 64 conv] by (simp add: add.assoc)
  qed
qed

lemma print_unsigned_shown:
  assumes "cursor_ok (curr_term s) s" "disjoint_regions conv 64 (page (curr_term s)) 4000"
  shows "\<exists>s'. print_unsigned conv w s = Some s' \<and> shown conv (curr_term s) (numeral_string 10 (unat w)) s s'"
proof -
  let ?xs = "numeral_string 10 (unat w)"
  have len: "length ?xs \<le> 32" using unat_lt_u32 by (intro length_numeral_string) auto
  have "itoa (memory s) w conv 10 = Some (write_bytes (memory s) conv (?xs @ [0]))"
    using itoa_eq [of 10 "memory s" w conv] by simp
  moreover have "\<exists>s'. puts (conv + of_nat 0) (curr_term s) (s\<lparr>memory := write_bytes (memory s) conv (?xs @ [0])\<rparr>) = Some (s', of_nat (length ?xs)) \<and>
      shown conv (curr_term s) ?xs s s'"
    using len numeral_string_nonzero [of 10 "unat w"] written_outside [of _ conv 0 "?xs @ [0]"]
    by (intro shown_made [OF assms]) (auto intro!: written_string)
  ultimately show ?thesis by (auto simp: print_unsigned_def)
qed

lemma print_signed_shown:
  assumes "cursor_ok (curr_term s) s" "disjoint_regions conv 64 (page (curr_term s)) 4000"
  shows "\<exists>s'. print_signed conv w s = Some s' \<and> shown conv (curr_term s) (signed_string w) s s'"
proof -
  let ?xs = "signed_string w" and ?m = "write_bytes (memory s) conv (signed_string w @ [0])"
  have len: "length (numeral_string 10 (unat v)) \<le> 32" for v :: u32
    using unat_lt_u32 by (intro length_numeral_string) auto
  have neg: "unat (- w) = nat (- sint w)" if "sint w < 0" using that by (rule unat_uminus_signed)
  have pos: "unat w = nat (sint w)" if "\<not> sint w < 0"
    using that unat_signed by simp
  have "(if sint w < 0 then itoa ((memory s)(conv := 0x2D)) (- w) (conv + 1) 10 else itoa (memory s) w conv 10) = Some ?m"
    using itoa_eq [of 10 "(memory s)(conv := 0x2D)" "- w" "conv + 1"] itoa_eq [of 10 "memory s" w conv] neg pos
    by (simp add: signed_string_def)
  moreover have "\<exists>s'. puts (conv + of_nat 0) (curr_term s) (s\<lparr>memory := ?m\<rparr>) = Some (s', of_nat (length ?xs)) \<and> shown conv (curr_term s) ?xs s s'"
  proof (rule shown_made [OF assms])
    have l: "length ?xs \<le> 33" using len [of w] len [of "- w"] neg pos by (auto simp: signed_string_def)
    have nz: "0 \<notin> set ?xs" using numeral_string_nonzero [of 10] by (auto simp: signed_string_def)
    show "0 + length ?xs < 64" using l by simp
    show "cstr_at ?m (conv + of_nat 0) ?xs" using written_string [OF nz] l by simp
    show "?m x = memory s x" if "\<not> in_region x conv 64" for x
      using written_outside [OF that, of 0 "?xs @ [0]"] l by simp
  qed
  ultimately show ?thesis by (auto simp: print_signed_def)
qed

lemma fill_run: "fold (\<lambda>i m. m(a + of_nat i := b)) [k..<k + n] m = write_bytes m (a + of_nat k) (replicate n b)"
proof (induction n)
  case (Suc n)
  have "fold (\<lambda>i m. m(a + of_nat i := b)) [k..<k + Suc n] m = (fold (\<lambda>i m. m(a + of_nat i := b)) [k..<k + n] m)(a + of_nat k + of_nat n := b)"
    by (simp add: add.assoc)
  also have "\<dots> = write_bytes m (a + of_nat k) (replicate n b @ [b])"
    by (simp only: Suc.IH write_bytes_snoc length_replicate)
  finally show ?case by (simp only: replicate_Suc replicate_append_same)
qed simp

lemma print_hex_shown:
  assumes ok: "cursor_ok (curr_term s) s" and dis: "disjoint_regions conv 64 (page (curr_term s)) 4000"
  shows "\<exists>s'. print_hex conv alternate w s = Some s' \<and>
    shown conv (curr_term s) (if alternate then hex8 w else numeral_string 16 (unat w)) s s'"
proof -
  let ?xs = "numeral_string 16 (unat w)"
  let ?k = "length ?xs"
  note len = hex_digits [of w] and nz = numeral_string_nonzero [of 16 "unat w"]
  have itoa: "itoa (memory s) w a 16 = Some (write_bytes (memory s) a (?xs @ [0]))" for a
    using itoa_eq [of 16 "memory s" w a] by simp
  show ?thesis
  proof (cases alternate)
    case False
    have "\<exists>s'. puts (conv + of_nat 0) (curr_term s) (s\<lparr>memory := write_bytes (memory s) conv (?xs @ [0])\<rparr>) = Some (s', of_nat ?k) \<and>
        shown conv (curr_term s) ?xs s s'"
      using len nz written_outside [of _ conv 0 "?xs @ [0]"] by (intro shown_made [OF assms]) (auto intro!: written_string)
    then show ?thesis using False itoa by (auto simp: print_hex_def)
  next
    case True
    let ?m = "write_bytes (memory s) (conv + 8) (?xs @ [0])"
    let ?m' = "fill_zeros conv ?k ?m"
    have zeros: "?m' = write_bytes ?m (conv + of_nat ?k) (replicate (8 - ?k) 0x30)" 
      using len fill_run [of conv "0x30" ?k "8 - ?k" ?m] by (simp add: fill_zeros_def)
    have uk: "unat (of_nat ?k :: u32) = ?k" using len by (intro unat_of_nat_u32) simp
    have "strlen ?m (conv + 8) = Some (of_nat ?k)" using strlen_cstr [OF written_string] nz len by simp
    moreover have "\<exists>s'. puts (conv + of_nat ?k) (curr_term s) (s\<lparr>memory := ?m'\<rparr>) = Some (s', of_nat (length (hex8 w))) \<and>
        shown conv (curr_term s) (hex8 w) s s'"
    proof (rule shown_made [OF assms])
      show "?k + length (hex8 w) < 64" using len by (simp add: hex8_def)
      show "?m' x = memory s x" if "\<not> in_region x conv 64" for x
        unfolding zeros using written_outside [OF that, of ?k "replicate (8 - ?k) 0x30"] written_outside [OF that, of 8 "?xs @ [0]"] len by simp
      show "cstr_at ?m' (conv + of_nat ?k) (hex8 w)"
      proof (rule cstr_atI)
        have at: "?m' (conv + of_nat ?k + of_nat i) = (if i < 8 - ?k then 0x30 else (?xs @ [0]) ! (i - (8 - ?k)))" if "i \<le> 8" for i
        proof (cases "i < 8 - ?k")
          case True
          then show ?thesis
            unfolding zeros using write_bytes_inside [of "replicate (8 - ?k) 0x30" i ?m "conv + of_nat ?k"] by simp
        next
          case False
          have a: "conv + of_nat ?k + of_nat i = conv + 8 + of_nat (i - (8 - ?k))"
            using False len by (simp add: of_nat_diff)
          have "?m' (conv + of_nat ?k + of_nat i) = ?m (conv + of_nat ?k + of_nat i)"
            unfolding zeros using that False by (intro write_bytes_outside) (simp_all add: in_region_def unat_of_nat_u32)
          also have "\<dots> = (?xs @ [0]) ! (i - (8 - ?k))"
            unfolding a using that False len by (intro write_bytes_inside) auto
          finally show ?thesis using False by simp
        qed
        show "length (hex8 w) < 2 ^ 32" "0 \<notin> set (hex8 w)" using nz len by (auto simp: hex8_def)
        show "?m' (conv + of_nat ?k + of_nat i) = hex8 w ! i" if "i < length (hex8 w)" for i
          using that len at [of i] by (auto simp: hex8_def nth_append)
        show "?m' (conv + of_nat ?k + of_nat (length (hex8 w))) = 0"
          using len at [of 8] by (simp add: hex8_def nth_append)
      qed
    qed
    ultimately show ?thesis using True itoa uk by (auto simp: print_hex_def)
  qed
qed

section \<open>The loop\<close>

definition string_ok :: "u32 \<Rightarrow> u32 \<Rightarrow> (u32 \<Rightarrow> u8 list) \<Rightarrow> 'a console_scheme \<Rightarrow> u32 \<Rightarrow> bool" where
  "string_ok conv t strs s a \<longleftrightarrow> cstr_at (memory s) a (strs a) \<and>
     disjoint_regions a (Suc (length (strs a))) (page t) 4000 \<and> disjoint_regions a (Suc (length (strs a))) conv 64"

lemma string_ok_shown:
  assumes "shown conv t xs s s'" "string_ok conv t strs s a"
  shows "string_ok conv t strs s' a"
proof -
  have str: "cstr_at (memory s) a (strs a)" and d: "disjoint_regions a (Suc (length (strs a))) (page t) 4000"
      "disjoint_regions a (Suc (length (strs a))) conv 64"
    using assms(2) by (auto simp: string_ok_def)
  have "memory s' (a + of_nat i) = memory s (a + of_nat i)" if "i \<le> length (strs a)" for i
    using assms(1) disjoint_regionsD [OF d(1), of "a + of_nat i"] disjoint_regionsD [OF d(2), of "a + of_nat i"]
      in_region_offset [of i "Suc (length (strs a))" a] that cstr_at_length [OF str]
    by (auto simp: shown_def)
  then show ?thesis using d cstr_at_cong [OF _ str] by (auto simp: string_ok_def)
qed

lemma puts_shown:
  assumes "cursor_ok t s" "string_ok conv t strs s a"
  shows "\<exists>s' n. puts a t s = Some (s', n) \<and> shown conv t (strs a) s s'"
proof -
  have str: "cstr_at (memory s) a (strs a)" and d: "disjoint_regions a (Suc (length (strs a))) (page t) 4000"
    using assms(2) by (auto simp: string_ok_def)
  have "\<not> in_region (a + of_nat i) (page t) 4000" if "i \<le> length (strs a)" for i
    using disjoint_regionsD [OF d, of "a + of_nat i"] in_region_offset [of i "Suc (length (strs a))" a] that cstr_at_length [OF str]
    by auto
  then show ?thesis using puts_cstr [OF str assms(1)] shown_put_all [OF assms(1)] by blast
qed

lemma printf_shown:
  fixes s :: "'a console_scheme"
  shows "render strs fmt args = Some (out, addrs) \<Longrightarrow> curr_term s = t \<Longrightarrow> cursor_ok t s \<Longrightarrow>
      disjoint_regions conv 64 (page t) 4000 \<Longrightarrow> list_all (string_ok conv t strs s) addrs \<Longrightarrow>
      \<exists>s'. printf_chars conv fmt args s = Some s' \<and> shown conv t out s s'"
    and "render_conv strs alternate fmt args = Some (out, addrs) \<Longrightarrow> curr_term s = t \<Longrightarrow> cursor_ok t s \<Longrightarrow>
      disjoint_regions conv 64 (page t) 4000 \<Longrightarrow> list_all (string_ok conv t strs s) addrs \<Longrightarrow>
      \<exists>s'. printf_conv conv alternate fmt args s = Some s' \<and> shown conv t out s s'"
proof (induction strs fmt args and strs alternate fmt args arbitrary: out addrs s and out addrs s rule: render_render_conv.induct)
  case (1 strs args)
  then show ?case by (auto intro: shown_Nil)
next
  case (2 strs c cs args)
  show ?case
  proof (cases "c = 0x25")
    case True
    then show ?thesis using "2" by simp
  next
    case False
    obtain out' where out: "render strs cs args = Some (out', addrs)" "out = c # out'"
      using "2.prems"(1) False by auto
    have step: "shown conv t [c] s (putc c t s)" using "2.prems"(3) by (rule shown_putc)
    obtain s' where "printf_chars conv cs args (putc c t s) = Some s'" "shown conv t out' (putc c t s) s'"
      using "2.IH"(2) [OF False out(1), of "putc c t s"] "2.prems" putc_cursor_ok [OF "2.prems"(3)] string_ok_shown [OF step]
      by (auto simp: list_all_iff)
    then show ?thesis using False shown_trans [OF step] "2.prems"(2) out(2) by auto
  qed
next
  case (3 strs alternate args)
  then show ?case by simp
next
  case (4 strs alternate c cs args)
  have plain: ?case if prm: "render strs cs args' = Some (out', addrs')" "out = xs @ out'" "set addrs' \<subseteq> set addrs"
      "shown conv t xs s s0" "printf_conv conv alternate (c # cs) args s = printf_chars conv cs args' s0"
      "\<And>out addrs (s :: 'a console_scheme). render strs cs args' = Some (out, addrs) \<Longrightarrow> curr_term s = t \<Longrightarrow> cursor_ok t s \<Longrightarrow>
        disjoint_regions conv 64 (page t) 4000 \<Longrightarrow> list_all (string_ok conv t strs s) addrs \<Longrightarrow>
        \<exists>s'. printf_chars conv cs args' s = Some s' \<and> shown conv t out s s'" for args' out' addrs' xs s0
  proof -
    have "curr_term s0 = t" "cursor_ok t s0" using prm(4) "4.prems"(2) console_only_curr_term by (auto simp: shown_def)
    moreover have "list_all (string_ok conv t strs s0) addrs'"
      using string_ok_shown [OF prm(4)] "4.prems"(5) prm(3) by (auto simp: list_all_iff)
    ultimately obtain s' where "printf_chars conv cs args' s0 = Some s'" "shown conv t out' s0 s'"
      using prm(6) [OF prm(1), of s0] "4.prems"(4) by blast
    then show ?thesis using shown_trans [OF prm(4)] prm(2,5) by auto
  qed
  consider "c = 0x25" | "c = 0x23" | "c \<in> {0x78, 0x75, 0x64, 0x63, 0x73}" | "c \<notin> {0x25, 0x23, 0x78, 0x75, 0x64, 0x63, 0x73}"
    by blast
  then show ?case
  proof cases
    case 1
    then obtain out' where "render strs cs args = Some (out', addrs)" "out = [0x25] @ out'" using "4.prems"(1) by auto
    then show ?thesis
      using 1 "4.prems"(2) by (intro plain [OF _ _ _ shown_putc [OF "4.prems"(3)] _ "4.IH"(1)]) auto
  next
    case 2
    then show ?thesis using "4" by simp
  next
    case 3
    then have ne: "c \<noteq> 0x25" "c \<noteq> 0x23" by auto
    then obtain a as out' addrs' where args: "args = a # as" and out: "render strs cs as = Some (out', addrs')"
        "out = conversion strs alternate c a @ out'" "addrs = (if c = 0x73 then [a] else []) @ addrs'"
      using "4.prems"(1) 3 by (auto split: list.splits)
    have "\<exists>s0. (if c = 0x78 then print_hex conv alternate a s else if c = 0x75 then print_unsigned conv a s
        else if c = 0x64 then print_signed conv a s else if c = 0x63 then Some (putc (ucast a) (curr_term s) s)
        else map_option fst (puts a (curr_term s) s)) = Some s0 \<and> shown conv t (conversion strs alternate c a) s s0"
      using print_hex_shown [of s conv alternate a] print_unsigned_shown [of s conv a] print_signed_shown [of s conv a]
        shown_putc [of t s conv "ucast a"] puts_shown [of t s conv strs a] "4.prems"(2-5) out(3) 3
      by (auto simp: conversion_def)
    then obtain s0 where s0: "(if c = 0x78 then print_hex conv alternate a s else if c = 0x75 then print_unsigned conv a s
        else if c = 0x64 then print_signed conv a s else if c = 0x63 then Some (putc (ucast a) (curr_term s) s)
        else map_option fst (puts a (curr_term s) s)) = Some s0" "shown conv t (conversion strs alternate c a) s s0"
      by blast
    have "printf_conv conv alternate (c # cs) args s = printf_chars conv cs as s0"
      using s0(1) 3 ne args by simp
    then show ?thesis using "4.IH"(3) [OF ne 3 args] out by (intro plain [OF out(1,2) _ s0(2)]) auto
  next
    case 4
    then show ?thesis
      using "4.prems"(1) by (intro plain [OF _ _ _ shown_Nil [OF "4.prems"(3)] _ "4.IH"(4)]) auto
  qed
qed

lemma hex8_value: "length (hex8 a) = 8 \<and> parse_numeral 16 (hex8 a) = unat a"
proof -
  have zeros: "foldl (\<lambda>n c. n * 16 + digit_value c) 0 (replicate k 0x30) = 0" for k
    by (induction k) (simp_all add: digit_value_def)
  then show ?thesis using hex_digits [of a] parse_numeral_string [of 16 "unat a"] by (simp add: hex8_def parse_numeral_def)
qed

section \<open>Main properties\<close>

text \<open>
  C32: \<open>printf\<close>. For every format and arguments that have a rendering (enough arguments, no
  conversion cut off at the end), every string argument and the local buffer off the page, the
  call returns the length of the format; the displayed terminal then shows the rendered text
  (\<open>%u\<close>, \<open>%d\<close> and \<open>%x\<close> as the numerals of the value, \<open>%#x\<close> as eight hexadecimal digits, \<open>%c\<close> and
  \<open>%s\<close> literally, \<open>%%\<close> as a percent sign), with the cursor on the screen; and memory changes
  only inside the page and the buffer.
\<close>
theorem printf_renders:
  assumes "render strs fmt args = Some (out, addrs)" "cursor_ok (curr_term s) s" "disjoint_regions conv 64 (page (curr_term s)) 4000"
    and "list_all (string_ok conv (curr_term s) strs s) addrs"
  shows "\<exists>s'. printf conv fmt args s = Some (s', int (length fmt)) \<and>
    screen_of (curr_term s) s' = fold put_char out (screen_of (curr_term s) s) \<and> cursor_ok (curr_term s) s' \<and>
    (\<forall>x. \<not> in_region x (page (curr_term s)) 4000 \<longrightarrow> \<not> in_region x conv 64 \<longrightarrow> memory s' x = memory s x)"
proof -
  obtain s' where "printf_chars conv fmt args s = Some s'" "shown conv (curr_term s) out s s'"
    using printf_shown(1) [OF assms(1) refl assms(2-4)] by blast
  then show ?thesis by (auto simp: printf_def shown_def)
qed

lemma replicate_five: "replicate 5 x = [x, x, x, x, x]"
  by (simp add: numeral_eq_Suc)

text \<open>The format \<open>%d:%#x\<close> with -42 and 391.\<close>

theorem printf_renders_witness:
  "\<exists>s'. printf 0x1000 [0x25, 0x64, 0x3A, 0x25, 0x23, 0x78] [-42, 391] (demo_console (\<lambda>_. 0) 3 4) = Some (s', 6) \<and>
     screen_of 0 s' = fold put_char [0x2D, 0x34, 0x32, 0x3A, 0x30, 0x30, 0x30, 0x30, 0x30, 0x31, 0x38, 0x37] (screen_of 0 (demo_console (\<lambda>_. 0) 3 4))"
proof -
  have d: "numeral_string 10 42 = [0x34, 0x32]" "numeral_string 16 391 = [0x31, 0x38, 0x37]" by code_simp+
  have r: "render (\<lambda>_. []) [0x25, 0x64, 0x3A, 0x25, 0x23, 0x78] [-42, 391] =
      Some ([0x2D, 0x34, 0x32, 0x3A, 0x30, 0x30, 0x30, 0x30, 0x30, 0x31, 0x38, 0x37], [])"
    by (simp add: conversion_def signed_string_def hex8_def d replicate_five)
  have c: "curr_term (demo_console (\<lambda>_. 0) 3 4) = 0" by (simp add: demo_console_def)
  have "cursor_ok 0 (demo_console (\<lambda>_. 0) 3 4)" "disjoint_regions 0x1000 64 (page 0) 4000" "list_all (string_ok 0x1000 0 (\<lambda>_. []) (demo_console (\<lambda>_. 0) 3 4)) []"
    by (simp_all add: cursor_ok_def demo_console_def console_consts disjoint_regions_def)
  then obtain s' where "printf 0x1000 [0x25, 0x64, 0x3A, 0x25, 0x23, 0x78] [-42, 391] (demo_console (\<lambda>_. 0) 3 4) = Some (s', int (length [0x25, 0x64, 0x3A, 0x25, 0x23, 0x78 :: u8]))"
      "screen_of 0 s' = fold put_char [0x2D, 0x34, 0x32, 0x3A, 0x30, 0x30, 0x30, 0x30, 0x30, 0x31, 0x38, 0x37] (screen_of 0 (demo_console (\<lambda>_. 0) 3 4))"
    using printf_renders [OF r, of "demo_console (\<lambda>_. 0) 3 4" "0x1000"] unfolding c by blast
  then show ?thesis by (intro exI [of _ s'] conjI) simp_all
qed

end
