(* ===== verification/Kernel.thy ===== *)
theory Kernel
  imports Shells Printf
begin

text \<open>
  The C entry of the kernel, \<open>kernel.c\<close>, with the boot loader's structures of \<open>multiboot.h\<close> and
  the segment descriptors of \<open>x86_desc.h\<close>: the report of the boot information, the mounting of
  the file system module, the descriptors of the LDT and the TSS, the initialisation of every
  device, and the start of the shells. The addresses the linker chooses are a parameter (a record
  \<open>linked\<close>), as are the addresses of the local buffers. \<open>launch_tests\<close> has an empty body.
\<close>

unbundle bit_operations_syntax

section \<open>The boot loader's structures\<close>

definition MULTIBOOT_BOOTLOADER_MAGIC :: u32 where "MULTIBOOT_BOOTLOADER_MAGIC = 0x2BADB002"
definition TSS_SIZE :: u32 where "TSS_SIZE = 104"
definition KERNEL_TSS :: u16 where "KERNEL_TSS = 0x0030"
definition KERNEL_LDT :: u16 where "KERNEL_LDT = 0x0038"

definition CHECK_FLAG :: "u32 \<Rightarrow> nat \<Rightarrow> bool" where
  "CHECK_FLAG flags b \<longleftrightarrow> flags AND push_bit b 1 \<noteq> 0"

text \<open>The members of \<open>multiboot_info_t\<close>, read at their offsets.\<close>

definition mbi_flags :: "mem \<Rightarrow> u32 \<Rightarrow> u32" where "mbi_flags m mbi = read32 m mbi"
definition mbi_mem_lower :: "mem \<Rightarrow> u32 \<Rightarrow> u32" where "mbi_mem_lower m mbi = read32 m (mbi + 4)"
definition mbi_mem_upper :: "mem \<Rightarrow> u32 \<Rightarrow> u32" where "mbi_mem_upper m mbi = read32 m (mbi + 8)"
definition mbi_boot_device :: "mem \<Rightarrow> u32 \<Rightarrow> u32" where "mbi_boot_device m mbi = read32 m (mbi + 12)"
definition mbi_cmdline :: "mem \<Rightarrow> u32 \<Rightarrow> u32" where "mbi_cmdline m mbi = read32 m (mbi + 16)"
definition mbi_mods_count :: "mem \<Rightarrow> u32 \<Rightarrow> u32" where "mbi_mods_count m mbi = read32 m (mbi + 20)"
definition mbi_mods_addr :: "mem \<Rightarrow> u32 \<Rightarrow> u32" where "mbi_mods_addr m mbi = read32 m (mbi + 24)"
definition elf_num :: "mem \<Rightarrow> u32 \<Rightarrow> u32" where "elf_num m mbi = read32 m (mbi + 28)"
definition elf_size :: "mem \<Rightarrow> u32 \<Rightarrow> u32" where "elf_size m mbi = read32 m (mbi + 32)"
definition elf_addr :: "mem \<Rightarrow> u32 \<Rightarrow> u32" where "elf_addr m mbi = read32 m (mbi + 36)"
definition elf_shndx :: "mem \<Rightarrow> u32 \<Rightarrow> u32" where "elf_shndx m mbi = read32 m (mbi + 40)"
definition mbi_mmap_length :: "mem \<Rightarrow> u32 \<Rightarrow> u32" where "mbi_mmap_length m mbi = read32 m (mbi + 44)"
definition mbi_mmap_addr :: "mem \<Rightarrow> u32 \<Rightarrow> u32" where "mbi_mmap_addr m mbi = read32 m (mbi + 48)"

lemmas mbi_defs = mbi_flags_def mbi_mem_lower_def mbi_mem_upper_def mbi_boot_device_def mbi_cmdline_def mbi_mods_count_def
  mbi_mods_addr_def elf_num_def elf_size_def elf_addr_def elf_shndx_def mbi_mmap_length_def mbi_mmap_addr_def

text \<open>The members of \<open>module_t\<close> and \<open>memory_map_t\<close>.\<close>

definition mod_start :: "mem \<Rightarrow> u32 \<Rightarrow> u32" where "mod_start m md = read32 m md"
definition mod_end :: "mem \<Rightarrow> u32 \<Rightarrow> u32" where "mod_end m md = read32 m (md + 4)"
definition mmap_size :: "mem \<Rightarrow> u32 \<Rightarrow> u32" where "mmap_size m e = read32 m e"
definition mmap_base_low :: "mem \<Rightarrow> u32 \<Rightarrow> u32" where "mmap_base_low m e = read32 m (e + 4)"
definition mmap_base_high :: "mem \<Rightarrow> u32 \<Rightarrow> u32" where "mmap_base_high m e = read32 m (e + 8)"
definition mmap_length_low :: "mem \<Rightarrow> u32 \<Rightarrow> u32" where "mmap_length_low m e = read32 m (e + 12)"
definition mmap_length_high :: "mem \<Rightarrow> u32 \<Rightarrow> u32" where "mmap_length_high m e = read32 m (e + 16)"
definition mmap_type :: "mem \<Rightarrow> u32 \<Rightarrow> u32" where "mmap_type m e = read32 m (e + 20)"

lemmas mmap_defs = mmap_size_def mmap_base_low_def mmap_base_high_def mmap_length_low_def mmap_length_high_def mmap_type_def

section \<open>Segment descriptors\<close>

record seg_desc_t =
  seg_lim_15_00 :: u16
  base_15_00 :: u16
  base_23_16 :: u8
  seg_type :: "4 word"
  seg_sys :: "1 word"
  seg_dpl :: "2 word"
  seg_present :: "1 word"
  seg_lim_19_16 :: "4 word"
  seg_avail :: "1 word"
  seg_reserved :: "1 word"
  seg_opsize :: "1 word"
  seg_granularity :: "1 word"
  base_31_24 :: u8

definition SET_LDT_PARAMS :: "u32 \<Rightarrow> u32 \<Rightarrow> seg_desc_t \<Rightarrow> seg_desc_t" where
  "SET_LDT_PARAMS addr lim d =
     d\<lparr>base_31_24 := ucast (drop_bit 24 (addr AND 0xFF000000)), base_23_16 := ucast (drop_bit 16 (addr AND 0x00FF0000)),
       base_15_00 := ucast (addr AND 0x0000FFFF), seg_lim_19_16 := ucast (drop_bit 16 (lim AND 0x000F0000)),
       seg_lim_15_00 := ucast (lim AND 0x0000FFFF)\<rparr>"

definition SET_TSS_PARAMS :: "u32 \<Rightarrow> u32 \<Rightarrow> seg_desc_t \<Rightarrow> seg_desc_t" where
  "SET_TSS_PARAMS addr lim d =
     d\<lparr>base_31_24 := ucast (drop_bit 24 (addr AND 0xFF000000)), base_23_16 := ucast (drop_bit 16 (addr AND 0x00FF0000)),
       base_15_00 := ucast (addr AND 0x0000FFFF), seg_lim_19_16 := ucast (drop_bit 16 (lim AND 0x000F0000)),
       seg_lim_15_00 := ucast (lim AND 0x0000FFFF)\<rparr>"

text \<open>The two entries of the GDT the code fills, the two registers, and a member of the TSS.\<close>

record kernel = keyboard +
  ldt_desc_ptr :: seg_desc_t
  tss_desc_ptr :: seg_desc_t
  ldtr :: u16
  task_register :: u16
  tss_ldt_selector :: u16

record linked =
  addr_page_directory :: u32
  addr_vid_page_table :: u32
  addr_user_vid_page_table :: u32
  addr_ldt :: u32
  val_ldt_size :: u32
  addr_tss :: u32
  val_tss_size :: u32
  addr_pit_int_ret :: u32
  addr_conv :: u32

section \<open>Reporting the boot information\<close>

text \<open>A call of \<open>printf\<close> whose result is not used.\<close>

definition print_boot :: "u32 \<Rightarrow> string \<Rightarrow> u32 list \<Rightarrow> 'a console_scheme \<Rightarrow> 'a console_scheme option" where
  "print_boot conv fmt args s = map_option fst (printf conv (ascii fmt) args s)"

primrec print_bytes :: "u32 \<Rightarrow> u32 \<Rightarrow> nat list \<Rightarrow> 'a console_scheme \<Rightarrow> 'a console_scheme option" where
  "print_bytes conv md [] s = Some s"
| "print_bytes conv md (i # is) s =
     do {
       s \<leftarrow> print_boot conv ''0x%x '' [scast (memory s (mod_start (memory s) md + of_nat i))] s;
       print_bytes conv md is s
     }"

definition print_module :: "u32 \<Rightarrow> u32 \<Rightarrow> u32 \<Rightarrow> 'a console_scheme \<Rightarrow> 'a console_scheme option" where
  "print_module conv mod_count md s =
     do {
       s \<leftarrow> print_boot conv ''Module %d loaded at address: 0x%#x\<newline>'' [mod_count, mod_start (memory s) md] s;
       s \<leftarrow> print_boot conv ''Module %d ends at address: 0x%#x\<newline>'' [mod_count, mod_end (memory s) md] s;
       s \<leftarrow> print_boot conv ''First few bytes of module:\<newline>'' [] s;
       s \<leftarrow> print_bytes conv md [0..<16] s;
       print_boot conv ''\<newline>'' [] s
     }"

partial_function (option) print_modules :: "u32 \<Rightarrow> u32 \<Rightarrow> u32 \<Rightarrow> u32 \<Rightarrow> 'a console_scheme \<Rightarrow> 'a console_scheme option" where
  "print_modules conv mbi mod_count md s =
     (if mod_count < mbi_mods_count (memory s) mbi
      then do {
        s \<leftarrow> print_module conv mod_count md s;
        print_modules conv mbi (mod_count + 1) (md + 16) s
      }
      else Some s)"

definition print_mmap_entry :: "u32 \<Rightarrow> u32 \<Rightarrow> 'a console_scheme \<Rightarrow> 'a console_scheme option" where
  "print_mmap_entry conv e s =
     print_boot conv ''    size = 0x%x, base_addr = 0x%#x%#x\<newline>    type = 0x%x,  length    = 0x%#x%#x\<newline>''
       [mmap_size (memory s) e, mmap_base_high (memory s) e, mmap_base_low (memory s) e, mmap_type (memory s) e,
        mmap_length_high (memory s) e, mmap_length_low (memory s) e] s"

partial_function (option) print_mmap :: "u32 \<Rightarrow> u32 \<Rightarrow> u32 \<Rightarrow> 'a console_scheme \<Rightarrow> 'a console_scheme option" where
  "print_mmap conv mbi e s =
     (if e < mbi_mmap_addr (memory s) mbi + mbi_mmap_length (memory s) mbi
      then do {
        s \<leftarrow> print_mmap_entry conv e s;
        print_mmap conv mbi (e + mmap_size (memory s) e + 4) s
      }
      else Some s)"

text \<open>The parts of \<open>entry\<close> up to the descriptors; \<^const>\<open>Inl\<close> is an early return.\<close>

definition report_info :: "u32 \<Rightarrow> u32 \<Rightarrow> 'a console_scheme \<Rightarrow> 'a console_scheme option" where
  "report_info conv mbi s =
     do {
       s \<leftarrow> print_boot conv ''flags = 0x%#x\<newline>'' [mbi_flags (memory s) mbi] s;
       s \<leftarrow> (if CHECK_FLAG (mbi_flags (memory s) mbi) 0
             then print_boot conv ''mem_lower = %uKB, mem_upper = %uKB\<newline>'' [mbi_mem_lower (memory s) mbi, mbi_mem_upper (memory s) mbi] s
             else Some s);
       s \<leftarrow> (if CHECK_FLAG (mbi_flags (memory s) mbi) 1
             then print_boot conv ''boot_device = 0x%#x\<newline>'' [mbi_boot_device (memory s) mbi] s else Some s);
       if CHECK_FLAG (mbi_flags (memory s) mbi) 2
       then print_boot conv ''cmdline = %s\<newline>'' [mbi_cmdline (memory s) mbi] s else Some s
     }"

definition mount_modules :: "u32 \<Rightarrow> u32 \<Rightarrow> 'a file_sys_scheme \<Rightarrow> 'a file_sys_scheme option" where
  "mount_modules conv mbi s =
     (if CHECK_FLAG (mbi_flags (memory s) mbi) 3
      then let md = mbi_mods_addr (memory s) mbi;
               s = snd (init_file_system (mod_start (memory s) md) (mod_end (memory s) md) s)
           in print_modules conv mbi 0 md s
      else Some s)"

definition report_sections :: "u32 \<Rightarrow> u32 \<Rightarrow> 'a console_scheme \<Rightarrow> 'a console_scheme option" where
  "report_sections conv mbi s =
     do {
       s \<leftarrow> (if CHECK_FLAG (mbi_flags (memory s) mbi) 5
             then print_boot conv ''elf_sec: num = %u, size = 0x%#x, addr = 0x%#x, shndx = 0x%#x\<newline>''
                    [elf_num (memory s) mbi, elf_size (memory s) mbi, elf_addr (memory s) mbi, elf_shndx (memory s) mbi] s
             else Some s);
       if CHECK_FLAG (mbi_flags (memory s) mbi) 6
       then do {
         s \<leftarrow> print_boot conv ''mmap_addr = 0x%#x, mmap_length = 0x%x\<newline>'' [mbi_mmap_addr (memory s) mbi, mbi_mmap_length (memory s) mbi] s;
         print_mmap conv mbi (mbi_mmap_addr (memory s) mbi) s
       }
       else Some s
     }"

definition report_rest :: "u32 \<Rightarrow> u32 \<Rightarrow> 'a file_sys_scheme \<Rightarrow> ('a file_sys_scheme + 'a file_sys_scheme) option" where
  "report_rest conv mbi s =
     (if CHECK_FLAG (mbi_flags (memory s) mbi) 4 \<and> CHECK_FLAG (mbi_flags (memory s) mbi) 5
      then map_option Inl (print_boot conv ''Both bits 4 and 5 are set.\<newline>'' [] s)
      else map_option Inr (report_sections conv mbi s))"

definition boot_report :: "u32 \<Rightarrow> u32 \<Rightarrow> u32 \<Rightarrow> 'a file_sys_scheme \<Rightarrow> ('a file_sys_scheme + 'a file_sys_scheme) option" where
  "boot_report conv magic addr s =
     (let s = clear s
      in if magic \<noteq> MULTIBOOT_BOOTLOADER_MAGIC
         then map_option Inl (print_boot conv ''Invalid magic number: 0x%#x\<newline>'' [magic] s)
         else do {
           let mbi = addr;
           s \<leftarrow> report_info conv mbi s;
           s \<leftarrow> mount_modules conv mbi s;
           report_rest conv mbi s
         })"

section \<open>Starting the system\<close>

text \<open>The local descriptors are not initialised: \<open>d\<close> is what the stack held.\<close>

definition setup_ldt :: "linked \<Rightarrow> seg_desc_t \<Rightarrow> 'a kernel_scheme \<Rightarrow> 'a kernel_scheme" where
  "setup_ldt K d s =
     (let d = d\<lparr>seg_granularity := 0, seg_opsize := 1, seg_reserved := 0, seg_avail := 0, seg_present := 1, seg_dpl := 0, seg_sys := 0, seg_type := 2\<rparr>;
          d = SET_LDT_PARAMS (addr_ldt K) (val_ldt_size K) d
      in s\<lparr>ldt_desc_ptr := d, ldtr := KERNEL_LDT\<rparr>)"

definition setup_tss :: "linked \<Rightarrow> seg_desc_t \<Rightarrow> 'a kernel_scheme \<Rightarrow> 'a kernel_scheme" where
  "setup_tss K d s =
     (let d = d\<lparr>seg_granularity := 0, seg_opsize := 0, seg_reserved := 0, seg_avail := 0, seg_lim_19_16 := ucast (TSS_SIZE AND 0x000F0000),
            seg_present := 1, seg_dpl := 0, seg_sys := 0, seg_type := 9, seg_lim_15_00 := ucast (TSS_SIZE AND 0x0000FFFF)\<rparr>;
          d = SET_TSS_PARAMS (addr_tss K) (val_tss_size K) d;
          s = s\<lparr>tss_desc_ptr := d\<rparr>;
          s = s\<lparr>tss_ldt_selector := KERNEL_LDT, tss_ss0 := KERNEL_DS, tss_esp0 := 0x800000\<rparr>
      in s\<lparr>task_register := KERNEL_TSS\<rparr>)"

definition setup_devices :: "linked \<Rightarrow> 'a kernel_scheme \<Rightarrow> 'a kernel_scheme" where
  "setup_devices K s =
     (let s = i8259_init s;
          s = initialize_rtc s;
          s = initialize_pit s;
          s = kbrd_init s
      in init_paging (addr_page_directory K) (addr_vid_page_table K) (addr_user_vid_page_table K) s)"

text \<open>How \<open>entry\<close> ends: an early return, in user mode, or in the final loop.\<close>

datatype 's boot_result = Boot_return 's | Boot_user 's | Boot_spin 's

definition entry :: "linked \<Rightarrow> locals \<Rightarrow> seg_desc_t \<Rightarrow> seg_desc_t \<Rightarrow> u32 \<Rightarrow> u32 \<Rightarrow> 'a kernel_scheme \<Rightarrow> 'a kernel_scheme boot_result option" where
  "entry K L the_ldt_desc the_tss_desc magic addr s =
     do {
       r \<leftarrow> boot_report (addr_conv K) magic addr s;
       case r of
         Inl s \<Rightarrow> Some (Boot_return s)
       | Inr s \<Rightarrow>
           do {
             let s = setup_ldt K the_ldt_desc s;
             let s = setup_tss K the_tss_desc s;
             let s = setup_devices K s;
             s \<leftarrow> print_boot (addr_conv K) ''Enabling Interrupts\<newline>'' [] s;
             let s = sti s;
             out \<leftarrow> execute_shells (addr_pit_int_ret K) L s;
             case out of
               Enter_user s \<Rightarrow> Some (Boot_user s)
             | Return _ s \<Rightarrow> Some (Boot_spin s)
             | Resume _ s \<Rightarrow> Some (Boot_spin s)
           }
     }"

section \<open>What the report prints\<close>

text \<open>The conversion characters of a format, in order.\<close>

fun convs :: "u8 list \<Rightarrow> u8 list option" and convs_conv :: "u8 list \<Rightarrow> u8 list option" where
  "convs [] = Some []"
| "convs (c # rest) = (if c = 0x25 then convs_conv rest else convs rest)"
| "convs_conv [] = None"
| "convs_conv (c # rest) =
     (if c = 0x25 then convs rest else if c = 0x23 then convs_conv rest
      else if c \<in> {0x78, 0x75, 0x64, 0x63, 0x73} then map_option (Cons c) (convs rest) else convs rest)"

definition string_args :: "u8 list \<Rightarrow> u32 list \<Rightarrow> u32 list" where
  "string_args ks args = map snd (filter (\<lambda>(k, a). k = 0x73) (zip ks args))"

lemma render_total:
  "convs fmt = Some ks \<Longrightarrow> length args = length ks \<Longrightarrow> \<exists>out. render strs fmt args = Some (out, string_args ks args)"
  "convs_conv fmt = Some ks \<Longrightarrow> length args = length ks \<Longrightarrow> \<exists>out. render_conv strs alternate fmt args = Some (out, string_args ks args)"
proof (induction fmt and fmt arbitrary: ks args and ks args alternate rule: convs_convs_conv.induct)
  case (4 c rest)
  show ?case
  proof (cases "c \<in> {0x78, 0x75, 0x64, 0x63, 0x73}")
    case True
    then obtain ks' where ks: "ks = c # ks'" "convs rest = Some ks'" using "4.prems" by (auto split: if_splits)
    then obtain a as where "args = a # as" "length as = length ks'" using "4.prems" by (cases args) auto
    then show ?thesis using 4(3) [OF _ _ True ks(2), of as] True ks by (auto simp: string_args_def)
  qed (use 4 in \<open>auto split: if_splits\<close>)
qed (auto simp: string_args_def split: if_splits)

definition message :: "(u32 \<Rightarrow> u8 list) \<Rightarrow> string \<Rightarrow> u32 list \<Rightarrow> u8 list" where
  "message strs fmt args = (case render strs (ascii fmt) args of None \<Rightarrow> [] | Some (out, _) \<Rightarrow> out)"

lemma print_boot_shown:
  fixes s :: "'a console_scheme"
  assumes "convs (ascii fmt) = Some ks" "length args = length ks" "curr_term s = t" "cursor_ok t s" "disjoint_regions conv 64 (page t) 4000"
    and "list_all (string_ok conv t strs s) (string_args ks args)"
  shows "\<exists>s'. print_boot conv fmt args s = Some s' \<and> shown conv t (message strs fmt args) s s'"
proof -
  obtain out where "render strs (ascii fmt) args = Some (out, string_args ks args)" using render_total(1) [OF assms(1,2)] by blast
  with printf_shown(1) [OF this assms(3-6)] show ?thesis
    by (auto simp: print_boot_def printf_def message_def)
qed

text \<open>
  A terminal \<open>t\<close> is ready for printing from a state whose memory agreed with \<open>m\<close> outside its
  page and the local buffer. Reads elsewhere still give the bytes of \<open>m\<close>.
\<close>

definition ready :: "u32 \<Rightarrow> u32 \<Rightarrow> mem \<Rightarrow> 'a console_scheme \<Rightarrow> bool" where
  "ready conv t m s \<longleftrightarrow> curr_term s = t \<and> cursor_ok t s \<and> disjoint_regions conv 64 (page t) 4000 \<and>
     (\<forall>x. \<not> in_region x (page t) 4000 \<longrightarrow> \<not> in_region x conv 64 \<longrightarrow> memory s x = m x)"

definition off_screen :: "u32 \<Rightarrow> u32 \<Rightarrow> u32 \<Rightarrow> nat \<Rightarrow> bool" where
  "off_screen conv t a n \<longleftrightarrow> disjoint_regions a n (page t) 4000 \<and> disjoint_regions a n conv 64 \<and> n \<le> 2 ^ 32"

lemma ready_byte: "ready conv t m s \<Longrightarrow> off_screen conv t a n \<Longrightarrow> j < n \<Longrightarrow> memory s (a + of_nat j) = m (a + of_nat j)"
  unfolding ready_def off_screen_def using in_region_offset [of j n a] disjoint_regionsD by blast

lemma ready_read32:
  assumes "ready conv t m s" "off_screen conv t a n" "j + 4 \<le> n"
  shows "read32 (memory s) (a + of_nat j) = read32 m (a + of_nat j)"
proof (rule read32_cong)
  fix i :: nat assume "i < 4"
  then show "memory s (a + of_nat j + of_nat i) = m (a + of_nat j + of_nat i)"
    using ready_byte [OF assms(1,2), of "j + i"] assms(3) by (simp add: algebra_simps)
qed

lemma ready_shown: "ready conv t m s \<Longrightarrow> shown conv t out s s' \<Longrightarrow> ready conv t m s'"
  unfolding ready_def shown_def using console_only_curr_term by fastforce

text \<open>Printing steps compose.\<close>

definition prints :: "u32 \<Rightarrow> u32 \<Rightarrow> u8 list \<Rightarrow> 'a console_scheme \<Rightarrow> 'a console_scheme option \<Rightarrow> bool" where
  "prints conv t out s r \<longleftrightarrow> (\<exists>s'. r = Some s' \<and> shown conv t out s s')"

lemma prints_bind:
  assumes "ready conv t m s" "prints conv t out s r" "\<And>s'. ready conv t m s' \<Longrightarrow> prints conv t out' s' (f s')"
  shows "prints conv t (out @ out') s (Option.bind r f)"
proof -
  obtain s' where r: "r = Some s'" "shown conv t out s s'" using assms(2) by (auto simp: prints_def)
  then show ?thesis using assms(3) [OF ready_shown [OF assms(1) r(2)]] shown_trans [OF r(2)] by (auto simp: prints_def)
qed

lemma prints_skip: "ready conv t m s \<Longrightarrow> prints conv t [] s (Some s)"
  by (simp add: prints_def shown_Nil ready_def)

lemma prints_if:
  "(b \<Longrightarrow> prints conv t out s r) \<Longrightarrow> ready conv t m s \<Longrightarrow> prints conv t (if b then out else []) s (if b then r else Some s)"
  using prints_skip by auto

lemma prints_boot:
  assumes "ready conv t m s" "convs (ascii fmt) = Some ks" "length args = length ks" "0x73 \<notin> set ks"
  shows "prints conv t (message strs fmt args) s (print_boot conv fmt args s)"
proof -
  have "string_args ks args = []" using assms(4) by (auto simp: string_args_def filter_empty_conv dest: set_zip_leftD)
  then show ?thesis
    using print_boot_shown [OF assms(2,3), of s t conv strs] assms(1) by (simp add: ready_def prints_def)
qed

section \<open>The text of the report\<close>

definition bytes_text :: "(u32 \<Rightarrow> u8 list) \<Rightarrow> mem \<Rightarrow> u32 \<Rightarrow> nat list \<Rightarrow> u8 list" where
  "bytes_text strs m a is = concat (map (\<lambda>i. message strs ''0x%x '' [scast (m (a + of_nat i))]) is)"

definition module_text :: "(u32 \<Rightarrow> u8 list) \<Rightarrow> mem \<Rightarrow> u32 \<Rightarrow> u32 \<Rightarrow> u8 list" where
  "module_text strs m k md =
     message strs ''Module %d loaded at address: 0x%#x\<newline>'' [k, mod_start m md] @
     message strs ''Module %d ends at address: 0x%#x\<newline>'' [k, mod_end m md] @
     message strs ''First few bytes of module:\<newline>'' [] @ bytes_text strs m (mod_start m md) [0..<16] @ message strs ''\<newline>'' []"

primrec modules_text :: "(u32 \<Rightarrow> u8 list) \<Rightarrow> mem \<Rightarrow> u32 \<Rightarrow> u32 \<Rightarrow> nat \<Rightarrow> u8 list" where
  "modules_text strs m k md 0 = []"
| "modules_text strs m k md (Suc n) = module_text strs m k md @ modules_text strs m (k + 1) (md + 16) n"

primrec modules_off :: "u32 \<Rightarrow> u32 \<Rightarrow> mem \<Rightarrow> u32 \<Rightarrow> nat \<Rightarrow> bool" where
  "modules_off conv t m md 0 = True"
| "modules_off conv t m md (Suc n) \<longleftrightarrow> off_screen conv t md 16 \<and> off_screen conv t (mod_start m md) 16 \<and> modules_off conv t m (md + 16) n"

text \<open>The entries of the memory map from \<open>e\<close> up to the address \<open>stop\<close>.\<close>

fun mmap_chain :: "u32 \<Rightarrow> u32 \<Rightarrow> mem \<Rightarrow> u32 \<Rightarrow> u32 \<Rightarrow> u32 list \<Rightarrow> bool" where
  "mmap_chain conv t m stop e [] \<longleftrightarrow> \<not> e < stop"
| "mmap_chain conv t m stop e (x # xs) \<longleftrightarrow>
     e < stop \<and> x = e \<and> off_screen conv t e 24 \<and> mmap_chain conv t m stop (e + mmap_size m e + 4) xs"

definition mmap_text :: "(u32 \<Rightarrow> u8 list) \<Rightarrow> mem \<Rightarrow> u32 list \<Rightarrow> u8 list" where
  "mmap_text strs m es = concat (map (\<lambda>e.
     message strs ''    size = 0x%x, base_addr = 0x%#x%#x\<newline>    type = 0x%x,  length    = 0x%#x%#x\<newline>''
       [mmap_size m e, mmap_base_high m e, mmap_base_low m e, mmap_type m e, mmap_length_high m e, mmap_length_low m e]) es)"

lemma ready_read32_0: "ready conv t m s \<Longrightarrow> off_screen conv t a n \<Longrightarrow> 4 \<le> n \<Longrightarrow> read32 (memory s) a = read32 m a"
  using ready_read32 [of conv t m s a n 0] by simp

lemmas ready_words = ready_read32_0 ready_read32 [where j = 4, simplified] ready_read32 [where j = 8, simplified]
  ready_read32 [where j = 12, simplified] ready_read32 [where j = 16, simplified] ready_read32 [where j = 20, simplified]
  ready_read32 [where j = 24, simplified] ready_read32 [where j = 28, simplified] ready_read32 [where j = 32, simplified]
  ready_read32 [where j = 36, simplified] ready_read32 [where j = 40, simplified] ready_read32 [where j = 44, simplified]
  ready_read32 [where j = 48, simplified]

lemma prints_bytes:
  "ready conv t m s \<Longrightarrow> off_screen conv t md 16 \<Longrightarrow> off_screen conv t (mod_start m md) 16 \<Longrightarrow> list_all (\<lambda>i. i < 16) is \<Longrightarrow>
   prints conv t (bytes_text strs m (mod_start m md) is) s (print_bytes conv md is s)"
proof (induction "is" arbitrary: s)
  case (Cons i "is")
  have f: "convs (ascii ''0x%x '') = Some [0x78]" by code_simp
  have "mod_start (memory s) md = mod_start m md" using ready_words [OF Cons.prems(1,2)] by (simp add: mod_start_def)
  then have "memory s (mod_start (memory s) md + of_nat i) = m (mod_start m md + of_nat i)"
    using ready_byte [OF Cons.prems(1,3)] Cons.prems(4) by simp
  then show ?case
    using prints_bind [OF Cons.prems(1) prints_boot [OF Cons.prems(1) f] Cons.IH, of "[_]"] Cons.prems by (simp add: bytes_text_def)
qed (simp add: bytes_text_def prints_skip)

lemma prints_module:
  assumes s: "ready conv t m s" and off: "off_screen conv t md 16" "off_screen conv t (mod_start m md) 16"
  shows "prints conv t (module_text strs m k md) s (print_module conv k md s)"
proof -
  have f: "convs (ascii ''Module %d loaded at address: 0x%#x\<newline>'') = Some [0x64, 0x78]"
    "convs (ascii ''Module %d ends at address: 0x%#x\<newline>'') = Some [0x64, 0x78]"
    "convs (ascii ''First few bytes of module:\<newline>'') = Some []" "convs (ascii ''\<newline>'') = Some []"
    by code_simp+
  have md: "mod_start (memory s) md = mod_start m md" "mod_end (memory s) md = mod_end m md" if "ready conv t m s" for s :: "'a console_scheme"
    using ready_words [OF that off(1)] by (simp_all add: mod_start_def mod_end_def)
  show ?thesis
    unfolding print_module_def module_text_def
    by (intro prints_bind [where m = m] prints_bytes s off)
       (auto simp: md md [OF s] list_all_iff intro!: s prints_boot [OF _ f(1)] prints_boot [OF _ f(2)] prints_boot [OF _ f(3)] prints_boot [OF _ f(4)])
qed

lemma prints_modules:
  "ready conv t m s \<Longrightarrow> off_screen conv t mbi 52 \<Longrightarrow> unat k + n = unat (mbi_mods_count m mbi) \<Longrightarrow> modules_off conv t m md n \<Longrightarrow>
   prints conv t (modules_text strs m k md n) s (print_modules conv mbi k md s)"
proof (induction n arbitrary: k md s)
  case 0
  have "mbi_mods_count (memory s) mbi = mbi_mods_count m mbi" using ready_words [OF 0(1,2)] by (simp add: mbi_mods_count_def)
  then have "\<not> k < mbi_mods_count (memory s) mbi" using 0(3) by (simp add: word_less_nat_alt)
  then show ?case by (subst print_modules.simps) (use prints_skip [OF 0(1)] in simp)
next
  case (Suc n)
  have c: "mbi_mods_count (memory s) mbi = mbi_mods_count m mbi" using ready_words [OF Suc.prems(1,2)] by (simp add: mbi_mods_count_def)
  have lt: "k < mbi_mods_count m mbi" using Suc.prems(3) by (simp add: word_less_nat_alt)
  have "unat (k + 1) + n = unat (mbi_mods_count m mbi)" using unat_inc_u32 [OF lt] Suc.prems(3) by simp
  then show ?case
    using Suc.prems c lt
    by (subst print_modules.simps) (auto intro!: prints_bind [OF Suc.prems(1)] prints_module Suc.IH)
qed

lemma prints_mmap:
  "ready conv t m s \<Longrightarrow> off_screen conv t mbi 52 \<Longrightarrow> mmap_chain conv t m (mbi_mmap_addr m mbi + mbi_mmap_length m mbi) e es \<Longrightarrow>
   prints conv t (mmap_text strs m es) s (print_mmap conv mbi e s)"
proof (induction es arbitrary: e s)
  case Nil
  have "mbi_mmap_addr (memory s) mbi = mbi_mmap_addr m mbi" "mbi_mmap_length (memory s) mbi = mbi_mmap_length m mbi"
    using ready_words [OF Nil(1,2)] by (simp_all add: mbi_defs)
  then show ?case by (subst print_mmap.simps) (use prints_skip [OF Nil(1)] Nil(3) in \<open>simp add: mmap_text_def\<close>)
next
  case (Cons x es)
  have f: "convs (ascii ''    size = 0x%x, base_addr = 0x%#x%#x\<newline>    type = 0x%x,  length    = 0x%#x%#x\<newline>'') = Some [0x78, 0x78, 0x78, 0x78, 0x78, 0x78]"
    by code_simp
  have stop: "mbi_mmap_addr (memory s) mbi = mbi_mmap_addr m mbi" "mbi_mmap_length (memory s) mbi = mbi_mmap_length m mbi"
    using ready_words [OF Cons.prems(1,2)] by (simp_all add: mbi_defs)
  have off: "off_screen conv t e 24" and x: "x = e" and lt: "e < mbi_mmap_addr m mbi + mbi_mmap_length m mbi"
    and chain: "mmap_chain conv t m (mbi_mmap_addr m mbi + mbi_mmap_length m mbi) (e + mmap_size m e + 4) es" using Cons.prems(3) by simp_all
  have size: "mmap_size (memory s') e = mmap_size m e" if "ready conv t m s'" for s' :: "'a console_scheme"
    using ready_words [OF that off] by (simp add: mmap_defs)
  have row: "prints conv t (mmap_text strs m [e]) s (print_mmap_entry conv e s)"
    using prints_boot [OF Cons.prems(1) f, of "[_, _, _, _, _, _]"] ready_words [OF Cons.prems(1) off]
    by (simp add: print_mmap_entry_def mmap_text_def mmap_defs)
  have "prints conv t (mmap_text strs m [e] @ mmap_text strs m es) s (Option.bind (print_mmap_entry conv e s) (\<lambda>s. print_mmap conv mbi (e + mmap_size (memory s) e + 4) s))"
    by (rule prints_bind [OF Cons.prems(1) row]) (simp add: size Cons.IH Cons.prems(2) chain)
  then show ?case using stop lt x by (subst print_mmap.simps) (simp add: mmap_text_def)
qed

text \<open>Everything the report prints for the information structure at \<open>mbi\<close> in memory \<open>m\<close>.\<close>

definition info_text :: "(u32 \<Rightarrow> u8 list) \<Rightarrow> mem \<Rightarrow> u32 \<Rightarrow> u8 list" where
  "info_text strs m mbi =
     message strs ''flags = 0x%#x\<newline>'' [mbi_flags m mbi] @
     (if CHECK_FLAG (mbi_flags m mbi) 0 then message strs ''mem_lower = %uKB, mem_upper = %uKB\<newline>'' [mbi_mem_lower m mbi, mbi_mem_upper m mbi] else []) @
     (if CHECK_FLAG (mbi_flags m mbi) 1 then message strs ''boot_device = 0x%#x\<newline>'' [mbi_boot_device m mbi] else []) @
     (if CHECK_FLAG (mbi_flags m mbi) 2 then message strs ''cmdline = %s\<newline>'' [mbi_cmdline m mbi] else [])"

definition sections_text :: "(u32 \<Rightarrow> u8 list) \<Rightarrow> mem \<Rightarrow> u32 \<Rightarrow> u32 list \<Rightarrow> u8 list" where
  "sections_text strs m mbi es =
     (if CHECK_FLAG (mbi_flags m mbi) 5 then message strs ''elf_sec: num = %u, size = 0x%#x, addr = 0x%#x, shndx = 0x%#x\<newline>''
         [elf_num m mbi, elf_size m mbi, elf_addr m mbi, elf_shndx m mbi] else []) @
     (if CHECK_FLAG (mbi_flags m mbi) 6 then message strs ''mmap_addr = 0x%#x, mmap_length = 0x%x\<newline>'' [mbi_mmap_addr m mbi, mbi_mmap_length m mbi] @
         mmap_text strs m es else [])"

definition boot_text :: "(u32 \<Rightarrow> u8 list) \<Rightarrow> mem \<Rightarrow> u32 \<Rightarrow> u32 \<Rightarrow> u32 list \<Rightarrow> u8 list" where
  "boot_text strs m magic mbi es =
     (if magic \<noteq> MULTIBOOT_BOOTLOADER_MAGIC then message strs ''Invalid magic number: 0x%#x\<newline>'' [magic]
      else info_text strs m mbi @
        (if CHECK_FLAG (mbi_flags m mbi) 3 then modules_text strs m 0 (mbi_mods_addr m mbi) (unat (mbi_mods_count m mbi)) else []) @
        (if CHECK_FLAG (mbi_flags m mbi) 4 \<and> CHECK_FLAG (mbi_flags m mbi) 5 then message strs ''Both bits 4 and 5 are set.\<newline>'' []
         else sections_text strs m mbi es))"

definition mounted :: "mem \<Rightarrow> u32 \<Rightarrow> u32 \<Rightarrow> u32 \<Rightarrow> u32" where
  "mounted m magic mbi bb =
     (let fs = mod_start m (mbi_mods_addr m mbi)
      in if magic = MULTIBOOT_BOOTLOADER_MAGIC \<and> CHECK_FLAG (mbi_flags m mbi) 3 \<and> num_dentries m fs \<le> 63 then fs else bb)"

definition boots_on :: "mem \<Rightarrow> u32 \<Rightarrow> u32 \<Rightarrow> bool" where
  "boots_on m magic mbi \<longleftrightarrow> magic = MULTIBOOT_BOOTLOADER_MAGIC \<and> \<not> (CHECK_FLAG (mbi_flags m mbi) 4 \<and> CHECK_FLAG (mbi_flags m mbi) 5)"

text \<open>The structures the flags announce lie outside the page and the local buffer.\<close>

definition boot_info :: "u32 \<Rightarrow> u32 \<Rightarrow> (u32 \<Rightarrow> u8 list) \<Rightarrow> mem \<Rightarrow> u32 \<Rightarrow> u32 list \<Rightarrow> bool" where
  "boot_info conv t strs m mbi es \<longleftrightarrow> off_screen conv t mbi 52 \<and>
     (CHECK_FLAG (mbi_flags m mbi) 2 \<longrightarrow> cstr_at m (mbi_cmdline m mbi) (strs (mbi_cmdline m mbi)) \<and>
        off_screen conv t (mbi_cmdline m mbi) (Suc (length (strs (mbi_cmdline m mbi))))) \<and>
     (CHECK_FLAG (mbi_flags m mbi) 3 \<longrightarrow> modules_off conv t m (mbi_mods_addr m mbi) (unat (mbi_mods_count m mbi)) \<and>
        off_screen conv t (mbi_mods_addr m mbi) 16 \<and> off_screen conv t (mod_start m (mbi_mods_addr m mbi)) 16) \<and>
     (CHECK_FLAG (mbi_flags m mbi) 6 \<longrightarrow> mmap_chain conv t m (mbi_mmap_addr m mbi + mbi_mmap_length m mbi) (mbi_mmap_addr m mbi) es)"

lemma prints_cmdline:
  assumes "ready conv t m s" "cstr_at m a (strs a)" "off_screen conv t a (Suc (length (strs a)))"
  shows "prints conv t (message strs ''cmdline = %s\<newline>'' [a]) s (print_boot conv ''cmdline = %s\<newline>'' [a] s)"
proof -
  have f: "convs (ascii ''cmdline = %s\<newline>'') = Some [0x73]" by code_simp
  have "cstr_at (memory s) a (strs a)"
    by (rule cstr_at_cong [OF _ assms(2)]) (use ready_byte [OF assms(1,3)] in simp)
  then have "string_ok conv t strs s a" using assms(3) by (simp add: string_ok_def off_screen_def)
  then show ?thesis
    using print_boot_shown [OF f, of "[a]" s t conv strs] assms(1) by (simp add: ready_def prints_def string_args_def)
qed

lemma shown_boot_block: "shown conv t out s s' \<Longrightarrow> shown conv t out (s\<lparr>boot_block := b\<rparr>) (s'\<lparr>boot_block := b\<rparr>)"
  for s :: "'a file_sys_scheme"
proof -
  assume shown: "shown conv t out s s'"
  then obtain m x y l where "s' = s\<lparr>memory := m, screen_x := x, screen_y := y, io_log := l @ io_log s\<rparr>" and
    l: "set (map fst l) \<subseteq> {CURSOR_PORT, CURSOR_PORT + 1}" by (auto simp: shown_def console_only_def)
  then have "s'\<lparr>boot_block := b\<rparr> = (s\<lparr>boot_block := b\<rparr>)\<lparr>memory := m, screen_x := x, screen_y := y, io_log := l @ io_log (s\<lparr>boot_block := b\<rparr>)\<rparr>" by simp
  then have "console_only (s\<lparr>boot_block := b\<rparr>) (s'\<lparr>boot_block := b\<rparr>)" unfolding console_only_def using l by blast
  moreover have "screen_of t (r\<lparr>boot_block := b\<rparr>) = screen_of t r" for r :: "'a file_sys_scheme" by (simp add: screen_of_def cong: if_cong)
  ultimately show ?thesis using shown by (simp add: shown_def cursor_ok_def)
qed

lemma ready_boot_block: "ready conv t m (s\<lparr>boot_block := b\<rparr>) = ready conv t m s" for s :: "'a file_sys_scheme"
  by (simp add: ready_def cursor_ok_def)

lemma prints_Some: "prints conv t out s r \<Longrightarrow> \<exists>s'. r = Some s' \<and> shown conv t out s s'"
  by (simp add: prints_def)

lemma mount_result:
  fixes s :: "'a file_sys_scheme"
  assumes "ready conv t m s" "off_screen conv t a 16"
  shows "snd (init_file_system a e s) = s\<lparr>boot_block := if num_dentries m a \<le> 63 then a else boot_block s\<rparr>"
  using ready_words(1) [OF assms] by (simp add: init_file_system_def num_dentries_def NUM_DENTRIES_def not_le)

text \<open>A run of the report that ends, early or not, with the text printed and the image mounted at \<open>b\<close>.\<close>

definition reports :: "u32 \<Rightarrow> u32 \<Rightarrow> u8 list \<Rightarrow> 'a file_sys_scheme \<Rightarrow> ('a file_sys_scheme + 'a file_sys_scheme) option \<Rightarrow> bool \<Rightarrow> u32 \<Rightarrow> bool" where
  "reports conv t out s r on b \<longleftrightarrow> (\<exists>s'. r = Some (if on then Inr s' else Inl s') \<and> shown conv t out (s\<lparr>boot_block := b\<rparr>) s')"

lemma reports_bind:
  assumes "ready conv t m s" "prints conv t out s r" "\<And>s'. ready conv t m s' \<Longrightarrow> boot_block s' = boot_block s \<Longrightarrow> reports conv t out' s' (f s') on b"
  shows "reports conv t (out @ out') s (Option.bind r f) on b"
proof -
  obtain s' where s': "r = Some s'" "shown conv t out s s'" using assms(2) by (auto simp: prints_def)
  moreover from s'(2) have "boot_block s' = boot_block s" by (auto simp: shown_def console_only_def)
  ultimately show ?thesis
    using assms(3) [OF ready_shown [OF assms(1) s'(2)]] shown_trans [OF shown_boot_block [OF s'(2)]] by (auto simp: reports_def)
qed

lemma reports_mount:
  assumes "ready conv t m s" "prints conv t out (s\<lparr>boot_block := b\<rparr>) r" "\<And>s'. ready conv t m s' \<Longrightarrow> boot_block s' = b \<Longrightarrow> reports conv t out' s' (f s') on b"
  shows "reports conv t (out @ out') s (Option.bind r f) on b"
  using reports_bind [of conv t m "s\<lparr>boot_block := b\<rparr>" out r out' f on b] assms by (simp add: ready_boot_block reports_def)

lemma reports_end: "prints conv t out s r \<Longrightarrow> boot_block s = b \<Longrightarrow> reports conv t out s (map_option Inr r) True b"
  "prints conv t out s r \<Longrightarrow> boot_block s = b \<Longrightarrow> reports conv t out s (map_option Inl r) False b"
  by (auto simp: reports_def prints_def)

lemma clear_frame [simp]: "boot_block (clear s) = boot_block s" for s :: "'a file_sys_scheme"
  by (simp add: clear_def Let_def)

lemma ready_clear:
  assumes "cursor_ok (curr_term s) s" "disjoint_regions conv 64 (page (curr_term s)) 4000"
  shows "ready conv (curr_term s) (memory (clear s)) (clear s)"
  using assms by (simp add: ready_def clear_def Let_def cursor_ok_def)

lemma ready_mbi:
  assumes "ready conv t m s" "off_screen conv t mbi 52"
  shows "mbi_flags (memory s) mbi = mbi_flags m mbi" "mbi_mem_lower (memory s) mbi = mbi_mem_lower m mbi" "mbi_mem_upper (memory s) mbi = mbi_mem_upper m mbi"
    "mbi_boot_device (memory s) mbi = mbi_boot_device m mbi" "mbi_cmdline (memory s) mbi = mbi_cmdline m mbi" "mbi_mods_addr (memory s) mbi = mbi_mods_addr m mbi"
    "elf_num (memory s) mbi = elf_num m mbi" "elf_size (memory s) mbi = elf_size m mbi" "elf_addr (memory s) mbi = elf_addr m mbi" "elf_shndx (memory s) mbi = elf_shndx m mbi"
    "mbi_mmap_addr (memory s) mbi = mbi_mmap_addr m mbi" "mbi_mmap_length (memory s) mbi = mbi_mmap_length m mbi"
  using ready_words [OF assms] by (simp_all add: mbi_defs)

lemma prints_info:
  assumes s: "ready conv t m s" and info: "boot_info conv t strs m mbi es"
  shows "prints conv t (info_text strs m mbi) s (report_info conv mbi s)"
proof -
  have f: "convs (ascii ''flags = 0x%#x\<newline>'') = Some [0x78]" "convs (ascii ''mem_lower = %uKB, mem_upper = %uKB\<newline>'') = Some [0x75, 0x75]"
    "convs (ascii ''boot_device = 0x%#x\<newline>'') = Some [0x78]" by code_simp+
  have off: "off_screen conv t mbi 52" using info by (simp add: boot_info_def)
  show ?thesis
    unfolding report_info_def info_text_def
    by (intro prints_bind [where m = m] s; simp only: ready_mbi [OF _ off] ready_mbi [OF s off]; (intro prints_if [where m = m])?)
       (use info in \<open>auto simp: boot_info_def intro!: s prints_cmdline prints_boot [OF _ f(1)] prints_boot [OF _ f(2)] prints_boot [OF _ f(3)]\<close>)
qed

lemma prints_sections:
  assumes s: "ready conv t m s" and info: "boot_info conv t strs m mbi es"
  shows "prints conv t (sections_text strs m mbi es) s (report_sections conv mbi s)"
proof -
  have f: "convs (ascii ''elf_sec: num = %u, size = 0x%#x, addr = 0x%#x, shndx = 0x%#x\<newline>'') = Some [0x75, 0x78, 0x78, 0x78]"
    "convs (ascii ''mmap_addr = 0x%#x, mmap_length = 0x%x\<newline>'') = Some [0x78, 0x78]" by code_simp+
  have off: "off_screen conv t mbi 52" using info by (simp add: boot_info_def)
  show ?thesis
    unfolding report_sections_def sections_text_def
    by (intro prints_bind [where m = m] s; simp only: ready_mbi [OF _ off] ready_mbi [OF s off]; (intro prints_if [where m = m] prints_bind [where m = m])?)
       (use info in \<open>auto simp: boot_info_def ready_mbi [OF _ off] intro!: s prints_mmap prints_boot [OF _ f(1)] prints_boot [OF _ f(2)]\<close>)
qed

lemma prints_mount:
  fixes s :: "'a file_sys_scheme"
  assumes s: "ready conv t m s" and info: "boot_info conv t strs m mbi es"
  shows "prints conv t (if CHECK_FLAG (mbi_flags m mbi) 3 then modules_text strs m 0 (mbi_mods_addr m mbi) (unat (mbi_mods_count m mbi)) else [])
    (s\<lparr>boot_block := mounted m MULTIBOOT_BOOTLOADER_MAGIC mbi (boot_block s)\<rparr>) (mount_modules conv mbi s)"
proof -
  let ?mods = "mbi_mods_addr m mbi" and ?b = "mounted m MULTIBOOT_BOOTLOADER_MAGIC mbi (boot_block s)"
  have off: "off_screen conv t mbi 52" using info by (simp add: boot_info_def)
  note flags = ready_mbi [OF s off]
  show ?thesis
  proof (cases "CHECK_FLAG (mbi_flags m mbi) 3")
    case True
    have md: "off_screen conv t ?mods 16" "off_screen conv t (mod_start m ?mods) 16" using info True by (simp_all add: boot_info_def)
    have "mod_start (memory s) ?mods = mod_start m ?mods" using ready_words [OF s md(1)] by (simp add: mod_start_def)
    then have "mount_modules conv mbi s = print_modules conv mbi 0 ?mods (s\<lparr>boot_block := ?b\<rparr>)"
      using True mount_result [OF s md(2)] by (simp add: mount_modules_def flags mounted_def Let_def)
    then show ?thesis using True info s off by (auto simp: boot_info_def ready_boot_block intro!: prints_modules)
  qed (use prints_skip [OF s] flags in \<open>simp add: mount_modules_def mounted_def\<close>)
qed

lemma reports_rest:
  fixes s :: "'a file_sys_scheme"
  assumes s: "ready conv t m s" and info: "boot_info conv t strs m mbi es"
  shows "reports conv t (if CHECK_FLAG (mbi_flags m mbi) 4 \<and> CHECK_FLAG (mbi_flags m mbi) 5 then message strs ''Both bits 4 and 5 are set.\<newline>'' []
      else sections_text strs m mbi es) s (report_rest conv mbi s) (boots_on m MULTIBOOT_BOOTLOADER_MAGIC mbi) (boot_block s)"
proof -
  have f: "convs (ascii ''Both bits 4 and 5 are set.\<newline>'') = Some []" by code_simp
  have off: "off_screen conv t mbi 52" using info by (simp add: boot_info_def)
  show ?thesis
    using reports_end(1) [OF prints_sections [OF s info] refl] reports_end(2) [OF prints_boot [OF s f, of "[]" strs] refl]
    by (auto simp: ready_mbi [OF s off] boots_on_def report_rest_def)
qed

lemma boot_report_runs:
  fixes s :: "'a file_sys_scheme"
  defines "m \<equiv> memory (clear s)" and "t \<equiv> curr_term s"
  assumes con: "cursor_ok t s" "disjoint_regions conv 64 (page t) 4000" and info: "boot_info conv t strs m mbi es"
  shows "reports conv t (boot_text strs m magic mbi es) (clear s) (boot_report conv magic mbi s) (boots_on m magic mbi)
    (mounted m magic mbi (boot_block s))"
proof -
  have f: "convs (ascii ''Invalid magic number: 0x%#x\<newline>'') = Some [0x78]" by code_simp
  have r0: "ready conv t m (clear s)" using ready_clear con by (simp add: m_def t_def)
  let ?b = "mounted m magic mbi (boot_block s)"
  show ?thesis
  proof (cases "magic = MULTIBOOT_BOOTLOADER_MAGIC")
    case True
    let ?mods = "if CHECK_FLAG (mbi_flags m mbi) 3 then modules_text strs m 0 (mbi_mods_addr m mbi) (unat (mbi_mods_count m mbi)) else []"
    let ?rest = "if CHECK_FLAG (mbi_flags m mbi) 4 \<and> CHECK_FLAG (mbi_flags m mbi) 5 then message strs ''Both bits 4 and 5 are set.\<newline>'' []
      else sections_text strs m mbi es"
    have mods: "prints conv t ?mods (s'\<lparr>boot_block := ?b\<rparr>) (mount_modules conv mbi s')"
      if "ready conv t m s'" "boot_block s' = boot_block (clear s)" for s' :: "'a file_sys_scheme"
      using prints_mount [OF that(1) info] unfolding that(2) clear_frame True .
    have rest: "reports conv t ?rest s' (report_rest conv mbi s') (boots_on m magic mbi) ?b"
      if "ready conv t m s'" "boot_block s' = ?b" for s' :: "'a file_sys_scheme"
      using reports_rest [OF that(1) info] unfolding that(2) unfolding True .
    have "reports conv t (info_text strs m mbi @ ?mods @ ?rest) (clear s)
      (report_info conv mbi (clear s) \<bind> (\<lambda>s. mount_modules conv mbi s \<bind> report_rest conv mbi)) (boots_on m magic mbi) ?b"
      by (rule reports_bind [OF r0 prints_info [OF r0 info]], rule reports_mount [where m = m], assumption, erule (1) mods, erule (1) rest)
    then show ?thesis using True by (simp add: boot_report_def boot_text_def)
  qed (use reports_end(2) [OF prints_boot [OF r0 f, of "[magic]" strs]] in \<open>simp add: boot_report_def boot_text_def boots_on_def mounted_def\<close>)
qed

section \<open>Descriptors\<close>

text \<open>The base and limit the processor reads from a descriptor.\<close>

definition seg_base :: "seg_desc_t \<Rightarrow> u32" where
  "seg_base d = push_bit 24 (ucast (base_31_24 d)) OR push_bit 16 (ucast (base_23_16 d)) OR ucast (base_15_00 d)"

definition seg_limit :: "seg_desc_t \<Rightarrow> u32" where
  "seg_limit d = push_bit 16 (ucast (seg_lim_19_16 d)) OR ucast (seg_lim_15_00 d)"

lemma field_masks: "(0xFF000000 :: u32) = push_bit 24 (mask 8)" "(0x00FF0000 :: u32) = push_bit 16 (mask 8)" "(0x000F0000 :: u32) = push_bit 16 (mask 4)"
  "(0x0000FFFF :: u32) = mask 16"
  by (simp_all add: mask_eq_exp_minus_1)

lemma joined_base:
  "push_bit 24 (ucast (ucast (drop_bit 24 (a AND 0xFF000000)) :: u8)) OR push_bit 16 (ucast (ucast (drop_bit 16 (a AND 0x00FF0000)) :: u8)) OR
     ucast (ucast (a AND 0x0000FFFF) :: u16) = a" (is "?l = a") for a :: u32
proof (rule bit_word_eqI)
  fix n assume "n < LENGTH(32)"
  then consider "n < 16" | "16 \<le> n" "n < 24" | "24 \<le> n" "n < 32" by fastforce
  then show "bit ?l n = bit a n"
    by cases (simp_all add: less_diff_conv2 field_masks bit_or_iff bit_and_iff bit_push_bit_iff bit_drop_bit_eq bit_ucast_iff bit_mask_iff)
qed

lemma joined_limit:
  "push_bit 16 (ucast (ucast (drop_bit 16 (l AND 0x000F0000)) :: 4 word)) OR ucast (ucast (l AND 0x0000FFFF) :: u16) = take_bit 20 l"
  (is "?l = _") for l :: u32
proof (rule bit_word_eqI)
  fix n assume "n < LENGTH(32)"
  then consider "n < 16" | "16 \<le> n" "n < 20" | "20 \<le> n" "n < 32" by fastforce
  then show "bit ?l n = bit (take_bit 20 l) n"
    by cases (simp_all add: less_diff_conv2 field_masks bit_or_iff bit_and_iff bit_push_bit_iff bit_drop_bit_eq bit_ucast_iff bit_mask_iff bit_take_bit_iff)
qed

lemma params_base_limit:
  "seg_base (SET_LDT_PARAMS a l d) = a" "seg_limit (SET_LDT_PARAMS a l d) = take_bit 20 l"
  "seg_base (SET_TSS_PARAMS a l d) = a" "seg_limit (SET_TSS_PARAMS a l d) = take_bit 20 l"
  using joined_base [of a] joined_limit [of l] by (simp_all add: seg_base_def seg_limit_def SET_LDT_PARAMS_def SET_TSS_PARAMS_def)

section \<open>Devices\<close>

lemma enabled_irqs_cong: "master_mask s' = master_mask s \<Longrightarrow> slave_mask s' = slave_mask s \<Longrightarrow> enabled_irqs s' = enabled_irqs s"
  by (simp add: enabled_irqs_def irq_enabled_def)

lemma enabled_initialize_rtc: "enabled_irqs (initialize_rtc s) = insert 8 (enabled_irqs s)" for s :: "'a rtc_scheme"
  by (simp add: initialize_rtc_def Let_def enabled_enable_irq enabled_disable_irq rtc_enabled_change_rate rtc_consts)

lemma enabled_initialize_pit: "enabled_irqs (initialize_pit s) = insert 0 (enabled_irqs s)" for s :: "'a process_sys_scheme"
  by (auto simp: initialize_pit_def Let_def enabled_enable_irq enabled_disable_irq proc_consts)

lemma enabled_kbrd_init: "enabled_irqs (kbrd_init s) = insert 1 (enabled_irqs s)" for s :: "'a keyboard_scheme"
  by (auto simp: kbrd_init_def Let_def enabled_enable_irq kbrd_consts update_curr_term_def intro!: arg_cong [where f = "insert _"] enabled_irqs_cong)

text \<open>The drivers only change the masks, the ports and the interrupt flag.\<close>

definition pic_only :: "'a pic_scheme \<Rightarrow> 'a pic_scheme \<Rightarrow> bool" where
  "pic_only s s' \<longleftrightarrow> (\<exists>l f mm sm. s' = s\<lparr>io_log := l, int_flag := f, master_mask := mm, slave_mask := sm\<rparr>)"

lemma pic_only_trans: "pic_only s s' \<Longrightarrow> pic_only s' s'' \<Longrightarrow> pic_only s s''"
  by (fastforce simp: pic_only_def)

lemma pic_only_outb: "pic_only s (outb d p s)"
  unfolding pic_only_def outb_def by (intro exI [of _ "(p, ucast d) # io_log s"] exI [of _ "int_flag s"] exI [of _ "master_mask s"] exI [of _ "slave_mask s"]) simp

lemma pic_only_flag: "pic_only s (cli s)" "pic_only s (sti s)"
  unfolding pic_only_def cli_def sti_def
  by (rule exI [of _ "io_log s"], rule exI, rule exI [of _ "master_mask s"], rule exI [of _ "slave_mask s"], simp)+

lemma pic_only_mask: "pic_only s (s\<lparr>master_mask := v\<rparr>)" "pic_only s (s\<lparr>slave_mask := v\<rparr>)"
  unfolding pic_only_def by (metis pic.surjective pic.update_convs machine.update_convs)+

lemmas pic_only_after = pic_only_outb [THEN pic_only_trans [rotated]] pic_only_flag [THEN pic_only_trans [rotated]]
  pic_only_mask [THEN pic_only_trans [rotated]]

lemma pic_only_refl: "pic_only s s"
  unfolding pic_only_def by (intro exI [of _ "io_log s"] exI [of _ "int_flag s"] exI [of _ "master_mask s"] exI [of _ "slave_mask s"]) simp

lemma pic_only_irq: "pic_only s (enable_irq n s)" "pic_only s (disable_irq n s)" "pic_only s (i8259_init s)"
  by (auto simp: enable_irq_def disable_irq_def i8259_init_def Let_def intro!: pic_only_after pic_only_refl)

lemma pic_only_drivers: "pic_only s (initialize_rtc s)" "pic_only s' (initialize_pit s')"
  for s :: "'a rtc_scheme" and s' :: "'b process_sys_scheme"
  by (auto simp: initialize_rtc_def change_rate_def initialize_pit_def Let_def intro!: pic_only_after pic_only_irq [THEN pic_only_trans [rotated]] pic_only_refl)

lemma init_paging_form:
  fixes s :: "'a paging_scheme" and pd vpt uvpt :: u32
  assumes "user_window s = None"
  defines "s' \<equiv> init_paging pd vpt uvpt s"
  shows "s' = s\<lparr>page_directory := page_directory s', vid_page_table := vid_page_table s', user_vid_page_table := user_vid_page_table s',
    cr0 := cr0 s', cr3 := cr3 s', cr4 := cr4 s'\<rparr>"
proof -
  have "page_directory s' 32 = push_bit 22 32 OR 0x82" by (simp add: s'_def init_page_directory)
  then have "user_frame_base (page_directory s' 32) = None" by (simp add: user_frame_base_def paging_consts)
  then have "user_window s' = None" "memory s' = memory s" "frames s' = frames s"
    using assms(1) by (simp_all add: s'_def init_paging_def Let_def load_cr3_def park_frames_def USER_PROCESS_INDEX_def USER_VID_PT_INDEX_def)
  then show ?thesis
    by (intro paging.equality) (simp_all add: assms(1), simp_all add: s'_def init_paging_def Let_def load_cr3_def)
qed

text \<open>What the initialisation leaves alone.\<close>

lemma setup_devices_frame:
  fixes s :: "'a kernel_scheme" and K :: linked
  assumes "user_window s = None" "current_terminal s = 0"
  defines "s' \<equiv> setup_devices K s"
  shows "memory s' = write_bytes (memory s) (kbrd_buf s) (replicate 128 0)" "user_window s' = None" "boot_block s' = boot_block s" "esp s' = esp s"
    "process_array s' = process_array s" "curr_term s' = 0" "screen_x s' = screen_x s" "screen_y s' = screen_y s"
    "ldt_desc_ptr s' = ldt_desc_ptr s" "tss_desc_ptr s' = tss_desc_ptr s" "ldtr s' = ldtr s" "task_register s' = task_register s"
    "enabled_irqs s' = {0, 1, 2, 8} \<union> enabled_irqs s"
proof -
  define s1 where "s1 = initialize_pit (initialize_rtc (i8259_init s))"
  have "pic_only s s1"
    unfolding s1_def by (intro pic_only_drivers(2) [THEN pic_only_trans [rotated]] pic_only_drivers(1) [THEN pic_only_trans [rotated]] pic_only_irq)
  then obtain l f mm sm where s1: "s1 = s\<lparr>io_log := l, int_flag := f, master_mask := mm, slave_mask := sm\<rparr>" by (auto simp: pic_only_def)
  define s2 where "s2 = kbrd_init s1"
  have "pic_only (s1\<lparr>is_shift := (is_shift s)(0 := 0), is_caps := (is_caps s)(0 := 0), is_ctrl := (is_ctrl s)(0 := 0), is_alt := (is_alt s)(0 := 0),
      memory := write_bytes (memory s) (kbrd_buf s) (replicate 128 0), current_terminal := 0, curr_term := 0\<rparr>) s2"
    using pic_only_irq(1) assms(2) by (simp add: s2_def s1 kbrd_init_def Let_def update_curr_term_def kbrd_row_def memset_eq kbrd_consts)
  then obtain l2 f2 mm2 sm2 where s2: "s2 = s\<lparr>is_shift := (is_shift s)(0 := 0), is_caps := (is_caps s)(0 := 0), is_ctrl := (is_ctrl s)(0 := 0), is_alt := (is_alt s)(0 := 0),
      memory := write_bytes (memory s) (kbrd_buf s) (replicate 128 0), current_terminal := 0, curr_term := 0,
      io_log := l2, int_flag := f2, master_mask := mm2, slave_mask := sm2\<rparr>" by (auto simp: pic_only_def s1)
  have s': "s' = init_paging (addr_page_directory K) (addr_vid_page_table K) (addr_user_vid_page_table K) s2"
    by (simp add: s'_def setup_devices_def Let_def s2_def s1_def)
  have "user_window s2 = None" using assms(1) by (simp add: s2)
  note form = init_paging_form [OF this, of "addr_page_directory K" "addr_vid_page_table K" "addr_user_vid_page_table K", folded s']
  show "memory s' = write_bytes (memory s) (kbrd_buf s) (replicate 128 0)" "user_window s' = None" "boot_block s' = boot_block s" "esp s' = esp s"
    "process_array s' = process_array s" "curr_term s' = 0" "screen_x s' = screen_x s" "screen_y s' = screen_y s"
    "ldt_desc_ptr s' = ldt_desc_ptr s" "tss_desc_ptr s' = tss_desc_ptr s" "ldtr s' = ldtr s" "task_register s' = task_register s"
    by (subst form, simp add: s2 assms(1))+
  have "enabled_irqs s' = enabled_irqs s2" by (rule enabled_irqs_cong; subst form; simp)
  then show "enabled_irqs s' = {0, 1, 2, 8} \<union> enabled_irqs s"
    by (auto simp: s2_def s1_def enabled_kbrd_init enabled_initialize_pit enabled_initialize_rtc enabled_i8259_init)
qed

end
