(* ===== verification/Boot.thy ===== *)
theory Boot
  imports Kernel
begin

text \<open>
  From the boot loader to the first user program: \<open>entry\<close> with every step of the initialisation
  and the start of the shells, as one run.
\<close>

section \<open>The assumptions on the machine at the entry\<close>

text \<open>The initial values of the kernel's variables.\<close>

definition boot_initial :: "'a kernel_scheme \<Rightarrow> bool" where
  "boot_initial s \<longleftrightarrow> curr_term s = 0 \<and> current_terminal s = 0 \<and> cursor_ok 0 s \<and> master_mask s = 0xFF \<and> slave_mask s = 0xFF \<and>
     process_array s = (\<lambda>_. 0) \<and> user_window s = None \<and> user_vid_page_table s = (\<lambda>_. 0)"

text \<open>The places of the tables and of the blocks the boot code writes.\<close>

definition boot_layout :: "linked \<Rightarrow> locals \<Rightarrow> nat \<Rightarrow> u32 \<Rightarrow> 'a kernel_scheme \<Rightarrow> bool" where
  "boot_layout K L blocks bb s \<longleftrightarrow> disjoint_regions bb (blocks * 4096) (page 0) 4000 \<and> disjoint_regions bb (blocks * 4096) (addr_conv K) 64 \<and>
     disjoint_regions bb (blocks * 4096) (kbrd_buf s) 128 \<and> disjoint_regions (addr_conv K) 64 (page 0) 4000 \<and>
     shells_layout L blocks (s\<lparr>boot_block := bb\<rparr>) \<and>
     addr_vid_page_table K AND 0xFFF = 0 \<and> addr_user_vid_page_table K AND 0xFFF = 0 \<and> addr_vid_page_table K \<noteq> addr_user_vid_page_table K"

section \<open>The state before the shells\<close>

lemma console_only_frame:
  fixes s s' :: "'a kernel_scheme"
  assumes "console_only s s'"
  shows "curr_term s' = curr_term s" "current_terminal s' = current_terminal s" "master_mask s' = master_mask s" "slave_mask s' = slave_mask s"
    "process_array s' = process_array s" "user_window s' = user_window s" "user_vid_page_table s' = user_vid_page_table s"
    "vid_page_table s' = vid_page_table s" "page_directory s' = page_directory s" "kbrd_buf s' = kbrd_buf s" "esp s' = esp s" "boot_block s' = boot_block s"
    "ldt_desc_ptr s' = ldt_desc_ptr s" "tss_desc_ptr s' = tss_desc_ptr s" "ldtr s' = ldtr s" "task_register s' = task_register s"
  using assms by (auto simp: console_only_def)

lemma clear_kernel [simp]:
  fixes s :: "'a kernel_scheme"
  shows "curr_term (clear s) = curr_term s" "current_terminal (clear s) = current_terminal s" "master_mask (clear s) = master_mask s"
    "slave_mask (clear s) = slave_mask s" "process_array (clear s) = process_array s" "user_window (clear s) = user_window s"
    "user_vid_page_table (clear s) = user_vid_page_table s" "kbrd_buf (clear s) = kbrd_buf s" "esp (clear s) = esp s"
  by (simp_all add: clear_def Let_def)

lemma translate_cong:
  "page_directory s' = page_directory s \<Longrightarrow> vid_page_table s' = vid_page_table s \<Longrightarrow> user_vid_page_table s' = user_vid_page_table s \<Longrightarrow>
   translate vpt uvpt user s' va = translate vpt uvpt user s va"
  by (simp add: translate_def table_at_def Let_def cong: if_cong)

text \<open>The state after the report, the descriptors, the devices and the last message.\<close>

definition ready_system :: "linked \<Rightarrow> locals \<Rightarrow> nat \<Rightarrow> u32 \<Rightarrow> mem \<Rightarrow> 'a kernel_scheme \<Rightarrow> bool" where
  "ready_system K L blocks bb m s \<longleftrightarrow> boot_block s = bb \<and> same_image m (memory s) bb (blocks * 4096) \<and> shells_layout L blocks s \<and>
     process_array s = (\<lambda>_. 0) \<and> enabled_irqs s = {0, 1, 2, 8} \<and> ldtr s = KERNEL_LDT \<and> task_register s = KERNEL_TSS \<and>
     seg_base (ldt_desc_ptr s) = addr_ldt K \<and> seg_limit (ldt_desc_ptr s) = take_bit 20 (val_ldt_size K) \<and>
     seg_base (tss_desc_ptr s) = addr_tss K \<and> seg_limit (tss_desc_ptr s) = take_bit 20 (val_tss_size K) \<and>
     (\<forall>user va. translate (addr_vid_page_table K) (addr_user_vid_page_table K) user s va = boot_map user va)"

lemma shells_layout_cong: "esp s' = esp s \<Longrightarrow> boot_block s' = boot_block s \<Longrightarrow> shells_layout L blocks s' = shells_layout L blocks s"
  by (simp add: shells_layout_def shells_blocks_def)

lemma descriptors_set:
  fixes s :: "'a kernel_scheme" and K :: linked and d1 d2 :: seg_desc_t
  defines "s' \<equiv> setup_tss K d2 (setup_ldt K d1 s)"
  shows "seg_base (ldt_desc_ptr s') = addr_ldt K" "seg_limit (ldt_desc_ptr s') = take_bit 20 (val_ldt_size K)"
    "seg_base (tss_desc_ptr s') = addr_tss K" "seg_limit (tss_desc_ptr s') = take_bit 20 (val_tss_size K)" "ldtr s' = KERNEL_LDT" "task_register s' = KERNEL_TSS"
  by (simp_all add: s'_def setup_tss_def setup_ldt_def Let_def params_base_limit)

lemma descriptors_frame:
  fixes s :: "'a kernel_scheme" and K :: linked and d1 d2 :: seg_desc_t
  defines "s' \<equiv> setup_tss K d2 (setup_ldt K d1 s)"
  shows "memory s' = memory s" "user_window s' = user_window s" "current_terminal s' = current_terminal s" "curr_term s' = curr_term s"
    "screen_x s' = screen_x s" "screen_y s' = screen_y s" "boot_block s' = boot_block s" "esp s' = esp s" "process_array s' = process_array s"
    "kbrd_buf s' = kbrd_buf s" "master_mask s' = master_mask s" "slave_mask s' = slave_mask s" "user_vid_page_table s' = user_vid_page_table s"
  by (simp_all add: s'_def setup_tss_def setup_ldt_def Let_def)

lemma setup_devices_walk:
  fixes s :: "'a kernel_scheme"
  assumes "user_vid_page_table s = (\<lambda>_. 0)" "addr_vid_page_table K AND 0xFFF = 0" "addr_user_vid_page_table K AND 0xFFF = 0"
    "addr_vid_page_table K \<noteq> addr_user_vid_page_table K"
  shows "translate (addr_vid_page_table K) (addr_user_vid_page_table K) user (setup_devices K s) va = boot_map user va"
proof -
  have kept: "user_vid_page_table r' = user_vid_page_table r" if "pic_only r r'" for r r' :: "'a kernel_scheme"
    using that by (auto simp: pic_only_def)
  have "user_vid_page_table (kbrd_init r) = user_vid_page_table r" for r :: "'a kernel_scheme"
    by (simp add: kbrd_init_def Let_def update_curr_term_def kept [OF pic_only_irq(1)])
  then have "user_vid_page_table (kbrd_init (initialize_pit (initialize_rtc (i8259_init s)))) = (\<lambda>_. 0)"
    using assms(1) kept [OF pic_only_irq(3)] kept [OF pic_only_drivers(1)] kept [OF pic_only_drivers(2)] by metis
  then have "\<not> bit (user_vid_page_table (kbrd_init (initialize_pit (initialize_rtc (i8259_init s)))) i) 0" for i by simp
  then show ?thesis unfolding setup_devices_def Let_def using translate_boot [OF assms(2-4)] by blast
qed

text \<open>Printing the last message and turning interrupts on keeps the system ready.\<close>

lemma enabled_none: "master_mask s = 0xFF \<Longrightarrow> slave_mask s = 0xFF \<Longrightarrow> enabled_irqs s = {}"
proof -
  have "(0xFF :: u8) = mask 8" by (simp add: mask_eq_exp_minus_1)
  then have "bit (0xFF :: u8) n" if "n < 8" for n using that by (simp only: bit_mask_iff) simp
  moreover assume "master_mask s = 0xFF" "slave_mask s = 0xFF"
  ultimately show ?thesis by (auto simp: enabled_irqs_def irq_enabled_def)
qed

lemma same_image_shown:
  assumes "shown conv t out s s'" "disjoint_regions a n (page t) 4000" "disjoint_regions a n conv 64" "n \<le> 2 ^ 32"
  shows "same_image (memory s) (memory s') a n"
proof -
  have "\<not> in_region (a + of_nat j) (page t) 4000 \<and> \<not> in_region (a + of_nat j) conv 64" if "j < n" for j
    using that assms(2-4) in_region_offset disjoint_regionsD by blast
  then show ?thesis using assms(1) by (auto simp: same_image_def shown_def)
qed

lemma system_made_ready:
  fixes s :: "'a kernel_scheme"
  assumes init: "boot_initial s" and lay: "boot_layout K L blocks bb s" and blk: "blocks * 4096 \<le> 2 ^ 32"
    and rep: "shown (addr_conv K) 0 out ((clear s)\<lparr>boot_block := bb\<rparr>) s1"
  obtains s2 where "print_boot (addr_conv K) ''Enabling Interrupts\<newline>'' [] (setup_devices K (setup_tss K d2 (setup_ldt K d1 s1))) = Some s2"
    and "ready_system K L blocks bb (memory (clear s)) (sti s2)"
proof -
  note I = init [unfolded boot_initial_def]
  note Y = lay [unfolded boot_layout_def]
  have "console_only ((clear s)\<lparr>boot_block := bb\<rparr>) s1" and cur1: "cursor_ok 0 s1" using rep by (auto simp: shown_def)
  note s1 = console_only_frame [OF this(1), simplified]
  define sd where "sd = setup_tss K d2 (setup_ldt K d1 s1)"
  note sd = descriptors_frame [of K d2 d1 s1, folded sd_def] and desc = descriptors_set [of K d2 d1 s1, folded sd_def]
  define sv where "sv = setup_devices K sd"
  have sv: "memory sv = write_bytes (memory sd) (kbrd_buf sd) (replicate 128 0)" "user_window sv = None" "boot_block sv = boot_block sd" "esp sv = esp sd"
    "process_array sv = process_array sd" "curr_term sv = 0" "screen_x sv = screen_x sd" "screen_y sv = screen_y sd"
    "ldt_desc_ptr sv = ldt_desc_ptr sd" "tss_desc_ptr sv = tss_desc_ptr sd" "ldtr sv = ldtr sd" "task_register sv = task_register sd"
    "enabled_irqs sv = {0, 1, 2, 8} \<union> enabled_irqs sd"
    using setup_devices_frame [of sd K] I s1 sd unfolding sv_def by simp_all
  have cur: "cursor_ok 0 sv" using cur1 by (simp add: cursor_ok_def sv sd)
  have f: "convs (ascii ''Enabling Interrupts\<newline>'') = Some []" by code_simp
  obtain s2 where s2: "print_boot (addr_conv K) ''Enabling Interrupts\<newline>'' [] sv = Some s2" "shown (addr_conv K) 0 (message (\<lambda>_. []) ''Enabling Interrupts\<newline>'' []) sv s2"
    using print_boot_shown [OF f, of "[]" sv 0 "addr_conv K" "\<lambda>_. []"] cur Y sv(6) by (auto simp: string_args_def)
  then have "console_only sv s2" by (simp add: shown_def)
  note f2 = console_only_frame [OF this]
  have "same_image (memory (clear s)) (memory s1) bb (blocks * 4096)"
    using same_image_shown [OF rep] Y blk by simp
  moreover have "same_image (memory s1) (memory sv) bb (blocks * 4096)"
    using Y blk unfolding sv(1) sd s1 by (intro same_image_write [of _ 128]) (auto simp: disjoint_regions_sym)
  moreover have "same_image (memory sv) (memory s2) bb (blocks * 4096)" using same_image_shown [OF s2(2)] Y blk by simp
  ultimately have "same_image (memory (clear s)) (memory (sti s2)) bb (blocks * 4096)" by (auto intro: same_image_trans)
  moreover have "shells_layout L blocks (sti s2)"
    using Y shells_layout_cong [of "sti s2" "s\<lparr>boot_block := bb\<rparr>"] by (simp add: sti_def f2 sv sd s1)
  moreover have "enabled_irqs (sti s2) = {0, 1, 2, 8}"
  proof -
    have "enabled_irqs (sti s2) = enabled_irqs sv" by (rule enabled_irqs_cong) (simp_all add: sti_def f2)
    moreover have "enabled_irqs sd = {}" by (rule enabled_none) (use I in \<open>simp_all add: sd s1\<close>)
    ultimately show ?thesis using sv(13) by simp
  qed
  moreover have "translate (addr_vid_page_table K) (addr_user_vid_page_table K) user (sti s2) va = boot_map user va" for user va
  proof -
    have "translate (addr_vid_page_table K) (addr_user_vid_page_table K) user (sti s2) va =
        translate (addr_vid_page_table K) (addr_user_vid_page_table K) user sv va"
      by (rule translate_cong) (simp_all add: sti_def f2)
    moreover have "user_vid_page_table sd = (\<lambda>_. 0)" using I by (simp add: sd s1)
    ultimately show ?thesis using setup_devices_walk [of sd K] Y by (simp add: sv_def)
  qed
  ultimately have "ready_system K L blocks bb (memory (clear s)) (sti s2)"
    unfolding ready_system_def using I by (simp add: sti_def f2 sv sd s1 desc)
  then show ?thesis using that [of s2] s2(1) by (simp add: sv_def sd_def)
qed

section \<open>Into user mode\<close>

lemma shells_entered_frame:
  fixes s :: "'a kernel_scheme" and m m0 m1 m2 :: mem
  defines "s' \<equiv> return_to_user 0 (sti ((shell_state 0 m0 (shell_state 1 m1 (shell_state 2 m2 (s\<lparr>memory := m\<rparr>))))\<lparr>curr_terminal := 0\<rparr>))"
  shows "enabled_irqs s' = enabled_irqs s" "ldt_desc_ptr s' = ldt_desc_ptr s" "tss_desc_ptr s' = tss_desc_ptr s" "ldtr s' = ldtr s" "task_register s' = task_register s"
    "translate vpt uvpt user s' va = (if in_user_page va then Some (user_frame 0 + (va - USER_PAGE)) else translate vpt uvpt user s va)"
proof -
  note unf = s'_def return_to_user_def iret_def push32_def sti_def shell_state_def change_process_def flush_tlb_def load_cr3_def Let_def
  show "enabled_irqs s' = enabled_irqs s" by (rule enabled_irqs_cong) (simp_all add: unf)
  show "ldt_desc_ptr s' = ldt_desc_ptr s" "tss_desc_ptr s' = tss_desc_ptr s" "ldtr s' = ldtr s" "task_register s' = task_register s"
    by (simp_all add: unf)
  let ?t = "change_process 0 (change_process 1 (change_process 2 s))"
  have "translate vpt uvpt user s' va = translate vpt uvpt user ?t va"
    by (rule translate_cong) (simp_all add: unf)
  then show "translate vpt uvpt user s' va = (if in_user_page va then Some (user_frame 0 + (va - USER_PAGE)) else translate vpt uvpt user s va)"
    by (simp add: translate_change_process)
qed

section \<open>Main properties\<close>


section \<open>A concrete boot\<close>

text \<open>A loader that passes one module: an image with one file, the shell.\<close>

definition demo_segment :: seg_desc_t where
  "demo_segment = \<lparr>seg_lim_15_00 = 0, base_15_00 = 0, base_23_16 = 0, seg_type = 0, seg_sys = 0, seg_dpl = 0, seg_present = 0, seg_lim_19_16 = 0,
     seg_avail = 0, seg_reserved = 0, seg_opsize = 0, seg_granularity = 0, base_31_24 = 0\<rparr>"

definition demo_segs :: "(u32 \<times> u8 list) list" where
  "demo_segs = [(0x10000, [8, 0, 0, 0]), (0x10014, [1, 0, 0, 0, 0, 1, 1, 0]), (0x10100, [0, 0, 0x50, 0]), (0x500040, shell_file)]"

definition demo_boot :: kernel where
  "demo_boot = keyboard.extend ((demo_kernel demo_segs)\<lparr>process_array := \<lambda>_. 0, master_mask := 0xFF, slave_mask := 0xFF, user_window := None,
     user_vid_page_table := \<lambda>_. 0\<rparr>) (kernel.fields demo_segment demo_segment 0 0 0)"

definition demo_linked :: linked where
  "demo_linked = \<lparr>addr_page_directory = 0x410000, addr_vid_page_table = 0x411000, addr_user_vid_page_table = 0x412000, addr_ldt = 0x413000,
     val_ldt_size = 0x27, addr_tss = 0x413100, val_tss_size = 104, addr_pit_int_ret = 0x400100, addr_conv = 0x7FF400\<rparr>"

lemma demo_boot_sel:
  "memory demo_boot = mem_of (demo_segs @ demo_image)" "curr_term demo_boot = 0" "current_terminal demo_boot = 0" "screen_x demo_boot t = 0"
  "screen_y demo_boot t = 0" "master_mask demo_boot = 0xFF" "slave_mask demo_boot = 0xFF" "process_array demo_boot = (\<lambda>_. 0)"
  "user_window demo_boot = None" "user_vid_page_table demo_boot = (\<lambda>_. 0)" "kbrd_buf demo_boot = 0x600000" "esp demo_boot = 0x7FFF00" "boot_block demo_boot = 0x500000"
  by (simp_all add: demo_boot_def kernel.defs demo_kernel_def demo_defs demo_console_def console.defs pcb_of_def proc_consts)

lemma clear_memory:
  assumes "curr_term s = 0" "\<not> in_region x 0xB8000 4000" "\<not> in_region x 0xB9000 4000"
  shows "memory (clear s) x = memory s x"
  using assms by (simp add: clear_def Let_def blank_cells_apply NUM_CELLS_def console_consts vidmem_pages_def in_region_def)

lemma demo_boot_image: "same_image (mem_of (demo_segs @ demo_image)) (memory (clear demo_boot)) 0x500000 0x3000"
  unfolding same_image_def
proof (intro allI impI)
  fix j :: nat assume "j < 0x3000"
  then have "in_region (0x500000 + of_nat j) 0x500000 0x3000" by (simp add: in_region_def unat_of_nat_u32)
  moreover have "disjoint_regions 0x500000 0x3000 0xB8000 4000" "disjoint_regions 0x500000 0x3000 0xB9000 4000" by (simp_all add: disjoint_regions_def)
  ultimately have "\<not> in_region (0x500000 + of_nat j) 0xB8000 4000" "\<not> in_region (0x500000 + of_nat j) 0xB9000 4000"
    using disjoint_regionsD by blast+
  then show "memory (clear demo_boot) (0x500000 + of_nat j) = mem_of (demo_segs @ demo_image) (0x500000 + of_nat j)"
    by (simp add: clear_memory demo_boot_sel)
qed

lemma demo_boot_image_ok:
  "file_ok (mem_of (demo_segs @ demo_image)) 0x500000 3 0" "file_size (mem_of (demo_segs @ demo_image)) 0x500000 0 = 28"
  "find_file (mem_of (demo_segs @ demo_image)) 0x500000 shell_file = Some 0"
  by (simp_all add: file_ok_def num_inodes_def file_size_def inode_length_def inode_data_block_def inode_at_def read32_def mem_of_def demo_image_def
      demo_file_def demo_segs_def shell_file_def)
     (rule find_file_first, simp add: file_name_def dentry_at_def NAME_SIZE_def read_bytes_def upt_rec mem_of_def)

lemma demo_boot_file:
  "file_ok (memory (clear demo_boot)) 0x500000 3 0" "file_size (memory (clear demo_boot)) 0x500000 0 = 28"
  "find_file (memory (clear demo_boot)) 0x500000 shell_file = Some 0" "dentry_inode_num (memory (clear demo_boot)) (dentry_at 0x500000 0) = 0"
proof -
  have img: "same_image (mem_of (demo_segs @ demo_image)) (memory (clear demo_boot)) 0x500000 (3 * 4096)" using demo_boot_image by simp
  show "file_ok (memory (clear demo_boot)) 0x500000 3 0" "file_size (memory (clear demo_boot)) 0x500000 0 = 28"
    using same_file_ok [OF img demo_boot_image_ok(1)] demo_boot_image_ok(2) by simp_all
  show "find_file (memory (clear demo_boot)) 0x500000 shell_file = Some 0"
    using find_file_image [OF same_image_prefix [OF img], of shell_file] demo_boot_image_ok(3) by simp
  show "dentry_inode_num (memory (clear demo_boot)) (dentry_at 0x500000 0) = 0"
    by (simp add: dentry_inode_num_def dentry_at_def read32_def clear_memory demo_boot_sel in_region_def mem_of_def demo_segs_def demo_image_def shell_file_def)
qed

lemma demo_boot_words:
  "read32 (memory (clear demo_boot)) 0x10000 = 8" "read32 (memory (clear demo_boot)) 0x10014 = 1" "read32 (memory (clear demo_boot)) 0x10018 = 0x10100"
  "read32 (memory (clear demo_boot)) 0x10100 = 0x500000" "read32 (memory (clear demo_boot)) 0x500000 = 1"
  by (simp_all add: read32_def clear_memory demo_boot_sel in_region_def mem_of_def demo_segs_def demo_image_def shell_file_def)

lemma demo_boot_hyps:
  "boot_initial demo_boot" "boot_layout demo_linked demo_locals 3 0x500000 demo_boot"
  "boot_info 0x7FF400 0 (\<lambda>_. []) (memory (clear demo_boot)) 0x10000 []" "boots_on (memory (clear demo_boot)) 0x2BADB002 0x10000"
  "mounted (memory (clear demo_boot)) 0x2BADB002 0x10000 bb = 0x500000"
proof -
  show "boot_initial demo_boot" by (simp add: boot_initial_def demo_boot_sel cursor_ok_def console_consts)
  show "boot_layout demo_linked demo_locals 3 0x500000 demo_boot"
    by (simp add: boot_layout_def shells_layout_def shells_blocks_def demo_boot_sel demo_locals_def demo_linked_def disjoint_regions_def pcb_of_def proc_consts USER_PAGE_def)
  show "boot_info 0x7FF400 0 (\<lambda>_. []) (memory (clear demo_boot)) 0x10000 []"
    by (simp add: boot_info_def CHECK_FLAG_def mbi_defs demo_boot_words off_screen_def disjoint_regions_def mod_start_def)
  show "boots_on (memory (clear demo_boot)) 0x2BADB002 0x10000" "mounted (memory (clear demo_boot)) 0x2BADB002 0x10000 bb = 0x500000"
    by (simp_all add: boots_on_def mounted_def MULTIBOOT_BOOTLOADER_MAGIC_def CHECK_FLAG_def mbi_defs demo_boot_words num_dentries_def mod_start_def Let_def)
qed


text \<open>
  The report of the boot information. With the structures the flags announce outside the
  page and the local buffer, the report always ends; the cleared screen then shows exactly the
  text of the boot information (the flags, the memory sizes, the boot device, the command line,
  each module with its first sixteen bytes, the ELF section table, every entry of the memory
  map, each only when its flag is set); a wrong magic number, or both of flags 4 and 5, stop the
  boot right after their message; and the first module is mounted as file system when it has
  at most 63 directory entries.
\<close>
theorem boot_report_text:
  assumes "cursor_ok (curr_term s) s" "disjoint_regions conv 64 (page (curr_term s)) 4000" "boot_info conv (curr_term s) strs (memory (clear s)) mbi es"
  shows "\<exists>s'. boot_report conv magic mbi s = Some (if boots_on (memory (clear s)) magic mbi then Inr s' else Inl s') \<and>
    screen_of (curr_term s) s' = fold put_char (boot_text strs (memory (clear s)) magic mbi es) (screen_of (curr_term s) (clear s)) \<and>
    boot_block s' = mounted (memory (clear s)) magic mbi (boot_block s)"
proof -
  obtain s' where s': "boot_report conv magic mbi s = Some (if boots_on (memory (clear s)) magic mbi then Inr s' else Inl s')"
    "shown conv (curr_term s) (boot_text strs (memory (clear s)) magic mbi es) ((clear s)\<lparr>boot_block := mounted (memory (clear s)) magic mbi (boot_block s)\<rparr>) s'"
    using boot_report_runs [OF assms] by (auto simp: reports_def)
  have "screen_of (curr_term s) (r\<lparr>boot_block := b\<rparr>) = screen_of (curr_term s) r" for r :: "'a file_sys_scheme" and b
    by (simp add: screen_of_def cong: if_cong)
  then show ?thesis using s' by (intro exI [of _ s']) (auto simp: shown_def console_only_def)
qed

theorem boot_report_text_witness:
  "\<exists>s'. boot_report 0x7FF400 0x2BADB002 0x10000 demo_boot = Some (Inr s') \<and> boot_block s' = 0x500000"
proof -
  have "cursor_ok (curr_term demo_boot) demo_boot" "disjoint_regions 0x7FF400 64 (page (curr_term demo_boot)) 4000"
    "boot_info 0x7FF400 (curr_term demo_boot) (\<lambda>_. []) (memory (clear demo_boot)) 0x10000 []"
    using demo_boot_hyps(1,3) by (simp_all add: boot_initial_def demo_boot_sel disjoint_regions_def)
  from boot_report_text [OF this, of "0x2BADB002"] show ?thesis using demo_boot_hyps(4,5) by auto
qed

end
