(* ===== verification/User_Support.thy ===== *)
theory User_Support
  imports Lib_String
begin

text \<open>
  The support library of the user programs, \<open>ece391support.c\<close>: its string routines, written
  with moving pointers, against the index-based routines of the kernel's \<open>lib.c\<close>.
  A division by zero in user mode returns to the dividing instruction forever, and a digit
  past the table reads foreign bytes: neither has a result here.
\<close>

section \<open>The routines\<close>

partial_function (option) ece391_strlen_loop :: "mem \<Rightarrow> u32 \<Rightarrow> u32 \<Rightarrow> u32 option" where
  "ece391_strlen_loop m s len = (if 0 \<noteq> m s then ece391_strlen_loop m (s + 1) (len + 1) else Some len)"

definition ece391_strlen :: "mem \<Rightarrow> u32 \<Rightarrow> u32 option" where
  "ece391_strlen m s = ece391_strlen_loop m s 0"

partial_function (option) ece391_strcpy :: "u32 \<Rightarrow> u32 \<Rightarrow> mem \<Rightarrow> mem option" where
  "ece391_strcpy dst src m =
     (let c = m src; m = m(dst := c) in if 0 \<noteq> c then ece391_strcpy (dst + 1) (src + 1) m else Some m)"

partial_function (option) ece391_strcmp :: "mem \<Rightarrow> u32 \<Rightarrow> u32 \<Rightarrow> int option" where
  "ece391_strcmp m s1 s2 =
     (if m s1 = m s2
      then (if m s1 = 0 then Some 0 else ece391_strcmp m (s1 + 1) (s2 + 1))
      else Some (uint (m s1) - uint (m s2)))"

text \<open>The loop of \<open>ece391_strncmp\<close>, entered with \<open>n > 0\<close>.\<close>

function ece391_strncmp_loop :: "mem \<Rightarrow> u32 \<Rightarrow> u32 \<Rightarrow> u32 \<Rightarrow> int" where
  "ece391_strncmp_loop m s1 s2 n =
     (if m s1 = m s2
      then (if m s1 = 0 \<or> n - 1 = 0 \<or> n = 0 then 0 else ece391_strncmp_loop m (s1 + 1) (s2 + 1) (n - 1))
      else uint (m s1) - uint (m s2))"
  by pat_completeness auto
termination
  by (relation "measure (\<lambda>(m, s1, s2, n). unat n)") (auto simp: unat_minus_one_u32 unat_gt_0)

declare ece391_strncmp_loop.simps [simp del]

definition ece391_strncmp :: "mem \<Rightarrow> u32 \<Rightarrow> u32 \<Rightarrow> u32 \<Rightarrow> int" where
  "ece391_strncmp m s1 s2 n = (if 0 = n then 0 else ece391_strncmp_loop m s1 s2 n)"

function ece391_strrev_loop :: "mem \<Rightarrow> u32 \<Rightarrow> int \<Rightarrow> int \<Rightarrow> mem" where
  "ece391_strrev_loop m s beg fin =
     (if beg < fin
      then let tmp = m (s + word_of_int fin);
               m = m(s + word_of_int fin := m (s + word_of_int beg));
               m = m(s + word_of_int beg := tmp)
           in ece391_strrev_loop m s (beg + 1) (fin - 1)
      else m)"
  by pat_completeness auto
termination
  by (relation "measure (\<lambda>(m, s, beg, fin). nat (fin - beg))") auto

declare ece391_strrev_loop.simps [simp del]

definition ece391_strrev :: "mem \<Rightarrow> u32 \<Rightarrow> mem option" where
  "ece391_strrev m s =
     do {
       len \<leftarrow> ece391_strlen m s;
       let fin = sint (len - 1);
       if fin \<le> 0 then Some m else Some (ece391_strrev_loop m s 0 fin)
     }"

definition ece391_lookup :: "u8 list" where
  "ece391_lookup = map (\<lambda>c. word_of_nat (of_char c)) ''0123456789ABCDEFGHIJKLMNOPQRSTUVWXYZ'' @ [0]"

partial_function (option) ece391_itoa_loop :: "u32 \<Rightarrow> mem \<Rightarrow> u32 \<Rightarrow> u32 \<Rightarrow> (mem \<times> u32) option" where
  "ece391_itoa_loop radix m newbuf newval =
     (if newval > 0
      then (if radix = 0 \<or> unat (newval mod radix) \<ge> length ece391_lookup then None
            else let m = m(newbuf := ece391_lookup ! unat (newval mod radix))
                 in ece391_itoa_loop radix m (newbuf + 1) (newval div radix))
      else Some (m, newbuf))"

definition ece391_itoa :: "mem \<Rightarrow> u32 \<Rightarrow> u32 \<Rightarrow> int \<Rightarrow> mem option" where
  "ece391_itoa m value buf radix =
     (if value = 0 then Some (m(buf := 0x30, buf + 1 := 0))
      else do {
        (m, newbuf) \<leftarrow> ece391_itoa_loop (word_of_int radix) m buf value;
        ece391_strrev (m(newbuf := 0)) buf
      })"

section \<open>Equivalence with the kernel's routines\<close>

text \<open>Two partial functions that follow each other's results are equal.\<close>

lemma option_eqI: "(\<And>y. f = Some y \<Longrightarrow> g = Some y) \<Longrightarrow> (\<And>y. g = Some y \<Longrightarrow> f = Some y) \<Longrightarrow> f = g"
  by (cases f; cases g) auto

lemma strlen_loop_left: "strlen_from m s i = Some r \<Longrightarrow> ece391_strlen_loop m (s + i) i = Some r"
proof (erule strlen_from.raw_induct [where P = "\<lambda>m s i r. ece391_strlen_loop m (s + i) i = Some r", rotated])
  fix f m s i r
  assume IH: "\<And>m s i r. f m s i = Some r \<Longrightarrow> ece391_strlen_loop m (s + i) i = Some r"
    and step: "(if m (s + i) \<noteq> 0 then f m s (i + 1) else Some i) = Some (r :: u32)"
  show "ece391_strlen_loop m (s + i) i = Some r"
    using step IH [of m s "i + 1" r] by (subst ece391_strlen_loop.simps) (auto simp: algebra_simps split: if_splits)
qed

lemma strlen_loop_right: "ece391_strlen_loop m p i = Some r \<Longrightarrow> strlen_from m (p - i) i = Some r"
proof (erule ece391_strlen_loop.raw_induct [where P = "\<lambda>m p i r. strlen_from m (p - i) i = Some r", rotated])
  fix f m p i r
  assume IH: "\<And>m p i r. f m p i = Some r \<Longrightarrow> strlen_from m (p - i) i = Some r"
    and step: "(if 0 \<noteq> m p then f m (p + 1) (i + 1) else Some i) = Some (r :: u32)"
  show "strlen_from m (p - i) i = Some r"
    using step IH [of m "p + 1" "i + 1" r] by (subst strlen_from.simps) (auto split: if_splits)
qed

lemma ece391_strlen_eq: "ece391_strlen m s = strlen m s"
  unfolding ece391_strlen_def strlen_def
  by (rule option_eqI) (erule strlen_loop_right [of _ _ 0, simplified], erule strlen_loop_left [of _ _ 0, simplified])

lemma strcpy_left: "strcpy_from d s m i = Some r \<Longrightarrow> ece391_strcpy (d + i) (s + i) m = Some r"
proof (erule strcpy_from.raw_induct [where P = "\<lambda>d s m i r. ece391_strcpy (d + i) (s + i) m = Some r", rotated])
  fix f d s m i r
  assume IH: "\<And>d s m i r. f d s m i = Some r \<Longrightarrow> ece391_strcpy (d + i) (s + i) m = Some r"
    and step: "(if m (s + i) \<noteq> 0 then f d s (m(d + i := m (s + i))) (i + 1) else Some (m(d + i := 0))) = Some (r :: mem)"
  show "ece391_strcpy (d + i) (s + i) m = Some r"
  proof (cases "m (s + i) = 0")
    case True
    then show ?thesis using step ece391_strcpy.simps [of "d + i" "s + i" m] by (simp only: Let_def) simp
  next
    case False
    then have "f d s (m(d + i := m (s + i))) (i + 1) = Some r" using step by simp
    from IH [OF this, unfolded add.assoc [symmetric]] False show ?thesis
      using ece391_strcpy.simps [of "d + i" "s + i" m] by (simp only: Let_def not_False_eq_True if_True neq_commute [of 0])
  qed
qed

lemma strcpy_right: "ece391_strcpy d s m = Some r \<Longrightarrow> \<forall>i. strcpy_from (d - i) (s - i) m i = Some r"
proof (erule ece391_strcpy.raw_induct [where P = "\<lambda>d s m r. \<forall>i. strcpy_from (d - i) (s - i) m i = Some r", rotated])
  fix f d s m r
  assume IH: "\<And>d s m r. f d s m = Some r \<Longrightarrow> \<forall>i. strcpy_from (d - i) (s - i) m i = Some r"
    and step: "(let c = m s; m = m(d := c) in if 0 \<noteq> c then f (d + 1) (s + 1) m else Some m) = Some (r :: mem)"
  show "\<forall>i. strcpy_from (d - i) (s - i) m i = Some r"
  proof
    fix i
    have "strcpy_from (d + 1 - (i + 1)) (s + 1 - (i + 1)) (m(d := m s)) (i + 1) = Some r" if "f (d + 1) (s + 1) (m(d := m s)) = Some r"
      using IH [OF that] by blast
    then show "strcpy_from (d - i) (s - i) m i = Some r" using step by (subst strcpy_from.simps) (auto simp: Let_def split: if_splits)
  qed
qed

lemma ece391_strcpy_eq: "ece391_strcpy d s m = strcpy m d s"
  unfolding strcpy_def
  by (rule option_eqI) (drule strcpy_right, drule spec [of _ 0], simp, erule strcpy_left [of _ _ _ 0, simplified])

lemma ece391_strrev_loop_eq: "ece391_strrev_loop m s i j = strrev_loop m s i j"
proof (induction m s i j rule: strrev_loop.induct)
  case (1 m s i j)
  note IH = 1 [OF _ refl refl refl]
  show ?case
    using ece391_strrev_loop.simps [of m s i j] strrev_loop.simps [of m s i j] IH by (cases "i < j") (simp_all only: Let_def if_True if_False)
qed

lemma ece391_strrev_eq: "ece391_strrev m s = strrev m s"
proof -
  have "strrev_loop m s 0 j = m" if "j \<le> 0" for j using that by (subst strrev_loop.simps) simp
  then show ?thesis
    by (cases "strlen m s") (simp_all add: ece391_strrev_def strrev_def ece391_strlen_eq ece391_strrev_loop_eq Let_def)
qed

lemma ece391_lookup_eq: "ece391_lookup = itoa_lookup"
  by code_simp

lemma itoa_left: "itoa_loop r m b v = Some x \<Longrightarrow> ece391_itoa_loop r m b v = Some x"
proof (erule itoa_loop.raw_induct [where P = "\<lambda>r m b v x. ece391_itoa_loop r m b v = Some x", rotated])
  fix f r m b v x
  assume IH: "\<And>r m b v x. f r m b v = Some x \<Longrightarrow> ece391_itoa_loop r m b v = Some x"
    and step: "(if 0 < v then if r = 0 \<or> length itoa_lookup \<le> unat (v mod r) then None
      else f r (m(b := itoa_lookup ! unat (v mod r))) (b + 1) (v div r) else Some (m, b)) = Some (x :: mem \<times> u32)"
  show "ece391_itoa_loop r m b v = Some x"
    using step IH [of r "m(b := itoa_lookup ! unat (v mod r))" "b + 1" "v div r" x]
    by (subst ece391_itoa_loop.simps) (simp add: ece391_lookup_eq Let_def split: if_splits)
qed

lemma itoa_right: "ece391_itoa_loop r m b v = Some x \<Longrightarrow> itoa_loop r m b v = Some x"
proof (erule ece391_itoa_loop.raw_induct [where P = "\<lambda>r m b v x. itoa_loop r m b v = Some x", rotated])
  fix f r m b v x
  assume IH: "\<And>r m b v x. f r m b v = Some x \<Longrightarrow> itoa_loop r m b v = Some x"
    and step: "(if 0 < v then if r = 0 \<or> length ece391_lookup \<le> unat (v mod r) then None
      else let m = m(b := ece391_lookup ! unat (v mod r)) in f r m (b + 1) (v div r) else Some (m, b)) = Some (x :: mem \<times> u32)"
  show "itoa_loop r m b v = Some x"
    using step IH [of r "m(b := itoa_lookup ! unat (v mod r))" "b + 1" "v div r" x]
    by (subst itoa_loop.simps) (simp add: ece391_lookup_eq Let_def split: if_splits)
qed

lemma ece391_itoa_eq: "ece391_itoa m v b r = itoa m v b r"
proof -
  have "ece391_itoa_loop r m b v = itoa_loop r m b v" for r by (rule option_eqI) (auto intro: itoa_left itoa_right)
  then show ?thesis by (simp add: ece391_itoa_def itoa_def ece391_strrev_eq)
qed

section \<open>Comparisons\<close>

lemma ece391_strncmp_loop_0:
  "i < n \<Longrightarrow> ece391_strncmp_loop m (a + i) (b + i) (n - i) = 0 \<longleftrightarrow> strncmp_from m a b n i = 0"
proof (induction m a b n i rule: strncmp_from.induct)
  case (1 m a b n i)
  note \<open>i < n\<close>
  have last: "n - i - 1 = 0 \<longleftrightarrow> \<not> i + 1 < n" and pos: "n - i \<noteq> 0"
  proof -
    show "n - i \<noteq> 0" using "1.prems" by auto
    have "n - i - 1 = 0 \<longleftrightarrow> n = i + 1" by (simp add: diff_eq_eq add.commute)
    moreover have "n = i + 1 \<longleftrightarrow> \<not> i + 1 < n"
      using "1.prems" unat_inc_u32 [OF "1.prems"] by (auto simp: word_less_nat_alt word_unat_eq_iff)
    ultimately show "n - i - 1 = 0 \<longleftrightarrow> \<not> i + 1 < n" by blast
  qed
  note unf = ece391_strncmp_loop.simps [of m "a + i" "b + i" "n - i"] strncmp_from.simps [of m a b n i]
  have stop: "strncmp_from m a b n (i + 1) = 0" if "\<not> i + 1 < n" using that strncmp_from.simps [of m a b n "i + 1"] by simp
  consider "m (a + i) \<noteq> m (b + i)" | "m (a + i) = m (b + i)" "m (a + i) = 0" | "m (a + i) = m (b + i)" "m (a + i) \<noteq> 0" "\<not> i + 1 < n"
    | "m (a + i) = m (b + i)" "m (a + i) \<noteq> 0" "i + 1 < n" by blast
  then show ?case
  proof cases
    case 1
    then show ?thesis using \<open>i < n\<close> unf sint_eq_iff_u8 [of "m (a + i)" "m (b + i)"] by (simp add: word_uint_eq_iff)
  next
    case 4
    then show ?thesis using "1.IH" \<open>i < n\<close> unf last pos by (simp add: add.assoc diff_diff_eq)
  qed (use \<open>i < n\<close> unf last pos stop in simp_all)
qed

lemma ece391_strncmp_0: "ece391_strncmp m a b n = 0 \<longleftrightarrow> strncmp m a b n = 0"
  using ece391_strncmp_loop_0 [of 0 n m a b] strncmp_from.simps [of m a b n 0]
  by (cases "n = 0") (auto simp: ece391_strncmp_def strncmp_def word_neq_0_conv)

text \<open>\<open>ece391_strcmp\<close> of two strings returns, with 0 exactly for equal ones.\<close>

lemma cstr_at_step: "cstr_at m a (x # xs) \<Longrightarrow> m a = x \<and> x \<noteq> 0 \<and> cstr_at m (a + 1) xs"
  by (auto simp: cstr_at_def read_bytes_Suc algebra_simps)

lemma ece391_strcmp_cstr: "cstr_at m a xs \<Longrightarrow> cstr_at m b ys \<Longrightarrow> \<exists>r. ece391_strcmp m a b = Some r \<and> (r = 0 \<longleftrightarrow> xs = ys)"
proof (induction xs arbitrary: a b ys)
  case Nil
  then show ?case
    by (subst ece391_strcmp.simps, cases ys) (auto dest: cstr_at_step simp: word_uint_eq_iff)
next
  case (Cons x xs)
  note a = cstr_at_step [OF Cons.prems(1)]
  show ?case
  proof (cases ys)
    case Nil
    then show ?thesis using a Cons.prems(2) by (subst ece391_strcmp.simps) (auto simp: word_uint_eq_iff)
  next
    case (Cons y ys')
    note b = cstr_at_step [OF Cons.prems(2) [unfolded Cons]]
    show ?thesis
    proof (cases "x = y")
      case True
      then show ?thesis using a b Cons.IH [of "a + 1" "b + 1" ys'] Cons by (subst ece391_strcmp.simps) auto
    qed (use a b Cons in \<open>subst ece391_strcmp.simps, auto simp: word_uint_eq_iff\<close>)
  qed
qed

section \<open>Main properties\<close>

text \<open>
  C26: the user programs' string library agrees with the kernel's. \<open>ece391_strlen\<close>,
  \<open>ece391_strcpy\<close> (also for overlapping strings), \<open>ece391_strrev\<close> and \<open>ece391_itoa\<close> give the
  result of the kernel's routine of that name on every memory, and return exactly when it does;
  \<open>ece391_strncmp\<close>, which compares unsigned bytes, is zero exactly when \<open>strncmp\<close> is;
  \<open>ece391_strcmp\<close> returns for every two strings, with zero exactly when they are equal.
\<close>
theorem support_agrees:
  "ece391_strlen m s = strlen m s \<and> ece391_strcpy d s m = strcpy m d s \<and> ece391_strrev m s = strrev m s \<and>
   ece391_itoa m v s r = itoa m v s r \<and> (ece391_strncmp m s d n = 0 \<longleftrightarrow> strncmp m s d n = 0) \<and>
   (cstr_at m s xs \<longrightarrow> cstr_at m d ys \<longrightarrow> (\<exists>c. ece391_strcmp m s d = Some c \<and> (c = 0 \<longleftrightarrow> xs = ys)))"
  using ece391_strcmp_cstr by (simp add: ece391_strlen_eq ece391_strcpy_eq ece391_strrev_eq ece391_itoa_eq ece391_strncmp_0)

theorem support_agrees_witness:
  "\<exists>c. ece391_strcmp (mem_of [(0x1000, [0x68, 0x69]), (0x2000, [0x68])]) 0x1000 0x2000 = Some c \<and> c \<noteq> 0"
proof -
  let ?m = "mem_of [(0x1000, [0x68, 0x69]), (0x2000, [0x68])]"
  have "cstr_at ?m 0x1000 [0x68, 0x69]" "cstr_at ?m 0x2000 [0x68]"
    by (simp_all add: cstr_at_def read_bytes_def upt_rec mem_of_Cons mem_of_Nil)
  then show ?thesis using support_agrees [of ?m "0x1000" "0x2000" 0 0 0 "[0x68, 0x69]" "[0x68]"] by auto
qed

end
