(* ===== verification/Idt.thy ===== *)
theory Idt
  imports Machine
begin

text \<open>
  The interrupt descriptor table, as \<open>idt.c\<close> fills it with the types and macros of
  \<open>x86_desc.h\<close>: the packed gate descriptors, the two set-up functions called by the boot
  code, and what the processor makes of the table when an interrupt or an \<open>int\<close> instruction
  arrives. The link addresses of the assembly wrappers are a parameter \<open>link\<close>.
\<close>

unbundle bit_operations_syntax

definition NUM_VEC :: nat where "NUM_VEC = 256"
definition CP1_IDTSIZE :: nat where "CP1_IDTSIZE = 20"
definition INT_PIT :: nat where "INT_PIT = 0x20"
definition INT_KBRD :: nat where "INT_KBRD = 0x21"
definition INT_RTC :: nat where "INT_RTC = 0x28"
definition INT_SYSCALL :: nat where "INT_SYSCALL = 0x80"
definition KERNEL_CS :: u16 where "KERNEL_CS = 0x0010"

lemmas idt_consts = NUM_VEC_def CP1_IDTSIZE_def INT_PIT_def INT_KBRD_def INT_RTC_def INT_SYSCALL_def KERNEL_CS_def

section \<open>Gate descriptors\<close>

record idt_desc_t =
  offset_15_00 :: u16
  seg_selector :: u16
  reserved4 :: u8
  reserved3 :: "1 word"
  reserved2 :: "1 word"
  reserved1 :: "1 word"
  gate_size :: "1 word"
  reserved0 :: "1 word"
  dpl :: "2 word"
  present :: "1 word"
  offset_31_16 :: u16

text \<open>The other member of the union: the two 32-bit words the packed fields make up.\<close>

definition desc_val :: "idt_desc_t \<Rightarrow> u32 \<times> u32" where
  "desc_val d =
     (ucast (offset_15_00 d) OR push_bit 16 (ucast (seg_selector d)),
      ucast (reserved4 d) OR push_bit 8 (ucast (reserved3 d)) OR push_bit 9 (ucast (reserved2 d)) OR
      push_bit 10 (ucast (reserved1 d)) OR push_bit 11 (ucast (gate_size d)) OR push_bit 12 (ucast (reserved0 d)) OR
      push_bit 13 (ucast (dpl d)) OR push_bit 15 (ucast (present d)) OR push_bit 16 (ucast (offset_31_16 d)))"

definition SET_IDT_ENTRY :: "nat \<Rightarrow> u32 \<Rightarrow> (nat \<Rightarrow> idt_desc_t) \<Rightarrow> nat \<Rightarrow> idt_desc_t" where
  "SET_IDT_ENTRY n handler idt =
     idt(n := (idt n)\<lparr>offset_31_16 := ucast (drop_bit 16 (handler AND 0xFFFF0000)), offset_15_00 := ucast (handler AND 0xFFFF)\<rparr>)"

section \<open>The set-up functions\<close>

definition setup_gate :: "nat \<Rightarrow> idt_desc_t \<Rightarrow> idt_desc_t" where
  "setup_gate i d =
     (if i < CP1_IDTSIZE \<or> i = INT_PIT \<or> i = INT_KBRD \<or> i = INT_RTC \<or> i = INT_SYSCALL
      then let d = d\<lparr>seg_selector := KERNEL_CS\<rparr>;
               d = d\<lparr>reserved4 := 0\<rparr>;
               d = d\<lparr>reserved3 := 0\<rparr>;
               d = d\<lparr>reserved2 := 1\<rparr>;
               d = d\<lparr>reserved1 := 1\<rparr>;
               d = d\<lparr>gate_size := 1\<rparr>;
               d = d\<lparr>reserved0 := 0\<rparr>;
               d = (if i = INT_SYSCALL then d\<lparr>dpl := 3\<rparr> else d\<lparr>dpl := 0\<rparr>)
           in d\<lparr>present := 1\<rparr>
      else d\<lparr>present := 0, gate_size := 1, dpl := 0, reserved0 := 0, reserved1 := 1, reserved2 := 1, reserved3 := 1,
             reserved4 := 0, seg_selector := KERNEL_CS\<rparr>)"

definition setup_idt :: "(nat \<Rightarrow> idt_desc_t) \<Rightarrow> nat \<Rightarrow> idt_desc_t" where
  "setup_idt idt = fold (\<lambda>i t. t(i := setup_gate i (t i))) [0..<NUM_VEC] idt"

datatype wrapper = Divide_error_ex_w | Debug_ex_w | Nmi_int_ex_w | Breakpoint_ex_w | Overflow_ex_w
  | Bound_range_exceeded_ex_w | Opcode_invalid_ex_w | No_device_ex_w | Double_fault_ex_w
  | Coprocessor_segment_overrun_ex_w | Tss_invalid_ex_w | No_segment_ex_w | Stack_fault_ex_w | Gp_fault_ex_w
  | Page_fault_ex_w | Fpu_ex_w | Alignment_check_ex_w | Machine_check_ex_w | Simd_ex_w
  | Pit_int_w | Kbrd_int_w | Rtc_int_w | Sys_int_w

definition initialize_idt :: "(wrapper \<Rightarrow> u32) \<Rightarrow> (nat \<Rightarrow> idt_desc_t) \<Rightarrow> nat \<Rightarrow> idt_desc_t" where
  "initialize_idt link idt =
     (let idt = SET_IDT_ENTRY 0x00 (link Divide_error_ex_w) idt;
          idt = SET_IDT_ENTRY 0x01 (link Debug_ex_w) idt;
          idt = SET_IDT_ENTRY 0x02 (link Nmi_int_ex_w) idt;
          idt = SET_IDT_ENTRY 0x03 (link Breakpoint_ex_w) idt;
          idt = SET_IDT_ENTRY 0x04 (link Overflow_ex_w) idt;
          idt = SET_IDT_ENTRY 0x05 (link Bound_range_exceeded_ex_w) idt;
          idt = SET_IDT_ENTRY 0x06 (link Opcode_invalid_ex_w) idt;
          idt = SET_IDT_ENTRY 0x07 (link No_device_ex_w) idt;
          idt = SET_IDT_ENTRY 0x08 (link Double_fault_ex_w) idt;
          idt = SET_IDT_ENTRY 0x09 (link Coprocessor_segment_overrun_ex_w) idt;
          idt = SET_IDT_ENTRY 0x0A (link Tss_invalid_ex_w) idt;
          idt = SET_IDT_ENTRY 0x0B (link No_segment_ex_w) idt;
          idt = SET_IDT_ENTRY 0x0C (link Stack_fault_ex_w) idt;
          idt = SET_IDT_ENTRY 0x0D (link Gp_fault_ex_w) idt;
          idt = SET_IDT_ENTRY 0x0E (link Page_fault_ex_w) idt;
          idt = SET_IDT_ENTRY 0x10 (link Fpu_ex_w) idt;
          idt = SET_IDT_ENTRY 0x11 (link Alignment_check_ex_w) idt;
          idt = SET_IDT_ENTRY 0x12 (link Machine_check_ex_w) idt;
          idt = SET_IDT_ENTRY 0x13 (link Simd_ex_w) idt;
          idt = SET_IDT_ENTRY INT_PIT (link Pit_int_w) idt;
          idt = SET_IDT_ENTRY INT_KBRD (link Kbrd_int_w) idt;
          idt = SET_IDT_ENTRY INT_RTC (link Rtc_int_w) idt
      in SET_IDT_ENTRY INT_SYSCALL (link Sys_int_w) idt)"

section \<open>What the processor makes of the table\<close>

text \<open>
  \<open>deliver idt user n\<close>: the code selector and address at which the processor continues for
  vector \<open>n\<close>, or \<^const>\<open>None\<close> when it raises a fault instead; \<open>user\<close> says that the vector comes
  from an \<open>int\<close> instruction of user code, which the gate's privilege level must admit. Only
  32-bit interrupt gates are accepted, as they are the ones that also turn interrupts off.
\<close>

definition deliver :: "(nat \<Rightarrow> idt_desc_t) \<Rightarrow> bool \<Rightarrow> nat \<Rightarrow> (u16 \<times> u32) option" where
  "deliver idt user n =
     (let (lo, hi) = desc_val (idt n)
      in if \<not> bit hi 15 then None
         else if take_bit 5 (drop_bit 8 hi) \<noteq> 0xE then None
         else if user \<and> take_bit 2 (drop_bit 13 hi) \<noteq> 3 then None
         else Some (ucast (drop_bit 16 lo), push_bit 16 (drop_bit 16 hi) OR take_bit 16 lo))"

text \<open>The intended contents.\<close>

definition vectors :: "(nat \<times> wrapper) list" where
  "vectors = [(0x00, Divide_error_ex_w), (0x01, Debug_ex_w), (0x02, Nmi_int_ex_w), (0x03, Breakpoint_ex_w),
     (0x04, Overflow_ex_w), (0x05, Bound_range_exceeded_ex_w), (0x06, Opcode_invalid_ex_w), (0x07, No_device_ex_w),
     (0x08, Double_fault_ex_w), (0x09, Coprocessor_segment_overrun_ex_w), (0x0A, Tss_invalid_ex_w), (0x0B, No_segment_ex_w),
     (0x0C, Stack_fault_ex_w), (0x0D, Gp_fault_ex_w), (0x0E, Page_fault_ex_w), (0x10, Fpu_ex_w), (0x11, Alignment_check_ex_w),
     (0x12, Machine_check_ex_w), (0x13, Simd_ex_w), (0x20, Pit_int_w), (0x21, Kbrd_int_w), (0x28, Rtc_int_w), (0x80, Sys_int_w)]"

lemma fold_each: "fold (\<lambda>i t. t(i := f i (t i))) [0..<n] t = (\<lambda>i. if i < n then f i (t i) else t i)"
  by (induction n) (auto simp: fun_eq_iff)

lemma setup_idt_at: "setup_idt idt n = (if n < 256 then setup_gate n (idt n) else idt n)"
  by (simp add: setup_idt_def fold_each NUM_VEC_def)

text \<open>Reading a gate back: each field of the packed words is the field that was stored.\<close>

lemma bit_of_flag: "bit (push_bit k (ucast x :: u32)) n \<longleftrightarrow> n = k \<and> x = 1" if "k < 32" for x :: "1 word"
proof (cases "x = 0")
  case False
  then have "x = 1" by (cases x) (auto simp: less_2_cases_iff)
  then show ?thesis using that by (auto simp: bit_simps)
qed simp

lemma bit_of_field:
  "bit (push_bit k (ucast x :: u32)) n \<longleftrightarrow> k \<le> n \<and> n < 32 \<and> n - k < LENGTH('a) \<and> bit x (n - k)" for x :: "'a::len word"
  by (auto simp: bit_simps dest: bit_imp_le_length)

lemma bit_of_low: "bit (ucast x :: u32) n \<longleftrightarrow> n < 32 \<and> n < LENGTH('a) \<and> bit x n" for x :: "'a::len word"
  by (auto simp: bit_simps dest: bit_imp_le_length)

lemma gate_high_bit:
  "bit (snd (desc_val d)) n \<longleftrightarrow>
     n < 8 \<and> bit (reserved4 d) n \<or> n = 8 \<and> reserved3 d = 1 \<or> n = 9 \<and> reserved2 d = 1 \<or> n = 10 \<and> reserved1 d = 1 \<or>
     n = 11 \<and> gate_size d = 1 \<or> n = 12 \<and> reserved0 d = 1 \<or> n \<in> {13, 14} \<and> bit (dpl d) (n - 13) \<or>
     n = 15 \<and> present d = 1 \<or> 16 \<le> n \<and> n < 32 \<and> bit (offset_31_16 d) (n - 16)"
proof -
  have flags:
    "bit (push_bit 8 (ucast (reserved3 d) :: u32)) n \<longleftrightarrow> n = 8 \<and> reserved3 d = 1"
    "bit (push_bit 9 (ucast (reserved2 d) :: u32)) n \<longleftrightarrow> n = 9 \<and> reserved2 d = 1"
    "bit (push_bit 10 (ucast (reserved1 d) :: u32)) n \<longleftrightarrow> n = 10 \<and> reserved1 d = 1"
    "bit (push_bit 11 (ucast (gate_size d) :: u32)) n \<longleftrightarrow> n = 11 \<and> gate_size d = 1"
    "bit (push_bit 12 (ucast (reserved0 d) :: u32)) n \<longleftrightarrow> n = 12 \<and> reserved0 d = 1"
    "bit (push_bit 15 (ucast (present d) :: u32)) n \<longleftrightarrow> n = 15 \<and> present d = 1"
    by (rule bit_of_flag, simp)+
  have fields:
    "bit (ucast (reserved4 d) :: u32) n \<longleftrightarrow> n < 8 \<and> bit (reserved4 d) n"
    "bit (push_bit 13 (ucast (dpl d) :: u32)) n \<longleftrightarrow> n \<in> {13, 14} \<and> bit (dpl d) (n - 13)"
    "bit (push_bit 16 (ucast (offset_31_16 d) :: u32)) n \<longleftrightarrow> 16 \<le> n \<and> n < 32 \<and> bit (offset_31_16 d) (n - 16)"
    by (auto simp: bit_of_low bit_of_field)
  show ?thesis unfolding desc_val_def snd_conv bit_or_iff flags fields by blast
qed

lemma gate_low_bit:
  "bit (fst (desc_val d)) n \<longleftrightarrow> n < 16 \<and> bit (offset_15_00 d) n \<or> 16 \<le> n \<and> n < 32 \<and> bit (seg_selector d) (n - 16)"
  unfolding desc_val_def fst_conv bit_or_iff bit_of_low bit_of_field by auto

lemma bit_interrupt_gate: "bit (0xE :: u32) n \<longleftrightarrow> n \<in> {1, 2, 3}"
proof -
  have "(0xE :: u32) = push_bit 1 1 OR push_bit 2 1 OR push_bit 3 1" by simp
  then show ?thesis by (auto simp only: bit_or_iff bit_push_bit_iff bit_1_iff) auto
qed

lemma level_three: "ucast x = (3 :: u32) \<longleftrightarrow> x = 3" for x :: "2 word"
proof (cases x)
  case (1 k)
  then have "k = 0 \<or> k = 1 \<or> k = 2 \<or> k = 3" by auto
  then show ?thesis using 1(1) by (elim disjE) simp_all
qed

text \<open>An interrupt gate delivers to its selector and offset, to user code only at level 3.\<close>

lemma deliver_gate:
  assumes "present (idt n) = 1" "reserved3 (idt n) = 0" "reserved2 (idt n) = 1" "reserved1 (idt n) = 1" "gate_size (idt n) = 1" "reserved0 (idt n) = 0"
  shows "deliver idt user n = (if user \<and> dpl (idt n) \<noteq> 3 then None
    else Some (seg_selector (idt n), push_bit 16 (ucast (offset_31_16 (idt n))) OR ucast (offset_15_00 (idt n))))"
proof -
  let ?lo = "fst (desc_val (idt n))" and ?hi = "snd (desc_val (idt n))"
  have type: "take_bit 5 (drop_bit 8 ?hi) = 0xE"
  proof (rule bit_word_eqI)
    fix k
    show "bit (take_bit 5 (drop_bit 8 ?hi)) k = bit (0xE :: u32) k"
      unfolding bit_interrupt_gate bit_take_bit_iff bit_drop_bit_eq o_def gate_high_bit using assms by auto
  qed
  have level: "take_bit 2 (drop_bit 13 ?hi) = ucast (dpl (idt n))"
    by (rule bit_word_eqI) (use assms in \<open>auto simp: bit_take_bit_iff bit_drop_bit_eq gate_high_bit bit_of_low less_2_cases_iff\<close>)
  have sel: "ucast (drop_bit 16 ?lo) = seg_selector (idt n)"
    by (rule bit_word_eqI) (auto simp: bit_ucast_iff bit_drop_bit_eq gate_low_bit dest: bit_imp_le_length)
  have off: "push_bit 16 (drop_bit 16 ?hi) OR take_bit 16 ?lo = push_bit 16 (ucast (offset_31_16 (idt n))) OR ucast (offset_15_00 (idt n))"
    by (rule bit_word_eqI)
       (auto simp: bit_or_iff bit_push_bit_iff bit_take_bit_iff bit_drop_bit_eq gate_high_bit gate_low_bit bit_of_low)
  have three: "ucast (dpl (idt n)) = (3 :: u32) \<longleftrightarrow> dpl (idt n) = 3"
    by (simp add: level_three)
  show ?thesis
    using assms(1) by (simp add: deliver_def case_prod_beta type level sel off three gate_high_bit)
qed

lemma deliver_absent: "present (idt n) = 0 \<Longrightarrow> deliver idt user n = None"
  by (simp add: deliver_def case_prod_beta gate_high_bit)

lemma set_entry_offset: "push_bit 16 (ucast (ucast (drop_bit 16 (a AND 0xFFFF0000)) :: u16)) OR ucast (ucast (a AND 0xFFFF) :: u16) = a" for a :: u32
proof -
  have hi: "(0xFFFF0000 :: u32) = push_bit 16 (mask 16)" and lo: "(0xFFFF :: u32) = mask 16" by (simp_all add: mask_eq_exp_minus_1)
  show ?thesis
    unfolding hi lo
    by (rule bit_word_eqI)
       (auto simp: bit_or_iff bit_push_bit_iff bit_of_low bit_ucast_iff bit_drop_bit_eq bit_and_iff bit_mask_iff)
qed

definition vector_present :: "nat \<Rightarrow> bool" where
  "vector_present n \<longleftrightarrow> n < 20 \<or> n \<in> {0x20, 0x21, 0x28, 0x80}"

lemma setup_gate_present:
  assumes "vector_present n"
  shows "present (setup_gate n d) = 1" "reserved3 (setup_gate n d) = 0" "reserved2 (setup_gate n d) = 1" "reserved1 (setup_gate n d) = 1"
    "gate_size (setup_gate n d) = 1" "reserved0 (setup_gate n d) = 0" "seg_selector (setup_gate n d) = 0x10"
    "dpl (setup_gate n d) = (if n = 0x80 then 3 else 0)"
    "offset_31_16 (setup_gate n d) = offset_31_16 d" "offset_15_00 (setup_gate n d) = offset_15_00 d"
  using assms by (auto simp: vector_present_def setup_gate_def idt_consts Let_def)

lemma setup_gate_absent: "\<not> vector_present n \<Longrightarrow> present (setup_gate n d) = 0"
  by (auto simp: vector_present_def setup_gate_def idt_consts Let_def)

definition demo_gate :: idt_desc_t where
  "demo_gate = \<lparr>offset_15_00 = 0, seg_selector = 0, reserved4 = 0, reserved3 = 0, reserved2 = 0, reserved1 = 0, gate_size = 0,
     reserved0 = 0, dpl = 0, present = 0, offset_31_16 = 0\<rparr>"

text \<open>
  C33: the interrupt table. After the two set-up functions, whatever the table held, the
  processor delivers exactly the vectors with a handler (the nineteen exceptions, the timer,
  keyboard and clock lines and the system call) to that handler in the kernel's code segment;
  user code can raise the system call vector and no other, and all other vectors fault. Vector
  15 is the exception: it is marked present without a handler, so the processor would continue
  at the offset the table held before.
\<close>
theorem idt_dispatch:
  assumes "n < 256"
  shows "deliver (initialize_idt link (setup_idt idt)) user n =
    (if n = 15 then if user then None else Some (0x10, push_bit 16 (ucast (offset_31_16 (idt 15))) OR ucast (offset_15_00 (idt 15)))
     else case map_of vectors n of None \<Rightarrow> None | Some w \<Rightarrow> if user \<and> n \<noteq> 0x80 then None else Some (0x10, link w))"
proof -
  define t where "t = initialize_idt link (setup_idt idt)"
  have gate: "t n = (case map_of vectors n of None \<Rightarrow> setup_gate n (idt n)
      | Some w \<Rightarrow> (setup_gate n (idt n))\<lparr>offset_31_16 := ucast (drop_bit 16 (link w AND 0xFFFF0000)), offset_15_00 := ucast (link w AND 0xFFFF)\<rparr>)"
    using assms by (simp add: t_def initialize_idt_def SET_IDT_ENTRY_def setup_idt_at vectors_def idt_consts Let_def)
  have some: "map_of vectors n = None \<longleftrightarrow> n = 15" if "vector_present n"
    using that by (auto simp: vector_present_def map_of_eq_None_iff vectors_def) presburger
  have none: "map_of vectors n = None" "n \<noteq> 15" if "\<not> vector_present n"
    using that by (auto simp: vector_present_def map_of_eq_None_iff vectors_def)
  show ?thesis
  proof (cases "vector_present n")
    case True
    have "deliver t user n = (if user \<and> dpl (t n) \<noteq> 3 then None
        else Some (seg_selector (t n), push_bit 16 (ucast (offset_31_16 (t n))) OR ucast (offset_15_00 (t n))))"
      by (rule deliver_gate) (simp_all add: gate setup_gate_present [OF True] split: option.split)
    moreover have "dpl (t n) = (if n = 0x80 then 3 else 0)" "seg_selector (t n) = 0x10"
      using setup_gate_present(7,8) [OF True, of "idt n"] unfolding gate by (auto split: option.split)
    moreover have "push_bit 16 (ucast (offset_31_16 (t n))) OR ucast (offset_15_00 (t n)) = (case map_of vectors n of
        None \<Rightarrow> push_bit 16 (ucast (offset_31_16 (idt n))) OR ucast (offset_15_00 (idt n)) | Some w \<Rightarrow> link w)"
      by (simp add: gate setup_gate_present [OF True] set_entry_offset [simplified] split: option.split)
    ultimately show ?thesis
      using some [OF True] unfolding t_def [symmetric] by (cases "map_of vectors n") auto
  next
    case False
    have "present (t n) = 0" using none [OF False] by (simp add: gate setup_gate_absent [OF False])
    then show ?thesis using none [OF False] unfolding t_def [symmetric] by (simp add: deliver_absent)
  qed
qed

theorem idt_dispatch_witness:
  "deliver (initialize_idt (\<lambda>w. if w = Sys_int_w then 0x401234 else 0x400000) (setup_idt (\<lambda>_. demo_gate))) True 0x80 = Some (0x10, 0x401234) \<and>
   deliver (initialize_idt (\<lambda>w. if w = Sys_int_w then 0x401234 else 0x400000) (setup_idt (\<lambda>_. demo_gate))) True 0x0E = None"
  using idt_dispatch [of "0x80" "\<lambda>w. if w = Sys_int_w then 0x401234 else 0x400000" "\<lambda>_. demo_gate" True]
    idt_dispatch [of "0x0E" "\<lambda>w. if w = Sys_int_w then 0x401234 else 0x400000" "\<lambda>_. demo_gate" True]
  by (simp add: vectors_def)

end
