(* ===== verification/User_Calls.thy ===== *)
theory User_Calls
  imports Shells User_Support Printf Idt
begin

text \<open>
  The system calls as a user program sees them: the wrappers of \<open>ece391syscall.S\<close> execute
  \<open>int 0x80\<close>, the processor switches to the kernel stack named by the TSS and pushes the user's
  stack pointer, flags and return address there, the dispatcher runs the call, and \<open>iret\<close>
  returns. A program's parameters are a record \<open>user_env\<close>: the addresses of the kernel's local
  arrays, the addresses of the program's string literals, and the interrupts that arrive during
  its \<open>k\<close>-th blocking read.
\<close>

unbundle bit_operations_syntax

section \<open>Entering and leaving the kernel\<close>

definition int_0x80 :: "'a keyboard_scheme \<Rightarrow> 'a keyboard_scheme" where
  "int_0x80 u =
     (let s = u\<lparr>ss := tss_ss0 u, esp := tss_esp0 u\<rparr>;
          s = push32 (ss u) s;
          s = push32 (esp u) s;
          s = push32 (eflags_image u) s;
          s = push32 (cs u) s;
          s = push32 (eip u) s
      in s\<lparr>cs := ucast KERNEL_CS, int_flag := False\<rparr>)"

record 's user_env =
  u_locals :: locals
  u_lit :: "string \<Rightarrow> u32"
  u_handlers :: "nat \<Rightarrow> 's handler list"

text \<open>\<open>DO_CALL\<close> for the calls that come back to their caller.\<close>

definition do_call :: "locals \<Rightarrow> 'a keyboard_scheme handler list \<Rightarrow> u32 \<Rightarrow> u32 \<Rightarrow> u32 \<Rightarrow> u32 \<Rightarrow> 'a keyboard_scheme \<Rightarrow> (int \<times> 'a keyboard_scheme) option" where
  "do_call L hs number ebx ecx edx s =
     (case sys_int_w L hs number ebx ecx edx (int_0x80 s) of Some (Return r k) \<Rightarrow> Some (r, iret k) | _ \<Rightarrow> None)"

definition ece391_read :: "'a keyboard_scheme user_env \<Rightarrow> nat \<Rightarrow> int \<Rightarrow> u32 \<Rightarrow> int \<Rightarrow> 'a keyboard_scheme \<Rightarrow> (int \<times> 'a keyboard_scheme) option" where
  "ece391_read U k fd buf nbytes s = do_call (u_locals U) (u_handlers U k) 3 (word_of_int fd) buf (word_of_int nbytes) s"

definition ece391_write :: "'a keyboard_scheme user_env \<Rightarrow> int \<Rightarrow> u32 \<Rightarrow> int \<Rightarrow> 'a keyboard_scheme \<Rightarrow> (int \<times> 'a keyboard_scheme) option" where
  "ece391_write U fd buf nbytes s = do_call (u_locals U) [] 4 (word_of_int fd) buf (word_of_int nbytes) s"

definition ece391_open :: "'a keyboard_scheme user_env \<Rightarrow> u32 \<Rightarrow> 'a keyboard_scheme \<Rightarrow> (int \<times> 'a keyboard_scheme) option" where
  "ece391_open U filename s = do_call (u_locals U) [] 5 filename 0 0 s"

definition ece391_close :: "'a keyboard_scheme user_env \<Rightarrow> int \<Rightarrow> 'a keyboard_scheme \<Rightarrow> (int \<times> 'a keyboard_scheme) option" where
  "ece391_close U fd s = do_call (u_locals U) [] 6 (word_of_int fd) 0 0 s"

definition ece391_getargs :: "'a keyboard_scheme user_env \<Rightarrow> u32 \<Rightarrow> int \<Rightarrow> 'a keyboard_scheme \<Rightarrow> (int \<times> 'a keyboard_scheme) option" where
  "ece391_getargs U buf nbytes s = do_call (u_locals U) [] 7 buf (word_of_int nbytes) 0 s"

definition ece391_vidmap :: "'a keyboard_scheme user_env \<Rightarrow> u32 \<Rightarrow> 'a keyboard_scheme \<Rightarrow> (int \<times> 'a keyboard_scheme) option" where
  "ece391_vidmap U screen_start s = do_call (u_locals U) [] 8 screen_start 0 0 s"

text \<open>\<open>ece391_fdputs\<close> of the support library; the result of the write is ignored.\<close>

definition ece391_fdputs :: "'a keyboard_scheme user_env \<Rightarrow> int \<Rightarrow> u32 \<Rightarrow> 'a keyboard_scheme \<Rightarrow> 'a keyboard_scheme option" where
  "ece391_fdputs U fd s0 s =
     do {
       len \<leftarrow> ece391_strlen (memory s) s0;
       (_, s) \<leftarrow> ece391_write U fd s0 (sint len) s;
       Some s
     }"

section \<open>What a run of user code has done\<close>

text \<open>
  \<open>told A p w out fs s s'\<close>: between \<open>s\<close> and \<open>s'\<close> the program of process \<open>p\<close> printed \<open>out\<close> on its
  terminal \<open>w\<close>, its descriptor table became \<open>fs\<close>, memory changed only in the blocks \<open>A\<close>, and the
  kernel's other tables are as before.
\<close>

definition outside :: "(u32 \<times> nat) list \<Rightarrow> u32 \<Rightarrow> bool" where
  "outside A x \<longleftrightarrow> list_all (\<lambda>(a, n). \<not> in_region x a n) A"

definition fdt :: "int \<Rightarrow> 'a keyboard_scheme \<Rightarrow> fd_t list" where
  "fdt p s = file_array (pcbs s (pcb_of p))"

definition told :: "(u32 \<times> nat) list \<Rightarrow> int \<Rightarrow> u32 \<Rightarrow> u8 list \<Rightarrow> fd_t list \<Rightarrow> 'a keyboard_scheme \<Rightarrow> 'a keyboard_scheme \<Rightarrow> bool" where
  "told A p w out fs s s' \<longleftrightarrow> cursor_ok w s' \<and> screen_of w s' = fold put_char out (screen_of w s) \<and>
     (\<forall>x. outside A x \<longrightarrow> memory s' x = memory s x) \<and>
     pcbs s' = (pcbs s)(pcb_of p := (pcbs s (pcb_of p))\<lparr>file_array := fs\<rparr>) \<and> process_array s' = process_array s \<and>
     terminal_array s' = terminal_array s \<and> curr_terminal s' = curr_terminal s \<and> tss_esp0 s' = tss_esp0 s \<and> boot_block s' = boot_block s"

definition user_ok :: "(u32 \<times> nat) list \<Rightarrow> int \<Rightarrow> u32 \<Rightarrow> 'a keyboard_scheme \<Rightarrow> bool" where
  "user_ok A p w s \<longleftrightarrow> valid_pid p \<and> curr_pid s = p \<and> tss_esp0 s = pcb_of p + 0x1FFC \<and>
     word_of_int (pcb_terminal (pcbs s (pcb_of p))) = w \<and> w < 3 \<and> cursor_ok w s \<and>
     (page w, 4000) \<in> set A \<and> (pcb_of p + 0x1FE8, 20) \<in> set A"

lemma outsideD: "outside A x \<Longrightarrow> (a, n) \<in> set A \<Longrightarrow> \<not> in_region x a n"
  by (auto simp: outside_def list_all_iff)

lemma told_trans: "told A p w out fs s s' \<Longrightarrow> told A p w out' fs' s' s'' \<Longrightarrow> told A p w (out @ out') fs' s s''"
  by (auto simp: told_def)

lemma told_fdt: "told A p w out fs s s' \<Longrightarrow> fdt p s' = fs"
  by (auto simp: told_def fdt_def)

lemma told_refl: "cursor_ok w s \<Longrightarrow> told A p w [] (fdt p s) s s"
  by (auto simp: told_def fdt_def)

lemma told_ok: "user_ok A p w s \<Longrightarrow> told A p w out fs s s' \<Longrightarrow> user_ok A p w s'"
  by (auto simp: user_ok_def told_def curr_pid_def)

text \<open>The screen depends on its page and cursor only.\<close>

lemma screen_of_same:
  assumes "\<And>x. in_region x (page t) 4000 \<Longrightarrow> memory s' x = memory s x" "screen_x s' t = screen_x s t" "screen_y s' t = screen_y s t"
  shows "screen_of t s' = screen_of t s"
proof -
  have "in_region (cell_addr t r c) (page t) 4000" if "r < 25" "c < 80" for r c
    using in_region_offset [of "2 * (80 * r + c)" 4000 "page t"] that by (simp add: cell_addr_def)
  then show ?thesis using assms by (auto simp: screen_of_def fun_eq_iff)
qed

lemma stack_off_page: "valid_pid p \<Longrightarrow> w < 3 \<Longrightarrow> disjoint_regions (pcb_of p + 0x1FE8) 20 (page w) 4000"
  by (elim term_cases; drule valid_pid_cases; elim disjE) (simp_all add: disjoint_regions_def pcb_of_def proc_consts)

section \<open>The switch into the kernel and back\<close>

lemma in_subregion: "in_region x (a + of_nat k) n \<Longrightarrow> k + n \<le> l \<Longrightarrow> l \<le> 2 ^ 32 \<Longrightarrow> in_region x a l"
proof -
  assume x: "in_region x (a + of_nat k) n" and l: "k + n \<le> l" "l \<le> 2 ^ 32"
  from x obtain i where "i < n" "x = a + of_nat (k + i)" by (auto elim!: in_regionE simp: add.assoc)
  then show ?thesis using in_region_offset [of "k + i" l a] l by simp
qed

lemma int_0x80_memory: "\<not> in_region x (tss_esp0 s - 20) 20 \<Longrightarrow> memory (int_0x80 s) x = memory s x"
proof -
  assume "\<not> in_region x (tss_esp0 s - 20) 20"
  then have off: "\<not> in_region x (tss_esp0 s - 20 + of_nat k) 4" if "k + 4 \<le> 20" for k
    using in_subregion [of x "tss_esp0 s - 20" k 4 20] that by auto
  show ?thesis
    using off [of 0] off [of 4] off [of 8] off [of 12] off [of 16] by (simp add: int_0x80_def Let_def write32_outside)
qed

lemma int_0x80_frame:
  "pcbs (int_0x80 s) = pcbs s" "process_array (int_0x80 s) = process_array s" "terminal_array (int_0x80 s) = terminal_array s"
  "curr_terminal (int_0x80 s) = curr_terminal s" "tss_esp0 (int_0x80 s) = tss_esp0 s" "boot_block (int_0x80 s) = boot_block s"
  "screen_x (int_0x80 s) = screen_x s" "screen_y (int_0x80 s) = screen_y s" "esp (int_0x80 s) = tss_esp0 s - 20"
  by (simp_all add: int_0x80_def Let_def push32_def)

lemma kernel_entry:
  fixes s :: "'a keyboard_scheme"
  assumes ok: "user_ok A p w s"
  shows "told A p w [] (fdt p s) s (int_0x80 s)" "curr_pcb (int_0x80 s) = pcb_of p" "get_curr_pcb_term (int_0x80 s) = w"
proof -
  have base: "tss_esp0 s - 20 = pcb_of p + 0x1FE8" using ok by (simp add: user_ok_def)
  have mem: "memory (int_0x80 s) x = memory s x" if "\<not> in_region x (pcb_of p + 0x1FE8) 20" for x
    using int_0x80_memory [of x s] that base by simp
  have "disjoint_regions (pcb_of p + 0x1FE8) 20 (page w) 4000" using ok stack_off_page by (simp add: user_ok_def)
  then have "screen_of w (int_0x80 s) = screen_of w s"
    using mem by (intro screen_of_same) (auto simp: int_0x80_frame dest: disjoint_regionsD)
  then show "told A p w [] (fdt p s) s (int_0x80 s)"
    using ok mem outsideD by (auto simp: told_def user_ok_def int_0x80_frame fdt_def cursor_ok_def)
  have "in_region (pcb_of p + 0x1FE8) (pcb_of p) 0x2000" using in_region_offset [of "0x1FE8" "0x2000" "pcb_of p"] by simp
  moreover have "valid_pid p" using ok by (simp add: user_ok_def)
  ultimately have "(pcb_of p + 0x1FE8) AND PCB_BITMASK = pcb_of p" using esp_mask_pcb by blast
  then show "curr_pcb (int_0x80 s) = pcb_of p" unfolding curr_pcb_def int_0x80_frame base .
  show "get_curr_pcb_term (int_0x80 s) = w"
    using ok by (simp add: get_curr_pcb_term_def int_0x80_frame user_ok_def curr_pid_def)
qed

lemma iret_frame [simp]:
  "memory (iret s) = memory s" "pcbs (iret s) = pcbs s" "process_array (iret s) = process_array s" "terminal_array (iret s) = terminal_array s"
  "curr_terminal (iret s) = curr_terminal s" "tss_esp0 (iret s) = tss_esp0 s" "screen_x (iret s) = screen_x s" "screen_y (iret s) = screen_y s"
  by (simp_all add: iret_def Let_def)

lemma kernel_exit: "cursor_ok w s \<Longrightarrow> told A p w [] (fdt p s) s (iret s)" for s :: "'a keyboard_scheme"
  using screen_of_same [of w "iret s" s] by (auto simp: told_def fdt_def cursor_ok_def iret_def Let_def)

text \<open>A user run with its result: \<open>runs\<close> composes along the program.\<close>

definition runs :: "(u32 \<times> nat) list \<Rightarrow> int \<Rightarrow> u32 \<Rightarrow> 'v \<Rightarrow> u8 list \<Rightarrow> fd_t list \<Rightarrow> 'a keyboard_scheme \<Rightarrow> ('v \<times> 'a keyboard_scheme) option \<Rightarrow> bool" where
  "runs A p w v out fs s r \<longleftrightarrow> (\<exists>s'. r = Some (v, s') \<and> told A p w out fs s s')"

lemma runs_bind:
  assumes "user_ok A p w s" "runs A p w v out fs s r"
    and "\<And>s'. user_ok A p w s' \<Longrightarrow> told A p w out fs s s' \<Longrightarrow> runs A p w v' out' fs' s' (f (v, s'))"
  shows "runs A p w v' (out @ out') fs' s (Option.bind r f)"
proof -
  obtain s' where s': "r = Some (v, s')" "told A p w out fs s s'" using assms(2) by (auto simp: runs_def)
  then show ?thesis using assms(3) [OF told_ok [OF assms(1) s'(2)] s'(2)] told_trans [OF s'(2)] by (auto simp: runs_def)
qed

lemma runs_silent:
  assumes "user_ok A p w s" "runs A p w v [] fs s r"
    and "\<And>s'. user_ok A p w s' \<Longrightarrow> told A p w [] fs s s' \<Longrightarrow> runs A p w v' out fs' s' (f (v, s'))"
  shows "runs A p w v' out fs' s (Option.bind r f)"
  using runs_bind [OF assms] by simp

lemma runs_return: "user_ok A p w s \<Longrightarrow> fdt p s = fs \<Longrightarrow> runs A p w v [] fs s (Some (v, s))"
  using told_refl [of w s A p] by (auto simp: runs_def user_ok_def)

text \<open>A call that the dispatcher completes.\<close>

lemma runs_call:
  assumes ok: "user_ok A p w s" and call: "sys_int_w L hs n ebx ecx edx (int_0x80 s) = Some (Return r k)"
    and kernel: "told A p w out fs (int_0x80 s) k"
  shows "runs A p w r out fs s (do_call L hs n ebx ecx edx s)"
proof -
  have "cursor_ok w k" using kernel by (simp add: told_def)
  then have "told A p w [] fs k (iret k)" using kernel_exit [of w k A p] told_fdt [OF kernel] by simp
  from told_trans [OF told_trans [OF kernel_entry(1) [OF ok] kernel] this] show ?thesis
    using call by (auto simp: runs_def do_call_def)
qed

lemma runs_refused:
  assumes "user_ok A p w s" "fdt p s = fs" "sys_int_w L hs n ebx ecx edx (int_0x80 s) = Some (Return (-1) (int_0x80 s))"
  shows "runs A p w (-1) [] fs s (do_call L hs n ebx ecx edx s)"
proof -
  note entry = kernel_entry(1) [OF assms(1)]
  have "cursor_ok w (int_0x80 s)" "fdt p (int_0x80 s) = fs" using entry told_fdt [OF entry] assms(2) by (auto simp: told_def)
  then show ?thesis using runs_call [OF assms(1,3)] told_refl [of w "int_0x80 s" A p] by simp
qed

section \<open>Calls on the terminal\<close>

text \<open>The frame of printing: a state that changed in the page and cursor of \<open>w\<close> only.\<close>

lemma told_put_all:
  fixes k :: "'a keyboard_scheme"
  assumes "cursor_ok w k" "(page w, 4000) \<in> set A"
  shows "told A p w xs (fdt p k) k (sti (put_all xs w (cli k)))"
proof -
  have c: "cursor_ok w (cli k)" using assms(1) by (simp add: cursor_ok_def cli_def)
  have "console_only (cli k) (put_all xs w (cli k))" by (rule put_all_console_only)
  then obtain m x y l where put: "put_all xs w (cli k) = (cli k)\<lparr>memory := m, screen_x := x, screen_y := y, io_log := l @ io_log (cli k)\<rparr>"
    by (auto simp: console_only_def)
  have "cursor_ok w (put_all xs w (cli k))" "screen_of w (put_all xs w (cli k)) = fold put_char xs (screen_of w k)"
    using put_all_cursor_ok [OF c] put_all_refines [OF c] by simp_all
  moreover have "memory (put_all xs w (cli k)) a = memory k a" if "outside A a" for a
    using put_all_frame [OF c] outsideD [OF that assms(2)] by simp
  moreover have "pcbs (put_all xs w (cli k)) = pcbs k" "process_array (put_all xs w (cli k)) = process_array k"
    "terminal_array (put_all xs w (cli k)) = terminal_array k" "curr_terminal (put_all xs w (cli k)) = curr_terminal k"
    "tss_esp0 (put_all xs w (cli k)) = tss_esp0 k" "boot_block (put_all xs w (cli k)) = boot_block k"
    unfolding put by (simp_all add: cli_def)
  moreover have "cursor_ok w (sti r) = cursor_ok w r" for r :: "'a keyboard_scheme" by (simp add: cursor_ok_def sti_def)
  moreover have "pcbs (sti r) = pcbs r" "process_array (sti r) = process_array r" "terminal_array (sti r) = terminal_array r"
    "curr_terminal (sti r) = curr_terminal r" "tss_esp0 (sti r) = tss_esp0 r" "boot_block (sti r) = boot_block r" for r :: "'a keyboard_scheme"
    by (simp_all add: sti_def)
  ultimately show ?thesis by (simp add: told_def fdt_def)
qed

lemma sint_int_u32: "- (2 ^ 31) \<le> i \<Longrightarrow> i < 2 ^ 31 \<Longrightarrow> sint (word_of_int i :: u32) = i"
  by (simp add: signed_of_int signed_take_bit_int_eq_self)

text \<open>Writing to a descriptor whose table is that of the standard output.\<close>

lemma runs_write:
  fixes s :: "'a keyboard_scheme"
  assumes ok: "user_ok A p w s" and fs: "fdt p s = fs" "length fs = 8" and fd: "0 \<le> fd" "fd < 8"
    and tab: "fop_jump_table (fs ! nat fd) ! 1 = Terminal_write" and buf: "buf \<noteq> 0" and n: "n < 2 ^ 31"
    and off: "\<And>j. j < n \<Longrightarrow> outside A (buf + of_nat j)"
  shows "runs A p w (int n) (read_bytes (memory s) buf n) fs s (ece391_write U fd buf (int n) s)"
proof -
  let ?k = "int_0x80 s"
  note e = kernel_entry [OF ok]
  have A: "(page w, 4000) \<in> set A" "cursor_ok w ?k" using ok e(1) by (auto simp: user_ok_def told_def)
  have "read_bytes (memory ?k) buf n = read_bytes (memory s) buf n"
    using e(1) off by (intro read_bytes_cong) (auto simp: told_def)
  moreover have "\<not> in_region (buf + of_nat j) (page w) 4000" if "j < n" for j using outsideD [OF off [OF that] A(1)] .
  ultimately have "terminal_write i buf (int n) ?k = (int n, sti (put_all (read_bytes (memory s) buf n) w (cli ?k)))" for i
    using terminal_write_eq [of buf ?k "int n" i] buf A(2) by (simp add: e(3))
  moreover have "fd_at (pcb_of p) fd ?k = fs ! nat fd" using fs(1) by (simp add: fd_at_def int_0x80_frame fdt_def)
  moreover have "sint (word_of_int fd :: u32) = fd" "sint (word_of_int (int n) :: u32) = int n"
    using fd n sint_int_u32 [of fd] sint_int_u32 [of "int n"] by simp_all
  ultimately have "sys_int_w (u_locals U) [] 4 (word_of_int fd) buf (word_of_int (int n)) ?k =
      Some (Return (int n) (sti (put_all (read_bytes (memory s) buf n) w (cli ?k))))"
    using fd buf tab by (simp add: sys_int_w_def write_fd_def Let_def e(2) MAX_OPEN_FILES_def call_write_def WRITE_INDEX_def returning_def)
  then show ?thesis
    unfolding ece391_write_def using runs_call [OF ok] told_put_all [OF A(2,1), of p] told_fdt [OF e(1)] fs(1) by simp
qed

text \<open>Printing a string of the program.\<close>

lemma runs_fdputs:
  fixes s :: "'a keyboard_scheme"
  assumes ok: "user_ok A p w s" and fs: "fdt p s = fs" "length fs = 8" and fd: "0 \<le> fd" "fd < 8"
    and tab: "fop_jump_table (fs ! nat fd) ! 1 = Terminal_write" and a: "a \<noteq> 0" "cstr_at (memory s) a xs" "length xs < 2 ^ 31"
    and off: "\<And>j. j < length xs \<Longrightarrow> outside A (a + of_nat j)"
  shows "\<exists>s'. ece391_fdputs U fd a s = Some s' \<and> told A p w xs fs s s'"
proof -
  have len: "ece391_strlen (memory s) a = Some (of_nat (length xs))" by (simp add: ece391_strlen_eq strlen_cstr [OF a(2)])
  have "read_bytes (memory s) a (length xs) = xs" using a(2) by (simp add: cstr_at_def)
  then obtain s' where "ece391_write U fd a (int (length xs)) s = Some (int (length xs), s')" "told A p w xs fs s s'"
    using runs_write [OF ok fs fd tab a(1,3) off, of U] by (auto simp: runs_def)
  then show ?thesis using a(3) by (simp add: ece391_fdputs_def len sint_of_nat_u32)
qed

section \<open>Calls by what the kernel does\<close>

text \<open>The kernel side of a call: what it does from the state the program entered it with.\<close>

lemma call_sys:
  assumes ok: "user_ok A p w s" and fs: "fdt p s = fs"
    and kernel: "\<And>k. user_ok A p w k \<Longrightarrow> told A p w [] fs s k \<Longrightarrow> curr_pcb k = pcb_of p \<Longrightarrow> fdt p k = fs \<Longrightarrow>
      \<exists>k'. sys_int_w L hs n ebx ecx edx k = Some (Return r k') \<and> told A p w out fs' k k' \<and> Q (memory k')"
  shows "\<exists>s'. do_call L hs n ebx ecx edx s = Some (r, s') \<and> told A p w out fs' s s' \<and> Q (memory s')"
proof -
  note e = kernel_entry [OF ok, unfolded fs]
  from kernel [OF told_ok [OF ok e(1)] e(1,2) told_fdt [OF e(1)]] obtain k'
    where k': "sys_int_w L hs n ebx ecx edx (int_0x80 s) = Some (Return r k')" "told A p w out fs' (int_0x80 s) k'" "Q (memory k')" by blast
  moreover have "told A p w out fs' s (iret k')" using runs_call [OF ok k'(1,2)] k'(1) by (simp add: runs_def do_call_def)
  ultimately show ?thesis by (simp add: do_call_def)
qed

lemma runs_sys:
  assumes ok: "user_ok A p w s" and fs: "fdt p s = fs"
    and kernel: "\<And>k. user_ok A p w k \<Longrightarrow> told A p w [] fs s k \<Longrightarrow> curr_pcb k = pcb_of p \<Longrightarrow> fdt p k = fs \<Longrightarrow>
      \<exists>k'. sys_int_w L hs n ebx ecx edx k = Some (Return r k') \<and> told A p w out fs' k k'"
  shows "runs A p w r out fs' s (do_call L hs n ebx ecx edx s)"
  using call_sys [OF ok fs, of L hs n ebx ecx edx r out fs' "\<lambda>_. True"] kernel by (auto simp: runs_def)

lemma told_set_fd:
  fixes k :: "'a keyboard_scheme"
  assumes "cursor_ok w k"
  shows "told A p w [] ((fdt p k)[nat fd := f (fdt p k ! nat fd)]) k (set_fd (pcb_of p) fd f k)"
  using assms screen_of_same [of w "set_fd (pcb_of p) fd f k" k]
  by (auto simp: told_def set_fd_def update_pcb_def update_fd_def fdt_def cursor_ok_def)

lemma told_memory:
  fixes k :: "'a keyboard_scheme"
  assumes "cursor_ok w k" "\<And>x. outside A x \<Longrightarrow> m x = memory k x" "\<And>x. in_region x (page w) 4000 \<Longrightarrow> m x = memory k x"
  shows "told A p w [] (fdt p k) k (k\<lparr>memory := m\<rparr>)"
  using assms screen_of_same [of w "k\<lparr>memory := m\<rparr>" k] by (auto simp: told_def fdt_def cursor_ok_def)

lemma told_sti:
  fixes k :: "'a keyboard_scheme"
  assumes "cursor_ok w k"
  shows "told A p w [] (fdt p k) k (sti k)"
  using assms screen_of_same [of w "sti k" k] by (auto simp: told_def fdt_def cursor_ok_def sti_def)

section \<open>Refused calls\<close>

lemma runs_bad_fd:
  fixes s :: "'a keyboard_scheme"
  assumes ok: "user_ok A p w s" and fs: "fdt p s = fs" and fd: "- (2 ^ 31) \<le> fd" "fd < 2 ^ 31" "fd < 0 \<or> 8 \<le> fd"
  shows "runs A p w (-1) [] fs s (ece391_read U h fd buf n s)" "runs A p w (-1) [] fs s (ece391_write U fd buf n s)"
    "runs A p w (-1) [] fs s (ece391_close U fd s)"
  unfolding ece391_read_def ece391_write_def ece391_close_def
  using fd by (auto intro!: runs_refused [OF ok fs] simp: sys_int_w_def bad_descriptor sint_int_u32 returning_def)

lemma runs_bad_number:
  fixes s :: "'a keyboard_scheme"
  assumes "user_ok A p w s" "fdt p s = fs" "n > 10 \<or> sint n \<le> 0"
  shows "runs A p w (-1) [] fs s (do_call L hs n ebx ecx edx s)"
  using assms(3) by (intro runs_refused [OF assms(1,2)]) (simp add: sys_int_w_def)

lemma runs_vidmap_refused:
  fixes s :: "'a keyboard_scheme"
  assumes "user_ok A p w s" "fdt p s = fs" "a < 0x8000000 \<or> 0x8400000 \<le> a"
  shows "runs A p w (-1) [] fs s (ece391_vidmap U a s)"
  unfolding ece391_vidmap_def
  using assms(3) by (intro runs_refused [OF assms(1,2)]) (auto simp: sys_int_w_def vidmap_def returning_def USER_VID_MEM_def FOUR_MB_def)

lemma runs_read_no_func:
  fixes s :: "'a keyboard_scheme"
  assumes ok: "user_ok A p w s" and fs: "fdt p s = fs" "length fs = 8" and fd: "0 \<le> fd" "fd < 8" and buf: "buf \<noteq> 0"
    and tab: "fop_jump_table (fs ! nat fd) ! 0 = No_func"
  shows "runs A p w (-1) [] (fs[nat fd := advance (-1) (fs ! nat fd)]) s (ece391_read U h fd buf n s)"
  unfolding ece391_read_def
proof (rule runs_sys [OF ok fs(1)])
  fix k :: "'a keyboard_scheme" assume k: "user_ok A p w k" "curr_pcb k = pcb_of p" "fdt p k = fs"
  have c: "cursor_ok w k" using k(1) by (simp add: user_ok_def)
  have s: "fdt p (sti k) = fs" "cursor_ok w (sti k)" using k(3) c by (auto simp: fdt_def sti_def cursor_ok_def)
  have at: "fd_at (pcb_of p) fd (sti k) = fs ! nat fd" using s(1) by (simp add: fd_at_def fdt_def)
  have "sint (word_of_int fd :: u32) = fd" using fd sint_int_u32 [of fd] by simp
  then have "sys_int_w (u_locals U) (u_handlers U h) 3 (word_of_int fd) buf (word_of_int n) k =
      Some (Return (-1) (set_fd (pcb_of p) fd (advance (-1)) (sti k)))"
    using fd buf tab
    by (simp add: sys_int_w_def read_fd_def Let_def k(2) MAX_OPEN_FILES_def call_read_def READ_INDEX_def at no_func_def returning_def advance_def [abs_def])
  then show "\<exists>k'. sys_int_w (u_locals U) (u_handlers U h) 3 (word_of_int fd) buf (word_of_int n) k = Some (Return (-1) k') \<and>
      told A p w [] (fs[nat fd := advance (-1) (fs ! nat fd)]) k k'"
    using told_trans [OF told_sti [OF c, of A p] told_set_fd [OF s(2), of A p fd "advance (-1)"]] by (simp add: s(1))
qed

lemma runs_write_fails:
  fixes s :: "'a keyboard_scheme"
  assumes ok: "user_ok A p w s" and fs: "fdt p s = fs" and fd: "0 \<le> fd" "fd < 8" and buf: "buf \<noteq> 0"
    and tab: "fop_jump_table (fs ! nat fd) ! 1 \<in> {No_func, Dir_write, File_write}"
  shows "runs A p w (-1) [] fs s (ece391_write U fd buf n s)"
proof -
  have "sint (word_of_int fd :: u32) = fd" using fd sint_int_u32 [of fd] by simp
  moreover have "fd_at (pcb_of p) fd (int_0x80 s) = fs ! nat fd" using fs by (simp add: fd_at_def fdt_def int_0x80_frame)
  ultimately have "sys_int_w (u_locals U) [] 4 (word_of_int fd) buf (word_of_int n) (int_0x80 s) = Some (Return (-1) (int_0x80 s))"
    using fd buf tab kernel_entry(2) [OF ok]
    by (auto simp: sys_int_w_def write_fd_def Let_def MAX_OPEN_FILES_def call_write_def WRITE_INDEX_def returning_def no_func_def dir_write_def
        file_write_def FAILURE_def)
  then show ?thesis unfolding ece391_write_def by (rule runs_refused [OF ok fs])
qed

text \<open>Closing: a free descriptor is refused; an open one becomes free whatever the call returns.\<close>

definition close_result :: "fd_t \<Rightarrow> int" where
  "close_result f = (case fop_jump_table f ! 3 of Terminal_close \<Rightarrow> (if (word_of_int (fd_inode f) :: u32) = 0 then -1 else 0) | No_func \<Rightarrow> -1 | _ \<Rightarrow> 0)"

lemma runs_close_free:
  fixes s :: "'a keyboard_scheme"
  assumes ok: "user_ok A p w s" and fs: "fdt p s = fs" and fd: "0 \<le> fd" "fd < 8" "fd_flags (fs ! nat fd) = 0"
  shows "runs A p w (-1) [] fs s (ece391_close U fd s)"
proof -
  have "sint (word_of_int fd :: u32) = fd" using fd sint_int_u32 [of fd] by simp
  moreover have "fd_at (pcb_of p) fd (int_0x80 s) = fs ! nat fd" using fs by (simp add: fd_at_def fdt_def int_0x80_frame)
  ultimately have "sys_int_w (u_locals U) [] 6 (word_of_int fd) 0 0 (int_0x80 s) = Some (Return (-1) (int_0x80 s))"
    using fd kernel_entry(2) [OF ok] by (auto simp: sys_int_w_def close_closed returning_def)
  then show ?thesis unfolding ece391_close_def by (rule runs_refused [OF ok fs])
qed

lemma runs_close:
  fixes s :: "'a keyboard_scheme"
  assumes ok: "user_ok A p w s" and fs: "fdt p s = fs" and fd: "0 \<le> fd" "fd < 8" "fd_flags (fs ! nat fd) \<noteq> 0"
    and tab: "fop_jump_table (fs ! nat fd) ! 3 \<in> {Terminal_close, Rtc_close, Dir_close, File_close, No_func}"
  shows "runs A p w (close_result (fs ! nat fd)) [] (fs[nat fd := closed_fd (fs ! nat fd)]) s (ece391_close U fd s)"
  unfolding ece391_close_def
proof (rule runs_sys [OF ok fs(1)])
  fix k :: "'a keyboard_scheme" assume k: "user_ok A p w k" "curr_pcb k = pcb_of p" "fdt p k = fs"
  have c: "cursor_ok w k" using k(1) by (simp add: user_ok_def)
  have at: "fd_at (pcb_of p) fd k = fs ! nat fd" using k(3) by (simp add: fd_at_def fdt_def)
  have "sint (word_of_int fd :: u32) = fd" using fd sint_int_u32 [of fd] by simp
  then have "sys_int_w (u_locals U) [] 6 (word_of_int fd) 0 0 k =
      Some (Return (close_result (fs ! nat fd)) (set_fd (pcb_of p) fd closed_fd k))"
    using fd tab at
    by (auto simp: sys_int_w_def close_fd_def Let_def k(2) MAX_OPEN_FILES_def call_close_def CLOSE_INDEX_def no_func_def returning_def
        close_result_def terminal_close_def rtc_close_def dir_close_def file_close_def SUCCESS_def)
  then show "\<exists>k'. sys_int_w (u_locals U) [] 6 (word_of_int fd) 0 0 k = Some (Return (close_result (fs ! nat fd)) k') \<and>
      told A p w [] (fs[nat fd := closed_fd (fs ! nat fd)]) k k'"
    using told_set_fd [OF c, of A p fd closed_fd] by (simp add: k(3))
qed

section \<open>Memory the calls leave alone\<close>

definition clear_of :: "(u32 \<times> nat) list \<Rightarrow> u32 \<Rightarrow> nat \<Rightarrow> bool" where
  "clear_of A a n \<longleftrightarrow> (\<forall>j<n. outside A (a + of_nat j))"

lemma clear_ofD: "clear_of A a n \<Longrightarrow> j < n \<Longrightarrow> outside A (a + of_nat j)"
  by (simp add: clear_of_def)

lemma clear_of_prefix: "clear_of A a n \<Longrightarrow> k \<le> n \<Longrightarrow> clear_of A a k"
  by (simp add: clear_of_def)

lemma clear_of_disjoint:
  assumes "clear_of A a n" "(b, k) \<in> set A"
  shows "disjoint_regions b k a n"
proof -
  have "k \<le> unat (a - b)" if "0 < n"
    using outsideD [OF clear_ofD [OF assms(1) that] assms(2)] by (simp add: in_region_def not_less)
  moreover have "n \<le> unat (b - a)" if "0 < k"
  proof (rule ccontr)
    assume "\<not> n \<le> unat (b - a)"
    then have "\<not> in_region b b k" using outsideD [OF clear_ofD [OF assms(1)] assms(2), of "unat (b - a)"] by simp
    then show False using that by (simp add: in_region_def)
  qed
  ultimately show ?thesis by (auto simp: disjoint_regions_def)
qed

lemma told_clear:
  assumes "told A p w out fs s s'" "clear_of A a n"
  shows "j < n \<Longrightarrow> memory s' (a + of_nat j) = memory s (a + of_nat j)" "read_bytes (memory s') a n = read_bytes (memory s) a n"
    "same_image (memory s) (memory s') a n"
  using assms by (auto simp: told_def clear_of_def same_image_def intro!: read_bytes_cong)

lemma told_cstr:
  assumes "told A p w out fs s s'" "clear_of A a (Suc (length xs))" "cstr_at (memory s) a xs"
  shows "cstr_at (memory s') a xs"
  using told_clear(2) [OF assms(1) clear_of_prefix [OF assms(2), of "length xs"]] told_clear(1) [OF assms(1,2), of "length xs"] assms(3)
  by (simp add: cstr_at_def)

lemma outside_mono: "outside B x \<Longrightarrow> set A \<subseteq> set B \<Longrightarrow> outside A x"
  by (auto simp: outside_def list_all_iff)

lemma told_mono: "told A p w out fs s s' \<Longrightarrow> set A \<subseteq> set B \<Longrightarrow> told B p w out fs s s'"
  using outside_mono by (auto simp: told_def)

lemma runs_mono: "runs A p w v out fs s r \<Longrightarrow> set A \<subseteq> set B \<Longrightarrow> runs B p w v out fs s r"
  using told_mono by (auto simp: runs_def)

text \<open>A change of memory inside blocks that are off the screen.\<close>

lemma told_written:
  fixes k :: "'a keyboard_scheme"
  assumes "cursor_ok w k" "\<And>x. outside B x \<Longrightarrow> m x = memory k x" "\<And>x. outside A x \<Longrightarrow> outside B x"
    and "list_all (\<lambda>(b, n). disjoint_regions b n (page w) 4000) B"
  shows "told A p w [] (fdt p k) k (k\<lparr>memory := m\<rparr>)"
proof (rule told_memory [OF assms(1)])
  show "m x = memory k x" if "outside A x" for x using assms(2,3) that by blast
  show "m x = memory k x" if "in_region x (page w) 4000" for x
    using that assms(4) disjoint_regionsD by (intro assms(2)) (fastforce simp: outside_def list_all_iff)
qed

lemma dentry_fields_image:
  assumes "same_image m m' bb 4096" "i < 63"
  shows "dentry_file_type m' (dentry_at bb i) = dentry_file_type m (dentry_at bb i)"
    "dentry_inode_num m' (dentry_at bb i) = dentry_inode_num m (dentry_at bb i)"
  using same_image_read32 [OF assms(1), of "64 + 64 * i + 32"] same_image_read32 [OF assms(1), of "64 + 64 * i + 36"] assms(2)
  by (simp_all add: dentry_file_type_def dentry_inode_num_def dentry_at_def add.assoc)

section \<open>Opening a file\<close>

text \<open>The blocks the call itself writes: its two local directory entries.\<close>

definition open_blocks :: "(u32 \<times> nat) list \<Rightarrow> u32 \<Rightarrow> locals \<Rightarrow> bool" where
  "open_blocks A w L \<longleftrightarrow> (l_dentry L, 64) \<in> set A \<and> (l_sub L, 64) \<in> set A \<and> l_dentry L \<noteq> 0 \<and> l_sub L \<noteq> 0 \<and>
     disjoint_regions (l_dentry L) 64 (page w) 4000 \<and> disjoint_regions (l_sub L) 64 (page w) 4000"

lemma runs_open_missing:
  fixes s :: "'a keyboard_scheme"
  assumes ok: "user_ok A p w s" and fs: "fdt p s = fs" and str: "cstr_at (memory s) a xs" "clear_of A a (Suc (length xs))"
    and L: "open_blocks A w (u_locals U)" and dir: "clear_of A (boot_block s) 4096"
    and none: "xs = [] \<or> find_file (memory s) (boot_block s) xs = None"
  shows "runs A p w (-1) [] fs s (ece391_open U a s)"
  unfolding ece391_open_def
proof (rule runs_refused [OF ok fs])
  note e = kernel_entry(1) [OF ok]
  have bb: "boot_block (int_0x80 s) = boot_block s" by (rule int_0x80_frame)
  have "xs = [] \<or> find_file (memory (int_0x80 s)) (boot_block (int_0x80 s)) xs = None"
    using none find_file_image [OF told_clear(3) [OF e dir]] by (simp add: bb)
  then have "read_dentry_by_name a (l_dentry (u_locals U)) (int_0x80 s) = Some (FAILURE, int_0x80 s)"
    using read_dentry_by_name_eq [OF told_cstr [OF e str(2,1)]] L by (auto simp: open_blocks_def)
  then show "sys_int_w (u_locals U) [] 5 a 0 0 (int_0x80 s) = Some (Return (-1) (int_0x80 s))"
    by (simp add: sys_int_w_def open_fd_def Let_def FAILURE_def returning_def cong: if_cong)
qed

lemma runs_open_full:
  fixes s :: "'a keyboard_scheme"
  assumes ok: "user_ok A p w s" and fs: "fdt p s = fs" "free_fd fs = 8" and str: "cstr_at (memory s) a xs" "clear_of A a (Suc (length xs))"
    and L: "open_blocks A w (u_locals U)" and dir: "clear_of A (boot_block s) 4096" and a: "a \<noteq> 0" "xs \<noteq> []"
    and found: "find_file (memory s) (boot_block s) xs = Some i"
  shows "runs A p w (-1) [] fs s (ece391_open U a s)"
  unfolding ece391_open_def
proof (rule runs_sys [OF ok fs(1)])
  fix k :: "'a keyboard_scheme" assume k: "user_ok A p w k" "told A p w [] fs s k" "curr_pcb k = pcb_of p" "fdt p k = fs"
  let ?d = "l_dentry (u_locals U)"
  have bb: "boot_block k = boot_block s" using k(2) by (simp add: told_def)
  have "find_file (memory k) (boot_block k) xs = Some i"
    using found find_file_image [OF told_clear(3) [OF k(2) dir]] by (simp add: bb)
  then have rd: "read_dentry_by_name a ?d k = Some (SUCCESS, copy_dentry ?d i k)"
    using read_dentry_by_name_eq [OF told_cstr [OF k(2) str(2,1)]] L a by (auto simp: open_blocks_def)
  have cp: "copy_dentry ?d i k = k\<lparr>memory := memory (copy_dentry ?d i k)\<rparr>" by (simp add: copy_dentry_def)
  have out: "memory (copy_dentry ?d i k) x = memory k x" if "\<not> in_region x ?d 64" for x
    using that by (simp add: copy_dentry_def write_bytes_outside)
  have "told A p w [] (fdt p k) k (k\<lparr>memory := memory (copy_dentry ?d i k)\<rparr>)"
    using L k(1) out by (intro told_written [where B = "[(?d, 64)]"]) (auto simp: user_ok_def open_blocks_def outside_def list_all_iff)
  moreover have "sys_int_w (u_locals U) [] 5 a 0 0 k = Some (Return (-1) (copy_dentry ?d i k))"
    using rd a fs(2) k(4) by (simp add: sys_int_w_def open_fd_def Let_def k(3) FAILURE_def SUCCESS_def returning_def fdt_def MAX_OPEN_FILES_def copy_dentry_def cong: if_cong)
  ultimately show "\<exists>k'. sys_int_w (u_locals U) [] 5 a 0 0 k = Some (Return (-1) k') \<and> told A p w [] fs k k'"
    using cp k(4) by auto
qed

lemma runs_open:
  fixes s :: "'a keyboard_scheme"
  assumes ok: "user_ok A p w s" and fs: "fdt p s = fs" "fds_ok fs" "free_fd fs < 8" and str: "cstr_at (memory s) a xs" "clear_of A a (Suc (length xs))"
    and L: "open_blocks A w (u_locals U)" and dir: "clear_of A (boot_block s) 4096" and a: "a \<noteq> 0" "xs \<noteq> []"
    and found: "find_file (memory s) (boot_block s) xs = Some i"
    and ft: "dentry_file_type (memory s) (dentry_at (boot_block s) i) = ft" "ft < 3"
    and ino: "dentry_inode_num (memory s) (dentry_at (boot_block s) i) = ino"
  shows "runs A p w (int (free_fd fs)) [] (fs[free_fd fs := opened_fd ft ino (fs ! free_fd fs)]) s (ece391_open U a s)"
  unfolding ece391_open_def
proof (rule runs_sys [OF ok fs(1)])
  fix k :: "'a keyboard_scheme" assume k: "user_ok A p w k" "told A p w [] fs s k" "curr_pcb k = pcb_of p" "fdt p k = fs"
  have bb: "boot_block k = boot_block s" using k(2) by (simp add: told_def)
  note img = told_clear(3) [OF k(2) dir]
  have i: "i < 63" using found by (auto simp: find_file_def find_Some_iff)
  have found': "find_file (memory k) (boot_block k) xs = Some i" using found find_file_image [OF img] by (simp add: bb)
  have de: "dentry_file_type (memory k) (dentry_at (boot_block k) i) = ft" "dentry_inode_num (memory k) (dentry_at (boot_block k) i) = ino"
    using dentry_fields_image [OF img i] ft ino by (simp_all add: bb)
  have buf: "dentry_buffer d a (length xs) k" if "d \<noteq> 0" "(d, 64) \<in> set A" for d
    using clear_of_disjoint [OF dir that(2)] clear_of_disjoint [OF str(2) that(2)] that(1) by (simp add: dentry_buffer_def bb)
  have d: "dentry_buffer (l_dentry (u_locals U)) a (length xs) k" "dentry_buffer (l_sub (u_locals U)) a (length xs) k"
    using buf L by (simp_all add: open_blocks_def)
  have fds: "fds_ok (file_array (pcbs k (curr_pcb k)))" "free_fd (file_array (pcbs k (curr_pcb k))) < 8" "file_array (pcbs k (curr_pcb k)) = fs"
    using fs k(3,4) by (simp_all add: fdt_def)
  obtain m where m: "open_fd (u_locals U) a k = Some (int (free_fd fs), set_fd (pcb_of p) (int (free_fd fs)) (opened_fd ft ino) (k\<lparr>memory := m\<rparr>))"
    and out: "\<And>x. \<not> in_region x (l_dentry (u_locals U)) 64 \<Longrightarrow> \<not> in_region x (l_sub (u_locals U)) 64 \<Longrightarrow> m x = memory k x"
    using open_fd_succeeds [OF told_cstr [OF k(2) str(2,1)] a(2,1) found' _ d fds(1,2)] ft(2) unfolding de k(3) fds(3) [unfolded k(3)] by metis
  have c: "cursor_ok w k" using k(1) by (simp add: user_ok_def)
  have "told A p w [] (fdt p k) k (k\<lparr>memory := m\<rparr>)"
    using L out by (intro told_written [OF c, where B = "[(l_dentry (u_locals U), 64), (l_sub (u_locals U), 64)]"]) (auto simp: open_blocks_def outside_def list_all_iff)
  moreover have "cursor_ok w (k\<lparr>memory := m\<rparr>)" using c by (simp add: cursor_ok_def)
  ultimately have "told A p w [] (fs[free_fd fs := opened_fd ft ino (fs ! free_fd fs)]) k
      (set_fd (pcb_of p) (int (free_fd fs)) (opened_fd ft ino) (k\<lparr>memory := m\<rparr>))"
    using told_trans told_set_fd [of w "k\<lparr>memory := m\<rparr>" A p "int (free_fd fs)" "opened_fd ft ino"] k(4) by (fastforce simp: fdt_def)
  then show "\<exists>k'. sys_int_w (u_locals U) [] 5 a 0 0 k = Some (Return (int (free_fd fs)) k') \<and>
      told A p w [] (fs[free_fd fs := opened_fd ft ino (fs ! free_fd fs)]) k k'"
    using m by (simp add: sys_int_w_def returning_def)
qed

section \<open>Calls that fill a buffer\<close>

definition buffer_block :: "(u32 \<times> nat) list \<Rightarrow> u32 \<Rightarrow> u32 \<Rightarrow> nat \<Rightarrow> bool" where
  "buffer_block A w buf l \<longleftrightarrow> buf \<noteq> 0 \<and> (buf, l) \<in> set A \<and> disjoint_regions buf l (page w) 4000"

lemma outside_block: "buffer_block A w buf l \<Longrightarrow> outside A x \<Longrightarrow> n \<le> l \<Longrightarrow> \<not> in_region x buf n"
  using outsideD by (fastforce simp: buffer_block_def in_region_def)

lemma cstr_at_padded: "0 \<notin> set xs \<Longrightarrow> 0 < n \<Longrightarrow> length xs + n < 2 ^ 32 \<Longrightarrow> cstr_at (write_bytes m a (xs @ replicate n 0)) a xs"
  by (rule cstr_atI) (auto simp: write_bytes_apply in_region_def unat_of_nat_u32 nth_append)

text \<open>The state after a read: interrupts are on, the position moved and the buffer written.\<close>

lemma told_read:
  fixes k :: "'a keyboard_scheme"
  assumes c: "cursor_ok w k" and m: "\<And>x. outside B x \<Longrightarrow> m x = memory k x" and B: "\<And>x. outside A x \<Longrightarrow> outside B x"
    "list_all (\<lambda>(b, n). disjoint_regions b n (page w) 4000) B"
  shows "told A p w [] ((fdt p k)[nat fd := advance r (fdt p k ! nat fd)]) k (set_fd (pcb_of p) fd (advance r) ((sti k)\<lparr>memory := m\<rparr>))"
proof -
  let ?k1 = "(sti k)\<lparr>memory := m\<rparr>"
  have c1: "cursor_ok w (sti k)" "cursor_ok w ?k1" "fdt p ?k1 = fdt p k" "fdt p (sti k) = fdt p k" using c by (auto simp: cursor_ok_def sti_def fdt_def)
  have "told A p w [] (fdt p k) (sti k) ?k1"
    using told_written [OF c1(1) _ B, of m A p] m c1(4) by (simp add: sti_def)
  from told_trans [OF told_trans [OF told_sti [OF c] this] told_set_fd [OF c1(2), of A p fd "advance r"]] show ?thesis
    by (simp add: c1(3))
qed

text \<open>Reading the arguments of the program.\<close>

lemma calls_getargs:
  fixes s :: "'a keyboard_scheme"
  assumes ok: "user_ok A p w s" and fs: "fdt p s = fs" and args: "cstr_at (memory s) (pcb_of p) xs" "length xs < 1024" "clear_of A (pcb_of p) (Suc (length xs))"
    and buf: "buffer_block A w buf 1024" and n: "int (length xs) \<le> n" "0 < n" "n < 2 ^ 31"
  shows "\<exists>s'. ece391_getargs U buf n s = Some (0, s') \<and> told A p w [] fs s s' \<and> cstr_at (memory s') buf xs"
  unfolding ece391_getargs_def
proof (rule call_sys [OF ok fs])
  fix k :: "'a keyboard_scheme" assume k: "user_ok A p w k" "told A p w [] fs s k" "curr_pcb k = pcb_of p" "fdt p k = fs"
  let ?m = "write_bytes (memory k) buf (xs @ replicate (1024 - length xs) 0)"
  have pid: "curr_pid k = p" "cursor_ok w k" using k(1) by (simp_all add: user_ok_def)
  have dis: "disjoint_regions buf 1024 (pcb_of p) (Suc (length xs))" using clear_of_disjoint [OF args(3)] buf by (simp add: buffer_block_def)
  have "getargs buf n k = Some (SUCCESS, k\<lparr>memory := ?m\<rparr>)"
    using getargs_eq [of k xs buf n] told_cstr [OF k(2) args(3,1)] args(2) n dis buf by (simp add: pid buffer_block_def)
  moreover have "sint (word_of_int n :: u32) = n" using n sint_int_u32 [of n] by simp
  ultimately have "sys_int_w (u_locals U) [] 7 buf (word_of_int n) 0 k = Some (Return 0 (k\<lparr>memory := ?m\<rparr>))"
    by (simp add: sys_int_w_def returning_def SUCCESS_def)
  moreover have "told A p w [] (fdt p k) k (k\<lparr>memory := ?m\<rparr>)"
    using buf args(2) by (intro told_written [OF pid(2), where B = "[(buf, 1024)]"]) (auto simp: buffer_block_def outside_def list_all_iff write_bytes_outside)
  moreover have "cstr_at ?m buf xs"
    using args(1,2) by (intro cstr_at_padded) (auto simp: cstr_at_def)
  ultimately show "\<exists>k'. sys_int_w (u_locals U) [] 7 buf (word_of_int n) 0 k = Some (Return 0 k') \<and> told A p w [] fs k k' \<and> cstr_at (memory k') buf xs"
    using k(4) by auto
qed

text \<open>Reading an open file.\<close>

lemma calls_read_file:
  fixes s :: "'a keyboard_scheme" and off n :: nat
  defines "bb \<equiv> boot_block s"
  assumes ok: "user_ok A p w s" and fs: "fdt p s = fs" "length fs = 8" and fd: "0 \<le> fd" "fd < 8"
    and f: "fop_jump_table (fs ! nat fd) = file_table ! 2" "fd_file_type (fs ! nat fd) = 2" "fd_flags (fs ! nat fd) \<noteq> 0"
    and ino: "word_of_int (fd_inode (fs ! nat fd)) = ino" and pos: "file_position (fs ! nat fd) = int off" "off \<le> file_size (memory s) bb ino"
    and image: "file_ok (memory s) bb blocks ino" "clear_of A bb (blocks * 4096)"
    and buf: "buffer_block A w buf l" "max 32 n \<le> l" and nb: "0 \<le> nbytes" "nbytes < 2 ^ 31"
    and n: "n = min (nat nbytes) (file_size (memory s) bb ino - off)"
  shows "\<exists>s'. ece391_read U h fd buf nbytes s = Some (int n, s') \<and> told A p w [] (fs[nat fd := advance (int n) (fs ! nat fd)]) s s' \<and>
    read_bytes (memory s') buf n = map (file_byte (memory s) bb ino) [off..<off + n]"
  unfolding ece391_read_def
proof (rule call_sys [OF ok fs(1)])
  fix k :: "'a keyboard_scheme" assume k: "user_ok A p w k" "told A p w [] fs s k" "curr_pcb k = pcb_of p" "fdt p k = fs"
  have bb: "boot_block k = bb" using k(2) by (simp add: told_def bb_def)
  have c: "cursor_ok w k" using k(1) by (simp add: user_ok_def)
  note same = same_file_ok [OF told_clear(3) [OF k(2) image(2)] image(1)]
  have at: "fd_at (pcb_of p) fd k = fs ! nat fd" "file_array (pcbs k (pcb_of p)) = fs" using k(4) by (simp_all add: fd_at_def fdt_def)
  have dis: "disjoint_regions buf (max 32 n) bb (blocks * 4096)"
    using clear_of_disjoint [OF image(2)] buf disjoint_regions_prefix by (metis buffer_block_def order_refl)
  obtain m where m: "read_fd (u_locals U) (u_handlers U h) fd buf nbytes k =
      Some (int n, set_fd (pcb_of p) fd (advance (int n)) ((sti k)\<lparr>memory := m\<rparr>))"
    "read_bytes m buf n = map (file_byte (memory k) bb ino) [off..<off + n]" "\<And>x. \<not> in_region x buf (max 32 n) \<Longrightarrow> m x = memory k x"
    using read_fd_file [of fd k off blocks buf nbytes n "u_locals U" "u_handlers U h"] fd f fs(2) pos same ino nb n dis buf(1)
    unfolding k(3) at bb by (metis buffer_block_def)
  have B: "outside [(buf, max 32 n)] x" if "outside A x" for x using outside_block [OF buf(1) that buf(2)] by (simp add: outside_def)
  have pg: "list_all (\<lambda>(b, n). disjoint_regions b n (page w) 4000) [(buf, max 32 n)]"
    using buf disjoint_regions_prefix [of buf l "page w" 4000 "max 32 n" 4000] by (simp add: buffer_block_def)
  have "told A p w [] (fs[nat fd := advance (int n) (fs ! nat fd)]) k (set_fd (pcb_of p) fd (advance (int n)) ((sti k)\<lparr>memory := m\<rparr>))"
    using told_read [OF c _ B pg, of m A p fd "int n"] m(3) k(4) by (simp add: outside_def)
  moreover have "sint (word_of_int fd :: u32) = fd" "sint (word_of_int nbytes :: u32) = nbytes"
    using fd nb sint_int_u32 [of fd] sint_int_u32 [of nbytes] by simp_all
  moreover have "read_bytes m buf n = map (file_byte (memory s) bb ino) [off..<off + n]"
    unfolding m(2) using n pos(2) by (intro map_cong same(3)) auto
  ultimately show "\<exists>k'. sys_int_w (u_locals U) (u_handlers U h) 3 (word_of_int fd) buf (word_of_int nbytes) k = Some (Return (int n) k') \<and>
      told A p w [] (fs[nat fd := advance (int n) (fs ! nat fd)]) k k' \<and> read_bytes (memory k') buf n = map (file_byte (memory s) bb ino) [off..<off + n]"
    using m(1) by (auto simp: sys_int_w_def returning_def)
qed

lemma dir_read_memory:
  assumes "dir_read d fd buf n off s = Some (r, s')"
  shows "\<exists>m. s' = s\<lparr>memory := m\<rparr>"
  using assms by (auto simp: dir_read_def read_dentry_by_index_def copy_dentry_def Let_def bind_eq_Some_conv split: if_splits)

text \<open>
  Reading a directory entry. A descriptor that is not in use is read all the same; only a result
  of 1 is then turned into a failure.
\<close>

lemma calls_read_dir:
  fixes s :: "'a keyboard_scheme" and i :: nat
  defines "name \<equiv> file_name (memory s) (boot_block s) i"
  assumes ok: "user_ok A p w s" and fs: "fdt p s = fs" "length fs = 8" and fd: "0 \<le> fd" "fd < 8"
    and f: "fop_jump_table (fs ! nat fd) = file_table ! 1" "file_position (fs ! nat fd) = int i" "i < 63" and name: "length name < 32"
    and dir: "clear_of A (boot_block s) 4096" "disjoint_regions buf 32 (l_sub (u_locals U)) 64" and L: "open_blocks A w (u_locals U)"
    and buf: "buffer_block A w buf l" "32 \<le> l" and nb: "32 \<le> nbytes + 1" "nbytes < 2 ^ 31"
    and r: "r = int (length name)"
  shows "\<exists>s'. ece391_read U h fd buf nbytes s = Some (if fd_flags (fs ! nat fd) = 0 \<and> r = 1 then -1 else r, s') \<and>
    told A p w [] (fs[nat fd := advance r (fs ! nat fd)]) s s' \<and> read_bytes (memory s') buf (length name) = name"
  unfolding ece391_read_def
proof (rule call_sys [OF ok fs(1)])
  fix k :: "'a keyboard_scheme" assume k: "user_ok A p w k" "told A p w [] fs s k" "curr_pcb k = pcb_of p" "fdt p k = fs"
  let ?d = "l_sub (u_locals U)"
  have bb: "boot_block k = boot_block s" using k(2) by (simp add: told_def)
  have c: "cursor_ok w k" using k(1) by (simp add: user_ok_def)
  have at: "fd_at (pcb_of p) fd (sti k) = fs ! nat fd" using k(4) by (simp add: fd_at_def fdt_def sti_def)
  have nm: "file_name (memory k) (boot_block s) i = name"
    using file_name_image [OF told_clear(3) [OF k(2) dir(1)] f(3)] by (simp add: name_def)
  have d: "?d \<noteq> 0" "(?d, 64) \<in> set A" "disjoint_regions ?d 64 (page w) 4000" using L by (simp_all add: open_blocks_def)
  have "disjoint_regions buf 32 (boot_block s) 4096"
    using clear_of_disjoint [OF dir(1)] buf disjoint_regions_prefix by (metis buffer_block_def order_refl)
  then obtain k' where k': "dir_read ?d (fd_inode (fs ! nat fd)) buf nbytes (of_nat i) (sti k) = Some (r, k')"
    "read_bytes (memory k') buf (length name) = name" "\<And>x. \<not> in_region x buf 32 \<Longrightarrow> \<not> in_region x ?d 64 \<Longrightarrow> memory k' x = memory k x"
    using dir_read_eq [of i ?d "sti k" nbytes buf "fd_inode (fs ! nat fd)"] f(3) d(1) name nb dir(2) nm bb r by (auto simp: min_absorb2 nat_le_iff sti_def)
  have km: "k' = (sti k)\<lparr>memory := memory k'\<rparr>" using dir_read_memory [OF k'(1)] by auto
  have B: "outside [(buf, 32), (?d, 64)] x" if "outside A x" for x
    using outside_block [OF buf(1) that buf(2)] outsideD [OF that d(2)] by (simp add: outside_def)
  have pg: "list_all (\<lambda>(b, n). disjoint_regions b n (page w) 4000) [(buf, 32), (?d, 64)]"
    using buf d(3) disjoint_regions_prefix [of buf l "page w" 4000 32 4000] by (simp add: buffer_block_def)
  have t: "told A p w [] (fs[nat fd := advance r (fs ! nat fd)]) k (set_fd (pcb_of p) fd (advance r) k')"
    using told_read [OF c _ B pg, of "memory k'" A p fd r] k'(3) k(4) km by (simp add: outside_def)
  have fl: "fd_flags (fd_at (pcb_of p) fd (set_fd (pcb_of p) fd (advance r) k')) = fd_flags (fs ! nat fd)"
    using told_fdt [OF t] fs(2) fd by (simp add: fd_at_def fdt_def advance_def)
  have "sint (word_of_int fd :: u32) = fd" "sint (word_of_int nbytes :: u32) = nbytes"
    using fd nb sint_int_u32 [of fd] sint_int_u32 [of nbytes] by simp_all
  then have "sys_int_w (u_locals U) (u_handlers U h) 3 (word_of_int fd) buf (word_of_int nbytes) k =
      Some (Return (if fd_flags (fs ! nat fd) = 0 \<and> r = 1 then -1 else r) (set_fd (pcb_of p) fd (advance r) k'))"
    using fd buf(1) k'(1) f(1,2) fl
    by (simp add: sys_int_w_def read_fd_def Let_def k(3) MAX_OPEN_FILES_def at READ_INDEX_def call_read_def file_table_def
        advance_def [abs_def] returning_def FAILURE_def buffer_block_def)
  then show "\<exists>k'. sys_int_w (u_locals U) (u_handlers U h) 3 (word_of_int fd) buf (word_of_int nbytes) k =
      Some (Return (if fd_flags (fs ! nat fd) = 0 \<and> r = 1 then -1 else r) k') \<and>
      told A p w [] (fs[nat fd := advance r (fs ! nat fd)]) k k' \<and> read_bytes (memory k') buf (length name) = name"
    using t k'(2) by auto
qed

end
