(* ===== verification/User_Programs.thy ===== *)
theory User_Programs
  imports User_Calls
begin

text \<open>
  User programs of \<open>src/syscalls\<close> over the system calls. A program is a function of its
  parameters (the addresses of its string literals and local arrays, the interrupts that arrive
  during its reads) and of the state; its result is what \<open>main\<close> returns. The loops of
  \<open>cat\<close> and \<open>ls\<close> have one shape, which the locale \<open>item_loop\<close> captures: read an item, stop on 0,
  report a failure on -1, print the item, repeat.
\<close>

unbundle bit_operations_syntax

section \<open>Programs that print a message\<close>

text \<open>\<open>fail_with U msg r\<close> is \<open>ece391_fdputs(1, msg); return r\<close>.\<close>

definition fail_with :: "'a keyboard_scheme user_env \<Rightarrow> string \<Rightarrow> int \<Rightarrow> 'a keyboard_scheme \<Rightarrow> (int \<times> 'a keyboard_scheme) option" where
  "fail_with U msg r s = do { s \<leftarrow> ece391_fdputs U 1 (u_lit U msg) s; Some (r, s) }"

definition testprint :: "'a keyboard_scheme user_env \<Rightarrow> 'a keyboard_scheme \<Rightarrow> (int \<times> 'a keyboard_scheme) option" where
  "testprint U s = do { s \<leftarrow> ece391_fdputs U 1 (u_lit U ''Hello, if this ran, the program was correct. Yay!\<newline>'') s; Some (0, s) }"

section \<open>cat\<close>

partial_function (option) cat_loop :: "'a keyboard_scheme user_env \<Rightarrow> int \<Rightarrow> u32 \<Rightarrow> nat \<Rightarrow> 'a keyboard_scheme \<Rightarrow> (int \<times> 'a keyboard_scheme) option" where
  "cat_loop U fd buf k s =
     do {
       (cnt, s) \<leftarrow> ece391_read U k fd buf 1024 s;
       if cnt = 0 then Some (0, s)
       else if cnt = -1 then fail_with U ''file read failed\<newline>'' 3 s
       else do {
         (r, s) \<leftarrow> ece391_write U 1 buf cnt s;
         if r = -1 then Some (3, s) else cat_loop U fd buf (k + 1) s
       }
     }"

definition cat :: "'a keyboard_scheme user_env \<Rightarrow> u32 \<Rightarrow> 'a keyboard_scheme \<Rightarrow> (int \<times> 'a keyboard_scheme) option" where
  "cat U buf s =
     do {
       (r, s) \<leftarrow> ece391_getargs U buf 1024 s;
       if r \<noteq> 0 then fail_with U ''could not read arguments\<newline>'' 3 s
       else do {
         (fd, s) \<leftarrow> ece391_open U buf s;
         if fd = -1 then fail_with U ''file not found\<newline>'' 2 s else cat_loop U fd buf 0 s
       }
     }"

section \<open>ls\<close>

definition SBUFSIZE :: int where "SBUFSIZE = 33"

partial_function (option) ls_loop :: "'a keyboard_scheme user_env \<Rightarrow> int \<Rightarrow> u32 \<Rightarrow> nat \<Rightarrow> 'a keyboard_scheme \<Rightarrow> (int \<times> 'a keyboard_scheme) option" where
  "ls_loop U fd buf k s =
     do {
       (cnt, s) \<leftarrow> ece391_read U k fd buf (SBUFSIZE - 1) s;
       if cnt = 0 then Some (0, s)
       else if cnt = -1 then fail_with U ''directory entry read failed\<newline>'' 3 s
       else do {
         let s = s\<lparr>memory := (memory s)(buf + word_of_int cnt := 0x0A)\<rparr>;
         (r, s) \<leftarrow> ece391_write U 1 buf (cnt + 1) s;
         if r = -1 then Some (3, s) else ls_loop U fd buf (k + 1) s
       }
     }"

definition ls :: "'a keyboard_scheme user_env \<Rightarrow> u32 \<Rightarrow> 'a keyboard_scheme \<Rightarrow> (int \<times> 'a keyboard_scheme) option" where
  "ls U buf s =
     do {
       (fd, s) \<leftarrow> ece391_open U (u_lit U ''.'') s;
       if fd = -1 then fail_with U ''directory open failed\<newline>'' 2 s else ls_loop U fd buf 0 s
     }"

section \<open>The loop of a program that prints what it reads\<close>

locale item_loop =
  fixes rd :: "nat \<Rightarrow> 's \<Rightarrow> (int \<times> 's) option" and emit :: "int \<Rightarrow> 's \<Rightarrow> (int \<times> 's) option" and fail :: "'s \<Rightarrow> (int \<times> 's) option"
    and loop :: "nat \<Rightarrow> 's \<Rightarrow> (int \<times> 's) option" and shape :: "u8 list \<Rightarrow> u8 list"
    and ready :: "u8 list list \<Rightarrow> u8 list \<Rightarrow> 's \<Rightarrow> bool" and loaded :: "u8 list \<Rightarrow> u8 list list \<Rightarrow> u8 list \<Rightarrow> 's \<Rightarrow> bool"
  assumes loop_step: "loop k s = do {
      (cnt, s) \<leftarrow> rd k s;
      if cnt = 0 then Some (0, s) else if cnt = -1 then fail s
      else do { (r, s) \<leftarrow> emit cnt s; if r = -1 then Some (3, s) else loop (k + 1) s } }"
    and item: "ready (c # ys) out s \<Longrightarrow> c \<noteq> []"
    and rd_item: "ready (c # ys) out s \<Longrightarrow> \<exists>s'. rd k s = Some (int (length c), s') \<and> loaded c ys out s'"
    and emit_item: "loaded c ys out s \<Longrightarrow> \<exists>r s'. emit (int (length c)) s = Some (r, s') \<and> r \<noteq> -1 \<and> ready ys (out @ shape c) s'"
    and rd_end: "ready [] out s \<Longrightarrow> \<exists>s'. rd k s = Some (0, s') \<and> ready [] out s'"
begin

lemma loop_prints: "ready ys out s \<Longrightarrow> \<exists>s'. loop k s = Some (0, s') \<and> ready [] (out @ concat (map shape ys)) s'"
proof (induction ys arbitrary: out s k)
  case Nil
  then show ?case using rd_end [of out s k] loop_step [of k s] by auto
next
  case (Cons c ys)
  obtain s1 where s1: "rd k s = Some (int (length c), s1)" "loaded c ys out s1" using rd_item [OF Cons.prems] by blast
  obtain r s2 where s2: "emit (int (length c)) s1 = Some (r, s2)" "r \<noteq> -1" "ready ys (out @ shape c) s2" using emit_item [OF s1(2)] by blast
  have "loop k s = loop (k + 1) s2" using loop_step [of k s] s1 s2 item [OF Cons.prems] by simp
  then show ?case using Cons.IH [OF s2(3), of "k + 1"] by simp
qed

end

section \<open>What cat prints\<close>

function chunks :: "nat \<Rightarrow> 'a list \<Rightarrow> 'a list list" where
  "chunks n xs = (if n = 0 \<or> xs = [] then [] else take n xs # chunks n (drop n xs))"
  by pat_completeness auto
termination by (relation "measure (\<lambda>(n, xs). length xs)") auto

declare chunks.simps [simp del]

lemma concat_chunks: "0 < n \<Longrightarrow> concat (chunks n xs) = xs"
  by (induction n xs rule: chunks.induct) (simp add: chunks.simps)

lemma chunks_ConsD: "chunks n xs = y # ys \<Longrightarrow> y = take n xs \<and> ys = chunks n (drop n xs) \<and> y \<noteq> []"
  by (subst (asm) chunks.simps) (auto split: if_splits)

lemma chunks_NilD: "chunks n xs = [] \<Longrightarrow> 0 < n \<Longrightarrow> xs = []"
  by (subst (asm) chunks.simps) (auto split: if_splits)

text \<open>The blocks every call touches, and printing from memory that is off them.\<close>

definition call_blocks :: "int \<Rightarrow> u32 \<Rightarrow> (u32 \<times> nat) list" where
  "call_blocks p w = [(page w, 4000), (pcb_of p + 0x1FE8, 20)]"

lemma call_blocks_ok:
  assumes "user_ok A p w s"
  shows "user_ok (call_blocks p w) p w s" "set (call_blocks p w) \<subseteq> set A"
  using assms by (auto simp: user_ok_def call_blocks_def)

lemma runs_print:
  fixes s :: "'a keyboard_scheme"
  assumes ok: "user_ok A p w s" and fs: "fdt p s = fs" "length fs = 8" "fop_jump_table (fs ! 1) ! 1 = Terminal_write"
    and buf: "buf \<noteq> 0" "clear_of (call_blocks p w) buf n" and n: "n < 2 ^ 31"
  shows "runs A p w (int n) (read_bytes (memory s) buf n) fs s (ece391_write U 1 buf (int n) s)"
  using runs_write [OF call_blocks_ok(1) [OF ok] fs(1,2) _ _ _ buf(1) n, of 1 U] clear_ofD [OF buf(2)] fs(3)
  by (intro runs_mono [OF _ call_blocks_ok(2) [OF ok]]) simp

text \<open>An open regular file and a buffer to read it into.\<close>

definition file_setting :: "(u32 \<times> nat) list \<Rightarrow> int \<Rightarrow> u32 \<Rightarrow> fd_t list \<Rightarrow> int \<Rightarrow> u32 \<Rightarrow> u32 \<Rightarrow> nat \<Rightarrow> 'a keyboard_scheme \<Rightarrow> bool" where
  "file_setting A p w fs fd ino buf blocks s \<longleftrightarrow> user_ok A p w s \<and> length fs = 8 \<and> 0 \<le> fd \<and> fd < 8 \<and> fd \<noteq> 1 \<and>
     fop_jump_table (fs ! nat fd) = file_table ! 2 \<and> fd_file_type (fs ! nat fd) = 2 \<and> fd_flags (fs ! nat fd) \<noteq> 0 \<and>
     word_of_int (fd_inode (fs ! nat fd)) = ino \<and> fop_jump_table (fs ! 1) ! 1 = Terminal_write \<and>
     file_ok (memory s) (boot_block s) blocks ino \<and> clear_of A (boot_block s) (blocks * 4096) \<and>
     buffer_block A w buf 1024 \<and> clear_of (call_blocks p w) buf 1024"

definition at_position :: "fd_t list \<Rightarrow> int \<Rightarrow> nat \<Rightarrow> fd_t list" where
  "at_position fs fd off = fs[nat fd := (fs ! nat fd)\<lparr>file_position := int off\<rparr>]"

definition bytes_of :: "u32 \<Rightarrow> 'a keyboard_scheme \<Rightarrow> u8 list" where
  "bytes_of ino s = map (file_byte (memory s) (boot_block s) ino) [0..<file_size (memory s) (boot_block s) ino]"

definition cat_ready where
  "cat_ready A p w fs fd ino buf blocks s0 ys out s \<longleftrightarrow> file_setting A p w fs fd ino buf blocks s0 \<and>
     (\<exists>off\<le>length (bytes_of ino s0). told A p w out (at_position fs fd off) s0 s \<and> ys = chunks 1024 (drop off (bytes_of ino s0)))"

definition cat_loaded where
  "cat_loaded A p w fs fd ino buf blocks s0 y ys out s \<longleftrightarrow> read_bytes (memory s) buf (length y) = y \<and> length y \<le> 1024 \<and>
     cat_ready A p w fs fd ino buf blocks s0 ys out s"

lemma at_position_sel:
  "length (at_position fs fd off) = length fs"
  "nat fd < length fs \<Longrightarrow> at_position fs fd off ! nat fd = (fs ! nat fd)\<lparr>file_position := int off\<rparr>"
  "fd \<noteq> 1 \<Longrightarrow> 0 \<le> fd \<Longrightarrow> at_position fs fd off ! 1 = fs ! 1"
  by (simp_all add: at_position_def nth_list_update nat_eq_iff)

lemma cat_read:
  assumes set: "file_setting A p w fs fd ino buf blocks s0" and t: "told A p w out (at_position fs fd off) s0 s"
    and off: "off \<le> length (bytes_of ino s0)" and y: "y = take 1024 (drop off (bytes_of ino s0))"
  shows "\<exists>s'. ece391_read U k fd buf 1024 s = Some (int (length y), s') \<and> told A p w out (at_position fs fd (off + length y)) s0 s' \<and>
    read_bytes (memory s') buf (length y) = y"
proof -
  let ?fs = "at_position fs fd off" and ?n = "length y"
  note S = set [unfolded file_setting_def]
  note img = told_clear(3) [OF t, of "boot_block s0" "blocks * 4096"]
  have bb: "boot_block s = boot_block s0" using t by (simp add: told_def)
  have same: "same_image (memory s0) (memory s) (boot_block s0) (blocks * 4096)" using img S by simp
  have okf: "file_ok (memory s0) (boot_block s0) blocks ino" using S by blast
  note keep = same_file_ok [OF same okf]
  have sz: "file_size (memory s0) (boot_block s0) ino = length (bytes_of ino s0)" by (simp add: bytes_of_def)
  have n: "?n = min (nat 1024) (file_size (memory s) (boot_block s) ino - off)" using y by (simp add: bb keep(2) sz)
  have fdl: "nat fd < length fs" using S by auto
  note sel = at_position_sel(2) [OF fdl, of off]
  have "\<exists>s'. ece391_read U k fd buf 1024 s = Some (int ?n, s') \<and> told A p w [] (?fs[nat fd := advance (int ?n) (?fs ! nat fd)]) s s' \<and>
      read_bytes (memory s') buf ?n = map (file_byte (memory s) (boot_block s) ino) [off..<off + ?n]"
    using S told_fdt [OF t] keep(1,2) off n
    by (intro calls_read_file [OF told_ok [OF _ t], where l = 1024 and blocks = blocks]) (simp_all add: sel at_position_sel(1) bb sz)
  moreover have "map (file_byte (memory s) (boot_block s) ino) [off..<off + ?n] = y"
  proof (rule nth_equalityI)
    fix i assume i: "i < length (map (file_byte (memory s) (boot_block s) ino) [off..<off + ?n])"
    then have "i < length (bytes_of ino s0) - off" using y by simp
    then have "off + i < file_size (memory s0) (boot_block s0) ino" unfolding sz using off by linarith
    then show "map (file_byte (memory s) (boot_block s) ino) [off..<off + ?n] ! i = y ! i"
      using i y off keep(3) [of "off + i"] by (simp add: bb bytes_of_def)
  qed simp
  moreover have "?fs[nat fd := advance (int ?n) (?fs ! nat fd)] = at_position fs fd (off + ?n)"
    using S fdl by (simp add: sel advance_def) (simp add: at_position_def)
  ultimately show ?thesis using told_trans [OF t] by fastforce
qed

interpretation cat: item_loop "\<lambda>k. ece391_read U k fd buf 1024" "\<lambda>cnt. ece391_write U 1 buf cnt" "fail_with U ''file read failed\<newline>'' 3"
  "cat_loop U fd buf" "\<lambda>y. y" "cat_ready A p w fs fd ino buf blocks s0" "cat_loaded A p w fs fd ino buf blocks s0"
  for U :: "'a keyboard_scheme user_env" and fd buf A p w fs ino blocks s0
proof unfold_locales
  fix k :: nat and y :: "u8 list" and ys out and s :: "'a keyboard_scheme"
  show "cat_loop U fd buf k s = do {
      (cnt, s) \<leftarrow> ece391_read U k fd buf 1024 s;
      if cnt = 0 then Some (0, s) else if cnt = -1 then fail_with U ''file read failed\<newline>'' 3 s
      else do { (r, s) \<leftarrow> ece391_write U 1 buf cnt s; if r = -1 then Some (3, s) else cat_loop U fd buf (k + 1) s } }"
    by (rule cat_loop.simps)
  show "y \<noteq> []" if "cat_ready A p w fs fd ino buf blocks s0 (y # ys) out s"
    using that chunks_ConsD by (metis cat_ready_def)
  show "\<exists>s'. ece391_read U k fd buf 1024 s = Some (int (length y), s') \<and> cat_loaded A p w fs fd ino buf blocks s0 y ys out s'"
    if r: "cat_ready A p w fs fd ino buf blocks s0 (y # ys) out s"
  proof -
    obtain off where off: "off \<le> length (bytes_of ino s0)" "told A p w out (at_position fs fd off) s0 s"
      "y # ys = chunks 1024 (drop off (bytes_of ino s0))" and S: "file_setting A p w fs fd ino buf blocks s0"
      using r by (auto simp: cat_ready_def)
    have y: "y = take 1024 (drop off (bytes_of ino s0))" "ys = chunks 1024 (drop 1024 (drop off (bytes_of ino s0)))"
      using chunks_ConsD [OF off(3) [symmetric]] by auto
    have "drop 1024 (drop off (bytes_of ino s0)) = drop (off + length y) (bytes_of ino s0)" using y(1) off(1) by (auto simp: min_def add.commute)
    moreover have "off + length y \<le> length (bytes_of ino s0)" "length y \<le> 1024" using y(1) off(1) by auto
    ultimately show ?thesis
      using cat_read [OF S off(2,1) y(1), of U k] S y(2) unfolding cat_loaded_def cat_ready_def by metis
  qed
  show "\<exists>r s'. ece391_write U 1 buf (int (length y)) s = Some (r, s') \<and> r \<noteq> -1 \<and> cat_ready A p w fs fd ino buf blocks s0 ys (out @ y) s'"
    if l: "cat_loaded A p w fs fd ino buf blocks s0 y ys out s"
  proof -
    obtain off where off: "off \<le> length (bytes_of ino s0)" "told A p w out (at_position fs fd off) s0 s"
      "ys = chunks 1024 (drop off (bytes_of ino s0))" and S: "file_setting A p w fs fd ino buf blocks s0"
      and y: "read_bytes (memory s) buf (length y) = y" "length y \<le> 1024"
      using l by (auto simp: cat_loaded_def cat_ready_def)
    have "clear_of (call_blocks p w) buf (length y)" using S y(2) clear_of_prefix by (auto simp: file_setting_def)
    then have "runs A p w (int (length y)) y (at_position fs fd off) s (ece391_write U 1 buf (int (length y)) s)"
      using runs_print [OF told_ok [OF _ off(2)] told_fdt [OF off(2)], of buf "length y" U] S y at_position_sel(3) [of fd fs off]
      by (simp add: file_setting_def at_position_sel(1) buffer_block_def)
    then obtain s' where "ece391_write U 1 buf (int (length y)) s = Some (int (length y), s')" "told A p w y (at_position fs fd off) s s'"
      by (auto simp: runs_def)
    then show ?thesis using told_trans [OF off(2)] off S by (fastforce simp: cat_ready_def)
  qed
  show "\<exists>s'. ece391_read U k fd buf 1024 s = Some (0, s') \<and> cat_ready A p w fs fd ino buf blocks s0 [] out s'"
    if r: "cat_ready A p w fs fd ino buf blocks s0 [] out s"
  proof -
    obtain off where off: "off \<le> length (bytes_of ino s0)" "told A p w out (at_position fs fd off) s0 s"
      "chunks 1024 (drop off (bytes_of ino s0)) = []" and S: "file_setting A p w fs fd ino buf blocks s0"
      using r by (auto simp: cat_ready_def)
    then have y: "[] = take 1024 (drop off (bytes_of ino s0))" using chunks_NilD [OF off(3)] by simp
    show ?thesis using cat_read [OF S off(2,1) y, of U k] S off by (auto simp: cat_ready_def intro!: exI [of _ off])
  qed
qed

text \<open>Everything \<open>cat\<close> needs of its surroundings: blocks of memory apart from each other, and the kernel's image of the file.\<close>

definition cat_blocks :: "'a keyboard_scheme user_env \<Rightarrow> int \<Rightarrow> u32 \<Rightarrow> u32 \<Rightarrow> (u32 \<times> nat) list" where
  "cat_blocks U p w buf = call_blocks p w @ [(l_dentry (u_locals U), 64), (l_sub (u_locals U), 64), (buf, 1024)]"

definition cat_layout :: "'a keyboard_scheme user_env \<Rightarrow> int \<Rightarrow> u32 \<Rightarrow> u32 \<Rightarrow> nat \<Rightarrow> 'a keyboard_scheme \<Rightarrow> bool" where
  "cat_layout U p w buf blocks s \<longleftrightarrow> user_ok (call_blocks p w) p w s \<and> open_blocks (cat_blocks U p w buf) w (u_locals U) \<and>
     buf \<noteq> 0 \<and> 1 \<le> blocks \<and> clear_of (cat_blocks U p w buf) (boot_block s) (blocks * 4096) \<and> clear_of (cat_blocks U p w buf) (pcb_of p) 1024 \<and>
     clear_of (call_blocks p w @ [(l_dentry (u_locals U), 64), (l_sub (u_locals U), 64)]) buf 1024"

lemma user_ok_mono: "user_ok A p w s \<Longrightarrow> set A \<subseteq> set B \<Longrightarrow> user_ok B p w s"
  by (auto simp: user_ok_def)

lemma clear_of_mono: "clear_of B a n \<Longrightarrow> set A \<subseteq> set B \<Longrightarrow> clear_of A a n"
  using outside_mono by (auto simp: clear_of_def)

lemma cat_layout_facts:
  assumes "cat_layout U p w buf blocks s"
  shows "user_ok (cat_blocks U p w buf) p w s" "buffer_block (cat_blocks U p w buf) w buf 1024" "clear_of (call_blocks p w) buf 1024"
    "clear_of (cat_blocks U p w buf) (boot_block s) 4096" "clear_of (cat_blocks U p w buf) (boot_block s) (blocks * 4096)"
    "k \<le> 1024 \<Longrightarrow> clear_of (cat_blocks U p w buf) (pcb_of p) k"
proof -
  note L = assms [unfolded cat_layout_def]
  show "user_ok (cat_blocks U p w buf) p w s" by (rule user_ok_mono [of "call_blocks p w"]) (use L in \<open>auto simp: cat_blocks_def\<close>)
  show c: "clear_of (call_blocks p w) buf 1024" by (rule clear_of_mono [of "call_blocks p w @ [(l_dentry (u_locals U), 64), (l_sub (u_locals U), 64)]"]) (use L in auto)
  have "disjoint_regions buf 1024 (page w) 4000" using disjoint_regions_sym [THEN iffD1, OF clear_of_disjoint [OF c]] by (simp add: call_blocks_def)
  then show "buffer_block (cat_blocks U p w buf) w buf 1024" using L by (simp add: buffer_block_def cat_blocks_def)
  show "clear_of (cat_blocks U p w buf) (boot_block s) (blocks * 4096)" using L by simp
  then show "clear_of (cat_blocks U p w buf) (boot_block s) 4096" using L by (elim clear_of_prefix) simp
  show "k \<le> 1024 \<Longrightarrow> clear_of (cat_blocks U p w buf) (pcb_of p) k" using L clear_of_prefix by blast
qed

text \<open>Opening the file named by the buffer: the call leaves the buffer alone.\<close>

lemma cat_opens:
  fixes s :: "'a keyboard_scheme"
  assumes L: "cat_layout U p w buf blocks s" and fs: "fdt p s = fs" "fds_ok fs" "free_fd fs < 8"
    and str: "cstr_at (memory s) buf xs" "length xs < 1024" "xs \<noteq> []" "find_file (memory s) (boot_block s) xs = Some i"
    and de: "dentry_file_type (memory s) (dentry_at (boot_block s) i) = 2" "dentry_inode_num (memory s) (dentry_at (boot_block s) i) = ino"
  shows "runs (cat_blocks U p w buf) p w (int (free_fd fs)) [] (fs[free_fd fs := opened_fd 2 ino (fs ! free_fd fs)]) s (ece391_open U buf s)"
proof -
  let ?B = "call_blocks p w @ [(l_dentry (u_locals U), 64), (l_sub (u_locals U), 64)]"
  note F = cat_layout_facts [OF L] and M = L [unfolded cat_layout_def]
  have sub: "set ?B \<subseteq> set (cat_blocks U p w buf)" by (auto simp: cat_blocks_def)
  have "user_ok ?B p w s" by (rule user_ok_mono [of "call_blocks p w"]) (use M in auto)
  moreover have "open_blocks ?B w (u_locals U)" using M by (auto simp: open_blocks_def)
  moreover have "clear_of ?B buf (Suc (length xs))" using M str(2) by (elim conjE clear_of_prefix) simp
  moreover have "clear_of ?B (boot_block s) 4096" using clear_of_mono [OF F(4) sub] .
  ultimately show ?thesis
    using M fs str de by (intro runs_mono [OF _ sub] runs_open) simp_all
qed

text \<open>A string literal of the program, off the blocks \<open>A\<close>.\<close>

definition literal :: "(u32 \<times> nat) list \<Rightarrow> 'a keyboard_scheme user_env \<Rightarrow> 'a keyboard_scheme \<Rightarrow> string \<Rightarrow> bool" where
  "literal A U s t \<longleftrightarrow> u_lit U t \<noteq> 0 \<and> length t < 2 ^ 31 \<and> cstr_at (memory s) (u_lit U t) (ascii t) \<and> clear_of A (u_lit U t) (Suc (length t))"

lemma length_ascii [simp]: "length (ascii t) = length t"
  by (simp add: ascii_def)

lemma told_literal: "told A p w out fs s s' \<Longrightarrow> literal A U s t \<Longrightarrow> literal A U s' t"
  using told_cstr [of A p w out fs s s' "u_lit U t" "ascii t"] by (simp add: literal_def)

lemma fdputs_literal:
  fixes s :: "'a keyboard_scheme"
  assumes "user_ok A p w s" "fdt p s = fs" "length fs = 8" "fop_jump_table (fs ! 1) ! 1 = Terminal_write" "literal A U s t"
  shows "\<exists>s'. ece391_fdputs U 1 (u_lit U t) s = Some s' \<and> told A p w (ascii t) fs s s'"
  using assms by (intro runs_fdputs) (auto simp: literal_def clear_of_def)

lemma runs_fail_with:
  fixes s :: "'a keyboard_scheme"
  assumes "user_ok A p w s" "fdt p s = fs" "length fs = 8" "fop_jump_table (fs ! 1) ! 1 = Terminal_write" "literal A U s t"
  shows "runs A p w r (ascii t) fs s (fail_with U t r s)"
  using fdputs_literal [OF assms] by (auto simp: runs_def fail_with_def)

lemma runs_screen: "runs A p w v out fs s r \<Longrightarrow> \<exists>s'. r = Some (v, s') \<and> screen_of w s' = fold put_char out (screen_of w s)"
  by (auto simp: runs_def told_def)

text \<open>The loop of \<open>cat\<close> on a file just opened.\<close>

lemma cat_loop_prints:
  assumes "file_setting A p w fs fd ino buf blocks s" "fdt p s = fs" "file_position (fs ! nat fd) = 0"
  shows "\<exists>fs'. runs A p w 0 (bytes_of ino s) fs' s (cat_loop U fd buf k s)"
proof -
  have "(fs ! nat fd)\<lparr>file_position := int 0\<rparr> = fs ! nat fd" using assms(3) by (cases "fs ! nat fd") simp
  then have "at_position fs fd 0 = fs" by (simp only: at_position_def list_update_id)
  moreover have "cursor_ok w s" using assms(1) by (simp add: file_setting_def user_ok_def)
  ultimately have "told A p w [] (at_position fs fd 0) s s" using told_refl [of w s A p] assms(2) by simp
  then have "cat_ready A p w fs fd ino buf blocks s (chunks 1024 (bytes_of ino s)) [] s"
    using assms(1) by (auto simp: cat_ready_def intro!: exI [of _ 0])
  from cat.loop_prints [OF this, of U k] show ?thesis by (auto simp: concat_chunks cat_ready_def runs_def)
qed

lemma cat_found:
  fixes s :: "'a keyboard_scheme"
  assumes L: "cat_layout U p w buf blocks s" and fs: "fdt p s = fs" "fds_ok fs" "free_fd fs < 8" "fop_jump_table (fs ! 1) = std_table ! 1"
    and str: "cstr_at (memory s) buf xs" "length xs < 1024" "xs \<noteq> []" "find_file (memory s) (boot_block s) xs = Some i"
    and de: "dentry_file_type (memory s) (dentry_at (boot_block s) i) = 2" "dentry_inode_num (memory s) (dentry_at (boot_block s) i) = ino"
    and okf: "file_ok (memory s) (boot_block s) blocks ino" and one: "fd_flags (fs ! 1) \<noteq> 0"
  shows "\<exists>fs'. runs (cat_blocks U p w buf) p w 0 (bytes_of ino s) fs' s
    (do { (fd, s) \<leftarrow> ece391_open U buf s; if fd = -1 then fail_with U ''file not found\<newline>'' 2 s else cat_loop U fd buf 0 s })"
proof -
  let ?A = "cat_blocks U p w buf" and ?n = "free_fd fs" and ?f = "opened_fd 2 ino (fs ! free_fd fs)"
  note F = cat_layout_facts [OF L]
  obtain s1 where s1: "ece391_open U buf s = Some (int ?n, s1)" "told ?A p w [] (fs[?n := ?f]) s s1"
    using cat_opens [OF L fs(1-3) str de] by (auto simp: runs_def)
  have "?n \<noteq> 1" using free_fd_less(1) [of fs] fs(2,3) one by (auto simp: fds_ok_def)
  moreover have "length fs = 8" using fs(2) by (simp add: fds_ok_def)
  moreover have bb: "boot_block s1 = boot_block s" using s1(2) by (simp add: told_def)
  moreover note keep = same_file_ok [OF told_clear(3) [OF s1(2) F(5)] okf]
  ultimately have "file_setting ?A p w (fs[?n := ?f]) (int ?n) ino buf blocks s1"
    using told_ok [OF F(1) s1(2)] fs F(2,3,5) by (simp add: file_setting_def opened_fd_def std_table_def)
  then obtain fs' where "runs ?A p w 0 (bytes_of ino s1) fs' s1 (cat_loop U (int ?n) buf 0 s1)"
    using cat_loop_prints [of ?A p w "fs[?n := ?f]" "int ?n" ino buf blocks s1 U 0] told_fdt [OF s1(2)] fs(2,3) by (auto simp: opened_fd_def fds_ok_def)
  moreover have "bytes_of ino s1 = bytes_of ino s" using keep(2,3) by (simp add: bytes_of_def bb)
  ultimately obtain s2 where "cat_loop U (int ?n) buf 0 s1 = Some (0, s2)" "told ?A p w (bytes_of ino s) fs' s1 s2" by (auto simp: runs_def)
  then show ?thesis using s1 told_trans [OF s1(2)] by (auto simp: runs_def)
qed

lemma cat_missing:
  fixes s :: "'a keyboard_scheme"
  assumes L: "cat_layout U p w buf blocks s" and fs: "fdt p s = fs" "length fs = 8" "fop_jump_table (fs ! 1) = std_table ! 1"
    and str: "cstr_at (memory s) buf xs" "length xs < 1024" "xs = [] \<or> find_file (memory s) (boot_block s) xs = None"
    and lit: "literal (cat_blocks U p w buf) U s ''file not found\<newline>''"
  shows "runs (cat_blocks U p w buf) p w 2 (ascii ''file not found\<newline>'') fs s
    (do { (fd, s) \<leftarrow> ece391_open U buf s; if fd = -1 then fail_with U ''file not found\<newline>'' 2 s else cat_loop U fd buf 0 s })"
proof -
  let ?A = "cat_blocks U p w buf" and ?B = "call_blocks p w @ [(l_dentry (u_locals U), 64), (l_sub (u_locals U), 64)]"
  note F = cat_layout_facts [OF L] and M = L [unfolded cat_layout_def]
  have sub: "set ?B \<subseteq> set ?A" by (auto simp: cat_blocks_def)
  have "user_ok ?B p w s" by (rule user_ok_mono [of "call_blocks p w"]) (use M in auto)
  moreover have "open_blocks ?B w (u_locals U)" using M by (auto simp: open_blocks_def)
  moreover have "clear_of ?B buf (Suc (length xs))" using M str(2) by (elim conjE clear_of_prefix) simp
  moreover have "clear_of ?B (boot_block s) 4096" using clear_of_mono [OF F(4) sub] .
  ultimately have "runs ?A p w (-1) [] fs s (ece391_open U buf s)"
    using fs(1) str by (intro runs_mono [OF _ sub] runs_open_missing)
  then show ?thesis
  proof (rule runs_silent [OF F(1)])
    fix s' assume s': "user_ok ?A p w s'" "told ?A p w [] fs s s'"
    from runs_fail_with [OF s'(1) told_fdt [OF s'(2)] fs(2) _ told_literal [OF s'(2) lit]] fs(3)
    show "runs ?A p w 2 (ascii ''file not found\<newline>'') fs s'
        (case (-1, s') of (fd, s) \<Rightarrow> if fd = -1 then fail_with U ''file not found\<newline>'' 2 s else cat_loop U fd buf 0 s)"
      by (simp add: std_table_def)
  qed
qed

section \<open>What ls prints\<close>

text \<open>The names \<open>ls\<close> lists from an index on: up to the first empty one.\<close>

definition names_from :: "nat \<Rightarrow> 'a keyboard_scheme \<Rightarrow> u8 list list" where
  "names_from i s = takeWhile (\<lambda>x. x \<noteq> []) (map (file_name (memory s) (boot_block s)) [i..<63])"

definition dir_setting :: "(u32 \<times> nat) list \<Rightarrow> int \<Rightarrow> u32 \<Rightarrow> fd_t list \<Rightarrow> int \<Rightarrow> 'a keyboard_scheme user_env \<Rightarrow> u32 \<Rightarrow> 'a keyboard_scheme \<Rightarrow> bool" where
  "dir_setting A p w fs fd U buf s \<longleftrightarrow> user_ok A p w s \<and> length fs = 8 \<and> 0 \<le> fd \<and> fd < 8 \<and> fd \<noteq> 1 \<and>
     fop_jump_table (fs ! nat fd) = file_table ! 1 \<and> fd_file_type (fs ! nat fd) = 1 \<and> fd_flags (fs ! nat fd) \<noteq> 0 \<and>
     fop_jump_table (fs ! 1) ! 1 = Terminal_write \<and> clear_of A (boot_block s) 4096 \<and> disjoint_regions buf 33 (l_sub (u_locals U)) 64 \<and>
     open_blocks A w (u_locals U) \<and> buffer_block A w buf 33 \<and> clear_of (call_blocks p w) buf 33 \<and>
     (\<forall>i<63. length (file_name (memory s) (boot_block s) i) < 32)"

definition ls_ready where
  "ls_ready A p w fs fd U buf s0 ys out s \<longleftrightarrow> dir_setting A p w fs fd U buf s0 \<and>
     (\<exists>i e. i \<le> e \<and> e < 63 \<and> file_name (memory s0) (boot_block s0) e = [] \<and> told A p w out (at_position fs fd i) s0 s \<and> ys = names_from i s0)"

definition ls_loaded where
  "ls_loaded A p w fs fd U buf s0 y ys out s \<longleftrightarrow> read_bytes (memory s) buf (length y) = y \<and> length y < 32 \<and> ls_ready A p w fs fd U buf s0 ys out s"

definition ls_emit :: "'a keyboard_scheme user_env \<Rightarrow> u32 \<Rightarrow> int \<Rightarrow> 'a keyboard_scheme \<Rightarrow> (int \<times> 'a keyboard_scheme) option" where
  "ls_emit U buf cnt s = (let s = s\<lparr>memory := (memory s)(buf + word_of_int cnt := 0x0A)\<rparr> in ece391_write U 1 buf (cnt + 1) s)"

lemma names_from_Cons:
  "names_from i s = y # ys \<Longrightarrow> i < 63 \<and> y = file_name (memory s) (boot_block s) i \<and> y \<noteq> [] \<and> ys = names_from (i + 1) s"
  by (cases "i < 63") (auto simp: names_from_def upt_conv_Cons split: if_splits)

lemma names_from_Nil: "names_from i s = [] \<Longrightarrow> i < 63 \<Longrightarrow> file_name (memory s) (boot_block s) i = []"
  by (auto simp: names_from_def upt_conv_Cons split: if_splits)

lemma ls_read:
  assumes set: "dir_setting A p w fs fd U buf s0" and t: "told A p w out (at_position fs fd i) s0 s" and i: "i < 63"
    and y: "y = file_name (memory s0) (boot_block s0) i"
  shows "\<exists>s'. ece391_read U k fd buf (SBUFSIZE - 1) s = Some (int (length y), s') \<and>
    told A p w out (at_position fs fd (if y = [] then i else i + 1)) s0 s' \<and> read_bytes (memory s') buf (length y) = y"
proof -
  let ?fs = "at_position fs fd i" and ?n = "int (length y)"
  note S = set [unfolded dir_setting_def]
  have bb: "boot_block s = boot_block s0" using t by (simp add: told_def)
  have img: "same_image (memory s0) (memory s) (boot_block s0) 4096" using told_clear(3) [OF t] S by blast
  have nm: "file_name (memory s) (boot_block s) i = y" using file_name_image [OF img i] y by (simp add: bb)
  have fdl: "nat fd < length fs" using S by auto
  note sel = at_position_sel(2) [OF fdl, of i]
  have "length y < 32" using S i y by blast
  moreover have "disjoint_regions buf 32 (l_sub (u_locals U)) 64" using S disjoint_regions_prefix [of buf 33 "l_sub (u_locals U)" 64 32 64] by simp
  ultimately have "\<exists>s'. ece391_read U k fd buf 32 s = Some (if fd_flags (?fs ! nat fd) = 0 \<and> ?n = 1 then -1 else ?n, s') \<and>
      told A p w [] (?fs[nat fd := advance ?n (?fs ! nat fd)]) s s' \<and>
      read_bytes (memory s') buf (length (file_name (memory s) (boot_block s) i)) = file_name (memory s) (boot_block s) i"
    using S told_fdt [OF t] i
    by (intro calls_read_dir [OF told_ok [OF _ t], where l = 33]) (simp_all add: sel at_position_sel(1) bb nm [unfolded bb])
  moreover have "?fs[nat fd := advance ?n (?fs ! nat fd)] = at_position fs fd (if y = [] then i else i + 1)"
    using S fdl by (simp add: sel advance_def) (simp add: at_position_def add.commute)
  ultimately show ?thesis using told_trans [OF t, of "[]"] S by (auto simp: SBUFSIZE_def sel nm)
qed

interpretation ls: item_loop "\<lambda>k. ece391_read U k fd buf (SBUFSIZE - 1)" "ls_emit U buf" "fail_with U ''directory entry read failed\<newline>'' 3"
  "ls_loop U fd buf" "\<lambda>y. y @ [0x0A]" "ls_ready A p w fs fd U buf s0" "ls_loaded A p w fs fd U buf s0"
  for U :: "'a keyboard_scheme user_env" and fd buf A p w fs s0
proof unfold_locales
  fix k :: nat and y :: "u8 list" and ys out and s :: "'a keyboard_scheme"
  show "ls_loop U fd buf k s = do {
      (cnt, s) \<leftarrow> ece391_read U k fd buf (SBUFSIZE - 1) s;
      if cnt = 0 then Some (0, s) else if cnt = -1 then fail_with U ''directory entry read failed\<newline>'' 3 s
      else do { (r, s) \<leftarrow> ls_emit U buf cnt s; if r = -1 then Some (3, s) else ls_loop U fd buf (k + 1) s } }"
    by (subst ls_loop.simps) (simp only: ls_emit_def Let_def cong: if_cong)
  show "y \<noteq> []" if "ls_ready A p w fs fd U buf s0 (y # ys) out s"
    using that names_from_Cons by (metis ls_ready_def)
  show "\<exists>s'. ece391_read U k fd buf (SBUFSIZE - 1) s = Some (int (length y), s') \<and> ls_loaded A p w fs fd U buf s0 y ys out s'"
    if r: "ls_ready A p w fs fd U buf s0 (y # ys) out s"
  proof -
    obtain i e where i: "i \<le> e" "e < 63" "file_name (memory s0) (boot_block s0) e = []" "told A p w out (at_position fs fd i) s0 s"
      "names_from i s0 = y # ys" and S: "dir_setting A p w fs fd U buf s0"
      using r by (auto simp: ls_ready_def)
    note y = names_from_Cons [OF i(5)]
    have "i + 1 \<le> e" using i(1,3) y by (metis Suc_eq_plus1 Suc_leI le_neq_implies_less)
    moreover have "length y < 32" using S y by (auto simp: dir_setting_def)
    ultimately show ?thesis
      using ls_read [OF S i(4), of y k] S y i(2,3) by (fastforce simp: ls_loaded_def ls_ready_def)
  qed
  show "\<exists>r s'. ls_emit U buf (int (length y)) s = Some (r, s') \<and> r \<noteq> -1 \<and> ls_ready A p w fs fd U buf s0 ys (out @ y @ [0x0A]) s'"
    if l: "ls_loaded A p w fs fd U buf s0 y ys out s"
  proof -
    obtain i e where i: "i \<le> e" "e < 63" "file_name (memory s0) (boot_block s0) e = []" "told A p w out (at_position fs fd i) s0 s"
      "ys = names_from i s0" and S: "dir_setting A p w fs fd U buf s0" and y: "read_bytes (memory s) buf (length y) = y" "length y < 32"
      using l by (auto simp: ls_loaded_def ls_ready_def)
    let ?m = "(memory s)(buf + of_nat (length y) := 0x0A)" and ?fs = "at_position fs fd i"
    note D = S [unfolded dir_setting_def]
    have ok: "user_ok A p w s" using told_ok [OF _ i(4)] D by blast
    have in33: "in_region (buf + of_nat (length y)) buf 33" using y(2) by (simp add: in_region_offset)
    have t1: "told A p w [] ?fs s (s\<lparr>memory := ?m\<rparr>)"
      unfolding told_fdt [OF i(4), symmetric]
    proof (rule told_written [where B = "[(buf, 33)]"])
      show "cursor_ok w s" using ok by (simp add: user_ok_def)
      show "?m x = memory s x" if "outside [(buf, 33)] x" for x using that in33 by (auto simp: outside_def)
      show "outside [(buf, 33)] x" if "outside A x" for x using outside_block [OF _ that, of w buf 33] D by (simp add: outside_def)
      show "list_all (\<lambda>(b, n). disjoint_regions b n (page w) 4000) [(buf, 33)]" using D by (simp add: buffer_block_def)
    qed
    have "read_bytes ?m buf (length y) = read_bytes (memory s) buf (length y)"
      using y(2) by (intro read_bytes_cong) (auto simp: word_of_nat_eq_iff take_bit_nat_eq_self)
    moreover have "read_bytes ?m (buf + of_nat (length y)) 1 = [0x0A]" by (simp add: read_bytes_def)
    ultimately have rb: "read_bytes ?m buf (Suc (length y)) = y @ [0x0A]" using read_bytes_add [of ?m buf "length y" 1] y(1) by simp
    have "clear_of (call_blocks p w) buf (Suc (length y))" using D y(2) clear_of_prefix [of "call_blocks p w" buf 33 "Suc (length y)"] by simp
    then have "runs A p w (int (Suc (length y))) (y @ [0x0A]) ?fs (s\<lparr>memory := ?m\<rparr>) (ece391_write U 1 buf (int (Suc (length y))) (s\<lparr>memory := ?m\<rparr>))"
      using runs_print [OF told_ok [OF ok t1] told_fdt [OF t1], of buf "Suc (length y)" U] D y(2) rb at_position_sel(3) [of fd fs i]
      by (simp add: at_position_sel(1) buffer_block_def)
    then obtain s' where "ece391_write U 1 buf (int (length y) + 1) (s\<lparr>memory := ?m\<rparr>) = Some (int (Suc (length y)), s')"
      "told A p w (y @ [0x0A]) ?fs (s\<lparr>memory := ?m\<rparr>) s'" by (auto simp: runs_def add.commute)
    then show ?thesis using told_trans [OF told_trans [OF i(4) t1]] i S by (fastforce simp: ls_ready_def ls_emit_def)
  qed
  show "\<exists>s'. ece391_read U k fd buf (SBUFSIZE - 1) s = Some (0, s') \<and> ls_ready A p w fs fd U buf s0 [] out s'"
    if r: "ls_ready A p w fs fd U buf s0 [] out s"
  proof -
    obtain i e where i: "i \<le> e" "e < 63" "file_name (memory s0) (boot_block s0) e = []" "told A p w out (at_position fs fd i) s0 s"
      "names_from i s0 = []" and S: "dir_setting A p w fs fd U buf s0"
      using r by (auto simp: ls_ready_def)
    have "[] = file_name (memory s0) (boot_block s0) i" using names_from_Nil [OF i(5)] i(1,2) by simp
    from ls_read [OF S i(4) _ this, of k] show ?thesis using i S by (fastforce simp: ls_ready_def)
  qed
qed

section \<open>Properties\<close>

lemma clear_ofI:
  assumes "list_all (\<lambda>(b, k). disjoint_regions b k a n) A" "n \<le> 2 ^ 32"
  shows "clear_of A a n"
proof -
  have "\<not> in_region (a + of_nat j) b k" if "j < n" "(b, k) \<in> set A" for j b k
    using assms that in_region_offset [of j n a] disjoint_regionsD [of b k a n "a + of_nat j"] by (auto simp: list_all_iff)
  then show ?thesis by (auto simp: clear_of_def outside_def list_all_iff)
qed

text \<open>A concrete program: process 0 of the small system, about to run with \<open>hi\<close> as its arguments.\<close>

definition demo_env :: "keyboard user_env" where
  "demo_env = \<lparr>u_locals = demo_locals, u_lit = (\<lambda>_. 0x8049000), u_handlers = (\<lambda>_. [])\<rparr>"

definition demo_user :: "(u32 \<times> u8 list) list \<Rightarrow> keyboard" where
  "demo_user segs = (demo_kernel segs)\<lparr>tss_esp0 := pcb_of 0 + 0x1FFC\<rparr>"

lemma demo_user_sel [simp]:
  "memory (demo_user segs) = mem_of (segs @ demo_image)" "boot_block (demo_user segs) = 0x500000" "fdt 0 (demo_user segs) = demo_fds"
  by (simp_all add: demo_user_def fdt_def)

lemma demo_user_image:
  assumes "list_all (\<lambda>(a, xs). length xs < 2 ^ 32 \<and> disjoint_regions a (length xs) 0x500000 0x3000) segs"
  shows "same_image (mem_of demo_image) (mem_of (segs @ demo_image)) 0x500000 (3 * 4096)"
  using assms
proof (induction segs)
  case (Cons seg segs)
  obtain a xs where seg: "seg = (a, xs)" by fastforce
  have "mem_of (seg # segs @ demo_image) (0x500000 + of_nat j) = mem_of (segs @ demo_image) (0x500000 + of_nat j)" if "j < 3 * 4096" for j
    using that Cons.prems disjoint_regionsD [of a "length xs" "0x500000" "0x3000" "0x500000 + of_nat j"] in_region_offset [of j "0x3000" "0x500000"]
    by (auto simp: seg mem_of_Cons in_region_def word_less_nat_alt unat_of_nat_u32)
  then show ?case using Cons by (simp add: same_image_def)
qed simp

lemma demo_user_file:
  assumes "list_all (\<lambda>(a, xs). length xs < 2 ^ 32 \<and> disjoint_regions a (length xs) 0x500000 0x3000) segs"
  shows "find_file (memory (demo_user segs)) 0x500000 [0x68, 0x69] = Some 0" "dentry_file_type (memory (demo_user segs)) (dentry_at 0x500000 0) = 2"
    "dentry_inode_num (memory (demo_user segs)) (dentry_at 0x500000 0) = 0" "file_ok (memory (demo_user segs)) 0x500000 3 0"
    "bytes_of 0 (demo_user segs) = demo_file"
proof -
  have img: "same_image (mem_of demo_image) (memory (demo_user segs)) 0x500000 (3 * 4096)" using demo_user_image [OF assms] by simp
  then have img': "same_image (mem_of demo_image) (memory (demo_user segs)) 0x500000 4096" by (simp add: same_image_def)
  have "file_name (mem_of demo_image) 0x500000 0 = [0x68, 0x69]"
    by (simp add: file_name_def read_bytes_def upt_rec dentry_at_def mem_of_def demo_image_def demo_file_def)
  then have "find_file (mem_of demo_image) 0x500000 [0x68, 0x69] = Some 0" by (intro find_file_first) simp
  then show "find_file (memory (demo_user segs)) 0x500000 [0x68, 0x69] = Some 0" using find_file_image [OF img', of "[0x68, 0x69]"] by simp
  have "dentry_file_type (mem_of demo_image) (dentry_at 0x500000 0) = 2" "dentry_inode_num (mem_of demo_image) (dentry_at 0x500000 0) = 0"
    by (simp_all add: dentry_file_type_def dentry_inode_num_def dentry_at_def read32_def mem_of_def demo_image_def demo_file_def)
  then show "dentry_file_type (memory (demo_user segs)) (dentry_at 0x500000 0) = 2" "dentry_inode_num (memory (demo_user segs)) (dentry_at 0x500000 0) = 0"
    using dentry_fields_image [OF img', of 0] by simp_all
  note keep = same_file_ok [OF img demo_file_ok]
  show "file_ok (memory (demo_user segs)) 0x500000 3 0" by (rule keep(1))
  have "map (file_byte (memory (demo_user segs)) 0x500000 0) [0..<28] = demo_file"
    unfolding demo_file_bytes [symmetric] using keep(3) by (intro map_cong refl) (simp add: demo_file_size)
  then show "bytes_of 0 (demo_user segs) = demo_file" using keep(2) by (simp add: bytes_of_def demo_file_size)
qed

lemma demo_user_ok: "user_ok (call_blocks 0 0) 0 0 (demo_user segs)"
  by (simp add: user_ok_def demo_user_def call_blocks_def curr_pid_def valid_pid_def cursor_ok_def demo_kernel_def demo_defs demo_console_def demo_pcb_def NUM_COLS_def NUM_ROWS_def)

lemma demo_cat_layout: "cat_layout demo_env 0 0 0x8048800 3 (demo_user segs)"
  unfolding cat_layout_def
  by (intro conjI demo_user_ok clear_ofI)
     (simp_all add: open_blocks_def cat_blocks_def call_blocks_def demo_env_def demo_locals_def disjoint_regions_def page_def vidmem_pages_def VID1_def pcb_of_def proc_consts)

text \<open>
  C8: \<open>cat\<close>. A program whose arguments name a regular file of the image prints exactly the bytes
  of that file on its terminal, however many reads of 1024 bytes this takes, and returns 0; if
  the directory has no such name (or there are no arguments) it prints that the file was not
  found and returns 2. In particular its loop ends.
\<close>

theorem cat_prints_file:
  fixes s :: "'a keyboard_scheme"
  assumes "cat_layout U p w buf blocks s" "fds_ok (fdt p s)" "free_fd (fdt p s) < 8" "fop_jump_table (fdt p s ! 1) = std_table ! 1"
    and "fd_flags (fdt p s ! 1) \<noteq> 0" "cstr_at (memory s) (pcb_of p) xs" "length xs < 1024"
    and "\<And>i. find_file (memory s) (boot_block s) xs = Some i \<Longrightarrow> dentry_file_type (memory s) (dentry_at (boot_block s) i) = 2 \<and>
      file_ok (memory s) (boot_block s) blocks (dentry_inode_num (memory s) (dentry_at (boot_block s) i))"
    and "literal (cat_blocks U p w buf) U s ''file not found\<newline>''"
  shows "\<exists>s'. cat U buf s = Some (if xs = [] \<or> find_file (memory s) (boot_block s) xs = None then 2 else 0, s') \<and>
    screen_of w s' = fold put_char
      (case find_file (memory s) (boot_block s) xs of
         Some i \<Rightarrow> if xs = [] then ascii ''file not found\<newline>'' else bytes_of (dentry_inode_num (memory s) (dentry_at (boot_block s) i)) s
       | None \<Rightarrow> ascii ''file not found\<newline>'')
      (screen_of w s)"
proof -
  let ?A = "cat_blocks U p w buf" and ?fs = "fdt p s"
  note F = cat_layout_facts [OF assms(1)]
  have len: "length ?fs = 8" using assms(2) by (simp add: fds_ok_def)
  have args: "clear_of ?A (pcb_of p) (Suc (length xs))" using F(6) assms(7) by simp
  obtain s1 where s1: "ece391_getargs U buf 1024 s = Some (0, s1)" "told ?A p w [] ?fs s s1" "cstr_at (memory s1) buf xs"
    using calls_getargs [OF F(1) refl assms(6,7) args F(2), of 1024 U] assms(7) by auto
  have bb: "boot_block s1 = boot_block s" "screen_of w s1 = screen_of w s" using s1(2) by (simp_all add: told_def)
  note img = told_clear(3) [OF s1(2) F(4)] told_clear(3) [OF s1(2) F(5)]
  have find: "find_file (memory s1) (boot_block s1) xs = find_file (memory s) (boot_block s) xs" using find_file_image [OF img(1)] by (simp add: bb)
  have L1: "cat_layout U p w buf blocks s1"
    using assms(1) told_ok [OF F(1) s1(2)] by (auto simp: cat_layout_def bb user_ok_def call_blocks_def)
  have cat: "cat U buf s = do { (fd, s) \<leftarrow> ece391_open U buf s1; if fd = -1 then fail_with U ''file not found\<newline>'' 2 s else cat_loop U fd buf 0 s }"
    by (simp add: cat_def s1(1))
  show ?thesis
  proof (cases "xs = [] \<or> find_file (memory s) (boot_block s) xs = None")
    case True
    then show ?thesis
      using runs_screen [OF cat_missing [OF L1 told_fdt [OF s1(2)] len assms(4) s1(3) assms(7) _ told_literal [OF s1(2) assms(9)]]]
      by (auto simp: cat find [unfolded bb] bb split: option.split)
  next
    case False
    then obtain i where i: "xs \<noteq> []" "find_file (memory s) (boot_block s) xs = Some i" by auto
    let ?ino = "dentry_inode_num (memory s) (dentry_at (boot_block s) i)"
    have "i < 63" using i(2) by (auto simp: find_file_def find_Some_iff)
    note de = dentry_fields_image [OF img(1) this]
    have ok: "file_ok (memory s) (boot_block s) blocks ?ino" using assms(8) [OF i(2)] by simp
    note keep = same_file_ok [OF img(2) ok]
    have "\<exists>fs'. runs ?A p w 0 (bytes_of ?ino s1) fs' s1
        (do { (fd, s) \<leftarrow> ece391_open U buf s1; if fd = -1 then fail_with U ''file not found\<newline>'' 2 s else cat_loop U fd buf 0 s })"
      using cat_found [OF L1 told_fdt [OF s1(2)] assms(2-4) s1(3) assms(7) i(1), of i ?ino] i(2) find de assms(5,8) keep(1) by (simp add: bb)
    moreover have "bytes_of ?ino s1 = bytes_of ?ino s" using keep(2,3) by (simp add: bytes_of_def bb)
    ultimately show ?thesis using i by (auto simp: cat bb dest: runs_screen)
  qed
qed

lemma ascii_not_found: "ascii ''file not found\<newline>'' = [0x66, 0x69, 0x6C, 0x65, 0x20, 0x6E, 0x6F, 0x74, 0x20, 0x66, 0x6F, 0x75, 0x6E, 0x64, 0x0A]"
  by (simp add: ascii_def)

theorem cat_prints_file_witness:
  "\<exists>s'. cat demo_env 0x8048800 (demo_user [(0x7FE000, [0x68, 0x69, 0]), (0x8049000, ascii ''file not found\<newline>'')]) = Some (0, s') \<and>
     screen_of 0 s' = fold put_char demo_file (screen_of 0 (demo_user [(0x7FE000, [0x68, 0x69, 0]), (0x8049000, ascii ''file not found\<newline>'')]))"
proof -
  let ?segs = "[(0x7FE000, [0x68, 0x69, 0]), (0x8049000, ascii ''file not found\<newline>'')]"
  let ?s = "demo_user ?segs"
  have D: "list_all (\<lambda>(a, xs). length xs < 2 ^ 32 \<and> disjoint_regions a (length xs) 0x500000 0x3000) ?segs" by (simp add: disjoint_regions_def)
  have std: "fop_jump_table (demo_fds ! 1) = std_table ! 1" "fd_flags (demo_fds ! 1) \<noteq> 0"
    by (simp_all add: demo_fds_def initial_fds_def upt_rec MAX_OPEN_FILES_def STD_FILES_def)
  have args: "cstr_at (memory ?s) (pcb_of 0) [0x68, 0x69]"
    by (simp add: cstr_at_def read_bytes_def upt_rec mem_of_def pcb_of_def proc_consts)
  have "cstr_at (memory ?s) 0x8049000 (ascii ''file not found\<newline>'')"
    by (simp add: cstr_at_def read_bytes_def upt_rec mem_of_def ascii_not_found demo_image_def demo_file_def)
  moreover have "clear_of (cat_blocks demo_env 0 0 0x8048800) 0x8049000 (Suc (length ''file not found\<newline>''))"
    by (rule clear_ofI) (simp_all add: cat_blocks_def call_blocks_def demo_env_def demo_locals_def disjoint_regions_def page_def vidmem_pages_def VID1_def pcb_of_def proc_consts)
  ultimately have lit: "literal (cat_blocks demo_env 0 0 0x8048800) demo_env ?s ''file not found\<newline>''"
    unfolding literal_def by (simp add: demo_env_def)
  from cat_prints_file [OF demo_cat_layout _ _ _ _ args _ _ lit] demo_user_file [OF D] std show ?thesis
    by (simp add: demo_fds_eval)
qed

text \<open>What \<open>ls\<close> needs of its surroundings.\<close>

definition ls_blocks :: "'a keyboard_scheme user_env \<Rightarrow> int \<Rightarrow> u32 \<Rightarrow> u32 \<Rightarrow> (u32 \<times> nat) list" where
  "ls_blocks U p w buf = call_blocks p w @ [(l_dentry (u_locals U), 64), (l_sub (u_locals U), 64), (buf, 33)]"

definition ls_layout :: "'a keyboard_scheme user_env \<Rightarrow> int \<Rightarrow> u32 \<Rightarrow> u32 \<Rightarrow> 'a keyboard_scheme \<Rightarrow> bool" where
  "ls_layout U p w buf s \<longleftrightarrow> user_ok (call_blocks p w) p w s \<and> open_blocks (ls_blocks U p w buf) w (u_locals U) \<and> buf \<noteq> 0 \<and>
     clear_of (ls_blocks U p w buf) (boot_block s) 4096 \<and> clear_of (call_blocks p w @ [(l_sub (u_locals U), 64)]) buf 33 \<and>
     literal (ls_blocks U p w buf) U s ''.''"

lemma ls_layout_facts:
  assumes "ls_layout U p w buf s"
  shows "user_ok (ls_blocks U p w buf) p w s" "buffer_block (ls_blocks U p w buf) w buf 33" "clear_of (call_blocks p w) buf 33"
    "disjoint_regions buf 33 (l_sub (u_locals U)) 64"
proof -
  note L = assms [unfolded ls_layout_def]
  show "user_ok (ls_blocks U p w buf) p w s" by (rule user_ok_mono [of "call_blocks p w"]) (use L in \<open>auto simp: ls_blocks_def\<close>)
  show c: "clear_of (call_blocks p w) buf 33" by (rule clear_of_mono [of "call_blocks p w @ [(l_sub (u_locals U), 64)]"]) (use L in auto)
  have "disjoint_regions buf 33 (page w) 4000" using disjoint_regions_sym [THEN iffD1, OF clear_of_disjoint [OF c]] by (simp add: call_blocks_def)
  then show "buffer_block (ls_blocks U p w buf) w buf 33" using L by (simp add: buffer_block_def ls_blocks_def)
  show "disjoint_regions buf 33 (l_sub (u_locals U)) 64"
    using L clear_of_disjoint [of "call_blocks p w @ [(l_sub (u_locals U), 64)]" buf 33] disjoint_regions_sym by fastforce
qed

text \<open>
  C18: \<open>ls\<close>. On an image whose directory has the entry \<open>.\<close> of the directory type, names of fewer
  than 32 characters and at least one free slot, the program prints each name from slot 0 up to
  the first empty one on a line of its own, and returns 0.
\<close>

theorem ls_prints_names:
  fixes s :: "'a keyboard_scheme"
  assumes "ls_layout U p w buf s" "fds_ok (fdt p s)" "free_fd (fdt p s) < 8" "fop_jump_table (fdt p s ! 1) = std_table ! 1" "fd_flags (fdt p s ! 1) \<noteq> 0"
    and "find_file (memory s) (boot_block s) [0x2E] = Some i" "dentry_file_type (memory s) (dentry_at (boot_block s) i) = 1"
    and "\<forall>j<63. length (file_name (memory s) (boot_block s) j) < 32" "e < 63" "file_name (memory s) (boot_block s) e = []"
  shows "\<exists>s'. ls U buf s = Some (0, s') \<and>
    screen_of w s' = fold put_char (concat (map (\<lambda>y. y @ [0x0A]) (names_from 0 s))) (screen_of w s)"
proof -
  let ?A = "ls_blocks U p w buf" and ?fs = "fdt p s" and ?n = "free_fd (fdt p s)"
  let ?ino = "dentry_inode_num (memory s) (dentry_at (boot_block s) i)"
  let ?fs' = "?fs[?n := opened_fd 1 ?ino (?fs ! ?n)]"
  note F = ls_layout_facts [OF assms(1)] and L = assms(1) [unfolded ls_layout_def]
  have len: "length ?fs = 8" using assms(2) by (simp add: fds_ok_def)
  have lit: "cstr_at (memory s) (u_lit U ''.'') [0x2E]" "u_lit U ''.'' \<noteq> 0" "clear_of ?A (u_lit U ''.'') (Suc (length [0x2E :: u8]))"
    using L by (simp_all add: literal_def ascii_def)
  obtain s1 where s1: "ece391_open U (u_lit U ''.'') s = Some (int ?n, s1)" "told ?A p w [] ?fs' s s1"
    using runs_open [OF F(1) refl assms(2,3) lit(1,3) _ _ lit(2) _ assms(6,7)] L by (auto simp: runs_def)
  have bb: "boot_block s1 = boot_block s" "screen_of w s1 = screen_of w s" using s1(2) by (simp_all add: told_def)
  have img: "same_image (memory s) (memory s1) (boot_block s) 4096" using told_clear(3) [OF s1(2)] L by blast
  have names: "file_name (memory s1) (boot_block s1) j = file_name (memory s) (boot_block s) j" if "j < 63" for j
    using file_name_image [OF img that] by (simp add: bb)
  have "?n \<noteq> 1" using free_fd_less(1) [of ?fs] assms(3,5) len by auto
  then have "dir_setting ?A p w ?fs' (int ?n) U buf s1"
    using told_ok [OF F(1) s1(2)] F(2-4) L assms(3,4,8) len names by (simp add: dir_setting_def opened_fd_def std_table_def bb)
  moreover have "(?fs' ! ?n)\<lparr>file_position := int 0\<rparr> = ?fs' ! ?n" using len assms(3) by (simp add: opened_fd_def)
  then have "at_position ?fs' (int ?n) 0 = ?fs'" unfolding at_position_def nat_int by (simp only: list_update_id)
  then have "told ?A p w [] (at_position ?fs' (int ?n) 0) s1 s1"
    using told_refl [of w s1 ?A p] told_fdt [OF s1(2)] told_ok [OF F(1) s1(2)] by (simp add: user_ok_def)
  moreover have "names_from 0 s1 = names_from 0 s" unfolding names_from_def by (intro arg_cong [where f = "takeWhile _"] map_cong refl names) simp
  ultimately have "ls_ready ?A p w ?fs' (int ?n) U buf s1 (names_from 0 s) [] s1"
    using assms(9,10) names by (force simp: ls_ready_def)
  from ls.loop_prints [OF this, of 0] obtain s2 where s2: "ls_loop U (int ?n) buf 0 s1 = Some (0, s2)"
    "ls_ready ?A p w ?fs' (int ?n) U buf s1 [] (concat (map (\<lambda>y. y @ [0x0A]) (names_from 0 s))) s2" by auto
  then have "screen_of w s2 = fold put_char (concat (map (\<lambda>y. y @ [0x0A]) (names_from 0 s))) (screen_of w s)"
    by (auto simp: ls_ready_def told_def bb)
  then show ?thesis using s1(1) s2(1) by (simp add: ls_def)
qed

lemma file_name_short:
  assumes "m (dentry_at bb i + 31) = 0"
  shows "length (file_name m bb i) < 32"
proof (rule ccontr)
  let ?xs = "read_bytes m (dentry_at bb i) 32"
  assume "\<not> length (file_name m bb i) < 32"
  then have l: "31 < length (takeWhile (\<lambda>c. c \<noteq> 0) ?xs)" by (simp add: file_name_def)
  then have "takeWhile (\<lambda>c. c \<noteq> 0) ?xs ! 31 \<noteq> 0" using set_takeWhileD [OF nth_mem [OF l]] by simp
  then show False using takeWhile_nth [OF l] assms by simp
qed

definition demo_dir :: "(u32 \<times> u8 list) list" where
  "demo_dir = [(0x500040, [0x2E, 0]), (0x500060, [1, 0, 0, 0, 0, 0, 0, 0]), (0x8049000, [0x2E, 0])]"

lemma demo_dir_names:
  "file_name (mem_of (demo_dir @ demo_image)) 0x500000 0 = [0x2E]" "file_name (mem_of (demo_dir @ demo_image)) 0x500000 1 = []"
  "j < 63 \<Longrightarrow> length (file_name (mem_of (demo_dir @ demo_image)) 0x500000 j) < 32"
proof -
  show "file_name (mem_of (demo_dir @ demo_image)) 0x500000 0 = [0x2E]" "file_name (mem_of (demo_dir @ demo_image)) 0x500000 1 = []"
    by (simp_all add: file_name_def read_bytes_def upt_rec dentry_at_def mem_of_def demo_dir_def demo_image_def demo_file_def)
  show "length (file_name (mem_of (demo_dir @ demo_image)) 0x500000 j) < 32" if "j < 63"
  proof (rule file_name_short)
    have "unat (dentry_at 0x500000 j + 31) = 0x50005F + 64 * j"
      using that unat_of_nat_u32 [of "64 * j"] unat_of_nat_u32 [of "0x50005F + 64 * j"] by (simp add: dentry_at_def add_ac)
    moreover have "mem_of (demo_dir @ demo_image) x = 0" if "unat x = 0x50005F + 64 * j" "j < 63" for x
    proof (cases "j = 0")
      case False
      then show ?thesis using that by (simp add: demo_dir_def demo_image_def demo_file_def mem_of_Cons mem_of_Nil word_less_nat_alt unat_sub_if')
    qed (use that in \<open>simp add: demo_dir_def demo_image_def demo_file_def mem_of_Cons mem_of_Nil word_less_nat_alt unat_sub_if'\<close>)
    ultimately show "mem_of (demo_dir @ demo_image) (dentry_at 0x500000 j + 31) = 0" using that by blast
  qed
qed

theorem ls_prints_names_witness:
  "\<exists>s'. ls demo_env 0x8048800 (demo_user demo_dir) = Some (0, s') \<and>
     screen_of 0 s' = fold put_char [0x2E, 0x0A] (screen_of 0 (demo_user demo_dir))"
proof -
  have std: "fop_jump_table (demo_fds ! 1) = std_table ! 1" "fd_flags (demo_fds ! 1) \<noteq> 0"
    by (simp_all add: demo_fds_def initial_fds_def upt_rec MAX_OPEN_FILES_def STD_FILES_def)
  have "cstr_at (memory (demo_user demo_dir)) 0x8049000 [0x2E]"
    by (simp add: cstr_at_def read_bytes_def upt_rec mem_of_def demo_dir_def)
  moreover have clear: "clear_of (ls_blocks demo_env 0 0 0x8048800) 0x8049000 (Suc (length ''.''))" "clear_of (ls_blocks demo_env 0 0 0x8048800) 0x500000 4096"
    "clear_of (call_blocks 0 0 @ [(l_sub demo_locals, 64)]) 0x8048800 33"
    by (rule clear_ofI; simp add: ls_blocks_def call_blocks_def demo_env_def demo_locals_def disjoint_regions_def page_def vidmem_pages_def VID1_def pcb_of_def proc_consts)+
  ultimately have "literal (ls_blocks demo_env 0 0 0x8048800) demo_env (demo_user demo_dir) ''.''"
    unfolding literal_def by (simp add: demo_env_def ascii_def)
  then have L: "ls_layout demo_env 0 0 0x8048800 (demo_user demo_dir)"
    using demo_user_ok clear by (simp add: ls_layout_def open_blocks_def demo_env_def)
       (simp add: ls_blocks_def call_blocks_def demo_locals_def disjoint_regions_def page_def vidmem_pages_def VID1_def)
  have "find_file (memory (demo_user demo_dir)) 0x500000 [0x2E] = Some 0" using demo_dir_names(1) by (intro find_file_first) simp
  moreover have "dentry_file_type (memory (demo_user demo_dir)) (dentry_at 0x500000 0) = 1"
    by (simp add: dentry_file_type_def dentry_at_def read32_def mem_of_def demo_dir_def)
  moreover have "names_from 0 (demo_user demo_dir) = [[0x2E]]"
    using demo_dir_names by (simp add: names_from_def upt_conv_Cons)
  ultimately show ?thesis
    using ls_prints_names [OF L, of 0 1] std demo_dir_names demo_fds_eval by simp
qed

end
