(* ===== verification/User_Shell.thy ===== *)
theory User_Shell
  imports User_Programs
begin

text \<open>
  The user programs that read the keyboard or search files: \<open>shell\<close>, \<open>counter\<close>, \<open>hello\<close>,
  \<open>grep\<close> and \<open>pingpong\<close>. What a program started by the shell does until it halts is a parameter of
  the shell (\<open>exec\<close>). The two endless loops are given by their body: \<open>shell_command\<close> with the
  loop around it, which \<open>exit\<close> leaves, and one round of \<open>pingpong\<close>, which nothing leaves.
\<close>

unbundle bit_operations_syntax

definition USER_BUFSIZE :: int where "USER_BUFSIZE = 1024"

definition store :: "u32 \<Rightarrow> u8 \<Rightarrow> 'a keyboard_scheme \<Rightarrow> 'a keyboard_scheme" where
  "store a v s = s\<lparr>memory := (memory s)(a := v)\<rparr>"

section \<open>hello\<close>

definition hello :: "'a keyboard_scheme user_env \<Rightarrow> u32 \<Rightarrow> 'a keyboard_scheme \<Rightarrow> (int \<times> 'a keyboard_scheme) option" where
  "hello U buf s =
     do {
       s \<leftarrow> ece391_fdputs U 1 (u_lit U ''Hi, what's your name? '') s;
       (cnt, s) \<leftarrow> ece391_read U 0 0 buf (USER_BUFSIZE - 1) s;
       if cnt = -1 then fail_with U ''Can't read name from keyboard.\<newline>'' 3 s
       else do {
         let s = store (buf + word_of_int cnt) 0 s;
         s \<leftarrow> ece391_fdputs U 1 (u_lit U ''Hello, '') s;
         s \<leftarrow> ece391_fdputs U 1 buf s;
         Some (0, s)
       }
     }"

section \<open>counter\<close>

text \<open>The loop \<open>for (i = 0; i < max; i++)\<close>, with \<open>n\<close> iterations left.\<close>

primrec counter_loop :: "'a keyboard_scheme user_env \<Rightarrow> u32 \<Rightarrow> nat \<Rightarrow> u32 \<Rightarrow> 'a keyboard_scheme \<Rightarrow> 'a keyboard_scheme option" where
  "counter_loop U buf 0 i s = Some s"
| "counter_loop U buf (Suc n) i s =
     do {
       m \<leftarrow> ece391_itoa (memory s) (i + 1) buf 10;
       s \<leftarrow> ece391_fdputs U 1 buf (s\<lparr>memory := m\<rparr>);
       s \<leftarrow> ece391_fdputs U 1 (u_lit U ''\<newline>'') s;
       counter_loop U buf n (i + 1) s
     }"

definition counter_max :: "u8 \<Rightarrow> nat" where
  "counter_max c = (if c = 0x30 then 100 else if c = 0x31 then 10000 else if c = 0x32 then 100000 else 0)"

definition counter :: "'a keyboard_scheme user_env \<Rightarrow> u32 \<Rightarrow> 'a keyboard_scheme \<Rightarrow> (int \<times> 'a keyboard_scheme) option" where
  "counter U buf s =
     do {
       s \<leftarrow> ece391_fdputs U 1 (u_lit U ''Enter the Test Number: (0): 100, (1): 10000, (2): 100000\<newline>'') s;
       (cnt, s) \<leftarrow> ece391_read U 0 0 buf (USER_BUFSIZE - 1) s;
       if cnt = -1 then fail_with U ''Can't read the number from keyboard.\<newline>'' 3 s
       else do {
         let s = store (buf + word_of_int cnt) 0 s;
         len \<leftarrow> ece391_strlen (memory s) buf;
         if len > 2 \<or> len = 2 \<and> (memory s buf < 0x30 \<or> memory s buf > 0x32) then fail_with U ''Wrong Choice!\<newline>'' 0 s
         else do { s \<leftarrow> counter_loop U buf (counter_max (memory s buf)) 0 s; Some (0, s) }
       }
     }"

section \<open>The shell\<close>

text \<open>From the line read to the end of the loop's body: \<open>Inl r\<close> leaves \<open>main\<close> with \<open>r\<close>, \<open>Inr\<close> continues.\<close>

definition shell_command :: "'a keyboard_scheme user_env \<Rightarrow> (u32 \<Rightarrow> 'a keyboard_scheme \<Rightarrow> (int \<times> 'a keyboard_scheme) option) \<Rightarrow> u32 \<Rightarrow> int \<Rightarrow>
    'a keyboard_scheme \<Rightarrow> ((int + unit) \<times> 'a keyboard_scheme) option" where
  "shell_command U exec buf cnt s =
     do {
       let cnt = (if cnt > 0 \<and> memory s (buf + word_of_int (cnt - 1)) = 0x0A then cnt - 1 else cnt);
       let s = store (buf + word_of_int cnt) 0 s;
       c \<leftarrow> ece391_strcmp (memory s) buf (u_lit U ''exit'');
       if c = 0 then Some (Inl 0, s)
       else if memory s buf = 0 then do { s \<leftarrow> ece391_fdputs U 1 (u_lit U ''this is a test\<newline>'') s; Some (Inr (), s) }
       else do {
         (rval, s) \<leftarrow> exec buf s;
         s \<leftarrow> (if rval = -1 then ece391_fdputs U 1 (u_lit U ''no such command\<newline>'') s
               else if rval = 256 then ece391_fdputs U 1 (u_lit U ''program terminated by exception\<newline>'') s
               else if rval \<noteq> 0 then ece391_fdputs U 1 (u_lit U ''program terminated abnormally\<newline>'') s
               else Some s);
         Some (Inr (), s)
       }
     }"

partial_function (option) shell_loop :: "'a keyboard_scheme user_env \<Rightarrow> (u32 \<Rightarrow> 'a keyboard_scheme \<Rightarrow> (int \<times> 'a keyboard_scheme) option) \<Rightarrow> u32 \<Rightarrow> nat \<Rightarrow>
    'a keyboard_scheme \<Rightarrow> (int \<times> 'a keyboard_scheme) option" where
  "shell_loop U exec buf k s =
     do {
       s \<leftarrow> ece391_fdputs U 1 (u_lit U ''391OS> '') s;
       (cnt, s) \<leftarrow> ece391_read U k 0 buf (USER_BUFSIZE - 1) s;
       if cnt = -1 then fail_with U ''read from keyboard failed\<newline>'' 3 s
       else do {
         (r, s) \<leftarrow> shell_command U exec buf cnt s;
         case r of Inl v \<Rightarrow> Some (v, s) | Inr _ \<Rightarrow> shell_loop U exec buf (k + 1) s
       }
     }"

definition shell :: "'a keyboard_scheme user_env \<Rightarrow> (u32 \<Rightarrow> 'a keyboard_scheme \<Rightarrow> (int \<times> 'a keyboard_scheme) option) \<Rightarrow> u32 \<Rightarrow>
    'a keyboard_scheme \<Rightarrow> (int \<times> 'a keyboard_scheme) option" where
  "shell U exec buf s =
     do { s \<leftarrow> ece391_fdputs U 1 (u_lit U ''Starting 391 Shell\<newline>'') s; shell_loop U exec buf 0 s }"

section \<open>grep\<close>

text \<open>\<open>while (line_end < last \<and> '\n' != data[line_end]) line_end++\<close>.\<close>

function grep_line_end :: "mem \<Rightarrow> u32 \<Rightarrow> int \<Rightarrow> int \<Rightarrow> int" where
  "grep_line_end m data filled i = (if i < filled \<and> m (data + word_of_int i) \<noteq> 0x0A then grep_line_end m data filled (i + 1) else i)"
  by pat_completeness auto
termination by (relation "measure (\<lambda>(m, data, filled, i). nat (filled - i))") auto

text \<open>The search of one line for the string at \<open>str\<close>: it is printed once, at the first match. The
  first characters are compared as a \<open>char\<close> and a \<open>uint8_t\<close>, so a search string that starts with a byte above
  127 never matches.\<close>

function grep_line :: "'a keyboard_scheme user_env \<Rightarrow> u32 \<Rightarrow> u32 \<Rightarrow> u32 \<Rightarrow> u32 \<Rightarrow> int \<Rightarrow> int \<Rightarrow> int \<Rightarrow> 'a keyboard_scheme \<Rightarrow> 'a keyboard_scheme option" where
  "grep_line U str fname data s_len line_start line_end check s =
     (if check < line_end
      then if sint (memory s str) = uint (memory s (data + word_of_int check)) \<and> ece391_strncmp (memory s) (data + word_of_int check) str s_len = 0
           then do {
             s \<leftarrow> ece391_fdputs U 1 fname s;
             s \<leftarrow> ece391_fdputs U 1 (u_lit U '':'') s;
             s \<leftarrow> ece391_fdputs U 1 (data + word_of_int line_start) s;
             ece391_fdputs U 1 (u_lit U ''\<newline>'') s
           }
           else grep_line U str fname data s_len line_start line_end (check + 1) s
      else Some s)"
  by pat_completeness auto
termination by (relation "measure (\<lambda>(U, str, fname, data, s_len, line_start, line_end, check, s). nat (line_end - check))") auto

partial_function (option) grep_lines :: "'a keyboard_scheme user_env \<Rightarrow> u32 \<Rightarrow> u32 \<Rightarrow> u32 \<Rightarrow> u32 \<Rightarrow> int \<Rightarrow> int \<Rightarrow> int \<Rightarrow> 'a keyboard_scheme \<Rightarrow>
    (int \<times> 'a keyboard_scheme) option" where
  "grep_lines U str fname data s_len cnt filled line_start s =
     (let line_end = grep_line_end (memory s) data filled line_start;
          s1 = store (data + word_of_int line_end) 0 s
      in if memory s (data + word_of_int line_end) \<noteq> 0x0A \<and> cnt \<noteq> 0 \<and> line_start \<noteq> 0
         then do {
           m \<leftarrow> ece391_strcpy data (data + word_of_int line_start) (memory s1);
           Some (filled - line_start, s1\<lparr>memory := m\<rparr>)
         }
         else do {
           s \<leftarrow> grep_line U str fname data s_len line_start line_end line_start s1;
           if line_end + 1 \<ge> filled then Some (0, s) else grep_lines U str fname data s_len cnt filled (line_end + 1) s
         })"

partial_function (option) grep_file :: "'a keyboard_scheme user_env \<Rightarrow> u32 \<Rightarrow> u32 \<Rightarrow> u32 \<Rightarrow> u32 \<Rightarrow> int \<Rightarrow> nat \<Rightarrow> int \<Rightarrow> 'a keyboard_scheme \<Rightarrow>
    (int \<times> 'a keyboard_scheme) option" where
  "grep_file U str fname data s_len fd k filled s =
     do {
       (cnt, s) \<leftarrow> ece391_read U k fd (data + word_of_int filled) (USER_BUFSIZE - filled) s;
       if cnt = -1 then fail_with U ''file read failed\<newline>'' (-1) s
       else do {
         (filled, s) \<leftarrow> grep_lines U str fname data s_len cnt (filled + cnt) 0 s;
         if cnt = 0
         then do {
           (r, s) \<leftarrow> ece391_close U fd s;
           if r = -1 then fail_with U ''file close failed\<newline>'' (-1) s else Some (0, s)
         }
         else grep_file U str fname data s_len fd (k + 1) filled s
       }
     }"

definition do_one_file :: "'a keyboard_scheme user_env \<Rightarrow> u32 \<Rightarrow> u32 \<Rightarrow> u32 \<Rightarrow> 'a keyboard_scheme \<Rightarrow> (int \<times> 'a keyboard_scheme) option" where
  "do_one_file U data str fname s =
     do {
       s_len \<leftarrow> ece391_strlen (memory s) str;
       (fd, s) \<leftarrow> ece391_open U fname s;
       if fd = -1 then fail_with U ''file open failed\<newline>'' (-1) s else grep_file U str fname data s_len fd 0 0 s
     }"

partial_function (option) grep_loop :: "'a keyboard_scheme user_env \<Rightarrow> u32 \<Rightarrow> u32 \<Rightarrow> u32 \<Rightarrow> int \<Rightarrow> nat \<Rightarrow> 'a keyboard_scheme \<Rightarrow> (int \<times> 'a keyboard_scheme) option" where
  "grep_loop U data buf search fd k s =
     do {
       (cnt, s) \<leftarrow> ece391_read U k fd buf (SBUFSIZE - 1) s;
       if cnt = 0 then Some (0, s)
       else if cnt = -1 then fail_with U ''directory entry read failed\<newline>'' 3 s
       else if memory s buf = 0x2E then grep_loop U data buf search fd (k + 1) s
       else do {
         (r, s) \<leftarrow> do_one_file U data search buf (store (buf + word_of_int cnt) 0 s);
         if r \<noteq> 0 then Some (3, s) else grep_loop U data buf search fd (k + 1) s
       }
     }"

definition grep :: "'a keyboard_scheme user_env \<Rightarrow> u32 \<Rightarrow> u32 \<Rightarrow> u32 \<Rightarrow> 'a keyboard_scheme \<Rightarrow> (int \<times> 'a keyboard_scheme) option" where
  "grep U data buf search s =
     do {
       (r, s) \<leftarrow> ece391_getargs U search USER_BUFSIZE s;
       if r \<noteq> 0 then fail_with U ''could not read argument\<newline>'' 3 s
       else do {
         (fd, s) \<leftarrow> ece391_open U (u_lit U ''.'') s;
         if fd = -1 then fail_with U ''directory open failed\<newline>'' 2 s else grep_loop U data buf search fd 0 s
       }
     }"

section \<open>pingpong\<close>

definition pingpong_frame :: "'a keyboard_scheme user_env \<Rightarrow> int \<Rightarrow> u32 \<Rightarrow> u32 \<Rightarrow> u8 \<Rightarrow> nat \<Rightarrow> nat \<Rightarrow> 'a keyboard_scheme \<Rightarrow> 'a keyboard_scheme option" where
  "pingpong_frame U rtc_fd garbage buf curchar k j s =
     do {
       let s = fold (\<lambda>i. store (buf + of_nat i) 0x20) [2..<78] s;
       let s = store (buf + of_nat j) curchar s;
       s \<leftarrow> ece391_fdputs U 1 buf s;
       (_, s) \<leftarrow> ece391_read U k rtc_fd garbage 4 s;
       Some s
     }"

text \<open>\<open>LOOPMAX\<close> expands to \<open>SCREENWIDTH+ENDING-ENDING-1\<close>, 78; one round moves out and back.\<close>

definition pingpong_round :: "'a keyboard_scheme user_env \<Rightarrow> int \<Rightarrow> u32 \<Rightarrow> u32 \<Rightarrow> nat \<Rightarrow> u8 \<Rightarrow> 'a keyboard_scheme \<Rightarrow> (u8 \<times> 'a keyboard_scheme) option" where
  "pingpong_round U rtc_fd garbage buf k curchar s =
     do {
       s \<leftarrow> fold (\<lambda>(k, j) r. Option.bind r (pingpong_frame U rtc_fd garbage buf curchar k j))
              (zip [k..<k + 152] ([2..<78] @ rev [2..<78])) (Some s);
       Some (if curchar = 0x5A then 0x41 else curchar + 1, s)
     }"

definition pingpong_setup :: "'a keyboard_scheme user_env \<Rightarrow> u32 \<Rightarrow> u32 \<Rightarrow> 'a keyboard_scheme \<Rightarrow> (int \<times> 'a keyboard_scheme) option" where
  "pingpong_setup U ret_val buf s =
     do {
       let s = fold (\<lambda>i. store (buf + of_nat i) 0x20) [0..<81] s;
       let s = store (buf + 80) 0 s;
       let s = store (buf + 79) 0x0A s;
       let s = store (buf + 78) 0x7C s;
       let s = store (buf + 1) 0x7C s;
       (rtc_fd, s) \<leftarrow> ece391_open U (u_lit U ''rtc'') s;
       let s = s\<lparr>memory := write32 (memory s) ret_val 32\<rparr>;
       (r, s) \<leftarrow> ece391_write U rtc_fd ret_val 4 s;
       let s = s\<lparr>memory := write32 (memory s) ret_val (word_of_int r)\<rparr>;
       Some (rtc_fd, s)
     }"

section \<open>Printing from a buffer\<close>

lemma fdputs_buffer:
  fixes s :: "'a keyboard_scheme"
  assumes ok: "user_ok A p w s" and fs: "fdt p s = fs" "length fs = 8" "fop_jump_table (fs ! 1) ! 1 = Terminal_write"
    and buf: "buf \<noteq> 0" "clear_of (call_blocks p w) buf n" and xs: "cstr_at (memory s) buf xs" "length xs \<le> n" "n < 2 ^ 31"
  shows "\<exists>s'. ece391_fdputs U 1 buf s = Some s' \<and> told A p w xs fs s s'"
proof -
  have "\<exists>s'. ece391_fdputs U 1 buf s = Some s' \<and> told (call_blocks p w) p w xs fs s s'"
    using fs buf xs clear_ofD [OF buf(2)] by (intro runs_fdputs [OF call_blocks_ok(1) [OF ok]]) auto
  then show ?thesis using told_mono [OF _ call_blocks_ok(2) [OF ok]] by blast
qed

text \<open>A store of the program into its own buffer.\<close>

lemma told_buffer:
  fixes s :: "'a keyboard_scheme"
  assumes "user_ok A p w s" "buffer_block A w buf l" "length xs \<le> l" "l \<le> 2 ^ 32"
  shows "told A p w [] (fdt p s) s (s\<lparr>memory := write_bytes (memory s) buf xs\<rparr>)"
proof (rule told_written [where B = "[(buf, l)]"])
  show "cursor_ok w s" using assms(1) by (simp add: user_ok_def)
  show "write_bytes (memory s) buf xs x = memory s x" if "outside [(buf, l)] x" for x
    using that assms(3,4) by (intro write_bytes_outside) (auto simp: outside_def in_region_def)
  show "outside [(buf, l)] x" if "outside A x" for x using outside_block [OF assms(2) that, of l] by (simp add: outside_def)
  show "list_all (\<lambda>(b, n). disjoint_regions b n (page w) 4000) [(buf, l)]" using assms(2) by (simp add: buffer_block_def)
qed

lemma told_store:
  fixes s :: "'a keyboard_scheme"
  assumes "user_ok A p w s" "buffer_block A w buf l" "in_region a buf l"
  shows "told A p w [] (fdt p s) s (store a v s)"
  unfolding store_def
proof (rule told_written [where B = "[(buf, l)]"])
  show "cursor_ok w s" using assms(1) by (simp add: user_ok_def)
  show "((memory s)(a := v)) x = memory s x" if "outside [(buf, l)] x" for x using that assms(3) by (auto simp: outside_def)
  show "outside [(buf, l)] x" if "outside A x" for x using outside_block [OF assms(2) that, of l] by (simp add: outside_def)
  show "list_all (\<lambda>(b, n). disjoint_regions b n (page w) 4000) [(buf, l)]" using assms(2) by (simp add: buffer_block_def)
qed

section \<open>What counter prints\<close>

definition count_lines :: "nat \<Rightarrow> nat \<Rightarrow> u8 list" where
  "count_lines i n = concat (map (\<lambda>k. numeral_string 10 k @ [0x0A]) [Suc i..<Suc i + n])"

lemma count_lines_Suc: "count_lines i (Suc n) = numeral_string 10 (Suc i) @ [0x0A] @ count_lines (Suc i) n"
  by (simp add: count_lines_def upt_rec [of "Suc i"] del: upt_Suc)

lemma counter_loop_prints:
  fixes s :: "'a keyboard_scheme"
  assumes "user_ok A p w s" "fdt p s = fs" "length fs = 8" "fop_jump_table (fs ! 1) ! 1 = Terminal_write"
    and "buffer_block A w buf 1024" "clear_of (call_blocks p w) buf 1024" "literal A U s ''\<newline>''" "unat i + n < 2 ^ 32"
  shows "\<exists>s'. counter_loop U buf n i s = Some s' \<and> told A p w (count_lines (unat i) n) fs s s'"
  using assms
proof (induction n arbitrary: i s)
  case 0
  then show ?case using told_refl [of w s A p] by (auto simp: count_lines_def user_ok_def)
next
  case (Suc n)
  let ?v = "numeral_string 10 (Suc (unat i))" and ?s1 = "s\<lparr>memory := write_bytes (memory s) buf (numeral_string 10 (Suc (unat i)) @ [0])\<rparr>"
  have ui: "unat (i + 1) = Suc (unat i)" using Suc.prems(8) unat_of_nat_u32 [of "Suc (unat i)"] by (simp add: add.commute)
  have it: "ece391_itoa (memory s) (i + 1) buf 10 = Some (memory ?s1)"
    using itoa_eq [of 10 "memory s" "i + 1" buf] by (simp add: ece391_itoa_eq ui)
  have len: "length ?v \<le> 32" "0 \<notin> set ?v" using length_numeral_string [of 10 "Suc (unat i)"] numeral_string_nonzero [of 10] Suc.prems(8) by auto
  have t1: "told A p w [] fs s ?s1" using told_buffer [OF Suc.prems(1,5), of "?v @ [0]"] len Suc.prems(2) by simp
  have "cstr_at (memory ?s1) buf ?v" using len cstr_at_written [of ?v "memory s" buf] by simp
  then obtain s2 where s2: "ece391_fdputs U 1 buf ?s1 = Some s2" "told A p w ?v fs ?s1 s2"
    using fdputs_buffer [OF told_ok [OF Suc.prems(1) t1] told_fdt [OF t1] Suc.prems(3,4) _ Suc.prems(6), of ?v U] Suc.prems(5) len
    by (auto simp: buffer_block_def)
  note t2 = told_trans [OF t1 s2(2)]
  obtain s3 where s3: "ece391_fdputs U 1 (u_lit U ''\<newline>'') s2 = Some s3" "told A p w (ascii ''\<newline>'') fs s2 s3"
    using fdputs_literal [OF told_ok [OF Suc.prems(1) t2] told_fdt [OF t2] Suc.prems(3,4) told_literal [OF t2 Suc.prems(7)]] by blast
  note t3 = told_trans [OF t2 s3(2)]
  obtain s' where "counter_loop U buf n (i + 1) s3 = Some s'" "told A p w (count_lines (Suc (unat i)) n) fs s3 s'"
    using Suc.IH [OF told_ok [OF Suc.prems(1) t3] told_fdt [OF t3] Suc.prems(3-6) told_literal [OF t3 Suc.prems(7)], of "i + 1"] Suc.prems(8)
    by (auto simp: ui)
  then show ?case using it s2(1) s3(1) told_trans [OF t3, of "count_lines (Suc (unat i)) n"] by (simp add: count_lines_Suc ascii_def)
qed

section \<open>What the shell does with a line\<close>

text \<open>The message for the result of a program.\<close>

definition shell_report :: "int \<Rightarrow> string" where
  "shell_report r = (if r = -1 then ''no such command\<newline>'' else if r = 256 then ''program terminated by exception\<newline>''
     else if r \<noteq> 0 then ''program terminated abnormally\<newline>'' else [])"

text \<open>The line as \<open>read\<close> leaves it in the buffer: padded with NULs, with a newline in the last of the 128 bytes.\<close>

definition line_in :: "u32 \<Rightarrow> u8 list \<Rightarrow> 'a keyboard_scheme \<Rightarrow> bool" where
  "line_in buf xs s \<longleftrightarrow> 0 \<notin> set xs \<and> length xs \<le> 126 \<and> read_bytes (memory s) buf 128 = xs @ replicate (127 - length xs) 0 @ [0x0A]"

lemma line_in_end: "line_in buf xs s \<Longrightarrow> memory s (buf + 127) = 0x0A"
proof -
  assume l: "line_in buf xs s"
  then have "read_bytes (memory s) buf 128 ! 127 = 0x0A" by (simp add: line_in_def nth_append)
  then show ?thesis by simp
qed

text \<open>The command, once the newline is removed and the comparison made.\<close>

lemma shell_command_eq:
  fixes s :: "'a keyboard_scheme"
  assumes "memory s (buf + 127) = 0x0A" "ece391_strcmp (memory (store (buf + 127) 0 s)) buf (u_lit U ''exit'') = Some c"
  shows "shell_command U exec buf 128 s =
    (let s1 = store (buf + 127) 0 s
     in if c = 0 then Some (Inl 0, s1)
        else if memory s1 buf = 0 then do { s \<leftarrow> ece391_fdputs U 1 (u_lit U ''this is a test\<newline>'') s1; Some (Inr (), s) }
        else do {
          (r, s) \<leftarrow> exec buf s1;
          s \<leftarrow> (if shell_report r = [] then Some s else ece391_fdputs U 1 (u_lit U (shell_report r)) s);
          Some (Inr (), s) })"
proof -
  have rep: "(if r = -1 then ece391_fdputs U 1 (u_lit U ''no such command\<newline>'') s
       else if r = 256 then ece391_fdputs U 1 (u_lit U ''program terminated by exception\<newline>'') s
       else if r \<noteq> 0 then ece391_fdputs U 1 (u_lit U ''program terminated abnormally\<newline>'') s else Some s) =
      (if shell_report r = [] then Some s else ece391_fdputs U 1 (u_lit U (shell_report r)) s)" for r and s :: "'a keyboard_scheme"
    by (simp add: shell_report_def)
  show ?thesis using assms unfolding shell_command_def rep by (simp add: Let_def cong: if_cong)
qed

lemma line_in_cstr:
  assumes "line_in buf xs s"
  shows "cstr_at (memory (store (buf + 127) 0 s)) buf xs"
proof (rule cstr_atI)
  have at: "memory s (buf + of_nat i) = (xs @ replicate (127 - length xs) 0 @ [0x0A]) ! i" if "i < 128" for i
    using assms that by (metis line_in_def nth_read_bytes)
  have ne: "buf + of_nat i \<noteq> buf + 127" if "i < 127" for i :: nat
  proof
    assume "buf + of_nat i = buf + 127"
    then have "unat (of_nat i :: u32) = unat (127 :: u32)" by simp
    then show False using that by (simp add: unat_of_nat_u32)
  qed
  show "0 \<notin> set xs" "length xs < 2 ^ 32" using assms by (auto simp: line_in_def)
  show "memory (store (buf + 127) 0 s) (buf + of_nat i) = xs ! i" if "i < length xs" for i
    using that at [of i] ne [of i] assms by (simp add: store_def line_in_def nth_append)
  show "memory (store (buf + 127) 0 s) (buf + of_nat (length xs)) = 0"
    using at [of "length xs"] ne [of "length xs"] assms by (simp add: store_def line_in_def nth_append)
qed

lemma ascii_Nil: "ascii [] = []"
  by (simp add: ascii_def)

section \<open>A pool of string literals\<close>

definition pool :: "string list \<Rightarrow> u8 list" where
  "pool ts = concat (map (\<lambda>t. ascii t @ [0]) ts)"

definition pool_at :: "u32 \<Rightarrow> string list \<Rightarrow> string \<Rightarrow> u32" where
  "pool_at base ts t = base + of_nat (length (pool (takeWhile (\<lambda>u. u \<noteq> t) ts)))"

lemma read_mem_of: "length xs < 2 ^ 32 \<Longrightarrow> read_bytes (mem_of ((a, xs) # segs)) a (length xs) = xs"
  by (rule nth_equalityI) (simp_all add: mem_of_Cons word_less_nat_alt unat_of_nat_u32)

lemma pool_literal:
  fixes s :: "'a keyboard_scheme"
  assumes t: "t \<in> set ts" "0 \<notin> set (ascii t)" and mem: "read_bytes (memory s) base (length (pool ts)) = pool ts"
    and A: "clear_of A base (length (pool ts))" and len: "base \<noteq> 0" "unat base + length (pool ts) < 2 ^ 32" "length (pool ts) < 2 ^ 31"
    and U: "u_lit U t = pool_at base ts t"
  shows "literal A U s t"
proof -
  obtain us vs where ts: "ts = us @ t # vs" "t \<notin> set us" using split_list_first [OF t(1)] by blast
  let ?n = "length (pool us)"
  have "takeWhile (\<lambda>u. u \<noteq> t) ts = us" unfolding ts(1) using ts(2) by (subst takeWhile_append2) auto
  then have at: "u_lit U t = base + of_nat ?n" using U by (simp add: pool_at_def)
  have P: "pool ts = pool us @ ascii t @ 0 # pool vs" by (simp add: ts(1) pool_def)
  have byte: "memory s (base + of_nat ?n + of_nat j) = (ascii t @ [0]) ! j" if "j \<le> length t" for j
  proof -
    have "pool ts ! (?n + j) = (ascii t @ [0]) ! j" using that by (simp add: P nth_append)
    moreover have "?n + j < length (pool ts)" using that by (simp add: P)
    then have "memory s (base + of_nat (?n + j)) = pool ts ! (?n + j)" using mem by (metis nth_read_bytes)
    ultimately show ?thesis by (simp add: add.assoc)
  qed
  have "cstr_at (memory s) (u_lit U t) (ascii t)"
    unfolding at using byte t(2) len by (intro cstr_atI) (auto simp: nth_append P)
  moreover have "clear_of A (u_lit U t) (Suc (length t))"
    unfolding clear_of_def at using clear_ofD [OF A, of "?n + j" for j] by (auto simp: P add.assoc)
  moreover have "unat (u_lit U t) = unat base + ?n" unfolding at using len by (simp add: P unat_word_ariths unat_of_nat_u32)
  then have "u_lit U t \<noteq> 0" using len(1) by (metis add_is_0 unat_0 unat_eq_zero)
  ultimately show ?thesis using len by (simp add: literal_def P)
qed

definition pool_env :: "u32 \<Rightarrow> string list \<Rightarrow> keyboard user_env" where
  "pool_env base ts = \<lparr>u_locals = demo_locals, u_lit = pool_at base ts, u_handlers = (\<lambda>_. [])\<rparr>"

lemma demo_pool_literal:
  assumes "t \<in> set ts" "0 \<notin> set (ascii t)" "length (pool ts) < 0x10000" "clear_of A 0x8049000 (length (pool ts))"
  shows "literal A (pool_env 0x8049000 ts) (demo_user ((0x8049000, pool ts) # segs)) t"
  using assms read_mem_of [of "pool ts" "0x8049000" "segs @ demo_image"]
  by (intro pool_literal [where base = "0x8049000"]) (simp_all add: pool_env_def)

section \<open>Properties\<close>

text \<open>
  \<open>counter\<close> counts. Its loop prints the decimal numerals of 1 to the maximum, each on its own
  line, on the program's terminal.
\<close>

theorem counter_counts:
  fixes s :: "'a keyboard_scheme"
  assumes "user_ok A p w s" "length (fdt p s) = 8" "fop_jump_table (fdt p s ! 1) = std_table ! 1"
    and "buffer_block A w buf 1024" "clear_of (call_blocks p w) buf 1024" "literal A U s ''\<newline>''" "n < 2 ^ 32"
  shows "\<exists>s'. counter_loop U buf n 0 s = Some s' \<and>
    screen_of w s' = fold put_char (concat (map (\<lambda>k. numeral_string 10 k @ [0x0A]) [1..<Suc n])) (screen_of w s)"
  using counter_loop_prints [OF assms(1) refl assms(2) _ assms(4-6), of 0 n] assms(3,7)
  by (auto simp: std_table_def count_lines_def told_def)


text \<open>The blocks of the concrete program: those of every call and its buffer.\<close>

definition demo_blocks :: "(u32 \<times> nat) list" where
  "demo_blocks = call_blocks 0 0 @ [(0x8048800, 1024)]"

lemma demo_blocks_ok:
  "user_ok demo_blocks 0 0 (demo_user segs)" "buffer_block demo_blocks 0 0x8048800 1024" "clear_of (call_blocks 0 0) 0x8048800 1024"
  "n < 0x10000 \<Longrightarrow> clear_of demo_blocks 0x8049000 n"
proof -
  show "user_ok demo_blocks 0 0 (demo_user segs)" by (rule user_ok_mono [OF demo_user_ok]) (auto simp: demo_blocks_def)
  show "buffer_block demo_blocks 0 0x8048800 1024"
    by (simp add: buffer_block_def demo_blocks_def disjoint_regions_def page_def vidmem_pages_def VID1_def)
  show "clear_of (call_blocks 0 0) 0x8048800 1024"
    by (rule clear_ofI) (simp_all add: call_blocks_def disjoint_regions_def page_def vidmem_pages_def VID1_def pcb_of_def proc_consts)
  show "clear_of demo_blocks 0x8049000 n" if "n < 0x10000"
    by (rule clear_ofI) (use that in \<open>simp_all add: demo_blocks_def call_blocks_def disjoint_regions_def page_def vidmem_pages_def VID1_def pcb_of_def proc_consts\<close>)
qed

lemma demo_std: "fop_jump_table (demo_fds ! 1) = std_table ! 1" "fd_flags (demo_fds ! 1) \<noteq> 0"
  by (simp_all add: demo_fds_def initial_fds_def upt_rec MAX_OPEN_FILES_def STD_FILES_def)

theorem counter_counts_witness:
  "\<exists>s'. counter_loop (pool_env 0x8049000 [''\<newline>'']) 0x8048800 2 0 (demo_user [(0x8049000, pool [''\<newline>''])]) = Some s' \<and>
     screen_of 0 s' = fold put_char [0x31, 0x0A, 0x32, 0x0A] (screen_of 0 (demo_user [(0x8049000, pool [''\<newline>''])]))"
proof -
  have "length (pool [''\<newline>'']) < 0x10000" by (simp add: pool_def ascii_def)
  then have "literal demo_blocks (pool_env 0x8049000 [''\<newline>'']) (demo_user [(0x8049000, pool [''\<newline>''])]) ''\<newline>''"
    by (intro demo_pool_literal demo_blocks_ok) (simp_all add: ascii_def)
  moreover have "concat (map (\<lambda>k. numeral_string 10 k @ [0x0A]) [1..<Suc 2]) = [0x31, 0x0A, 0x32, 0x0A :: u8]"
    by (simp add: numeral_string_def lsd_digits.simps itoa_lookup_def upt_rec)
  ultimately show ?thesis
    using counter_counts [OF demo_blocks_ok(1) _ _ demo_blocks_ok(2,3), of _ "pool_env 0x8049000 [''\<newline>'']" 2] demo_std demo_fds_eval by simp
qed

definition shell_pool :: "string list" where
  "shell_pool = [''exit'', ''this is a test\<newline>'', ''no such command\<newline>'', ''program terminated by exception\<newline>'',
     ''program terminated abnormally\<newline>'']"


end
