(* ===== verification/Syserr.thy ===== *)
theory Syserr
  imports User_Shell
begin

text \<open>
  The program \<open>syserr\<close> (\<open>src/syscalls/ece391syserr.c\<close>): eight tests of the error behaviour of the
  system calls. Each test prints its name with PASS or FAIL and returns 0 or 2. The library
  below shows what each call of the tests returns and what it leaves in the descriptor table; the
  properties are that the tests pass.
\<close>

unbundle bit_operations_syntax

section \<open>The program\<close>

definition NEG_FD :: int where "NEG_FD = -1073741823"
definition BIG_FD :: int where "BIG_FD = 1073741823"
definition BIG_NUM :: int where "BIG_NUM = 1073741823"
definition NEG_NUM :: int where "NEG_NUM = -1073741823"

lemmas syserr_consts = NEG_FD_def BIG_FD_def BIG_NUM_def NEG_NUM_def

text \<open>
  \<open>call_sys\<close> sets only \<open>eax\<close>; the other argument registers hold whatever the compiler left
  there, the parameter \<open>regs\<close>.
\<close>

definition call_sys :: "'a keyboard_scheme user_env \<Rightarrow> u32 \<times> u32 \<times> u32 \<Rightarrow> int \<Rightarrow> 'a keyboard_scheme \<Rightarrow> (int \<times> 'a keyboard_scheme) option" where
  "call_sys U regs num s = (case regs of (ebx, ecx, edx) \<Rightarrow> do_call (u_locals U) [] (word_of_int num) ebx ecx edx s)"

text \<open>\<open>if (bad) { fail = 2; ece391_fdputs(1, msg); }\<close> and the printing of the verdict.\<close>

definition complain :: "'a keyboard_scheme user_env \<Rightarrow> bool \<Rightarrow> string \<Rightarrow> int \<Rightarrow> 'a keyboard_scheme \<Rightarrow> (int \<times> 'a keyboard_scheme) option" where
  "complain U bad msg fail s = (if bad then fail_with U msg 2 s else Some (fail, s))"

definition verdict :: "'a keyboard_scheme user_env \<Rightarrow> string \<Rightarrow> int \<Rightarrow> 'a keyboard_scheme \<Rightarrow> (int \<times> 'a keyboard_scheme) option" where
  "verdict U name fail s = fail_with U (name @ (if fail \<noteq> 0 then '': FAIL\<newline>'' else '': PASS\<newline>'')) fail s"

definition err_fd :: "'a keyboard_scheme user_env \<Rightarrow> string \<Rightarrow> int \<Rightarrow> u32 \<Rightarrow> 'a keyboard_scheme \<Rightarrow> (int \<times> 'a keyboard_scheme) option" where
  "err_fd U name fd buf s =
     do {
       (r, s) \<leftarrow> ece391_read U 0 fd buf 31 s;
       (fail, s) \<leftarrow> complain U (r \<noteq> -1) ''read fail\<newline>'' 0 s;
       (r, s) \<leftarrow> ece391_write U fd buf 31 s;
       (fail, s) \<leftarrow> complain U (r \<noteq> -1) ''write fail\<newline>'' fail s;
       (r, s) \<leftarrow> ece391_close U fd s;
       (fail, s) \<leftarrow> complain U (r \<noteq> -1) ''close fail\<newline>'' fail s;
       verdict U name fail s
     }"

definition err_neg_fd :: "'a keyboard_scheme user_env \<Rightarrow> u32 \<Rightarrow> 'a keyboard_scheme \<Rightarrow> (int \<times> 'a keyboard_scheme) option" where
  "err_neg_fd U buf s = err_fd U ''err_neg_fd'' NEG_FD buf s"

definition err_big_fd :: "'a keyboard_scheme user_env \<Rightarrow> u32 \<Rightarrow> 'a keyboard_scheme \<Rightarrow> (int \<times> 'a keyboard_scheme) option" where
  "err_big_fd U buf s = err_fd U ''err_big_fd'' BIG_FD buf s"

primrec open_lots :: "'a keyboard_scheme user_env \<Rightarrow> nat \<Rightarrow> int \<Rightarrow> 'a keyboard_scheme \<Rightarrow> (int \<times> 'a keyboard_scheme) option" where
  "open_lots U 0 cnt s = Some (cnt, s)"
| "open_lots U (Suc n) cnt s =
     do { (r, s) \<leftarrow> ece391_open U (u_lit U ''.'') s; open_lots U n (if r = -1 then cnt + 1 else cnt) s }"

primrec close_all :: "'a keyboard_scheme user_env \<Rightarrow> int list \<Rightarrow> 'a keyboard_scheme \<Rightarrow> 'a keyboard_scheme option" where
  "close_all U [] s = Some s"
| "close_all U (i # is) s = do { (_, s) \<leftarrow> ece391_close U i s; close_all U is s }"

definition err_open_lots :: "'a keyboard_scheme user_env \<Rightarrow> 'a keyboard_scheme \<Rightarrow> (int \<times> 'a keyboard_scheme) option" where
  "err_open_lots U s =
     do {
       (cnt, s) \<leftarrow> open_lots U 7 0 s;
       s \<leftarrow> close_all U [2, 3, 4, 5, 6, 7] s;
       if cnt = 1 then fail_with U ''err_open_lots: PASS\<newline>'' 0 s else fail_with U ''err_open_lots: FAIL\<newline>'' 2 s
     }"

definition err_open :: "'a keyboard_scheme user_env \<Rightarrow> 'a keyboard_scheme \<Rightarrow> (int \<times> 'a keyboard_scheme) option" where
  "err_open U s =
     do {
       (r, s) \<leftarrow> ece391_open U (u_lit U ''helloo'') s;
       (fail, s) \<leftarrow> complain U (r \<noteq> -1) '''helloo' fail\<newline>'' 0 s;
       (r, s) \<leftarrow> ece391_open U (u_lit U ''shel'') s;
       (fail, s) \<leftarrow> complain U (r \<noteq> -1) '''shel' fail\<newline>'' fail s;
       (r, s) \<leftarrow> ece391_open U (u_lit U []) s;
       (fail, s) \<leftarrow> complain U (r \<noteq> -1) ''empty string fail\<newline>'' fail s;
       verdict U ''err_open'' fail s
     }"

text \<open>A loop over descriptors that complains about every call that does not fail.\<close>

primrec each_fails :: "'a keyboard_scheme user_env \<Rightarrow> (int \<Rightarrow> 'a keyboard_scheme \<Rightarrow> (int \<times> 'a keyboard_scheme) option) \<Rightarrow> string \<Rightarrow> int list \<Rightarrow> int \<Rightarrow>
    'a keyboard_scheme \<Rightarrow> (int \<times> 'a keyboard_scheme) option" where
  "each_fails U call msg [] fail s = Some (fail, s)"
| "each_fails U call msg (i # is) fail s =
     do {
       (r, s) \<leftarrow> call i s;
       (fail, s) \<leftarrow> complain U (r \<noteq> -1) msg fail s;
       each_fails U call msg is fail s
     }"

definition err_unopened :: "'a keyboard_scheme user_env \<Rightarrow> u32 \<Rightarrow> 'a keyboard_scheme \<Rightarrow> (int \<times> 'a keyboard_scheme) option" where
  "err_unopened U buf s =
     do {
       (fail, s) \<leftarrow> each_fails U (ece391_close U) ''close unopened or invalid fd fail\<newline>'' [0, 1, 2, 3, 4, 5, 6, 7] 0 s;
       (fail, s) \<leftarrow> each_fails U (\<lambda>i. ece391_read U 0 i buf 31) ''read from unopened fd fail\<newline>'' [2, 3, 4, 5, 6, 7] fail s;
       (fail, s) \<leftarrow> each_fails U (\<lambda>i. ece391_write U i buf 31) ''write to unopened fd fail\<newline>'' [2, 3, 4, 5, 6, 7] fail s;
       verdict U ''err_unopened'' fail s
     }"

definition err_vidmap :: "'a keyboard_scheme user_env \<Rightarrow> 'a keyboard_scheme \<Rightarrow> (int \<times> 'a keyboard_scheme) option" where
  "err_vidmap U s =
     do {
       (r, s) \<leftarrow> ece391_vidmap U 0 s;
       (fail, s) \<leftarrow> complain U (r \<noteq> -1) ''Null pointer fail\<newline>'' 0 s;
       (r, s) \<leftarrow> ece391_vidmap U 0x400000 s;
       (fail, s) \<leftarrow> complain U (r \<noteq> -1) ''Kernel pointer fail fail\<newline>'' fail s;
       verdict U ''err_vidmap'' fail s
     }"

definition err_stdin_out :: "'a keyboard_scheme user_env \<Rightarrow> u32 \<Rightarrow> 'a keyboard_scheme \<Rightarrow> (int \<times> 'a keyboard_scheme) option" where
  "err_stdin_out U buf s =
     do {
       (r, s) \<leftarrow> ece391_write U 0 buf 31 s;
       (fail, s) \<leftarrow> complain U (r \<noteq> -1) ''write to stdin fail\<newline>'' 0 s;
       (r, s) \<leftarrow> ece391_read U 0 1 buf 31 s;
       (fail, s) \<leftarrow> complain U (r \<noteq> -1) ''read from stdout fail\<newline>'' fail s;
       verdict U ''err_stdin_out'' fail s
     }"

definition err_syscall_num :: "'a keyboard_scheme user_env \<Rightarrow> u32 \<times> u32 \<times> u32 \<Rightarrow> 'a keyboard_scheme \<Rightarrow> (int \<times> 'a keyboard_scheme) option" where
  "err_syscall_num U regs s =
     do {
       (r, s) \<leftarrow> call_sys U regs BIG_NUM s;
       (fail, s) \<leftarrow> complain U (r \<noteq> -1) ''syscall 0 fail\<newline>'' 0 s;
       (r, s) \<leftarrow> call_sys U regs NEG_NUM s;
       (fail, s) \<leftarrow> complain U (r \<noteq> -1) ''big num syscall fail\<newline>'' fail s;
       (r, s) \<leftarrow> call_sys U regs 0 s;
       (fail, s) \<leftarrow> complain U (r \<noteq> -1) ''neg num syscall fail\<newline>'' fail s;
       verdict U ''err_syscall_num'' fail s
     }"

text \<open>\<open>case 0\<close> of \<open>main\<close>: all tests in order, their results added up.\<close>

definition run_all :: "'a keyboard_scheme user_env \<Rightarrow> u32 \<times> u32 \<times> u32 \<Rightarrow> u32 \<Rightarrow> 'a keyboard_scheme \<Rightarrow> (int \<times> 'a keyboard_scheme) option" where
  "run_all U regs buf s =
     do {
       (f1, s) \<leftarrow> err_neg_fd U buf s;
       (f2, s) \<leftarrow> err_big_fd U buf s;
       (f3, s) \<leftarrow> err_open_lots U s;
       (f4, s) \<leftarrow> err_open U s;
       (f5, s) \<leftarrow> err_unopened U buf s;
       (f6, s) \<leftarrow> err_vidmap U s;
       (f7, s) \<leftarrow> err_stdin_out U buf s;
       (f8, s) \<leftarrow> err_syscall_num U regs s;
       let fail = 0 + f1 + f2 + f3 + f4 + f5 + f6 + f7 + f8;
       if fail \<noteq> 0 then fail_with U ''\<newline>Overall Tests: FAIL\<newline>'' fail s else fail_with U ''\<newline>Overall Tests: PASS\<newline>'' fail s
     }"

text \<open>
  \<open>main\<close>: the number typed selects the test. The local arrays of the tests are all at \<open>buf\<close>, the
  line read at \<open>line\<close>. The difference \<open>buf[0] - '0'\<close> is taken in \<open>int\<close>.
\<close>

definition syserr :: "'a keyboard_scheme user_env \<Rightarrow> u32 \<times> u32 \<times> u32 \<Rightarrow> u32 \<Rightarrow> u32 \<Rightarrow> 'a keyboard_scheme \<Rightarrow> (int \<times> 'a keyboard_scheme) option" where
  "syserr U regs line buf s =
     do {
       s \<leftarrow> ece391_fdputs U 1 (u_lit U ''Choose from tests 1-8. 0 to run all: '') s;
       (cnt, s) \<leftarrow> ece391_read U 0 0 line 127 s;
       if cnt = -1 then fail_with U ''Can't read test #\<newline>'' 2 s
       else let select = uint (memory s line) - 48
            in if select = 0 then run_all U regs buf s
               else if select = 1 then err_neg_fd U buf s
               else if select = 2 then err_big_fd U buf s
               else if select = 3 then err_open_lots U s
               else if select = 4 then err_open U s
               else if select = 5 then err_unopened U buf s
               else if select = 6 then err_vidmap U s
               else if select = 7 then err_stdin_out U buf s
               else if select = 8 then err_syscall_num U regs s
               else fail_with U ''Invalid test number. Choose from tests 1-8 or 0'' 0 s
     }"

section \<open>The surroundings of the tests\<close>

definition pass_texts :: "string list" where
  "pass_texts = [''err_neg_fd: PASS\<newline>'', ''err_big_fd: PASS\<newline>'', ''err_open_lots: PASS\<newline>'', ''err_open: PASS\<newline>'', ''err_unopened: PASS\<newline>'',
     ''err_vidmap: PASS\<newline>'', ''err_stdin_out: PASS\<newline>'', ''err_syscall_num: PASS\<newline>'', ''\<newline>Overall Tests: PASS\<newline>'']"

definition test_texts :: "string list" where
  "test_texts = [''.'', ''helloo'', ''shel'', []] @ pass_texts"

text \<open>
  The state a test runs in: the literals are in place, slot 0 of the directory is \<open>.\<close>, and the
  two wrong names of \<open>err_open\<close> are in no slot.
\<close>

definition test_setting :: "(u32 \<times> nat) list \<Rightarrow> int \<Rightarrow> u32 \<Rightarrow> 'a keyboard_scheme user_env \<Rightarrow> u32 \<Rightarrow> 'a keyboard_scheme \<Rightarrow> bool" where
  "test_setting A p w U buf s \<longleftrightarrow> user_ok A p w s \<and> (\<forall>t \<in> set test_texts. literal A U s t) \<and> open_blocks A w (u_locals U) \<and>
     buffer_block A w buf 32 \<and> disjoint_regions buf 32 (l_sub (u_locals U)) 64 \<and> clear_of A (boot_block s) 4096 \<and>
     file_name (memory s) (boot_block s) 0 = ascii ''.'' \<and> dentry_file_type (memory s) (dentry_at (boot_block s) 0) = 1 \<and>
     find_file (memory s) (boot_block s) (ascii ''helloo'') = None \<and> find_file (memory s) (boot_block s) (ascii ''shel'') = None"

lemma test_setting_told: "test_setting A p w U buf s \<Longrightarrow> told A p w out fs s s' \<Longrightarrow> test_setting A p w U buf s'"
proof -
  assume S: "test_setting A p w U buf s" and t: "told A p w out fs s s'"
  have bb: "boot_block s' = boot_block s" using t by (simp add: told_def)
  have img: "same_image (memory s) (memory s') (boot_block s) 4096" using told_clear(3) [OF t] S by (simp add: test_setting_def)
  show "test_setting A p w U buf s'"
    using S told_ok [OF _ t] told_literal [OF t] file_name_image [OF img, of 0] dentry_fields_image(1) [OF img, of 0] find_file_image [OF img]
    by (simp add: test_setting_def bb)
qed

text \<open>Descriptor tables: with the standard descriptors in place; and, beyond, with the other six unused.\<close>

definition std_fds :: "fd_t list \<Rightarrow> bool" where
  "std_fds fs \<longleftrightarrow> length fs = 8 \<and> fop_jump_table (fs ! 0) = std_table ! 0 \<and> fop_jump_table (fs ! 1) = std_table ! 1"

definition unused_fd :: "fd_t \<Rightarrow> bool" where
  "unused_fd f \<longleftrightarrow> fd_flags f = 0 \<and> (fop_jump_table f = nofunc_table \<or> fop_jump_table f = file_table ! 1 \<and> file_position f = 0)"

definition idle_fds :: "fd_t list \<Rightarrow> bool" where
  "idle_fds fs \<longleftrightarrow> std_fds fs \<and> fd_inode (fs ! 0) = 0 \<and> fd_inode (fs ! 1) = 0 \<and> (\<forall>k. 2 \<le> k \<longrightarrow> k < 8 \<longrightarrow> unused_fd (fs ! k))"

lemma std_write: "std_fds fs \<Longrightarrow> fop_jump_table (fs ! 1) ! 1 = Terminal_write"
  by (simp add: std_fds_def std_table_def)

section \<open>Composing a test\<close>

text \<open>One checked call: it fails as the test expects, so nothing is printed.\<close>

lemma check_call:
  assumes S: "test_setting A p w U buf s" and call: "runs A p w (-1) [] fs s c"
    and rest: "\<And>s'. test_setting A p w U buf s' \<Longrightarrow> fdt p s' = fs \<Longrightarrow> runs A p w v out fs' s' (g (fail, s'))"
  shows "runs A p w v out fs' s (Option.bind c (\<lambda>(r, s). Option.bind (complain U (r \<noteq> -1) msg fail s) g))"
proof -
  have ok: "user_ok A p w s" using S by (simp add: test_setting_def)
  show ?thesis
  proof (rule runs_silent [OF ok call])
    fix s' assume t: "told A p w [] fs s s'"
    show "runs A p w v out fs' s' (case (-1, s') of (r, s) \<Rightarrow> Option.bind (complain U (r \<noteq> -1) msg fail s) g)"
      using rest [OF test_setting_told [OF S t] told_fdt [OF t]] by (simp add: complain_def)
  qed
qed

lemma print_text:
  assumes "test_setting A p w U buf s" "fdt p s = fs" "std_fds fs" "t \<in> set test_texts"
  shows "runs A p w r (ascii t) fs s (fail_with U t r s)"
  using assms std_write [OF assms(3)] by (intro runs_fail_with) (auto simp: test_setting_def std_fds_def)

lemma verdict_pass:
  assumes "test_setting A p w U buf s" "fdt p s = fs" "std_fds fs" "name @ '': PASS\<newline>'' \<in> set pass_texts"
  shows "runs A p w 0 (ascii (name @ '': PASS\<newline>'')) fs s (verdict U name 0 s)"
  using print_text [OF assms(1-3), of "name @ '': PASS\<newline>''" 0] assms(4) by (simp add: verdict_def test_texts_def)

section \<open>The tests that leave the descriptors alone\<close>

lemma test_ok: "test_setting A p w U buf s \<Longrightarrow> user_ok A p w s"
  by (simp add: test_setting_def)

lemma err_fd_pass:
  fixes s :: "'a keyboard_scheme"
  assumes S: "test_setting A p w U buf s" and fs: "fdt p s = fs" "std_fds fs" and fd: "- (2 ^ 31) \<le> fd" "fd < 2 ^ 31" "fd < 0 \<or> 8 \<le> fd"
    and name: "name @ '': PASS\<newline>'' \<in> set pass_texts"
  shows "runs A p w 0 (ascii (name @ '': PASS\<newline>'')) fs s (err_fd U name fd buf s)"
  unfolding err_fd_def
  by (rule check_call [OF S runs_bad_fd(1) [OF test_ok [OF S] fs(1) fd]], simp only: prod.case,
      rule check_call [OF _ runs_bad_fd(2) [OF test_ok _ fd]], assumption+, simp only: prod.case,
      rule check_call [OF _ runs_bad_fd(3) [OF test_ok _ fd]], assumption+, simp only: prod.case,
      rule verdict_pass [OF _ _ fs(2) name])

lemma err_vidmap_pass:
  fixes s :: "'a keyboard_scheme"
  assumes S: "test_setting A p w U buf s" and fs: "fdt p s = fs" "std_fds fs"
  shows "runs A p w 0 (ascii ''err_vidmap: PASS\<newline>'') fs s (err_vidmap U s)"
  unfolding err_vidmap_def
  by (rule check_call [OF S runs_vidmap_refused [OF test_ok [OF S] fs(1)]], simp, simp only: prod.case,
      rule check_call [OF _ runs_vidmap_refused [OF test_ok]], assumption+, simp, simp only: prod.case,
      rule verdict_pass [OF _ _ fs(2), of _ _ _ _ _ _ "''err_vidmap''", simplified], assumption+, simp add: pass_texts_def)

lemma runs_call_sys:
  fixes s :: "'a keyboard_scheme"
  assumes "user_ok A p w s" "fdt p s = fs" "word_of_int num > (10 :: u32) \<or> sint (word_of_int num :: u32) \<le> 0"
  shows "runs A p w (-1) [] fs s (call_sys U regs num s)"
  using runs_bad_number [OF assms] by (cases regs) (simp add: call_sys_def)

lemma err_syscall_num_pass:
  fixes s :: "'a keyboard_scheme"
  assumes S: "test_setting A p w U buf s" and fs: "fdt p s = fs" "std_fds fs"
  shows "runs A p w 0 (ascii ''err_syscall_num: PASS\<newline>'') fs s (err_syscall_num U regs s)"
  unfolding err_syscall_num_def
  by (rule check_call [OF S runs_call_sys [OF test_ok [OF S] fs(1)]], simp add: BIG_NUM_def, simp only: prod.case,
      rule check_call [OF _ runs_call_sys [OF test_ok]], assumption+, simp add: NEG_NUM_def, simp only: prod.case,
      rule check_call [OF _ runs_call_sys [OF test_ok]], assumption+, simp, simp only: prod.case,
      rule verdict_pass [OF _ _ fs(2), of _ _ _ _ _ _ "''err_syscall_num''", simplified], assumption+, simp add: pass_texts_def)

lemma test_literal:
  assumes "test_setting A p w U buf s" "t \<in> set test_texts"
  shows "cstr_at (memory s) (u_lit U t) (ascii t)" "clear_of A (u_lit U t) (Suc (length (ascii t)))" "u_lit U t \<noteq> 0"
  using assms by (auto simp: test_setting_def literal_def)

lemma open_missing_name:
  fixes s :: "'a keyboard_scheme"
  assumes S: "test_setting A p w U buf s" and fs: "fdt p s = fs" and t: "t \<in> {''helloo'', ''shel'', []}"
  shows "runs A p w (-1) [] fs s (ece391_open U (u_lit U t) s)"
proof (rule runs_open_missing [OF test_ok [OF S] fs])
  have "t \<in> set test_texts" using t by (auto simp: test_texts_def)
  from test_literal [OF S this] show "cstr_at (memory s) (u_lit U t) (ascii t)" "clear_of A (u_lit U t) (Suc (length (ascii t)))" by blast+
  show "open_blocks A w (u_locals U)" "clear_of A (boot_block s) 4096" using S by (simp_all add: test_setting_def)
  show "ascii t = [] \<or> find_file (memory s) (boot_block s) (ascii t) = None" using S t by (auto simp: test_setting_def ascii_Nil)
qed

lemma err_open_pass:
  fixes s :: "'a keyboard_scheme"
  assumes S: "test_setting A p w U buf s" and fs: "fdt p s = fs" "std_fds fs"
  shows "runs A p w 0 (ascii ''err_open: PASS\<newline>'') fs s (err_open U s)"
  unfolding err_open_def
  by (rule check_call [OF S open_missing_name [OF S fs(1)]], simp, simp only: prod.case,
      rule check_call [OF _ open_missing_name], assumption+, simp, simp only: prod.case,
      rule check_call [OF _ open_missing_name], assumption+, simp, simp only: prod.case,
      rule verdict_pass [OF _ _ fs(2), of _ _ _ _ _ _ "''err_open''", simplified], assumption+, simp add: pass_texts_def)

text \<open>The read of the standard output moves the position of its descriptor back by one.\<close>

lemma err_stdin_out_pass:
  fixes s :: "'a keyboard_scheme"
  assumes S: "test_setting A p w U buf s" and fs: "fdt p s = fs" "std_fds fs"
  shows "runs A p w 0 (ascii ''err_stdin_out: PASS\<newline>'') (fs[1 := advance (-1) (fs ! 1)]) s (err_stdin_out U buf s)"
proof -
  have buf: "buf \<noteq> 0" "length fs = 8" using S fs(2) by (simp_all add: test_setting_def buffer_block_def std_fds_def)
  have fs': "std_fds (fs[1 := advance (-1) (fs ! 1)])" using fs(2) by (simp add: std_fds_def advance_def)
  have w0: "fop_jump_table (fs ! nat 0) ! 1 \<in> {No_func, Dir_write, File_write}" and r1: "fop_jump_table (fs ! nat 1) ! 0 = No_func"
    using fs(2) by (simp_all add: std_fds_def std_table_def)
  have rd: "runs A p w (-1) [] (fs[1 := advance (-1) (fs ! 1)]) s1 (ece391_read U 0 1 buf 31 s1)"
    if "test_setting A p w U buf s1" "fdt p s1 = fs" for s1 :: "'a keyboard_scheme"
    using runs_read_no_func [OF test_ok [OF that(1)] that(2) buf(2) _ _ buf(1) r1] by simp
  have wr: "runs A p w (-1) [] fs s (ece391_write U 0 buf 31 s)"
    using runs_write_fails [OF test_ok [OF S] fs(1) _ _ buf(1) w0] by simp
  have pass: "runs A p w 0 (ascii ''err_stdin_out: PASS\<newline>'') (fs[1 := advance (-1) (fs ! 1)]) s2 (verdict U ''err_stdin_out'' 0 s2)"
    if "test_setting A p w U buf s2" "fdt p s2 = fs[1 := advance (-1) (fs ! 1)]" for s2 :: "'a keyboard_scheme"
    using verdict_pass [OF that fs', of "''err_stdin_out''"] by (simp add: pass_texts_def)
  show ?thesis
    unfolding err_stdin_out_def
    by (rule check_call [OF S wr], simp only: prod.case, rule check_call [OF _ rd], assumption+, simp only: prod.case, rule pass)
qed

section \<open>Runs that end with a table of some kind\<close>

definition ends :: "(u32 \<times> nat) list \<Rightarrow> int \<Rightarrow> u32 \<Rightarrow> 'v \<Rightarrow> u8 list \<Rightarrow> (fd_t list \<Rightarrow> bool) \<Rightarrow> 'a keyboard_scheme \<Rightarrow> ('v \<times> 'a keyboard_scheme) option \<Rightarrow> bool" where
  "ends A p w v out P s r \<longleftrightarrow> (\<exists>fs'. P fs' \<and> runs A p w v out fs' s r)"

lemma endsI: "runs A p w v out fs s r \<Longrightarrow> P fs \<Longrightarrow> ends A p w v out P s r"
  by (auto simp: ends_def)

lemma ends_bind:
  assumes S: "test_setting A p w U buf s" and first: "ends A p w v out P s r"
    and rest: "\<And>s'. test_setting A p w U buf s' \<Longrightarrow> P (fdt p s') \<Longrightarrow> ends A p w v' out' P' s' (f (v, s'))"
  shows "ends A p w v' (out @ out') P' s (Option.bind r f)"
proof -
  obtain fs s1 where s1: "P fs" "r = Some (v, s1)" "told A p w out fs s s1" using first by (auto simp: ends_def runs_def)
  have "ends A p w v' out' P' s1 (f (v, s1))" using rest [OF test_setting_told [OF S s1(3)]] s1(1) told_fdt [OF s1(3)] by simp
  then show ?thesis using s1(2) told_trans [OF s1(3)] by (fastforce simp: ends_def runs_def)
qed

lemma ends_silent:
  assumes "test_setting A p w U buf s" "ends A p w v [] P s r"
    and "\<And>s'. test_setting A p w U buf s' \<Longrightarrow> P (fdt p s') \<Longrightarrow> ends A p w v' out P' s' (f (v, s'))"
  shows "ends A p w v' out P' s (Option.bind r f)"
  using ends_bind [OF assms] by simp

lemma ends_return: "test_setting A p w U buf s \<Longrightarrow> P (fdt p s) \<Longrightarrow> ends A p w v [] P s (Some (v, s))"
  by (rule endsI [OF runs_return [OF test_ok refl]])

section \<open>Opening and closing the directory\<close>

text \<open>The table while the descriptors \<open>D\<close> hold the open directory and the others are unused.\<close>

definition dirs_open :: "nat set \<Rightarrow> fd_t list \<Rightarrow> bool" where
  "dirs_open D fs \<longleftrightarrow> std_fds fs \<and> fd_inode (fs ! 0) = 0 \<and> fd_inode (fs ! 1) = 0 \<and> fd_flags (fs ! 0) \<noteq> 0 \<and> fd_flags (fs ! 1) \<noteq> 0 \<and>
     (\<forall>k. 2 \<le> k \<longrightarrow> k < 8 \<longrightarrow> (if k \<in> D then fop_jump_table (fs ! k) = file_table ! 1 \<and> file_position (fs ! k) = 0 \<and> fd_flags (fs ! k) \<noteq> 0
        else unused_fd (fs ! k)))"

lemma dirs_open_idle: "dirs_open {} fs \<Longrightarrow> idle_fds fs"
  by (simp add: dirs_open_def idle_fds_def)

lemma free_fd_eq:
  assumes "\<And>k. k < m \<Longrightarrow> fd_flags (fs ! k) \<noteq> 0" "m < length fs \<Longrightarrow> fd_flags (fs ! m) = 0" "m \<le> length fs"
  shows "free_fd fs = m"
proof -
  have "takeWhile (\<lambda>f. fd_flags f \<noteq> 0) fs = take m fs" using assms by (intro takeWhile_eq_take_P_nth) auto
  then show ?thesis using assms(3) by (simp add: free_fd_def)
qed

lemma dirs_open_free:
  assumes D: "dirs_open {2..<m} fs" and m: "2 \<le> m" "m \<le> 8"
  shows "free_fd fs = m" "fds_ok fs"
proof -
  have len: "length fs = 8" and std: "fd_flags (fs ! 0) \<noteq> 0" "fd_flags (fs ! 1) \<noteq> 0" using D by (simp_all add: dirs_open_def std_fds_def)
  have small: "k = 0 \<or> k = 1 \<or> 2 \<le> k" for k :: nat by linarith
  show "free_fd fs = m"
  proof (rule free_fd_eq)
    show "fd_flags (fs ! k) \<noteq> 0" if "k < m" for k using small [of k] that D m std by (auto simp: dirs_open_def)
    show "fd_flags (fs ! m) = 0" if "m < length fs" using that D m len unfolding dirs_open_def unused_fd_def by (metis atLeastLessThan_iff less_irrefl)
  qed (use m len in simp)
  have "fop_jump_table (fs ! k) \<in> set tables" if "k < 8" for k
    using small [of k] that D by (auto simp: dirs_open_def std_fds_def unused_fd_def tables_def std_table_def file_table_def nofunc_table_def split: if_splits)
  then show "fds_ok fs" using len by (simp add: fds_ok_def list_all_length)
qed

lemma dirs_open_open: "dirs_open {2..<m} fs \<Longrightarrow> 2 \<le> m \<Longrightarrow> m < 8 \<Longrightarrow> dirs_open {2..<Suc m} (fs[m := opened_fd 1 ino (fs ! m)])"
  by (auto simp: dirs_open_def std_fds_def opened_fd_def nth_list_update split: if_splits)

lemma dirs_open_close: "dirs_open D fs \<Longrightarrow> k \<in> D \<Longrightarrow> 2 \<le> k \<Longrightarrow> k < 8 \<Longrightarrow> dirs_open (D - {k}) (fs[k := closed_fd (fs ! k)])"
  by (auto simp: dirs_open_def std_fds_def closed_fd_def unused_fd_def nth_list_update split: if_splits)

lemma open_dot:
  fixes s :: "'a keyboard_scheme"
  assumes S: "test_setting A p w U buf s" and D: "dirs_open {2..<m} (fdt p s)" and m: "2 \<le> m"
  shows "m < 8 \<Longrightarrow> ends A p w (int m) [] (dirs_open {2..<Suc m}) s (ece391_open U (u_lit U ''.'') s)"
    and "m = 8 \<Longrightarrow> ends A p w (-1) [] (dirs_open {2..<8}) s (ece391_open U (u_lit U ''.'') s)"
proof -
  have dot: "''.'' \<in> set test_texts" by (simp add: test_texts_def)
  note lit = test_literal [OF S dot]
  have L: "open_blocks A w (u_locals U)" "clear_of A (boot_block s) 4096" "ascii ''.'' \<noteq> []" using S by (simp_all add: test_setting_def ascii_def)
  have found: "find_file (memory s) (boot_block s) (ascii ''.'') = Some 0"
    using S by (intro find_file_first) (simp add: test_setting_def ascii_def)
  let ?ino = "dentry_inode_num (memory s) (dentry_at (boot_block s) 0)"
  show "ends A p w (int m) [] (dirs_open {2..<Suc m}) s (ece391_open U (u_lit U ''.'') s)" if "m < 8"
  proof (rule endsI)
    note F = dirs_open_free [OF D m, OF less_imp_le [OF that]]
    have ft: "dentry_file_type (memory s) (dentry_at (boot_block s) 0) = 1" using S by (simp add: test_setting_def)
    show "runs A p w (int m) [] ((fdt p s)[m := opened_fd 1 ?ino (fdt p s ! m)]) s (ece391_open U (u_lit U ''.'') s)"
      using runs_open [OF test_ok [OF S] refl F(2) _ lit(1,2) L(1,2) lit(3) L(3) found ft _ refl] that by (simp add: F(1))
    show "dirs_open {2..<Suc m} ((fdt p s)[m := opened_fd 1 ?ino (fdt p s ! m)])" using dirs_open_open [OF D m that] .
  qed
  show "ends A p w (-1) [] (dirs_open {2..<8}) s (ece391_open U (u_lit U ''.'') s)" if "m = 8"
  proof (rule endsI)
    show "runs A p w (-1) [] (fdt p s) s (ece391_open U (u_lit U ''.'') s)"
      using runs_open_full [OF test_ok [OF S] refl _ lit(1,2) L(1,2) lit(3) L(3) found] dirs_open_free(1) [OF D m] that by simp
    show "dirs_open {2..<8} (fdt p s)" using D that by simp
  qed
qed

lemma open_lots_ends:
  fixes s :: "'a keyboard_scheme"
  assumes "test_setting A p w U buf s" "dirs_open {2..<m} (fdt p s)" "2 \<le> m" "m + n = 8"
  shows "ends A p w (cnt + 1) [] (dirs_open {2..<8}) s (open_lots U (Suc n) cnt s)"
  using assms
proof (induction n arbitrary: m s)
  case 0
  then have m: "m = 8" by simp
  show ?case
    unfolding open_lots.simps by (rule ends_silent [OF 0(1) open_dot(2) [OF 0(1-3) m]]) (simp add: ends_return)
next
  case (Suc n)
  then have m: "m < 8" by simp
  show ?case
    unfolding open_lots.simps(2) [of U "Suc n"]
  proof (rule ends_silent [OF Suc(2) open_dot(1) [OF Suc(2-4) m]])
    fix s' :: "'a keyboard_scheme" assume s': "test_setting A p w U buf s'" "dirs_open {2..<Suc m} (fdt p s')"
    show "ends A p w (cnt + 1) [] (dirs_open {2..<8}) s' (case (int m, s') of (r, s) \<Rightarrow> open_lots U (Suc n) (if r = -1 then cnt + 1 else cnt) s)"
      using Suc(1) [OF s'] Suc(4,5) by (simp del: open_lots.simps)
  qed
qed

lemma close_all_ends:
  fixes s :: "'a keyboard_scheme"
  assumes "test_setting A p w U buf s" "dirs_open (set ks) (fdt p s)" "distinct ks" "\<forall>k \<in> set ks. 2 \<le> k \<and> k < 8"
    and "\<And>s'. test_setting A p w U buf s' \<Longrightarrow> dirs_open {} (fdt p s') \<Longrightarrow> ends A p w v out P s' (f s')"
  shows "ends A p w v out P s (Option.bind (close_all U (map int ks) s) f)"
  using assms(1-4)
proof (induction ks arbitrary: s)
  case Nil
  then show ?case using assms(5) by simp
next
  case (Cons k ks)
  let ?fs = "fdt p s"
  have k: "2 \<le> k" "k < 8" "fd_flags (?fs ! k) \<noteq> 0" "fop_jump_table (?fs ! k) = file_table ! 1" using Cons.prems(2,4) by (auto simp: dirs_open_def)
  have "runs A p w (close_result (?fs ! nat (int k))) [] (?fs[nat (int k) := closed_fd (?fs ! nat (int k))]) s (ece391_close U (int k) s)"
    using k by (intro runs_close [OF test_ok [OF Cons.prems(1)] refl]) (simp_all add: file_table_def)
  moreover have "dirs_open (set ks) (?fs[k := closed_fd (?fs ! k)])"
    using dirs_open_close [OF Cons.prems(2) _ k(1,2)] Cons.prems(3) by (simp add: insert_Diff_if)
  ultimately have "ends A p w (close_result (?fs ! k)) [] (dirs_open (set ks)) s (ece391_close U (int k) s)" by (auto intro: endsI)
  then have "ends A p w v out P s (Option.bind (ece391_close U (int k) s) (\<lambda>(_, s). Option.bind (close_all U (map int ks) s) f))"
    by (rule ends_silent [OF Cons.prems(1)]) (use Cons.IH Cons.prems(3,4) in simp)
  then show ?case by (simp add: case_prod_unfold)
qed

lemma err_open_lots_pass:
  fixes s :: "'a keyboard_scheme"
  assumes S: "test_setting A p w U buf s" and fs: "dirs_open {} (fdt p s)"
  shows "ends A p w 0 (ascii ''err_open_lots: PASS\<newline>'') (dirs_open {}) s (err_open_lots U s)"
  unfolding err_open_lots_def
proof (rule ends_silent [OF S])
  show "ends A p w 1 [] (dirs_open {2..<8}) s (open_lots U 7 0 s)"
    using open_lots_ends [OF S, of 2 6 0] fs by (simp add: numeral_eq_Suc)
  fix s1 :: "'a keyboard_scheme" assume s1: "test_setting A p w U buf s1" "dirs_open {2..<8} (fdt p s1)"
  have set: "{2..<8} = set [2, 3, 4, 5, 6, 7 :: nat]" by auto
  have "ends A p w 0 (ascii ''err_open_lots: PASS\<newline>'') (dirs_open {}) s1
      (Option.bind (close_all U (map int [2, 3, 4, 5, 6, 7]) s1) (fail_with U ''err_open_lots: PASS\<newline>'' 0))"
  proof (rule close_all_ends [OF s1(1)])
    show "dirs_open (set [2, 3, 4, 5, 6, 7]) (fdt p s1)" using s1(2) by (simp only: set)
    fix s2 :: "'a keyboard_scheme" assume s2: "test_setting A p w U buf s2" "dirs_open {} (fdt p s2)"
    have "std_fds (fdt p s2)" using s2(2) by (simp add: dirs_open_def)
    then show "ends A p w 0 (ascii ''err_open_lots: PASS\<newline>'') (dirs_open {}) s2 (fail_with U ''err_open_lots: PASS\<newline>'' 0 s2)"
      using print_text [OF s2(1) refl] s2(2) by (auto intro!: endsI simp: test_texts_def pass_texts_def)
  qed simp_all
  then show "ends A p w 0 (ascii ''err_open_lots: PASS\<newline>'') (dirs_open {}) s1 (case (1, s1) of (cnt, s) \<Rightarrow>
      do { s \<leftarrow> close_all U [2, 3, 4, 5, 6, 7] s;
           if cnt = 1 then fail_with U ''err_open_lots: PASS\<newline>'' 0 s else fail_with U ''err_open_lots: FAIL\<newline>'' 2 s })"
    by (simp add: eta_contract_eq)
qed

section \<open>Calls on descriptors that are not open\<close>

lemma each_fails_ends:
  assumes "test_setting A p w U buf s" "I is (fdt p s)"
    and step: "\<And>i is s. test_setting A p w U buf s \<Longrightarrow> I (i # is) (fdt p s) \<Longrightarrow> ends A p w (-1) [] (I is) s (call i s)"
    and rest: "\<And>s'. test_setting A p w U buf s' \<Longrightarrow> I [] (fdt p s') \<Longrightarrow> ends A p w v out P s' (g (fail, s'))"
  shows "ends A p w v out P s (Option.bind (each_fails U call msg is fail s) g)"
  using assms(1,2)
proof (induction "is" arbitrary: s)
  case Nil
  then show ?case using rest by simp
next
  case (Cons i "is")
  have "ends A p w v out P s (Option.bind (call i s) (\<lambda>(r, s). Option.bind (complain U (r \<noteq> -1) msg fail s)
      (\<lambda>(fail, s). Option.bind (each_fails U call msg is fail s) g)))"
    by (rule ends_silent [OF Cons.prems(1) step [OF Cons.prems]]) (simp add: complain_def Cons.IH)
  then show ?case by (simp add: case_prod_unfold)
qed

text \<open>Closing: the standard descriptors fail too, but are marked free; the six others are refused.\<close>

definition close_left :: "int list \<Rightarrow> fd_t list \<Rightarrow> bool" where
  "close_left is fs \<longleftrightarrow> idle_fds fs \<and> set is \<subseteq> {0..7}"

lemma closes_fail:
  fixes s :: "'a keyboard_scheme"
  assumes S: "test_setting A p w U buf s" and I: "close_left (i # is) (fdt p s)"
  shows "ends A p w (-1) [] (close_left is) s (ece391_close U i s)"
proof (cases "fd_flags (fdt p s ! nat i) = 0")
  case True
  then show ?thesis
    using runs_close_free [OF test_ok [OF S] refl, of i U] I by (auto intro!: endsI simp: close_left_def)
next
  case False
  have i: "0 \<le> i" "i < 8" using I by (auto simp: close_left_def)
  have "\<not> 2 \<le> nat i" using False I i by (auto simp: close_left_def idle_fds_def unused_fd_def)
  then have "i = 0 \<or> i = 1" using i by linarith
  then have f: "fop_jump_table (fdt p s ! nat i) ! 3 = Terminal_close" "fd_inode (fdt p s ! nat i) = 0"
    using I by (auto simp: close_left_def idle_fds_def std_fds_def std_table_def)
  have "runs A p w (-1) [] ((fdt p s)[nat i := closed_fd (fdt p s ! nat i)]) s (ece391_close U i s)"
    using runs_close [OF test_ok [OF S] refl i False, of U] f by (simp add: close_result_def)
  moreover have "close_left is ((fdt p s)[nat i := closed_fd (fdt p s ! nat i)])"
    using I \<open>i = 0 \<or> i = 1\<close> by (auto simp: close_left_def idle_fds_def std_fds_def closed_fd_def nth_list_update)
  ultimately show ?thesis by (rule endsI)
qed

text \<open>Reading: a descriptor still holds the operations of the file it was last opened for.\<close>

definition dir_or_none :: "fd_t \<Rightarrow> bool" where
  "dir_or_none f \<longleftrightarrow> fop_jump_table f = nofunc_table \<or> fop_jump_table f = file_table ! 1"

definition read_left :: "int list \<Rightarrow> fd_t list \<Rightarrow> bool" where
  "read_left is fs \<longleftrightarrow> std_fds fs \<and> distinct is \<and> set is \<subseteq> {2..7} \<and> (\<forall>k. 2 \<le> k \<longrightarrow> k < 8 \<longrightarrow> dir_or_none (fs ! k)) \<and>
     (\<forall>i \<in> set is. unused_fd (fs ! nat i))"

lemma read_left_step:
  assumes "read_left (i # is) fs"
  shows "read_left is (fs[nat i := advance r (fs ! nat i)])"
proof -
  have "nat j \<noteq> nat i" if "j \<in> set is" for j
  proof -
    have "j \<noteq> i" "2 \<le> j" "2 \<le> i" using assms that by (auto simp: read_left_def)
    then show ?thesis by simp
  qed
  then have un: "fs[nat i := advance r (fs ! nat i)] ! nat j = fs ! nat j" if "j \<in> set is" for j using that by (metis nth_list_update_neq)
  have "nat i < length fs" using assms by (auto simp: read_left_def std_fds_def)
  then have tab: "fop_jump_table (fs[nat i := advance r (fs ! nat i)] ! k) = fop_jump_table (fs ! k)" for k
    by (cases "k = nat i") (simp_all add: advance_def)
  show ?thesis using assms un tab by (simp add: read_left_def std_fds_def dir_or_none_def)
qed

lemma reads_fail:
  fixes s :: "'a keyboard_scheme"
  assumes S: "test_setting A p w U buf s" and I: "read_left (i # is) (fdt p s)"
  shows "ends A p w (-1) [] (read_left is) s (ece391_read U 0 i buf 31 s)"
proof -
  have i: "0 \<le> i" "i < 8" and len: "length (fdt p s) = 8" and un: "unused_fd (fdt p s ! nat i)" using I by (auto simp: read_left_def std_fds_def)
  note T = S [unfolded test_setting_def]
  show ?thesis
  proof (cases "fop_jump_table (fdt p s ! nat i) = nofunc_table")
    case True
    then have "fop_jump_table (fdt p s ! nat i) ! 0 = No_func" by (simp add: nofunc_table_def)
    moreover have "buf \<noteq> 0" using T by (simp add: buffer_block_def)
    ultimately have "runs A p w (-1) [] ((fdt p s)[nat i := advance (-1) (fdt p s ! nat i)]) s (ece391_read U 0 i buf 31 s)"
      using runs_read_no_func [OF test_ok [OF S] refl len i] by blast
    then show ?thesis using read_left_step [OF I] by (rule endsI)
  next
    case False
    then have f: "fop_jump_table (fdt p s ! nat i) = file_table ! 1" "file_position (fdt p s ! nat i) = int 0" "fd_flags (fdt p s ! nat i) = 0"
      using un by (auto simp: unused_fd_def)
    have nm: "length (file_name (memory s) (boot_block s) 0) = 1" using T by (simp add: ascii_def)
    then have "\<exists>s'. ece391_read U 0 i buf 31 s = Some (if fd_flags (fdt p s ! nat i) = 0 \<and> (1 :: int) = 1 then -1 else 1, s') \<and>
        told A p w [] ((fdt p s)[nat i := advance 1 (fdt p s ! nat i)]) s s' \<and>
        read_bytes (memory s') buf (length (file_name (memory s) (boot_block s) 0)) = file_name (memory s) (boot_block s) 0"
      using T by (intro calls_read_dir [OF test_ok [OF S] refl len i f(1,2), where l = 32]) simp_all
    then have "runs A p w (-1) [] ((fdt p s)[nat i := advance 1 (fdt p s ! nat i)]) s (ece391_read U 0 i buf 31 s)"
      using f(3) by (auto simp: runs_def)
    then show ?thesis using read_left_step [OF I] by (rule endsI)
  qed
qed

definition write_left :: "int list \<Rightarrow> fd_t list \<Rightarrow> bool" where
  "write_left is fs \<longleftrightarrow> std_fds fs \<and> set is \<subseteq> {2..7} \<and> (\<forall>k. 2 \<le> k \<longrightarrow> k < 8 \<longrightarrow> dir_or_none (fs ! k))"

lemma writes_fail:
  fixes s :: "'a keyboard_scheme"
  assumes S: "test_setting A p w U buf s" and I: "write_left (i # is) (fdt p s)"
  shows "ends A p w (-1) [] (write_left is) s (ece391_write U i buf 31 s)"
proof (rule endsI)
  have i: "0 \<le> i" "i < 8" "2 \<le> nat i" "nat i < 8" using I by (auto simp: write_left_def)
  then have "dir_or_none (fdt p s ! nat i)" using I by (simp add: write_left_def)
  then have "fop_jump_table (fdt p s ! nat i) ! 1 \<in> {No_func, Dir_write, File_write}" by (auto simp: dir_or_none_def nofunc_table_def file_table_def)
  moreover have "buf \<noteq> 0" using S by (simp add: test_setting_def buffer_block_def)
  ultimately show "runs A p w (-1) [] (fdt p s) s (ece391_write U i buf 31 s)" using runs_write_fails [OF test_ok [OF S] refl i(1,2)] by blast
  show "write_left is (fdt p s)" using I by (simp add: write_left_def)
qed

lemma err_unopened_pass:
  fixes s :: "'a keyboard_scheme"
  assumes S: "test_setting A p w U buf s" and fs: "idle_fds (fdt p s)"
  shows "ends A p w 0 (ascii ''err_unopened: PASS\<newline>'') std_fds s (err_unopened U buf s)"
  unfolding err_unopened_def
proof (rule each_fails_ends [where I = close_left, OF S _ closes_fail], simp add: close_left_def fs, assumption+, simp only: prod.case,
    rule each_fails_ends [where I = read_left, OF _ _ reads_fail], assumption)
  fix s' :: "'a keyboard_scheme" assume "close_left [] (fdt p s')"
  then show "read_left [2, 3, 4, 5, 6, 7] (fdt p s')" by (auto simp: close_left_def read_left_def idle_fds_def dir_or_none_def unused_fd_def)
next
  fix s1 :: "'a keyboard_scheme" assume s1: "test_setting A p w U buf s1" "read_left [] (fdt p s1)"
  have pass: "ends A p w 0 (ascii ''err_unopened: PASS\<newline>'') std_fds s2 (verdict U ''err_unopened'' 0 s2)"
    if "test_setting A p w U buf s2" "write_left [] (fdt p s2)" for s2 :: "'a keyboard_scheme"
  proof (rule endsI)
    show "std_fds (fdt p s2)" using that(2) by (simp add: write_left_def)
    then show "runs A p w 0 (ascii ''err_unopened: PASS\<newline>'') (fdt p s2) s2 (verdict U ''err_unopened'' 0 s2)"
      using verdict_pass [OF that(1) refl, of "''err_unopened''"] by (simp add: pass_texts_def)
  qed
  have "write_left [2, 3, 4, 5, 6, 7] (fdt p s1)" using s1(2) by (simp add: read_left_def write_left_def)
  then show "ends A p w 0 (ascii ''err_unopened: PASS\<newline>'') std_fds s1 (case (0, s1) of (fail, s) \<Rightarrow>
      Option.bind (each_fails U (\<lambda>i. ece391_write U i buf 31) ''write to unopened fd fail\<newline>'' [2, 3, 4, 5, 6, 7] fail s) (\<lambda>(fail, s). verdict U ''err_unopened'' fail s))"
    unfolding prod.case by (rule each_fails_ends [where I = write_left, OF s1(1) _ writes_fail]) (simp_all add: pass)
qed

section \<open>Properties\<close>

lemma initial_dirs_open: "dirs_open {} (initial_fds (\<lambda>k. if k < STD_FILES then 1 else 0))"
proof -
  have nth: "initial_fds flag ! k = \<lparr>fop_jump_table = (if k < 2 then std_table ! k else nofunc_table), fd_inode = 0, fd_file_type = -1,
      file_position = 0, fd_flags = flag k\<rparr>" if "k < 8" for k flag
    using that by (simp add: initial_fds_def MAX_OPEN_FILES_def STD_FILES_def)
  have "length (initial_fds flag) = 8" for flag by (simp add: initial_fds_def MAX_OPEN_FILES_def)
  then show ?thesis by (simp add: dirs_open_def std_fds_def unused_fd_def nth STD_FILES_def)
qed

text \<open>
  C12: the error tests pass. Started by \<open>execute\<close> (its descriptor table as \<open>execute\<close> sets it up) on
  an image whose first directory entry is \<open>.\<close> and that has neither of the two wrong names, the
  run of all eight tests returns 0 and prints the eight PASS lines and the overall PASS, and
  nothing else.
\<close>

theorem error_tests_pass:
  fixes s :: "'a keyboard_scheme"
  assumes "test_setting A p w U buf s" "fdt p s = initial_fds (\<lambda>k. if k < STD_FILES then 1 else 0)"
  shows "\<exists>s'. run_all U regs buf s = Some (0, s') \<and> screen_of w s' = fold put_char (concat (map ascii pass_texts)) (screen_of w s)"
proof -
  let ?S = "test_setting A p w U buf"
  have stdD: "std_fds fs" "idle_fds fs" if "dirs_open {} fs" for fs using that dirs_open_idle by (simp_all add: dirs_open_def)
  have t1: "ends A p w 0 (ascii ''err_neg_fd: PASS\<newline>'') (dirs_open {}) s (err_neg_fd U buf s)"
    and t2: "ends A p w 0 (ascii ''err_big_fd: PASS\<newline>'') (dirs_open {}) s (err_big_fd U buf s)"
    and t4: "ends A p w 0 (ascii ''err_open: PASS\<newline>'') (dirs_open {}) s (err_open U s)"
    if "?S s" "dirs_open {} (fdt p s)" for s
    using that err_fd_pass [OF that(1) refl stdD(1) [OF that(2)], of NEG_FD "''err_neg_fd''"]
      err_fd_pass [OF that(1) refl stdD(1) [OF that(2)], of BIG_FD "''err_big_fd''"] err_open_pass [OF that(1) refl stdD(1) [OF that(2)]]
    by (auto intro!: endsI simp: err_neg_fd_def err_big_fd_def syserr_consts pass_texts_def)
  have t5: "ends A p w 0 (ascii ''err_unopened: PASS\<newline>'') std_fds s (err_unopened U buf s)" if "?S s" "dirs_open {} (fdt p s)" for s
    using err_unopened_pass [OF that(1) stdD(2) [OF that(2)]] .
  have t6: "ends A p w 0 (ascii ''err_vidmap: PASS\<newline>'') std_fds s (err_vidmap U s)"
    and t8: "ends A p w 0 (ascii ''err_syscall_num: PASS\<newline>'') std_fds s (err_syscall_num U regs s)"
    and t9: "ends A p w 0 (ascii ''\<newline>Overall Tests: PASS\<newline>'') std_fds s (fail_with U ''\<newline>Overall Tests: PASS\<newline>'' 0 s)"
    if "?S s" "std_fds (fdt p s)" for s
    using that err_vidmap_pass [OF that(1) refl that(2)] err_syscall_num_pass [OF that(1) refl that(2), of regs]
      print_text [OF that(1) refl that(2), of "''\<newline>Overall Tests: PASS\<newline>''" 0]
    by (auto intro!: endsI simp: test_texts_def pass_texts_def)
  have t7: "ends A p w 0 (ascii ''err_stdin_out: PASS\<newline>'') std_fds s (err_stdin_out U buf s)" if "?S s" "std_fds (fdt p s)" for s
    by (rule endsI [OF err_stdin_out_pass [OF that(1) refl that(2)]]) (use that(2) in \<open>simp add: std_fds_def advance_def\<close>)
  have "ends A p w 0 (ascii ''err_neg_fd: PASS\<newline>'' @ ascii ''err_big_fd: PASS\<newline>'' @ ascii ''err_open_lots: PASS\<newline>'' @ ascii ''err_open: PASS\<newline>'' @
      ascii ''err_unopened: PASS\<newline>'' @ ascii ''err_vidmap: PASS\<newline>'' @ ascii ''err_stdin_out: PASS\<newline>'' @ ascii ''err_syscall_num: PASS\<newline>'' @
      ascii ''\<newline>Overall Tests: PASS\<newline>'') std_fds s (run_all U regs buf s)"
    unfolding run_all_def
    by (rule ends_bind [OF assms(1) t1 [OF assms(1)]], simp only: assms(2) initial_dirs_open, simp only: prod.case,
        rule ends_bind [OF _ t2], assumption+, simp only: prod.case, rule ends_bind [OF _ err_open_lots_pass], assumption+, simp only: prod.case,
        rule ends_bind [OF _ t4], assumption+, simp only: prod.case, rule ends_bind [OF _ t5], assumption+, simp only: prod.case,
        rule ends_bind [OF _ t6], assumption+, simp only: prod.case, rule ends_bind [OF _ t7], assumption+, simp only: prod.case,
        rule ends_bind [OF _ t8], assumption+, simp add: t9)
  then show ?thesis by (auto simp: ends_def pass_texts_def dest: runs_screen)
qed

text \<open>The concrete system with the directory \<open>.\<close> in slot 0 and the literals of the tests in memory.\<close>

definition test_segs :: "(u32 \<times> u8 list) list" where
  "test_segs = [(0x8049000, pool test_texts), (0x500040, [0x2E, 0]), (0x500060, [1, 0, 0, 0, 0, 0, 0, 0])]"

definition test_blocks :: "(u32 \<times> nat) list" where
  "test_blocks = call_blocks 0 0 @ [(0x7FF200, 64), (0x7FF300, 64), (0x8048800, 32)]"

definition test_state :: keyboard where
  "test_state = (let s = demo_user test_segs in s\<lparr>pcbs := (\<lambda>a. (pcbs s a)\<lparr>file_array := initial_fds (\<lambda>k. if k < STD_FILES then 1 else 0)\<rparr>)\<rparr>)"

lemma test_pool_length: "length (pool test_texts) = 192"
  by (simp add: pool_def test_texts_def pass_texts_def)

lemma test_names:
  "file_name (mem_of (test_segs @ demo_image)) 0x500000 0 = [0x2E]"
  "0 < j \<Longrightarrow> j < 63 \<Longrightarrow> file_name (mem_of (test_segs @ demo_image)) 0x500000 j = []"
proof -
  show "file_name (mem_of (test_segs @ demo_image)) 0x500000 0 = [0x2E]"
    by (simp add: file_name_def read_bytes_def upt_rec dentry_at_def mem_of_def test_segs_def demo_image_def demo_file_def test_pool_length)
  have zero: "mem_of (test_segs @ demo_image) x = 0" if "unat x = 0x500040 + 64 * j" "0 < j" "j < 63" for x j
    using that by (simp add: test_segs_def demo_image_def demo_file_def mem_of_Cons mem_of_Nil word_less_nat_alt unat_sub_if' test_pool_length)
  show "file_name (mem_of (test_segs @ demo_image)) 0x500000 j = []" if "0 < j" "j < 63"
  proof -
    have "unat (dentry_at 0x500000 j) = 0x500040 + 64 * j"
      using that unat_of_nat_u32 [of "0x500040 + 64 * j"] by (simp add: dentry_at_def)
    then show ?thesis using zero [of "dentry_at 0x500000 j" j] that read_bytes_Suc [of "mem_of (test_segs @ demo_image)" "dentry_at 0x500000 j" 31]
      by (simp add: file_name_def)
  qed
qed

lemma test_setting_demo: "test_setting test_blocks 0 0 (pool_env 0x8049000 test_texts) 0x8048800 test_state"
proof -
  have st: "memory test_state = mem_of (test_segs @ demo_image)" "boot_block test_state = 0x500000"
    by (simp_all add: test_state_def Let_def)
  have ok: "user_ok test_blocks 0 0 test_state"
    using user_ok_mono [OF demo_user_ok [of test_segs], of test_blocks]
    by (auto simp: test_state_def Let_def user_ok_def test_blocks_def cursor_ok_def curr_pid_def)
  have clear: "clear_of test_blocks 0x8049000 (length (pool test_texts))" "clear_of test_blocks 0x500000 4096"
    by (rule clear_ofI; simp add: test_pool_length test_blocks_def call_blocks_def disjoint_regions_def page_def vidmem_pages_def VID1_def pcb_of_def proc_consts)+
  have "list_all (\<lambda>t. 0 \<notin> set (ascii t)) test_texts" by (simp add: test_texts_def pass_texts_def ascii_def)
  then have lit: "\<forall>t \<in> set test_texts. literal test_blocks (pool_env 0x8049000 test_texts) test_state t"
    using clear(1) test_pool_length read_mem_of [of "pool test_texts" "0x8049000"]
    by (intro ballI pool_literal [where base = "0x8049000" and ts = test_texts]) (simp_all add: pool_env_def list_all_iff st test_segs_def)
  have none: "find_file (mem_of (test_segs @ demo_image)) 0x500000 xs = None" if "take 32 xs \<noteq> [0x2E]" "xs \<noteq> []" for xs
    using that test_names by (auto simp: find_file_def find_None_iff) (metis gr0I take_eq_Nil zero_neq_numeral)
  have ft: "dentry_file_type (mem_of (test_segs @ demo_image)) (dentry_at 0x500000 0) = 1"
    by (simp add: dentry_file_type_def dentry_at_def read32_def mem_of_def test_segs_def test_pool_length)
  show ?thesis
    using ok lit clear(2) test_names(1) ft none [of "ascii ''helloo''"] none [of "ascii ''shel''"]
    by (simp add: test_setting_def st open_blocks_def pool_env_def demo_locals_def buffer_block_def disjoint_regions_def page_def vidmem_pages_def VID1_def ascii_def)
       (simp add: test_blocks_def)
qed

theorem error_tests_pass_witness:
  "\<exists>s'. run_all (pool_env 0x8049000 test_texts) (1, 2, 3) 0x8048800 test_state = Some (0, s') \<and>
     screen_of 0 s' = fold put_char (concat (map ascii pass_texts)) (screen_of 0 test_state)"
  by (rule error_tests_pass [OF test_setting_demo]) (simp add: fdt_def test_state_def Let_def)

text \<open>
  C36: what \<open>close\<close> leaves behind. Closing a descriptor that holds the open directory succeeds, but a
  \<open>read\<close> of the closed descriptor still delivers the first name of the directory (unless that name
  has exactly one character); closing the standard input fails, but its entry is free afterwards,
  so that the next \<open>open\<close> of an existing file returns descriptor 0.
\<close>

theorem close_leaves_operations:
  fixes s :: "'a keyboard_scheme"
  assumes "user_ok A p w s" "dirs_open {2} (fdt p s)" "open_blocks A w (u_locals U)" "buffer_block A w buf 32"
    and "disjoint_regions buf 32 (l_sub (u_locals U)) 64" "clear_of A (boot_block s) 4096"
    and "name = file_name (memory s) (boot_block s) 0" "length name < 32"
    and "literal A U s ''.''" "find_file (memory s) (boot_block s) (ascii ''.'') = Some i" "dentry_file_type (memory s) (dentry_at (boot_block s) i) < 3"
  shows "\<exists>s1 s2 s3. ece391_close U 2 s = Some (0, s1) \<and>
      ece391_read U h 2 buf 32 s1 = Some (if length name = 1 then -1 else int (length name), s2) \<and> read_bytes (memory s2) buf (length name) = name \<and>
      ece391_close U 0 s = Some (-1, s3) \<and> (\<exists>s4. ece391_open U (u_lit U ''.'') s3 = Some (0, s4))"
proof -
  let ?fs = "fdt p s" and ?fs1 = "(fdt p s)[2 := closed_fd (fdt p s ! 2)]" and ?fs3 = "(fdt p s)[0 := closed_fd (fdt p s ! 0)]"
  note ok = assms(1) and D = assms(2) [unfolded dirs_open_def std_fds_def]
  have f2: "fop_jump_table (?fs ! nat 2) = file_table ! 1" "fd_flags (?fs ! nat 2) \<noteq> 0" using D by auto
  have f0: "fop_jump_table (?fs ! nat 0) = std_table ! 0" "fd_flags (?fs ! nat 0) \<noteq> 0" "fd_inode (?fs ! nat 0) = 0" using D by auto
  have "runs A p w 0 [] ?fs1 s (ece391_close U 2 s)"
    using runs_close [OF ok refl _ _ f2(2), of U] f2(1) by (simp add: close_result_def file_table_def)
  then obtain s1 where s1: "ece391_close U 2 s = Some (0, s1)" "told A p w [] ?fs1 s s1" by (auto simp: runs_def)
  have bb1: "boot_block s1 = boot_block s" using s1(2) by (simp add: told_def)
  have nm: "file_name (memory s1) (boot_block s1) 0 = name"
    using file_name_image [OF told_clear(3) [OF s1(2) assms(6)], of 0] assms(7) by (simp add: bb1)
  have e: "fop_jump_table (?fs1 ! nat 2) = file_table ! 1" "file_position (?fs1 ! nat 2) = int 0" "fd_flags (?fs1 ! nat 2) = 0" "length ?fs1 = 8"
    using D f2(1) by (simp_all add: closed_fd_def)
  have "\<exists>s2. ece391_read U h 2 buf 32 s1 = Some (if fd_flags (?fs1 ! nat 2) = 0 \<and> int (length name) = 1 then -1 else int (length name), s2) \<and>
      told A p w [] (?fs1[nat 2 := advance (int (length name)) (?fs1 ! nat 2)]) s1 s2 \<and>
      read_bytes (memory s2) buf (length (file_name (memory s1) (boot_block s1) 0)) = file_name (memory s1) (boot_block s1) 0"
    using assms(3-6,8) nm bb1
    by (intro calls_read_dir [OF told_ok [OF ok s1(2)] told_fdt [OF s1(2)] e(4) _ _ e(1,2), where l = 32]) simp_all
  then obtain s2 where s2: "ece391_read U h 2 buf 32 s1 = Some (if length name = 1 then -1 else int (length name), s2)"
    "read_bytes (memory s2) buf (length name) = name" using e(3) nm by auto
  have "runs A p w (-1) [] ?fs3 s (ece391_close U 0 s)"
    using runs_close [OF ok refl _ _ f0(2), of U] f0(1,3) by (simp add: close_result_def std_table_def)
  then obtain s3 where s3: "ece391_close U 0 s = Some (-1, s3)" "told A p w [] ?fs3 s s3" by (auto simp: runs_def)
  have bb3: "boot_block s3 = boot_block s" using s3(2) by (simp add: told_def)
  note img = told_clear(3) [OF s3(2) assms(6)]
  have "fds_ok ?fs" using dirs_open_free(2) [of 3 ?fs] assms(2) by (simp add: atLeastLessThan_singleton numeral_eq_Suc)
  then have ok3: "fds_ok ?fs3" using fds_ok_nth [of ?fs 0] by (intro fds_ok_update) (simp_all add: closed_fd_def)
  have free: "free_fd ?fs3 = 0" using D by (intro free_fd_eq) (simp_all add: closed_fd_def)
  have lit: "cstr_at (memory s3) (u_lit U ''.'') (ascii ''.'')" "clear_of A (u_lit U ''.'') (Suc (length (ascii ''.'')))" "u_lit U ''.'' \<noteq> 0"
    using told_literal [OF s3(2) assms(9)] by (auto simp: literal_def)
  have i: "i < 63" using assms(10) by (auto simp: find_file_def find_Some_iff)
  have L: "clear_of A (boot_block s3) 4096" "ascii ''.'' \<noteq> []" "find_file (memory s3) (boot_block s3) (ascii ''.'') = Some i"
    "dentry_file_type (memory s3) (dentry_at (boot_block s3) i) < 3"
    using assms(6,10,11) find_file_image [OF img] dentry_fields_image(1) [OF img i] by (simp_all add: bb3 ascii_def)
  have "\<exists>fs4. runs A p w 0 [] fs4 s3 (ece391_open U (u_lit U ''.'') s3)"
    using runs_open [OF told_ok [OF ok s3(2)] told_fdt [OF s3(2)] ok3 _ lit(1,2) assms(3) L(1) lit(3) L(2,3) refl L(4) refl] by (auto simp: free)
  then show ?thesis using s1(1) s2 s3(1) by (auto simp: runs_def)
qed

text \<open>A system whose first file is \<open>hi\<close> and whose second entry is the directory, open as descriptor 2.\<close>

definition close_segs :: "(u32 \<times> u8 list) list" where
  "close_segs = [(0x8049000, [0x2E, 0]), (0x500080, [0x2E, 0]), (0x5000A0, [1, 0, 0, 0, 0, 0, 0, 0])]"

definition close_fds :: "fd_t list" where
  "close_fds = (let fs = initial_fds (\<lambda>k. if k < STD_FILES then 1 else 0) in fs[2 := opened_fd 1 0 (fs ! 2)])"

definition close_state :: keyboard where
  "close_state = (let s = demo_user close_segs in s\<lparr>pcbs := (\<lambda>a. (pcbs s a)\<lparr>file_array := close_fds\<rparr>)\<rparr>)"

theorem close_leaves_operations_witness:
  "\<exists>s1 s2. ece391_close demo_env 2 close_state = Some (0, s1) \<and> ece391_read demo_env 0 2 0x8048800 32 s1 = Some (2, s2) \<and>
     read_bytes (memory s2) 0x8048800 2 = [0x68, 0x69]"
proof -
  have st: "memory close_state = mem_of (close_segs @ demo_image)" "boot_block close_state = 0x500000" "fdt 0 close_state = close_fds"
    by (simp_all add: close_state_def Let_def fdt_def)
  have ok: "user_ok test_blocks 0 0 close_state"
    using user_ok_mono [OF demo_user_ok [of close_segs], of test_blocks]
    by (auto simp: close_state_def Let_def user_ok_def test_blocks_def cursor_ok_def curr_pid_def)
  have dirs: "dirs_open {2} close_fds"
  proof -
    have "{2..<2} = ({} :: nat set)" "{2..<Suc 2} = {2 :: nat}" by auto
    then show ?thesis using dirs_open_open [of 2 "initial_fds (\<lambda>k. if k < STD_FILES then 1 else 0)" 0] initial_dirs_open
      by (simp add: close_fds_def Let_def)
  qed
  have clear: "clear_of test_blocks 0x8049000 (Suc (length ''.''))" "clear_of test_blocks 0x500000 4096"
    by (rule clear_ofI; simp add: test_blocks_def call_blocks_def disjoint_regions_def page_def vidmem_pages_def VID1_def pcb_of_def proc_consts)+
  have "cstr_at (memory close_state) 0x8049000 (ascii ''.'')"
    by (simp add: cstr_at_def read_bytes_def upt_rec mem_of_def close_segs_def st ascii_def)
  then have lit: "literal test_blocks demo_env close_state ''.''"
    unfolding literal_def using clear(1) by (simp add: demo_env_def)
  have n0: "file_name (mem_of (close_segs @ demo_image)) 0x500000 0 = [0x68, 0x69]" and n1: "file_name (mem_of (close_segs @ demo_image)) 0x500000 1 = [0x2E]"
    by (simp_all add: file_name_def read_bytes_def upt_rec dentry_at_def mem_of_def close_segs_def demo_image_def demo_file_def)
  then have found: "find_file (memory close_state) (boot_block close_state) (ascii ''.'') = Some 1"
    by (simp add: st find_file_def upt_conv_Cons ascii_def)
  have ft: "dentry_file_type (memory close_state) (dentry_at (boot_block close_state) 1) < 3"
    by (simp add: st dentry_file_type_def dentry_at_def read32_def mem_of_def close_segs_def)
  have "open_blocks test_blocks 0 (u_locals demo_env)" "buffer_block test_blocks 0 0x8048800 32" "disjoint_regions 0x8048800 32 (l_sub (u_locals demo_env)) 64"
    by (simp_all add: open_blocks_def demo_env_def demo_locals_def buffer_block_def disjoint_regions_def page_def vidmem_pages_def VID1_def test_blocks_def)
  from close_leaves_operations [OF ok _ this _ refl _ lit found ft, of 0] show ?thesis
    using clear(2) n0 dirs by (auto simp: st numeral_2_eq_2)
qed

end
