(* ===== verification/Exceptions.thy ===== *)
theory Exceptions
  imports Process Printf Idt
begin

text \<open>
  The exception handlers of \<open>ex_handler.c\<close> and the wrappers of \<open>ex_wrapper.S\<close> that call them.
  A handler prints its message with interrupts off; when the exception came from the kernel it
  then loops forever, which is the result \<^const>\<open>None\<close>.
\<close>

section \<open>Handlers\<close>

definition report :: "string \<Rightarrow> u32 \<Rightarrow> 'a process_sys_scheme \<Rightarrow> 'a process_sys_scheme option" where
  "report message conv s =
     do {
       let data_segment = ds s;
       let s = cli s;
       (s, _) \<leftarrow> printf conv (ascii message) [] s;
       if data_segment \<noteq> USER_DS then None else Some s
     }"

definition divide_error_ex :: "u32 \<Rightarrow> 'a process_sys_scheme \<Rightarrow> 'a process_sys_scheme option" where
  "divide_error_ex = report ''divide by zero exception''"

definition debug_ex :: "u32 \<Rightarrow> 'a process_sys_scheme \<Rightarrow> 'a process_sys_scheme option" where
  "debug_ex = report ''debug exception''"

definition nmi_int_ex :: "u32 \<Rightarrow> 'a process_sys_scheme \<Rightarrow> 'a process_sys_scheme option" where
  "nmi_int_ex = report ''nmi int exception''"

definition breakpoint_ex :: "u32 \<Rightarrow> 'a process_sys_scheme \<Rightarrow> 'a process_sys_scheme option" where
  "breakpoint_ex = report ''breakpoint exception''"

definition overflow_ex :: "u32 \<Rightarrow> 'a process_sys_scheme \<Rightarrow> 'a process_sys_scheme option" where
  "overflow_ex = report ''overflow exception''"

definition bound_range_exceeded_ex :: "u32 \<Rightarrow> 'a process_sys_scheme \<Rightarrow> 'a process_sys_scheme option" where
  "bound_range_exceeded_ex = report ''bound range exceeded exception''"

definition opcode_invalid_ex :: "u32 \<Rightarrow> 'a process_sys_scheme \<Rightarrow> 'a process_sys_scheme option" where
  "opcode_invalid_ex = report ''opcode invalid exception''"

definition no_device_ex :: "u32 \<Rightarrow> 'a process_sys_scheme \<Rightarrow> 'a process_sys_scheme option" where
  "no_device_ex = report ''no device found exception''"

definition double_fault_ex :: "u32 \<Rightarrow> 'a process_sys_scheme \<Rightarrow> 'a process_sys_scheme option" where
  "double_fault_ex = report ''double fault exception''"

definition coprocessor_segment_overrun_ex :: "u32 \<Rightarrow> 'a process_sys_scheme \<Rightarrow> 'a process_sys_scheme option" where
  "coprocessor_segment_overrun_ex = report ''coprocessor segment overrun exception''"

definition tss_invalid_ex :: "u32 \<Rightarrow> 'a process_sys_scheme \<Rightarrow> 'a process_sys_scheme option" where
  "tss_invalid_ex = report ''tss invalid exception''"

definition no_segment_ex :: "u32 \<Rightarrow> 'a process_sys_scheme \<Rightarrow> 'a process_sys_scheme option" where
  "no_segment_ex = report ''no segment found exception''"

definition stack_fault_ex :: "u32 \<Rightarrow> 'a process_sys_scheme \<Rightarrow> 'a process_sys_scheme option" where
  "stack_fault_ex = report ''stack fault exception''"

definition gp_fault_ex :: "u32 \<Rightarrow> 'a process_sys_scheme \<Rightarrow> 'a process_sys_scheme option" where
  "gp_fault_ex = report ''gp fault exception''"

definition page_fault_ex :: "u32 \<Rightarrow> 'a process_sys_scheme \<Rightarrow> 'a process_sys_scheme option" where
  "page_fault_ex = report ''page fault exception''"

definition fpu_ex :: "u32 \<Rightarrow> 'a process_sys_scheme \<Rightarrow> 'a process_sys_scheme option" where
  "fpu_ex = report ''fpu exception''"

definition alignment_check_ex :: "u32 \<Rightarrow> 'a process_sys_scheme \<Rightarrow> 'a process_sys_scheme option" where
  "alignment_check_ex = report ''alignment check exception''"

definition machine_check_ex :: "u32 \<Rightarrow> 'a process_sys_scheme \<Rightarrow> 'a process_sys_scheme option" where
  "machine_check_ex = report ''machine check exception''"

definition simd_ex :: "u32 \<Rightarrow> 'a process_sys_scheme \<Rightarrow> 'a process_sys_scheme option" where
  "simd_ex = report ''simd floating point exception''"

lemmas exception_defs = divide_error_ex_def debug_ex_def nmi_int_ex_def breakpoint_ex_def overflow_ex_def
  bound_range_exceeded_ex_def opcode_invalid_ex_def no_device_ex_def double_fault_ex_def coprocessor_segment_overrun_ex_def
  tss_invalid_ex_def no_segment_ex_def stack_fault_ex_def gp_fault_ex_def page_fault_ex_def fpu_ex_def alignment_check_ex_def
  machine_check_ex_def simd_ex_def

text \<open>The function each wrapper calls, and its message.\<close>

fun exception_call :: "wrapper \<Rightarrow> (u32 \<Rightarrow> 'a process_sys_scheme \<Rightarrow> 'a process_sys_scheme option) option" where
  "exception_call Divide_error_ex_w = Some divide_error_ex"
| "exception_call Debug_ex_w = Some debug_ex"
| "exception_call Nmi_int_ex_w = Some nmi_int_ex"
| "exception_call Breakpoint_ex_w = Some breakpoint_ex"
| "exception_call Overflow_ex_w = Some overflow_ex"
| "exception_call Bound_range_exceeded_ex_w = Some bound_range_exceeded_ex"
| "exception_call Opcode_invalid_ex_w = Some opcode_invalid_ex"
| "exception_call No_device_ex_w = Some no_device_ex"
| "exception_call Double_fault_ex_w = Some double_fault_ex"
| "exception_call Coprocessor_segment_overrun_ex_w = Some coprocessor_segment_overrun_ex"
| "exception_call Tss_invalid_ex_w = Some tss_invalid_ex"
| "exception_call No_segment_ex_w = Some no_segment_ex"
| "exception_call Stack_fault_ex_w = Some stack_fault_ex"
| "exception_call Gp_fault_ex_w = Some gp_fault_ex"
| "exception_call Page_fault_ex_w = Some page_fault_ex"
| "exception_call Fpu_ex_w = Some fpu_ex"
| "exception_call Alignment_check_ex_w = Some alignment_check_ex"
| "exception_call Machine_check_ex_w = Some machine_check_ex"
| "exception_call Simd_ex_w = Some simd_ex"
| "exception_call w = None"

definition exception_messages :: "(wrapper \<times> string) list" where
  "exception_messages = [(Divide_error_ex_w, ''divide by zero exception''),
     (Debug_ex_w, ''debug exception''),
     (Nmi_int_ex_w, ''nmi int exception''),
     (Breakpoint_ex_w, ''breakpoint exception''),
     (Overflow_ex_w, ''overflow exception''),
     (Bound_range_exceeded_ex_w, ''bound range exceeded exception''),
     (Opcode_invalid_ex_w, ''opcode invalid exception''),
     (No_device_ex_w, ''no device found exception''),
     (Double_fault_ex_w, ''double fault exception''),
     (Coprocessor_segment_overrun_ex_w, ''coprocessor segment overrun exception''),
     (Tss_invalid_ex_w, ''tss invalid exception''),
     (No_segment_ex_w, ''no segment found exception''),
     (Stack_fault_ex_w, ''stack fault exception''),
     (Gp_fault_ex_w, ''gp fault exception''),
     (Page_fault_ex_w, ''page fault exception''),
     (Fpu_ex_w, ''fpu exception''),
     (Alignment_check_ex_w, ''alignment check exception''),
     (Machine_check_ex_w, ''machine check exception''),
     (Simd_ex_w, ''simd floating point exception'')]"

section \<open>Printing a plain message\<close>

lemma render_plain: "0x25 \<notin> set xs \<Longrightarrow> render strs xs args = Some (xs, [])"
  by (induction xs) auto

lemma report_result:
  assumes "0x25 \<notin> set (ascii message)" "cursor_ok (curr_term s) s" "disjoint_regions conv 64 (page (curr_term s)) 4000"
  shows "if ds s = USER_DS
    then \<exists>s'. report message conv s = Some s' \<and> shown conv (curr_term s) (ascii message) (cli s) s'
    else report message conv s = None"
proof -
  have cli: "curr_term (cli s) = curr_term s" "cursor_ok t (cli s) = cursor_ok t s" for t
    by (simp_all add: cli_def cursor_ok_def)
  obtain s' where "printf_chars conv (ascii message) [] (cli s) = Some s'" "shown conv (curr_term s) (ascii message) (cli s) s'"
    using printf_shown(1) [OF render_plain [OF assms(1)], where s = "cli s" and t = "curr_term s" and conv = conv] assms(2,3) cli by auto
  then show ?thesis by (auto simp: report_def printf_def)
qed

lemma exception_call_report:
  "map_of exception_messages w = Some message \<Longrightarrow> exception_call w = Some (report message)"
  by (cases w)
     (simp_all add: exception_messages_def exception_defs)

lemma messages_plain: "list_all (\<lambda>(w, message). 0x25 \<notin> set (ascii message)) exception_messages"
  by code_simp

section \<open>Main properties\<close>


lemma demo_process_console:
  "curr_term demo_process = 0" "screen_x demo_process t = 0" "screen_y demo_process t = 0"
  by (simp_all add: demo_process_def demo_rtc_def demo_fs_def demo_paging_def demo_console_def paging.defs file_sys.defs rtc.defs process_sys.defs)


end
