(* ===== verification/Kernel_Runs.thy ===== *)
theory Kernel_Runs
  imports User_Calls Exceptions
begin

text \<open>
  The running kernel: everything that can happen once the shells are started, as a relation on
  states. A run is a sequence of timer, clock and keyboard interrupts, exceptions of user
  programs, system calls, and steps of user code; while a system call waits, its handlers are
  runs themselves. The invariant \<open>kernel_ok\<close> ties the process table, the process control
  blocks, the terminals and the task state segment together, and every run keeps it.
\<close>

section \<open>Frames\<close>

text \<open>
  \<open>keeps s s'\<close>: the tables that decide scheduling are the same and no descriptor table that was
  well formed stops being so. Every operation short of a switch does no more than that.
\<close>

definition keeps :: "'a process_sys_scheme \<Rightarrow> 'a process_sys_scheme \<Rightarrow> bool" where
  "keeps s s' \<longleftrightarrow> process_array s' = process_array s \<and> terminal_array s' = terminal_array s \<and>
     curr_terminal s' = curr_terminal s \<and> tss_esp0 s' = tss_esp0 s \<and>
     (\<forall>a. pcb_pid (pcbs s' a) = pcb_pid (pcbs s a) \<and> leaf (pcbs s' a) = leaf (pcbs s a) \<and>
        parent_pid (pcbs s' a) = parent_pid (pcbs s a) \<and> pcb_terminal (pcbs s' a) = pcb_terminal (pcbs s a) \<and>
        (fds_ok (file_array (pcbs s a)) \<longrightarrow> fds_ok (file_array (pcbs s' a))))"

lemma keeps_refl: "keeps s s"
  by (simp add: keeps_def)

lemma keeps_trans: "keeps s s' \<Longrightarrow> keeps s' s'' \<Longrightarrow> keeps s s''"
  by (simp add: keeps_def)

lemma keeps_tables:
  "pcbs s' = pcbs s \<Longrightarrow> process_array s' = process_array s \<Longrightarrow> terminal_array s' = terminal_array s \<Longrightarrow>
   curr_terminal s' = curr_terminal s \<Longrightarrow> tss_esp0 s' = tss_esp0 s \<Longrightarrow> keeps s s'"
  by (simp add: keeps_def)

lemma keeps_memory: "keeps s (s\<lparr>memory := m\<rparr>)" for s :: "'a process_sys_scheme"
  by (rule keeps_tables) simp_all

lemma keeps_console: "console_only s s' \<Longrightarrow> keeps s s'" for s :: "'a process_sys_scheme"
  by (rule keeps_tables) (auto simp: console_only_def)

lemma keeps_flags: "keeps s (cli s)" "keeps s (sti s)" "keeps s (send_eoi n s)" "keeps s (outb d p s)" "keeps s (change_process q s)"
  for s :: "'a process_sys_scheme"
  by (rule keeps_tables; simp add: cli_def sti_def send_eoi_def outb_def change_process_def flush_tlb_def load_cr3_def Let_def)+

lemma puts_from_console_only:
  assumes "puts_from str t i s = Some y"
  shows "console_only s (fst y)"
proof (rule puts_from.raw_induct [where P = "\<lambda>str t i s y. console_only s (fst y)", OF _ assms])
  fix f :: "u32 \<Rightarrow> u32 \<Rightarrow> u32 \<Rightarrow> 'b console_scheme \<Rightarrow> ('b console_scheme \<times> u32) option" and str t i and s :: "'b console_scheme" and y
  assume ih: "\<And>str t i s y. f str t i s = Some y \<Longrightarrow> console_only s (fst y)"
    and step: "(if memory s (str + i) \<noteq> 0 then f str t (i + 1) (putc (memory s (str + i)) t s) else Some (s, i)) = Some y"
  show "console_only s (fst y)"
    using step by (auto split: if_splits intro: console_only_refl dest!: ih intro: console_only_trans [OF putc_console_only])
qed

lemma puts_console_only: "puts str t s = Some (s', n) \<Longrightarrow> console_only s s'"
  using puts_from_console_only [of str t 0 s "(s', n)"] by (simp add: puts_def)

lemma conversions_console_only:
  "print_hex conv alt w s = Some s' \<Longrightarrow> console_only s s'" "print_unsigned conv w s = Some s' \<Longrightarrow> console_only s s'"
  "print_signed conv w s = Some s' \<Longrightarrow> console_only s s'"
  by (auto simp: print_hex_def print_unsigned_def print_signed_def bind_eq_Some_conv split: if_splits
      dest!: puts_console_only intro: console_only_trans [OF console_only_memory])

lemma printf_chars_console_only:
  "printf_chars conv format args s = Some s' \<Longrightarrow> console_only s s'"
  "printf_conv conv alt format args s = Some s' \<Longrightarrow> console_only s s'"
proof (induction conv format args s and conv alt format args s arbitrary: s' and s' rule: printf_chars_printf_conv.induct)
  case (1 conv args s)
  then show ?case by (simp add: console_only_refl)
next
  case (2 conv c cs args s)
  then show ?case by (auto split: if_splits intro: console_only_trans [OF putc_console_only])
next
  case (3 conv alternate args s)
  then show ?case by simp
next
  case (4 conv alternate c cs args s)
  show ?case
    using "4.prems" "4.IH"
    by (auto split: if_splits list.splits simp: bind_eq_Some_conv intro: console_only_trans [OF putc_console_only])
       (blast intro: console_only_trans puts_console_only conversions_console_only)+
qed

lemma keeps_printf: "printf conv format args s = Some (s', n) \<Longrightarrow> keeps s s'" for s :: "'a process_sys_scheme"
  by (auto simp: printf_def bind_eq_Some_conv intro: keeps_console printf_chars_console_only)

section \<open>The invariant\<close>

definition in_use :: "'a process_sys_scheme \<Rightarrow> int \<Rightarrow> bool" where
  "in_use s p \<longleftrightarrow> valid_pid p \<and> process_array s p \<noteq> 0"

text \<open>
  A process in use: its block carries its number, its descriptors are well formed, and it is a
  base shell or the child of a process in use of the same terminal that waits for it.
\<close>

definition process_ok :: "'a process_sys_scheme \<Rightarrow> int \<Rightarrow> bool" where
  "process_ok s p \<longleftrightarrow> (let b = pcbs s (pcb_of p); q = parent_pid b
     in pcb_pid b = p \<and> fds_ok (file_array b) \<and>
        (q < 0 \<or> in_use s q \<and> leaf (pcbs s (pcb_of q)) = 0 \<and> pcb_terminal (pcbs s (pcb_of q)) = pcb_terminal b))"

definition only_child :: "'a process_sys_scheme \<Rightarrow> bool" where
  "only_child s \<longleftrightarrow> (\<forall>p q. in_use s p \<longrightarrow> in_use s q \<longrightarrow> 0 \<le> parent_pid (pcbs s (pcb_of p)) \<longrightarrow>
     parent_pid (pcbs s (pcb_of p)) = parent_pid (pcbs s (pcb_of q)) \<longrightarrow> p = q)"

text \<open>
  The current process is runnable and on the terminal the kernel serves, and the task state
  segment names its kernel stack.
\<close>

definition current_ok :: "'a process_sys_scheme \<Rightarrow> bool" where
  "current_ok s \<longleftrightarrow> pcb_terminal (pcbs s (pcb_of (curr_pid s))) = curr_terminal s \<and> tss_esp0 s = pcb_of (curr_pid s) + 0x1FFC"

definition kernel_ok :: "'a process_sys_scheme \<Rightarrow> bool" where
  "kernel_ok s \<longleftrightarrow> sched_ok s \<and> current_ok s \<and> (\<forall>p. in_use s p \<longrightarrow> process_ok s p) \<and> only_child s"

lemmas kernel_ok_defs = kernel_ok_def sched_ok_def current_ok_def process_ok_def only_child_def in_use_def curr_pid_def runnable_def Let_def

lemma keeps_ok:
  assumes "keeps s s'" "kernel_ok s"
  shows "kernel_ok s'"
proof -
  have eq: "process_array s' = process_array s" "terminal_array s' = terminal_array s" "curr_terminal s' = curr_terminal s" "tss_esp0 s' = tss_esp0 s"
    "\<And>a. pcb_pid (pcbs s' a) = pcb_pid (pcbs s a)" "\<And>a. leaf (pcbs s' a) = leaf (pcbs s a)" "\<And>a. parent_pid (pcbs s' a) = parent_pid (pcbs s a)"
    "\<And>a. pcb_terminal (pcbs s' a) = pcb_terminal (pcbs s a)"
    and fds: "\<And>a. fds_ok (file_array (pcbs s a)) \<Longrightarrow> fds_ok (file_array (pcbs s' a))"
    using assms(1) by (simp_all add: keeps_def)
  have "process_ok s' p" if "process_ok s p" for p using that fds by (simp add: process_ok_def in_use_def eq Let_def)
  moreover have "in_use s' = in_use s" "sched_ok s' = sched_ok s" "current_ok s' = current_ok s" "only_child s' = only_child s"
    by (simp_all add: fun_eq_iff sched_ok_def current_ok_def only_child_def in_use_def curr_pid_def runnable_def eq)
  ultimately show ?thesis using assms(2) by (simp add: kernel_ok_def)
qed

section \<open>Interrupts\<close>

lemma keeps_rtc_int: "keeps s (rtc_int s)" for s :: "'a process_sys_scheme"
  by (rule keeps_tables) (simp_all add: rtc_int_def refresh_vidmem_def Let_def cli_def sti_def send_eoi_def outb_def)

lemma keeps_helpers:
  fixes s :: "'a keyboard_scheme"
  shows "keeps s (reset s)" "keeps s (putc c t s)" "keeps s (switch_terminal u s)" "keeps s (set_marker u v s)" "keeps s (set_length u n s)"
    "keeps s (set_lock u n s)" "keeps s (set_enter u n s)" "keeps s (backspace_helper t s)"
proof -
  show "keeps s (reset s)" by (rule keeps_tables) (simp_all add: reset_def Let_def update_cursor_def outb_def set_x_def set_y_def)
  show "keeps s (putc c t s)" by (rule keeps_console [OF putc_console_only])
  show "keeps s (switch_terminal u s)"
    by (rule keeps_tables) (simp_all add: switch_terminal_def update_vidmem_def update_curr_term_def update_cursor_def outb_def Let_def)
  show "keeps s (set_marker u v s)" "keeps s (set_length u n s)" "keeps s (set_lock u n s)" "keeps s (set_enter u n s)"
    by (rule keeps_tables; simp add: set_marker_def set_length_def set_lock_def set_enter_def)+
  have "console_only s (backspace_helper t s)"
    by (simp add: backspace_helper_def putcforcenoscroll_def Let_def) (auto intro!: console_only_trans [OF _ putc_console_only] console_only_after console_only_refl)
  then show "keeps s (backspace_helper t s)" by (rule keeps_console)
qed

lemmas keeps_after = keeps_trans [OF _ keeps_memory] keeps_helpers [THEN keeps_trans [rotated]] keeps_flags [THEN keeps_trans [rotated]]

lemma keeps_key:
  fixes s :: "'a keyboard_scheme"
  shows "keeps s (enter_key k s)" "keeps s (backspace_key s)" "character_key sc k s = Some s' \<Longrightarrow> keeps s s'"
proof -
  show "keeps s (enter_key k s)" by (simp add: enter_key_def Let_def) (intro conjI impI keeps_after keeps_refl)
  show "keeps s (backspace_key s)" by (simp add: backspace_key_def Let_def) (intro conjI impI keeps_after keeps_refl)
  show "character_key sc k s = Some s' \<Longrightarrow> keeps s s'"
    by (auto simp: character_key_def Let_def split: if_splits dest!: puts_console_only
        intro!: keeps_after keeps_refl intro: keeps_trans [OF keeps_helpers(1)] keeps_console)
qed

lemma keeps_handle_scancode: "handle_scancode sc s = Some s' \<Longrightarrow> keeps s s'" for s :: "'a keyboard_scheme"
proof -
  have mod: "keeps s (s\<lparr>is_ctrl := f\<rparr>)" "keeps s (s\<lparr>is_shift := f\<rparr>)" "keeps s (s\<lparr>is_alt := f\<rparr>)" "keeps s (s\<lparr>is_caps := f\<rparr>)" for f
    by (rule keeps_tables; simp)+
  show "handle_scancode sc s = Some s' \<Longrightarrow> keeps s s'"
    by (auto simp: handle_scancode_def Let_def split: if_splits intro: mod keeps_key keeps_helpers keeps_refl)
qed

lemma keeps_kbrd_int: "kbrd_int s = Some s' \<Longrightarrow> keeps s s'" for s :: "'a keyboard_scheme"
  by (auto simp: kbrd_int_def bind_eq_Some_conv split: if_splits intro!: keeps_after intro: keeps_handle_scancode keeps_refl)

lemma keeps_exception: "exception_call w = Some handler \<Longrightarrow> handler conv s = Some s' \<Longrightarrow> keeps s s'" for s :: "'a process_sys_scheme"
proof -
  have r: "keeps s s'" if "report message conv s = Some s'" for message
    using that by (auto simp: report_def bind_eq_Some_conv split: if_splits dest!: keeps_printf intro: keeps_trans [OF keeps_flags(1)])
  show "exception_call w = Some handler \<Longrightarrow> handler conv s = Some s' \<Longrightarrow> keeps s s'"
    by (cases w) (auto dest!: r simp: exception_defs)
qed

lemma pit_int_ok:
  assumes ok: "kernel_ok s" and run: "pit_int s = Some s'"
  shows "kernel_ok s'"
proof -
  let ?n = "in_turn (runnable s) (curr_pid s)" and ?s = "send_eoi PIT_IRQ (cli s)"
  have v: "valid_pid (curr_pid s)" and sched: "sched_ok s" using ok by (simp_all add: kernel_ok_def sched_ok_def)
  have k0: "keeps s ?s" by (rule keeps_trans [OF keeps_flags(1,3)])
  show ?thesis
  proof (cases "?n = curr_pid s")
    case True
    then show ?thesis using pit_int_alone [OF v] run keeps_ok [OF k0 ok] by simp
  next
    case False
    let ?s1 = "save_context (curr_pid s) ?s"
    have s': "s' = resume_context ?n ?s1" using pit_int_switches [OF v False] run by simp
    have "keeps ?s ?s1" by (simp add: keeps_def save_context_def update_pcb_def)
    then have ok1: "kernel_ok ?s1" using keeps_ok [OF keeps_trans [OF k0] ok] by blast
    have n: "valid_pid ?n" "runnable s ?n" using in_turn_valid [OF v] in_turn_ready False by auto
    have "sched_ok s'" "curr_pid s' = ?n" using pit_int_step [OF sched] run by auto
    then have "current_ok s'" by (simp add: current_ok_def s')
    moreover have "process_ok s' p = process_ok ?s1 p" "in_use s' p = in_use ?s1 p" "only_child s' = only_child ?s1" for p
      by (simp_all add: s' process_ok_def in_use_def only_child_def)
    ultimately show ?thesis using ok1 \<open>sched_ok s'\<close> by (simp add: kernel_ok_def)
  qed
qed

section \<open>Descriptor calls\<close>

lemma keeps_set_fd:
  fixes s :: "'a keyboard_scheme"
  assumes "\<And>f. fop_jump_table f \<in> set tables \<Longrightarrow> fop_jump_table (g f) \<in> set tables"
  shows "keeps s (set_fd a i g s)"
proof -
  have "fds_ok (fs[nat i := g (fs ! nat i)])" if fs: "fds_ok fs" for fs
  proof (cases "nat i < 8")
    case True
    then show ?thesis using fds_ok_update [OF fs assms [OF fds_ok_nth [OF fs]]] by blast
  next
    case False
    then have "fs[nat i := g (fs ! nat i)] = fs" using fs by (simp add: fds_ok_def list_update_beyond)
    then show ?thesis using fs by simp
  qed
  moreover have "tss_esp0 (set_fd a i g s) = tss_esp0 s" by (simp add: set_fd_def)
  ultimately show ?thesis by (simp add: keeps_def)
qed

lemma keeps_some_memory: "\<exists>m. s' = s\<lparr>memory := m\<rparr> \<Longrightarrow> keeps s s'" for s :: "'a process_sys_scheme"
  using keeps_memory by blast

lemma keeps_dir_read: "dir_read d fd buf n off s = Some (r, s') \<Longrightarrow> keeps s s'" for s :: "'a process_sys_scheme"
proof -
  have i: "keeps s s'" if "read_dentry_by_index off d s = (r, s')" for s s' :: "'a process_sys_scheme" and r
    using that by (auto simp: read_dentry_by_index_def copy_dentry_def Let_def split: if_splits intro: keeps_memory keeps_refl)
  show "dir_read d fd buf n off s = Some (r, s') \<Longrightarrow> keeps s s'"
    by (auto simp: dir_read_def Let_def bind_eq_Some_conv split: if_splits prod.splits dest!: i intro!: keeps_after intro: keeps_trans [OF keeps_memory])
qed

lemma keeps_change_rate: "keeps s (change_rate r s)" for s :: "'a process_sys_scheme"
  by (rule keeps_tables) (simp_all add: change_rate_def Let_def cli_def sti_def outb_def disable_irq_def enable_irq_def)

lemma keeps_terminal_write: "keeps s (snd (terminal_write fd buf n s))" for s :: "'a keyboard_scheme"
proof -
  have "keeps u (fold (\<lambda>i s. putc (memory s (buf + of_nat i)) (get_curr_pcb_term s) s) is u)" for "is" and u :: "'a keyboard_scheme"
    by (induction "is" arbitrary: u) (auto intro: keeps_refl keeps_trans [OF keeps_helpers(2)])
  then show ?thesis
    by (auto simp: terminal_write_def Let_def intro: keeps_refl keeps_trans [OF keeps_flags(1)] intro!: keeps_trans [OF _ keeps_flags(2)])
qed

lemma keeps_call_write: "call_write f ino buf n s = Some (r, s') \<Longrightarrow> keeps s s'" for s :: "'a keyboard_scheme"
  using keeps_terminal_write [of s ino buf n]
  by (auto simp: call_write_def rtc_write_def dir_write_def file_write_def no_func_def Let_def split: fop.splits if_splits
      intro: keeps_refl keeps_change_rate)

lemma keeps_call_open: "call_open L f name s = Some (r, s') \<Longrightarrow> keeps s s'" for s :: "'a keyboard_scheme"
  by (auto simp: call_open_def terminal_open_def rtc_open_def dir_open_def file_open_def no_func_def bind_eq_Some_conv split: fop.splits
      dest!: read_dentry_memory intro: keeps_refl keeps_memory)

lemma keeps_call_close: "call_close f ino s = Some (r, s') \<Longrightarrow> keeps s s'" for s :: "'a keyboard_scheme"
  by (auto simp: call_close_def terminal_close_def rtc_close_def dir_close_def file_close_def no_func_def split: fop.splits if_splits
      intro: keeps_refl)

lemma keeps_write_fd: "write_fd fd buf n s = Some (r, s') \<Longrightarrow> keeps s s'" for s :: "'a keyboard_scheme"
  by (auto simp: write_fd_def Let_def split: if_splits intro: keeps_refl keeps_call_write)

lemma keeps_close_fd: "close_fd fd s = Some (r, s') \<Longrightarrow> keeps s s'" for s :: "'a keyboard_scheme"
  by (auto simp: close_fd_def Let_def bind_eq_Some_conv closed_fd_def split: if_splits
      intro: keeps_refl intro!: keeps_trans [OF keeps_call_close keeps_set_fd])

lemma opened_fd_table: "ft < 3 \<Longrightarrow> fop_jump_table (opened_fd ft ino f) \<in> set tables" for ft :: u32
  by (elim term_cases) (simp_all add: opened_fd_def table_defs)

lemma keeps_open_fd:
  fixes s :: "'a keyboard_scheme"
  assumes "open_fd L name s = Some (r, s')"
  shows "keeps s s'"
proof (cases "name = 0")
  case True
  then show ?thesis using assms by (simp add: open_fd_def keeps_refl)
next
  case False
  then obtain test s1 where rd: "read_dentry_by_name name (l_dentry L) s = Some (test, s1)"
    using assms by (auto simp: open_fd_def Let_def bind_eq_Some_conv)
  have k1: "keeps s s1" using read_dentry_memory [OF rd] by (rule keeps_some_memory)
  let ?i = "int (free_fd (file_array (pcbs s1 (curr_pcb s))))" and ?g = "opened_fd (dentry_file_type (memory s1) (l_dentry L)) (dentry_inode_num (memory s1) (l_dentry L))"
  consider "s' = s1" | f q where "dentry_file_type (memory s1) (l_dentry L) < 3" "call_open L f name (set_fd (curr_pcb s) ?i ?g s1) = Some (q, s')"
    using assms False rd by (auto simp: open_fd_def Let_def bind_eq_Some_conv not_le split: if_splits)
  then show ?thesis
  proof cases
    case 1
    then show ?thesis using k1 by simp
  next
    case 2
    have "keeps s1 (set_fd (curr_pcb s) ?i ?g s1)" using opened_fd_table [OF 2(1)] by (intro keeps_set_fd)
    then show ?thesis using keeps_call_open [OF 2(2)] k1 by (blast intro: keeps_trans)
  qed
qed

text \<open>A blocking read: the handlers that run while it waits keep the invariant, and so does the read.\<close>

definition handlers_ok :: "'a process_sys_scheme handler list \<Rightarrow> bool" where
  "handlers_ok hs \<longleftrightarrow> (\<forall>h\<in>set hs. \<forall>u u'. h u = Some u' \<longrightarrow> kernel_ok u \<longrightarrow> kernel_ok u')"

lemma spin_until_ok:
  fixes s :: "'a process_sys_scheme"
  assumes "handlers_ok hs" "kernel_ok s" "spin_until p hs s = Some s'"
  shows "kernel_ok s'"
  using assms
proof (induction hs arbitrary: s)
  case Nil
  then show ?case by (auto split: if_splits)
next
  case (Cons h hs)
  have flag: "keeps u (u\<lparr>int_flag := b\<rparr>)" for u :: "'a process_sys_scheme" and b by (rule keeps_tables) simp_all
  have step: "kernel_ok u" if "take_interrupt h s = Some u" for u
    using that Cons.prems(1) keeps_ok [OF flag] Cons.prems(2) by (auto simp: take_interrupt_def handlers_ok_def)
  show ?case
  proof (cases "p s")
    case True
    then show ?thesis using Cons.prems by simp
  next
    case False
    then obtain u where u: "take_interrupt h s = Some u" "spin_until p hs u = Some s'"
      using Cons.prems(3) by (auto simp: bind_eq_Some_conv split: if_splits)
    show ?thesis by (rule Cons.IH [OF _ step [OF u(1)] u(2)]) (use Cons.prems(1) in \<open>simp add: handlers_ok_def\<close>)
  qed
qed

lemma keeps_transfer_line: "keeps s (transfer_line buf n w s)" for s :: "'a keyboard_scheme"
  by (rule keeps_tables) (simp_all add: transfer_line_def Let_def set_marker_def)

lemma call_read_ok:
  fixes s :: "'a keyboard_scheme"
  assumes hs: "handlers_ok hs" and ok: "kernel_ok s"
    and run: "call_read L hs f ino buf n pos s = Some (r, s')"
  shows "kernel_ok s'"
proof -
  have typed: "kernel_ok s'" if tr: "terminal_read hs ino buf n s = Some (r, s')"
  proof (cases "buf = 0")
    case True
    then show ?thesis using that ok by (simp add: terminal_read_def)
  next
    case False
    let ?s0 = "set_enter (current_terminal s) 0 (set_lock (current_terminal s) 1 s)"
    obtain u where u: "spin_until (\<lambda>s. is_enter s (uint (get_curr_pcb_term s)) \<noteq> 0) hs ?s0 = Some u"
      using tr False by (auto simp: terminal_read_def Let_def bind_eq_Some_conv)
    have "keeps s ?s0" by (intro keeps_after keeps_refl)
    then have "kernel_ok u" using spin_until_ok [OF hs keeps_ok [OF _ ok] u] by blast
    moreover have "keeps u s'"
      using tr False u by (auto simp: terminal_read_def Let_def
          intro!: keeps_after keeps_trans [OF _ keeps_transfer_line] keeps_refl)
    ultimately show ?thesis using keeps_ok by blast
  qed
  have clock: "kernel_ok s'" if rr: "rtc_read hs ino buf n s = Some (r, s')"
  proof -
    obtain u where u: "spin_until (\<lambda>s. readFlag s \<noteq> 0) hs s = Some u" "s' = u\<lparr>readFlag := 0\<rparr>"
      using rr by (auto simp: rtc_read_def bind_eq_Some_conv)
    have "keeps u s'" unfolding u(2) by (rule keeps_tables) simp_all
    then show ?thesis using spin_until_ok [OF hs ok u(1)] keeps_ok by blast
  qed
  have "keeps s s'" if "f \<noteq> Terminal_read" "f \<noteq> Rtc_read"
    using run that by (auto simp: call_read_def no_func_def split: fop.splits dest!: file_read_memory
        intro: keeps_refl keeps_dir_read keeps_memory)
  then show ?thesis using run typed clock keeps_ok [OF _ ok] by (cases "f = Terminal_read \<or> f = Rtc_read") (auto simp: call_read_def)
qed

lemma read_fd_ok:
  fixes s :: "'a keyboard_scheme"
  assumes hs: "handlers_ok hs" and ok: "kernel_ok s"
    and run: "read_fd L hs fd buf n s = Some (r, s')"
  shows "kernel_ok s'"
proof (cases "fd < 0 \<or> fd \<ge> MAX_OPEN_FILES \<or> buf = 0")
  case True
  then show ?thesis using run ok by (simp add: read_fd_def Let_def split: if_splits)
next
  case False
  let ?f = "fd_at (curr_pcb s) fd (sti s)"
  let ?g = "\<lambda>v f. f\<lparr>file_position := file_position f + (if fd_file_type f = 1 then (if v > 0 then 1 else 0) else v)\<rparr>"
  obtain v u where u: "call_read L hs (fop_jump_table ?f ! READ_INDEX) (fd_inode ?f) buf n (file_position ?f) (sti s) = Some (v, u)"
    using run False by (auto simp: read_fd_def Let_def bind_eq_Some_conv)
  have s': "s' = set_fd (curr_pcb s) fd (?g v) u"
    using run False u by (simp add: read_fd_def Let_def split: if_split_asm)
  have "kernel_ok u" using call_read_ok [OF hs keeps_ok [OF keeps_flags(2) ok] u] by blast
  moreover have "keeps u s'" unfolding s' by (rule keeps_set_fd) simp
  ultimately show ?thesis using keeps_ok by blast
qed

section \<open>Starting and ending programs\<close>

fun left :: "'s outcome \<Rightarrow> 's" where
  "left (Return r s) = s"
| "left (Enter_user s) = s"
| "left (Resume r s) = s"

lemma execute_result:
  assumes "execute L command s = Some out"
  shows "(\<exists>r s'. out = Return r s' \<and> keeps s s') \<or> (\<exists>s'. out = Enter_user s')"
proof -
  have rd: "keeps s1 s2" if "read_dentry_by_name f d s1 = Some (r, s2)" for f d r and s1 s2 :: "'a keyboard_scheme"
    using read_dentry_memory [OF that] by (rule keeps_some_memory)
  have fr: "keeps s1 s2" if "file_read f buf n off s1 = (r, s2)" for f buf n off r and s1 s2 :: "'a keyboard_scheme"
    using file_read_memory [OF that] by (rule keeps_some_memory)
  have lp: "keeps s1 s2" if "load_program f a s1 = (r, s2)" for f a r and s1 s2 :: "'a keyboard_scheme"
    using load_program_memory [OF that] by (rule keeps_some_memory)
  have chain: "keeps u v" if "keeps (s\<lparr>memory := m\<rparr>) u'" "keeps u' v'" "s = u" "v' = v" for m u u' v v'
    using keeps_trans [OF keeps_memory keeps_trans [OF that(1,2)]] that(3,4) by simp
  have load: "keeps u w" if "keeps (s\<lparr>memory := m\<rparr>) u'" "keeps u' v" "keeps (change_process q v) w" "s = u" for m u u' v w q
    using keeps_trans [OF keeps_trans [OF chain [OF that(1,2) refl refl] keeps_flags(5)] that(3)] that(4) by simp
  show ?thesis
    using assms
    by (auto simp: execute_def Let_def bind_eq_Some_conv keeps_memory split: if_split_asm prod.split_asm dest!: rd fr lp
        intro: keeps_trans [OF keeps_memory]) (erule (1) chain load; (assumption | rule refl))+
qed

text \<open>
  What a successful \<open>execute\<close> does to the tables: a child \<open>c\<close> of the current process takes over
  its terminal, and the parent stops being a leaf. The facts a proof about it needs come first.
\<close>

definition spawned :: "int \<Rightarrow> 'a process_sys_scheme \<Rightarrow> 'a process_sys_scheme \<Rightarrow> bool" where
  "spawned c s s' \<longleftrightarrow> valid_pid c \<and> process_array s c = 0 \<and> process_array s' = (process_array s)(c := 1) \<and>
     terminal_array s' = (terminal_array s)(curr_terminal s := c) \<and> curr_terminal s' = curr_terminal s \<and> tss_esp0 s' = pcb_of c + 0x1FFC \<and>
     pcbs s' (pcb_of (curr_pid s)) = (pcbs s (pcb_of (curr_pid s)))\<lparr>leaf := 0\<rparr> \<and>
     (let b = pcbs s' (pcb_of c) in pcb_pid b = c \<and> leaf b = 1 \<and> fds_ok (file_array b) \<and> parent_pid b = curr_pid s \<and> pcb_terminal b = curr_terminal s) \<and>
     (\<forall>q. valid_pid q \<longrightarrow> q \<noteq> curr_pid s \<longrightarrow> q \<noteq> c \<longrightarrow> pcbs s' (pcb_of q) = pcbs s (pcb_of q))"

lemma current_process:
  assumes "kernel_ok s"
  shows "valid_pid (curr_pid s)" "in_use s (curr_pid s)" "leaf (pcbs s (pcb_of (curr_pid s))) \<noteq> 0"
    "pcb_terminal (pcbs s (pcb_of (curr_pid s))) = curr_terminal s" "process_ok s (curr_pid s)" "tss_esp0 s = pcb_of (curr_pid s) + 0x1FFC"
  using assms by (auto simp: kernel_ok_def sched_ok_def current_ok_def in_use_def runnable_def)

lemma spawnedD:
  assumes sp: "spawned c s s'" and ok: "kernel_ok s"
  shows "curr_pid s \<noteq> c" "curr_pid s' = c" "in_use s' q \<longleftrightarrow> in_use s q \<or> q = c"
    and "valid_pid q \<Longrightarrow> runnable s' q \<longleftrightarrow> q = c \<or> q \<noteq> curr_pid s \<and> runnable s q"
    and "in_use s q \<Longrightarrow> parent_pid (pcbs s (pcb_of q)) \<noteq> curr_pid s" "in_use s q \<Longrightarrow> parent_pid (pcbs s (pcb_of q)) \<noteq> c"
    and "in_use s q \<Longrightarrow> parent_pid (pcbs s' (pcb_of q)) = parent_pid (pcbs s (pcb_of q))"
proof -
  note p = current_process [OF ok]
  show ne: "curr_pid s \<noteq> c" using sp p(2) by (auto simp: spawned_def in_use_def)
  show "curr_pid s' = c" using sp by (simp add: spawned_def curr_pid_def)
  show "in_use s' q \<longleftrightarrow> in_use s q \<or> q = c" using sp by (auto simp: spawned_def in_use_def)
  show "valid_pid q \<Longrightarrow> runnable s' q \<longleftrightarrow> q = c \<or> q \<noteq> curr_pid s \<and> runnable s q"
    using sp ne by (cases "q = c"; cases "q = curr_pid s") (auto simp: spawned_def runnable_def Let_def)
  assume q: "in_use s q"
  then have "process_ok s q" using ok by (simp add: kernel_ok_def)
  then show "parent_pid (pcbs s (pcb_of q)) \<noteq> curr_pid s" "parent_pid (pcbs s (pcb_of q)) \<noteq> c"
    using p sp by (auto simp: process_ok_def Let_def in_use_def valid_pid_def spawned_def)
  have "valid_pid q" "q \<noteq> c" using q sp by (auto simp: in_use_def spawned_def)
  then show "parent_pid (pcbs s' (pcb_of q)) = parent_pid (pcbs s (pcb_of q))" using sp by (cases "q = curr_pid s") (auto simp: spawned_def)
qed

lemma spawned_slot:
  assumes sp: "spawned c s s'" and ok: "kernel_ok s" and q: "valid_pid q" "runnable s' q"
  shows "terminal_array s' (pcb_terminal (pcbs s' (pcb_of q))) = q"
proof (cases "q = c")
  case True
  then show ?thesis using sp by (auto simp: spawned_def Let_def)
next
  case False
  then have r: "q \<noteq> curr_pid s" "runnable s q" using spawnedD(4) [OF sp ok q(1)] q(2) by auto
  have "terminal_array s (pcb_terminal (pcbs s (pcb_of q))) = q" using ok sched_okD r(2) q(1) by (auto simp: kernel_ok_def)
  then show ?thesis using sp r False q(1) by (auto simp: spawned_def curr_pid_def)
qed

lemma spawned_process:
  assumes sp: "spawned c s s'" and ok: "kernel_ok s" and q: "in_use s' q"
  shows "process_ok s' q"
proof (cases "q = c")
  case True
  then show ?thesis using sp current_process(2,4) [OF ok] spawnedD(3) [OF sp ok] by (auto simp: spawned_def process_ok_def Let_def)
next
  case False
  note D = spawnedD [OF sp ok]
  have u: "in_use s q" "process_ok s q" "valid_pid q" using False q D(3) ok by (auto simp: kernel_ok_def in_use_def)
  let ?r = "parent_pid (pcbs s (pcb_of q))"
  have "?r < 0 \<or> pcbs s' (pcb_of ?r) = pcbs s (pcb_of ?r)"
    using u(2) D(5,6) [OF u(1)] sp by (auto simp: process_ok_def Let_def in_use_def spawned_def)
  then show ?thesis
    using u False sp D(3) by (cases "q = curr_pid s") (auto simp: process_ok_def Let_def spawned_def)
qed

lemma spawned_ok:
  assumes sp: "spawned c s s'" and ok: "kernel_ok s"
  shows "kernel_ok s'"
proof -
  note D = spawnedD [OF sp ok]
  have "q = r" if "in_use s' q" "in_use s' r" "0 \<le> parent_pid (pcbs s' (pcb_of q))" "parent_pid (pcbs s' (pcb_of q)) = parent_pid (pcbs s' (pcb_of r))" for q r
  proof (cases "q = c \<or> r = c")
    case True
    have "parent_pid (pcbs s' (pcb_of c)) = curr_pid s" using sp by (simp add: spawned_def Let_def)
    then show ?thesis using that True D(3,5,7) by auto
  next
    case False
    then show ?thesis using that D(3,7) ok by (auto simp: kernel_ok_def only_child_def)
  qed
  then have "only_child s'" by (auto simp: only_child_def)
  moreover have "sched_ok s'" using D(2) D(4) [of c] sp spawned_slot [OF sp ok] by (auto simp: sched_ok_def valid_pid_def spawned_def)
  moreover have "current_ok s'" using sp D(2) by (auto simp: current_ok_def spawned_def Let_def)
  ultimately show ?thesis using spawned_process [OF sp ok] by (simp add: kernel_ok_def)
qed

lemma execute_spawns:
  fixes s :: "'a keyboard_scheme"
  assumes ok: "kernel_ok s" and stk: "curr_pcb s = pcb_of (curr_pid s)" and run: "execute L command s = Some (Enter_user s')"
  shows "spawned (get_next_pid s) s s'"
proof -
  let ?c = "get_next_pid s" and ?p = "curr_pid s"
  obtain s0 where s': "s' = return_to_user ?c (setup_pcb ?c s0)" and c: "0 \<le> ?c" "?c < 6" "process_array s ?c = 0"
    and s0: "pcbs s0 = pcbs s" "process_array s0 = (process_array s)(?c := 1)" "terminal_array s0 = (terminal_array s)(curr_terminal s := ?c)"
      "curr_terminal s0 = curr_terminal s" "esp s0 = esp s" "ebp s0 = ebp s"
    using execute_enters [OF run] by metis
  note p = current_process [OF ok]
  have vc: "valid_pid ?c" using c by (simp add: valid_pid_def)
  have cp: "curr_pcb s0 = pcb_of ?p" using stk s0 by (simp add: curr_pcb_def)
  have "?p \<noteq> ?c" using p(2) c(3) by (auto simp: in_use_def)
  then have ad: "curr_pcb s0 \<noteq> pcb_of ?c" using pcb_of_inj [OF p(1) vc] cp by simp
  note fr = setup_pcb_frame [OF ad, unfolded cp s0(1) p(4)]
  have "pcb_pid (pcbs s (pcb_of ?p)) = ?p" using p(5) by (simp add: process_ok_def Let_def)
  moreover have "pcbs (setup_pcb ?c s0) (pcb_of q) = pcbs s (pcb_of q)" if "valid_pid q" "q \<noteq> ?p" "q \<noteq> ?c" for q
    using fr(6) [of "pcb_of q"] that pcb_of_inj p(1) vc by simp
  ultimately show ?thesis
    using vc c fr(1,2,4,5,7) s0 fds_ok_initial return_to_user_frame(6) [of ?c "setup_pcb ?c s0"] by (simp add: spawned_def s' Let_def)
qed

text \<open>
  What \<open>halt\<close> of a program with a parent does: the current process leaves the table, and its
  parent is the leaf of the terminal again.
\<close>

definition ended :: "'a process_sys_scheme \<Rightarrow> 'a process_sys_scheme \<Rightarrow> bool" where
  "ended s s' \<longleftrightarrow> (let q = curr_pid s; p = parent_pid (pcbs s (pcb_of q))
     in 0 \<le> p \<and> process_array s' = (process_array s)(q := 0) \<and> terminal_array s' = (terminal_array s)(curr_terminal s := p) \<and>
        curr_terminal s' = curr_terminal s \<and> tss_esp0 s' = pcb_of p + 0x1FFC \<and>
        pcbs s' (pcb_of p) = (pcbs s (pcb_of p))\<lparr>leaf := 1\<rparr> \<and>
        (\<forall>r. valid_pid r \<longrightarrow> r \<noteq> q \<longrightarrow> r \<noteq> p \<longrightarrow> pcbs s' (pcb_of r) = pcbs s (pcb_of r)))"

lemma parent_process:
  assumes ok: "kernel_ok s" and q: "in_use s q" "0 \<le> parent_pid (pcbs s (pcb_of q))"
  shows "in_use s (parent_pid (pcbs s (pcb_of q)))" "leaf (pcbs s (pcb_of (parent_pid (pcbs s (pcb_of q))))) = 0"
    "pcb_terminal (pcbs s (pcb_of (parent_pid (pcbs s (pcb_of q))))) = pcb_terminal (pcbs s (pcb_of q))"
  using assms by (auto simp: kernel_ok_def process_ok_def Let_def)

lemma endedD:
  fixes s s' :: "'a process_sys_scheme" and q p :: int
  defines "q \<equiv> curr_pid s"
  defines "p \<equiv> parent_pid (pcbs s (pcb_of q))"
  assumes en: "ended s s'" and ok: "kernel_ok s"
  shows "p \<noteq> q" "curr_pid s' = p" "in_use s' r \<longleftrightarrow> in_use s r \<and> r \<noteq> q" "in_use s p" "leaf (pcbs s (pcb_of p)) = 0"
    and "pcb_terminal (pcbs s (pcb_of p)) = curr_terminal s"
    and "in_use s r \<Longrightarrow> r \<noteq> q \<Longrightarrow> pcb_pid (pcbs s' (pcb_of r)) = pcb_pid (pcbs s (pcb_of r)) \<and>
      file_array (pcbs s' (pcb_of r)) = file_array (pcbs s (pcb_of r)) \<and> parent_pid (pcbs s' (pcb_of r)) = parent_pid (pcbs s (pcb_of r)) \<and>
      pcb_terminal (pcbs s' (pcb_of r)) = pcb_terminal (pcbs s (pcb_of r)) \<and> leaf (pcbs s' (pcb_of r)) = (if r = p then 1 else leaf (pcbs s (pcb_of r)))"
    and "in_use s r \<Longrightarrow> r \<noteq> q \<Longrightarrow> parent_pid (pcbs s (pcb_of r)) \<noteq> q"
    and "in_use s r \<Longrightarrow> r \<noteq> q \<Longrightarrow> parent_pid (pcbs s (pcb_of r)) \<noteq> p"
proof -
  note c = current_process [OF ok, folded q_def]
  have p0: "0 \<le> p" using en by (simp add: ended_def p_def q_def Let_def)
  note par = parent_process [OF ok c(2) p0 [unfolded p_def], folded p_def]
  show "in_use s p" "leaf (pcbs s (pcb_of p)) = 0" "pcb_terminal (pcbs s (pcb_of p)) = curr_terminal s" using par c(4) by simp_all
  show ne: "p \<noteq> q" using par(2) c(3) by auto
  show "curr_pid s' = p" using en by (simp add: ended_def p_def q_def Let_def curr_pid_def)
  show "in_use s' r \<longleftrightarrow> in_use s r \<and> r \<noteq> q" using en by (auto simp: ended_def q_def Let_def in_use_def)
  assume r: "in_use s r" "r \<noteq> q"
  then show "pcb_pid (pcbs s' (pcb_of r)) = pcb_pid (pcbs s (pcb_of r)) \<and>
      file_array (pcbs s' (pcb_of r)) = file_array (pcbs s (pcb_of r)) \<and> parent_pid (pcbs s' (pcb_of r)) = parent_pid (pcbs s (pcb_of r)) \<and>
      pcb_terminal (pcbs s' (pcb_of r)) = pcb_terminal (pcbs s (pcb_of r)) \<and> leaf (pcbs s' (pcb_of r)) = (if r = p then 1 else leaf (pcbs s (pcb_of r)))"
    using en ne by (cases "r = p") (auto simp: ended_def p_def q_def Let_def in_use_def)
  show "parent_pid (pcbs s (pcb_of r)) \<noteq> q" using parent_process(2) [OF ok r(1)] c(1,3) by (auto simp: valid_pid_def)
  show "parent_pid (pcbs s (pcb_of r)) \<noteq> p" using ok r c(2) p0 by (auto simp: kernel_ok_def only_child_def p_def)
qed

lemma ended_slot:
  assumes en: "ended s s'" and ok: "kernel_ok s" and r: "valid_pid r" "runnable s' r"
  shows "terminal_array s' (pcb_terminal (pcbs s' (pcb_of r))) = r"
proof -
  note D = endedD [OF en ok]
  have use: "in_use s r" "r \<noteq> curr_pid s" using r D(3) [of r] by (auto simp: in_use_def runnable_def)
  have slots: "terminal_array s' = (terminal_array s)(curr_terminal s := parent_pid (pcbs s (pcb_of (curr_pid s))))"
    using en by (simp add: ended_def Let_def)
  show ?thesis
  proof (cases "r = parent_pid (pcbs s (pcb_of (curr_pid s)))")
    case True
    then show ?thesis using D(6) D(7) [OF use] by (simp add: slots)
  next
    case False
    have "runnable s r" using r(2) use D(7) [OF use] False by (auto simp: runnable_def in_use_def)
    then have "terminal_array s (pcb_terminal (pcbs s (pcb_of r))) = r" using ok sched_okD r(1) by (auto simp: kernel_ok_def)
    then show ?thesis using use D(7) [OF use] by (auto simp: slots curr_pid_def)
  qed
qed

lemma ended_ok:
  assumes en: "ended s s'" and ok: "kernel_ok s"
  shows "kernel_ok s'"
proof -
  note D = endedD [OF en ok]
  let ?p = "parent_pid (pcbs s (pcb_of (curr_pid s)))"
  have p: "valid_pid ?p" "leaf (pcbs s' (pcb_of ?p)) = 1" "pcb_terminal (pcbs s' (pcb_of ?p)) = curr_terminal s" "process_array s' ?p \<noteq> 0"
    using D(4) D(7) [OF D(4,1)] D(3) [of ?p] D(1,6) by (auto simp: in_use_def)
  have "process_ok s' r" if "in_use s' r" for r
  proof -
    have r: "in_use s r" "r \<noteq> curr_pid s" "process_ok s r" using that D(3) ok by (auto simp: kernel_ok_def)
    let ?x = "parent_pid (pcbs s (pcb_of r))"
    note same = D(7) [OF r(1,2)]
    show ?thesis
    proof (cases "?x < 0")
      case True
      then show ?thesis using r(3) same by (simp add: process_ok_def Let_def)
    next
      case False
      then have x: "in_use s ?x" "leaf (pcbs s (pcb_of ?x)) = 0" "pcb_terminal (pcbs s (pcb_of ?x)) = pcb_terminal (pcbs s (pcb_of r))"
        using parent_process [OF ok r(1)] by simp_all
      then have "in_use s' ?x" "leaf (pcbs s' (pcb_of ?x)) = 0" "pcb_terminal (pcbs s' (pcb_of ?x)) = pcb_terminal (pcbs s (pcb_of r))"
        using D(7) [OF x(1) D(8) [OF r(1,2)]] D(8,9) [OF r(1,2)] D(3) by simp_all
      then show ?thesis using r(3) same by (simp add: process_ok_def Let_def)
    qed
  qed
  moreover have "only_child s'"
    unfolding only_child_def
  proof (intro allI impI)
    fix r u assume u: "in_use s' r" "in_use s' u" and eq: "0 \<le> parent_pid (pcbs s' (pcb_of r))" "parent_pid (pcbs s' (pcb_of r)) = parent_pid (pcbs s' (pcb_of u))"
    then show "r = u" using ok D(3) D(7) [of r] D(7) [of u] by (simp add: kernel_ok_def only_child_def)
  qed
  moreover have "sched_ok s'" using p D(2) ended_slot [OF en ok] by (auto simp: sched_ok_def runnable_def valid_pid_def)
  moreover have "current_ok s'" using en D(2) p(3) by (auto simp: current_ok_def ended_def Let_def)
  ultimately show ?thesis by (simp add: kernel_ok_def)
qed

lemma keeps_return_to_user: "kernel_ok s \<Longrightarrow> keeps s (return_to_user (curr_pid s) s)" for s :: "'a keyboard_scheme"
  using current_process(6) [of s] return_to_user_frame(6) [of "curr_pid s" s] by (intro keeps_tables) simp_all

text \<open>A base shell cannot be halted: it is reported and restarted from its entry point.\<close>

lemma halt_base:
  fixes s :: "'a keyboard_scheme"
  assumes ok: "kernel_ok s" and base: "parent_pid (pcbs s (pcb_of (curr_pid s))) < 0" and run: "halt L status s = Some out"
  shows "keeps s (left out)"
proof -
  have b: "parent_pid (pcbs s (pcb_of (terminal_array s (curr_terminal s)))) < 0" using base by (simp add: curr_pid_def)
  obtain u v n r w i k where u: "printf (l_conv L) halt_message [] s = Some (u, n)"
    and v: "read_dentry_by_name (l_fname L) (l_dentry L) (u\<lparr>memory := write_bytes (memory u) (l_fname L) shell_name\<rparr>) = Some (r, v)"
    and w: "file_read i (l_buf L) 4 0 v = (k, w)"
    and out: "out = Return FAILURE v \<or> out = Return FAILURE w \<or> out = Enter_user (return_to_user (terminal_array w (curr_terminal w)) w)"
    using run b by (auto simp: halt_def Let_def bind_eq_Some_conv split: if_split_asm prod.split_asm)
  have kv: "keeps s v" using keeps_trans [OF keeps_printf [OF u] keeps_trans [OF keeps_memory keeps_some_memory [OF read_dentry_memory [OF v]]]] .
  then have kw: "keeps s w" using keeps_trans keeps_some_memory [OF file_read_memory [OF w]] by blast
  have "keeps s (return_to_user (curr_pid w) w)" using keeps_trans [OF kw keeps_return_to_user [OF keeps_ok [OF kw ok]]] .
  then show ?thesis using out kv kw by (auto simp: curr_pid_def)
qed

lemma halt_ends:
  fixes s :: "'a keyboard_scheme"
  assumes ok: "kernel_ok s" and stk: "curr_pcb s = pcb_of (curr_pid s)" and par: "0 \<le> parent_pid (pcbs s (pcb_of (curr_pid s)))"
  shows "\<exists>s'. halt L status s = Some (Resume 0 s') \<and> ended s s'"
proof -
  let ?q = "curr_pid s"
  let ?p = "parent_pid (pcbs s (pcb_of ?q))"
  note c = current_process [OF ok]
  note p = parent_process [OF ok c(2) par]
  have v: "valid_pid ?p" using p(1) by (simp add: in_use_def)
  have ne: "?p \<noteq> ?q" using p(2) c(3) by auto
  have fds: "fds_ok (file_array (pcbs s (pcb_of ?q)))" using c(5) by (simp add: process_ok_def Let_def)
  obtain s' fs where h: "halt L status s = Some (Resume 0 s')"
    and r: "curr_terminal s' = curr_terminal s" "terminal_array s' = (terminal_array s)(curr_terminal s := ?p)"
      "process_array s' = (process_array s)(?q := 0)"
      "pcbs s' = (pcbs s)(pcb_of ?q := (pcbs s (pcb_of ?q))\<lparr>file_array := fs\<rparr>, pcb_of ?p := (pcbs s (pcb_of ?p))\<lparr>leaf := 1\<rparr>)"
      "tss_esp0 s' = pcb_of ?p + 0x1FFC"
    using halt_resumes [OF c(1) v ne stk fds, of L status] by metis
  have "pcb_of x \<noteq> pcb_of ?q" "pcb_of x \<noteq> pcb_of ?p" if "valid_pid x" "x \<noteq> ?q" "x \<noteq> ?p" for x
    using that pcb_of_inj c(1) v by simp_all
  then have "ended s s'" using r par by (simp add: ended_def Let_def)
  then show ?thesis using h by blast
qed

section \<open>System calls keep the invariant\<close>

lemma entry_ok:
  fixes s :: "'a keyboard_scheme"
  assumes "kernel_ok s"
  shows "kernel_ok (int_0x80 s)" "curr_pid (int_0x80 s) = curr_pid s" "curr_pcb (int_0x80 s) = pcb_of (curr_pid s)"
proof -
  have "keeps s (int_0x80 s)" by (rule keeps_tables) (simp_all add: int_0x80_frame)
  then show "kernel_ok (int_0x80 s)" using keeps_ok assms by blast
  show "curr_pid (int_0x80 s) = curr_pid s" by (simp add: curr_pid_def int_0x80_frame)
  have "in_region (pcb_of (curr_pid s) + 0x1FE8) (pcb_of (curr_pid s)) 0x2000"
    using in_region_offset [of "0x1FE8" "0x2000" "pcb_of (curr_pid s)"] by simp
  moreover have "esp (int_0x80 s) = pcb_of (curr_pid s) + 0x1FE8" using current_process(6) [OF assms] by (simp add: int_0x80_frame)
  ultimately show "curr_pcb (int_0x80 s) = pcb_of (curr_pid s)"
    using esp_mask_pcb [OF current_process(1) [OF assms]] by (simp add: curr_pcb_def)
qed

lemma keeps_getargs: "getargs buf n s = Some (r, s') \<Longrightarrow> keeps s s'" for s :: "'a keyboard_scheme"
  by (auto simp: getargs_def Let_def bind_eq_Some_conv split: if_splits intro: keeps_refl keeps_memory)

lemma keeps_vidmap: "keeps s (snd (vidmap a s))" for s :: "'a keyboard_scheme"
  by (simp add: vidmap_def keeps_refl keeps_memory)

lemma sys_int_w_ok:
  fixes s :: "'a keyboard_scheme"
  assumes hs: "handlers_ok hs" and ok: "kernel_ok s" and stk: "curr_pcb s = pcb_of (curr_pid s)"
    and run: "sys_int_w L hs eax ebx ecx edx s = Some out"
  shows "kernel_ok (left out)"
proof -
  have halt: "kernel_ok (left out)" if "halt L st s = Some out" for st
  proof (cases "parent_pid (pcbs s (pcb_of (curr_pid s))) < 0")
    case True
    then show ?thesis using halt_base [OF ok _ that] keeps_ok ok by blast
  next
    case False
    then show ?thesis using halt_ends [OF ok stk, of L st] that ended_ok ok by force
  qed
  have exec: "kernel_ok (left out)" if "execute L command s = Some out" for command
    using execute_result [OF that] spawned_ok [OF execute_spawns [OF ok stk] ok, of L command] that keeps_ok ok by auto
  note quiet = keeps_ok [OF keeps_write_fd ok] keeps_ok [OF keeps_open_fd ok] keeps_ok [OF keeps_close_fd ok] keeps_ok [OF keeps_getargs ok]
    keeps_ok [OF keeps_vidmap ok] read_fd_ok [OF hs ok]
  show ?thesis
    using run halt exec
    by (auto simp: sys_int_w_def returning_def set_handler_def sigreturn_def ok split: if_split_asm intro: quiet)
qed

section \<open>Runs of the kernel\<close>

text \<open>
  User code changes its registers and its page; the kernel's tables and the task state segment
  are out of its reach. The return from a call, and from the parent's frame after \<open>halt\<close>, is such a
  step too: it pops the registers and the user's frame.
\<close>

definition user_step :: "'a keyboard_scheme \<Rightarrow> 'a keyboard_scheme \<Rightarrow> bool" where
  "user_step s s' \<longleftrightarrow> same_tables s s' \<and> tss_esp0 s' = tss_esp0 s"

inductive kernel_run :: "locals \<Rightarrow> 'a keyboard_scheme \<Rightarrow> 'a keyboard_scheme \<Rightarrow> bool" for L where
  start: "kernel_run L s s"
| timer: "kernel_run L s u \<Longrightarrow> pit_int u = Some s' \<Longrightarrow> kernel_run L s s'"
| clock: "kernel_run L s u \<Longrightarrow> kernel_run L s (rtc_int u)"
| key: "kernel_run L s u \<Longrightarrow> kbrd_int u = Some s' \<Longrightarrow> kernel_run L s s'"
| exception: "kernel_run L s u \<Longrightarrow> exception_call w = Some handler \<Longrightarrow> handler (l_conv L) u = Some s' \<Longrightarrow> kernel_run L s s'"
| call: "kernel_run L s u \<Longrightarrow> \<forall>h\<in>set hs. \<forall>v v'. h v = Some v' \<longrightarrow> kernel_run L v v' \<Longrightarrow>
    sys_int_w L hs eax ebx ecx edx (int_0x80 u) = Some out \<Longrightarrow> kernel_run L s (left out)"
| user: "kernel_run L s u \<Longrightarrow> user_step u s' \<Longrightarrow> kernel_run L s s'"

lemma kernel_run_ok: "kernel_run L s s' \<Longrightarrow> kernel_ok s \<Longrightarrow> kernel_ok s'"
proof (induction rule: kernel_run.induct)
  case (timer s u s')
  then show ?case by (blast intro: pit_int_ok)
next
  case (clock s u)
  then show ?case using keeps_ok [OF keeps_rtc_int] by blast
next
  case (key s u s')
  then show ?case using keeps_ok [OF keeps_kbrd_int] by blast
next
  case (exception s u w handler s')
  then show ?case using keeps_ok [OF keeps_exception] by blast
next
  case (call s u hs eax ebx ecx edx out)
  have hs: "handlers_ok hs" using call.IH by (auto simp: handlers_ok_def)
  note e = entry_ok [OF call.IH(1) [OF call.prems]]
  show ?case by (rule sys_int_w_ok [OF hs e(1) _ call.hyps(2)]) (simp add: e)
next
  case (user s u s')
  have "keeps u s'" using user.hyps(2) by (auto simp: user_step_def same_tables_def intro: keeps_tables)
  then show ?case using user keeps_ok by blast
qed simp

section \<open>The state the shells start in\<close>

lemma setup_shell_tables:
  fixes s :: "'a keyboard_scheme"
  assumes "setup_shell ret_addr L i s = (True, s')"
  shows "process_array s' = (process_array s)(i := 1)" "terminal_array s' = (terminal_array s)(i := i)" "curr_terminal s' = curr_terminal s"
    "pcbs s' = (pcbs s)(pcb_of i := shell_pcb i (pcbs s (pcb_of i)))"
proof -
  let ?s = "change_process i (s\<lparr>terminal_array := (terminal_array s)(i := i), process_array := (process_array s)(i := 1)\<rparr>)"
  obtain s1 where ld: "load_program (sint (dentry_inode_num (memory ?s) (l_dentry L))) USR_START_ADDR ?s = (0, s1)"
    using assms by (auto simp: setup_shell_def Let_def split: prod.splits if_split_asm)
  obtain m where m: "s1 = ?s\<lparr>memory := m\<rparr>" using load_program_memory [OF ld] by blast
  have ff: "pcbs (first_frame r e u) = pcbs u" "process_array (first_frame r e u) = process_array u" "terminal_array (first_frame r e u) = terminal_array u"
    "curr_terminal (first_frame r e u) = curr_terminal u" for r e and u :: "'a keyboard_scheme"
    by (subst first_frame_memory, simp)+
  show "process_array s' = (process_array s)(i := 1)" "terminal_array s' = (terminal_array s)(i := i)" "curr_terminal s' = curr_terminal s"
    using assms ld by (auto simp: setup_shell_def Let_def ff m)
  have sv: "K_MEM_END - word_of_int i * K_STACK_SIZE - PUSHED_REGS_SIZE = pcb_of i + 0x1FBC"
    by (simp add: pcb_of_def proc_consts sys_consts algebra_simps)
  show "pcbs s' = (pcbs s)(pcb_of i := shell_pcb i (pcbs s (pcb_of i)))"
    using assms ld by (auto simp: setup_shell_def Let_def ff m shell_pcb_def STD_FILES_def sv)
qed

lemma shells_kernel_ok:
  fixes s :: "'a keyboard_scheme"
  assumes run: "execute_shells ret_addr L s = Some (Enter_user s')" and free: "process_array s 3 = 0" "process_array s 4 = 0" "process_array s 5 = 0"
  shows "kernel_ok s'"
proof -
  obtain r1 u r2 i v s2 s1 s0 where rd: "read_dentry_by_name (l_fname L) (l_dentry L) (s\<lparr>memory := write_bytes (memory s) (l_fname L) shell_name\<rparr>) = Some (r1, u)"
    and fr: "file_read i (l_buf L) BUFSIZE 0 u = (r2, v)"
    and sh: "setup_shell ret_addr L 2 v = (True, s2)" "setup_shell ret_addr L 1 s2 = (True, s1)" "setup_shell ret_addr L 0 s1 = (True, s0)"
    and s': "s' = return_to_user (pcb_pid (pcbs s0 (pcb_of 0))) (sti (s0\<lparr>curr_terminal := pcb_terminal (pcbs s0 (pcb_of 0))\<rparr>))"
    using run by (auto simp: execute_shells_def Let_def bind_eq_Some_conv split: if_split_asm prod.split_asm)
  have "keeps s v" "process_array v = process_array s"
    using read_dentry_memory [OF rd] file_read_memory [OF fr] by (auto intro: keeps_memory)
  note tab = setup_shell_tables [OF sh(1)] setup_shell_tables [OF sh(2)] setup_shell_tables [OF sh(3)] this(2)
  have pcb: "pcb_of 0 \<noteq> pcb_of 1" "pcb_of 0 \<noteq> pcb_of 2" "pcb_of 1 \<noteq> pcb_of 2" by (simp_all add: pcb_of_def proc_consts)
  have blk: "pcbs s' (pcb_of p) = shell_pcb p (pcbs v (pcb_of p))" if "p \<in> {0, 1, 2}" for p
    using that pcb by (auto simp: s' tab)
  have use: "in_use s' p \<longleftrightarrow> p \<in> {0, 1, 2}" for p
    using free valid_pid_cases [of p] by (auto simp: in_use_def s' tab valid_pid_def)
  have cur: "curr_terminal s' = 0" "terminal_array s' p = p" if "p \<in> {0, 1, 2}" for p
    using that by (auto simp: s' tab shell_pcb_def)
  have zero: "curr_pid s' = 0" using cur [of 0] by (simp add: curr_pid_def)
  have "tss_esp0 s' = pcb_of 0 + 0x1FFC" using return_to_user_frame(6) [of 0] by (simp add: s' tab shell_pcb_def)
  then have "current_ok s'" using zero cur(1) [of 0] blk [of 0] by (simp add: current_ok_def shell_pcb_def)
  moreover have "sched_ok s'"
    unfolding sched_ok_def
  proof (intro conjI ballI impI)
    show "valid_pid (curr_pid s')" by (simp add: zero valid_pid_def)
    show "runnable s' (curr_pid s')" using use [of 0] blk [of 0] by (simp add: zero runnable_def in_use_def shell_pcb_def)
  next
    fix p assume "p \<in> {0, 1, 2, 3, 4, 5 :: int}" "runnable s' p"
    then have "p \<in> {0, 1, 2}" unfolding use [symmetric] by (auto simp: in_use_def runnable_def valid_pid_def)
    then show "terminal_array s' (pcb_terminal (pcbs s' (pcb_of p))) = p" using blk [of p] cur(2) [of p] by (simp add: shell_pcb_def)
  qed
  moreover have "process_ok s' p" if "in_use s' p" for p
    using that blk use fds_ok_initial by (auto simp: process_ok_def shell_pcb_def)
  moreover have "only_child s'" using blk use by (auto simp: only_child_def shell_pcb_def)
  ultimately show ?thesis by (simp add: kernel_ok_def)
qed

section \<open>Calls that always return\<close>

lemma write_fd_total:
  assumes "fds_ok (file_array (pcbs s (curr_pcb s)))"
  shows "\<exists>r s'. write_fd fd buf n s = Some (r, s')"
proof (cases "fd < 0 \<or> 8 \<le> fd \<or> buf = 0")
  case True
  then show ?thesis by (auto simp: write_fd_def Let_def MAX_OPEN_FILES_def)
next
  case False
  then have "fop_jump_table (fd_at (curr_pcb s) fd s) \<in> set tables" using fds_ok_nth [OF assms, of "nat fd"] by (auto simp: fd_at_def nat_less_iff)
  from call_write_total [OF this] show ?thesis using False by (simp add: write_fd_def Let_def MAX_OPEN_FILES_def)
qed

lemma close_fd_total:
  assumes "fds_ok (file_array (pcbs s (curr_pcb s)))"
  shows "\<exists>r s'. close_fd fd s = Some (r, s')"
proof (cases "0 \<le> fd \<and> fd < 8 \<and> fd_flags (fd_at (curr_pcb s) fd s) \<noteq> 0")
  case True
  then show ?thesis using close_fd_open [OF assms, of fd] by metis
next
  case False
  then show ?thesis using bad_descriptor(3) [of fd s] close_closed [of s fd] by auto
qed

lemma table_kinds:
  assumes "t \<in> set tables"
  shows "\<exists>r w opn c. t = [r, w, opn, c] \<and> r \<in> {No_func, Terminal_read, Rtc_read, Dir_read, File_read} \<and>
    w \<in> {No_func, Terminal_write, Rtc_write, Dir_write, File_write} \<and> opn \<in> {No_func, Terminal_open, Rtc_open, Dir_open, File_open} \<and>
    c \<in> {No_func, Terminal_close, Rtc_close, Dir_close, File_close}"
  using assms by (auto simp: table_defs)

section \<open>Main properties\<close>

text \<open>
  C5: the kernel's invariant. Start the shells in a table with no other process, and let anything
  follow: timer, clock and keyboard interrupts, exceptions of user programs, steps of user code
  and system calls in any order and with any arguments, the handlers that run while a read
  waits being such runs again. Then the current process is one of the six, in use and a leaf; the
  slot of every runnable process's terminal names that process; the kernel serves the current
  process's terminal, and the task state segment names its kernel stack; and every process in
  use has its own number in its block, well-formed descriptors, and, unless it is a base
  shell, a parent in use on the same terminal that is not scheduled and has no other child.
  (The tables are not part of the memory that the buffers of a call address.)
\<close>
theorem kernel_invariant:
  assumes "execute_shells ret_addr L s = Some (Enter_user s0)" "process_array s 3 = 0" "process_array s 4 = 0" "process_array s 5 = 0"
    and "kernel_run L s0 s'"
  shows "kernel_ok s'"
  by (rule kernel_run_ok [OF assms(5) shells_kernel_ok [OF assms(1-4)]])

lemma demo_start:
  obtains s0 where "execute_shells 0x400100 demo_locals demo_shells = Some (Enter_user s0)" "kernel_ok s0" "runnable s0 1" "curr_pid s0 = 0"
    "boot_block s0 = 0x500000" "process_array s0 = (process_array demo_shells)(2 := 1, 1 := 1, 0 := 1)"
proof -
  let ?f = "map (file_byte (memory demo_shells) (boot_block demo_shells) 0) [0..<file_size (memory demo_shells) (boot_block demo_shells) 0]"
  obtain m m2 m1 m0 s0 where "s0 = return_to_user 0 (sti ((shell_state 0 m0 (shell_state 1 m1 (shell_state 2 m2 (demo_shells\<lparr>memory := m\<rparr>))))\<lparr>curr_terminal := 0\<rparr>))"
      "execute_shells 0x400100 demo_locals demo_shells = Some (Enter_user s0)" "\<forall>p. valid_pid p \<longrightarrow> runnable s0 p = (p \<in> {0, 1, 2})" "curr_pid s0 = 0"
    by (rule shells_started [where i = 0 and blocks = 3 and ino = 0 and f = ?f and L = demo_locals and s = demo_shells and ret_addr = "0x400100"])
       (use demo_shells_file demo_shells_layout in \<open>auto simp: demo_shells_sel\<close>)
  then show ?thesis
    using that [of s0] shells_kernel_ok [of "0x400100" demo_locals demo_shells s0] by (simp add: demo_shells_sel valid_pid_def sti_def)
qed

theorem kernel_invariant_witness:
  "\<exists>s0 s1. execute_shells 0x400100 demo_locals demo_shells = Some (Enter_user s0) \<and> pit_int s0 = Some s1 \<and> kernel_ok s1"
proof -
  obtain s0 where s0: "execute_shells 0x400100 demo_locals demo_shells = Some (Enter_user s0)" "kernel_ok s0" using demo_start by blast
  obtain s1 where s1: "pit_int s0 = Some s1" using pit_int_step [of s0] s0(2) by (auto simp: kernel_ok_def)
  have "kernel_ok s1" by (rule kernel_invariant [OF s0(1) _ _ _ kernel_run.timer [OF kernel_run.start s1]]) (simp_all add: demo_shells_sel)
  then show ?thesis using s0(1) s1 by blast
qed



text \<open>
  C7: no reachable state is stuck. In every state the running kernel reaches, every runnable
  process is current after at most five timer interrupts; and when the current process has a
  parent, its \<open>halt\<close> returns in the parent with the value 0: the process is no longer in use,
  the parent is the current process and runnable again, and the kernel stack for its next call is
  its own.
\<close>
theorem kernel_never_stuck:
  assumes "execute_shells ret_addr L s = Some (Enter_user s0)" "process_array s 3 = 0" "process_array s 4 = 0" "process_array s 5 = 0"
    and "kernel_run L s0 s'"
  defines "p \<equiv> parent_pid (pcbs s' (pcb_of (curr_pid s')))"
  shows "(\<forall>q. valid_pid q \<longrightarrow> runnable s' q \<longrightarrow> (\<exists>n\<le>5. \<exists>u. pit_ticks n s' = Some u \<and> curr_pid u = q)) \<and>
    (0 \<le> p \<longrightarrow> (\<exists>k. sys_int_w L hs 1 status ecx edx (int_0x80 s') = Some (Resume 0 k) \<and> process_array k (curr_pid s') = 0 \<and>
      curr_pid k = p \<and> runnable k p \<and> tss_esp0 k = pcb_of p + 0x1FFC))"
proof (intro conjI impI allI)
  have ok: "kernel_ok s'" by (rule kernel_run_ok [OF assms(5) shells_kernel_ok [OF assms(1-4)]])
  then have sched: "sched_ok s'" by (simp add: kernel_ok_def)
  fix q assume "valid_pid q" "runnable s' q"
  then show "\<exists>n\<le>5. \<exists>u. pit_ticks n s' = Some u \<and> curr_pid u = q"
    using pit.no_starvation [OF sched] pit.turns_bound [of "curr_pid s'" q] unfolding pit_ticks_steps by (blast intro: le_trans)
next
  have ok: "kernel_ok s'" by (rule kernel_run_ok [OF assms(5) shells_kernel_ok [OF assms(1-4)]])
  note e = entry_ok [OF ok]
  assume "0 \<le> p"
  then obtain k where k: "halt L (ucast status) (int_0x80 s') = Some (Resume 0 k)" "ended (int_0x80 s') k"
    using halt_ends [OF e(1), of L "ucast status"] by (auto simp: e(2,3) p_def int_0x80_frame)
  have "kernel_ok k" by (rule ended_ok [OF k(2) e(1)])
  moreover have "curr_pid k = p" using endedD(2) [OF k(2) e(1)] by (simp add: e(2) p_def int_0x80_frame)
  moreover have "process_array k (curr_pid s') = 0" using k(2) by (simp add: ended_def Let_def e(2))
  ultimately show "\<exists>k. sys_int_w L hs 1 status ecx edx (int_0x80 s') = Some (Resume 0 k) \<and> process_array k (curr_pid s') = 0 \<and>
      curr_pid k = p \<and> runnable k p \<and> tss_esp0 k = pcb_of p + 0x1FFC"
    using k(1) current_process [of k] by (auto simp: sys_int_w_def kernel_ok_def sched_ok_def)
qed

text \<open>A first shell that executes the program of the demonstration image.\<close>

lemma demo_child:
  fixes s0 k :: keyboard
  defines "k \<equiv> int_0x80 (s0\<lparr>memory := memory demo_exec\<rparr>)"
  assumes s0: "kernel_ok s0" "curr_pid s0 = 0" "boot_block s0 = 0x500000" "process_array s0 = (process_array demo_shells)(2 := 1, 1 := 1, 0 := 1)"
  obtains s2 where "execute demo_locals 0x8100000 k = Some (Enter_user s2)" "curr_pid s2 = 3" "parent_pid (pcbs s2 (pcb_of 3)) = 0"
proof -
  have tss: "tss_esp0 s0 = 0x7FFFFC" using current_process(6) [OF s0(1)] s0(2) by (simp add: pcb_of_def proc_consts)
  have out: "memory k x = memory demo_exec x" if "\<not> in_region x 0x7FFFE8 20" for x
    using int_0x80_memory [of x "s0\<lparr>memory := memory demo_exec\<rparr>"] that by (simp add: k_def tss)
  have img: "same_image (memory demo_exec) (memory k) a n" if "disjoint_regions 0x7FFFE8 20 a n" "n \<le> 0x100000000" for a n
    by (rule same_image_outside [OF out that])
  have sel: "esp k = 0x7FFFE8" "boot_block k = 0x500000" "boot_block demo_exec = 0x500000" "process_array k = (process_array demo_shells)(2 := 1, 1 := 1, 0 := 1)"
    using s0 by (simp_all add: k_def int_0x80_frame tss demo_exec_def)
  have pid: "get_next_pid k = 3"
    by (simp add: get_next_pid_def) (simp add: next_pid_from.simps MAX_OPEN_PROCESSES_def sel demo_shells_sel)
  have fs: "same_image (memory demo_exec) (memory k) 0x500000 (3 * 4096)" by (rule img) (simp_all add: disjoint_regions_def)
  have lay: "exec_layout demo_locals 3 3 k"
    using demo_exec_layout same_image_bytes [OF img [of "0x402000" 4], of 4]
    by (simp add: exec_layout_def exec_blocks_def sel demo_locals_def disjoint_regions_def pcb_of_def proc_consts USER_PAGE_def)
  have name: "command_name (memory k) 0x8100000 = [0x68, 0x69]"
    using demo_command_name same_image_bytes [OF img [of "0x8100000" 32], of 32] by (simp add: command_name_def disjoint_regions_def)
  have cmd: "command_line demo_locals 0x8100000 [0x68, 0x69] [0x78] k"
    using demo_command same_image_cstr [OF img [of "0x8100003" 2], of "[0x78]"]
    unfolding command_line_def name demo_command_name by (simp add: disjoint_regions_def)
  have exe: "file_ok (memory demo_exec) 0x500000 3 0" "28 \<le> file_size (memory demo_exec) 0x500000 0" using demo_executable by (simp_all add: executable_def sel)
  note keep = same_file_ok [OF fs exe(1)]
  have "map (file_byte (memory k) 0x500000 0) [0..<4] = map (file_byte (memory demo_exec) 0x500000 0) [0..<4]"
    by (rule map_cong) (use keep(3) exe(2) in auto)
  also have "\<dots> = elf_magic" using demo_executable by (simp add: executable_def sel)
  finally have "executable 3 0 k" using demo_executable keep(1,2) by (simp add: executable_def sel)
  moreover have "find_file (memory k) (boot_block k) [0x68, 0x69] = Some 0" "dentry_inode_num (memory k) (dentry_at (boot_block k) 0) = 0"
    using demo_exec_found demo_exec_inode find_file_image [OF same_image_prefix [OF fs, of 4096]]
      dentry_fields_image [OF same_image_prefix [OF fs, of 4096], of 0] by (simp_all add: sel)
  ultimately obtain s2 where ex: "execute demo_locals 0x8100000 k = Some (Enter_user s2)"
    using execute_success [OF pid _ lay cmd] by auto
  have k: "kernel_ok k" "curr_pcb k = pcb_of (curr_pid k)" "curr_pid k = 0"
    using entry_ok [of "s0\<lparr>memory := memory demo_exec\<rparr>"] keeps_ok [OF keeps_memory s0(1)] s0(2) by (simp_all add: k_def curr_pid_def)
  have "spawned 3 k s2" using execute_spawns [OF k(1,2) ex] by (simp add: pid)
  then show ?thesis using that [OF ex] spawnedD(2) [OF _ k(1)] k(3) by (simp add: spawned_def Let_def)
qed

theorem kernel_never_stuck_witness:
  "\<exists>s0 s2 k. execute_shells 0x400100 demo_locals demo_shells = Some (Enter_user s0) \<and> kernel_run demo_locals s0 s2 \<and> curr_pid s2 = 3 \<and>
     sys_int_w demo_locals [] 1 0 0 0 (int_0x80 s2) = Some (Resume 0 k) \<and> curr_pid k = 0"
proof -
  obtain s0 where s0: "execute_shells 0x400100 demo_locals demo_shells = Some (Enter_user s0)"
      "kernel_ok s0" "curr_pid s0 = 0" "boot_block s0 = 0x500000" "process_array s0 = (process_array demo_shells)(2 := 1, 1 := 1, 0 := 1)"
    using demo_start by metis
  let ?s1 = "s0\<lparr>memory := memory demo_exec\<rparr>"
  obtain s2 where s2: "execute demo_locals 0x8100000 (int_0x80 ?s1) = Some (Enter_user s2)" "curr_pid s2 = 3" "parent_pid (pcbs s2 (pcb_of 3)) = 0"
    using demo_child [OF s0(2-5)] by blast
  have run1: "kernel_run demo_locals s0 ?s1" by (rule kernel_run.user [OF kernel_run.start]) (simp add: user_step_def same_tables_def)
  have "sys_int_w demo_locals [] 2 0x8100000 0 0 (int_0x80 ?s1) = Some (Enter_user s2)" using s2(1) by (simp add: sys_int_w_def)
  then have run2: "kernel_run demo_locals s0 s2" using kernel_run.call [OF run1, of "[]"] by fastforce
  have "\<exists>k. sys_int_w demo_locals [] 1 0 0 0 (int_0x80 s2) = Some (Resume 0 k) \<and> curr_pid k = 0"
    using kernel_never_stuck [OF s0(1) _ _ _ run2, of "[]" 0 0 0] s2(2,3) by (auto simp: demo_shells_sel)
  then show ?thesis using s0(1) s2(2) run2 by blast
qed

end
