(* ===== verification/Blink.thy ===== *)
theory Blink
  imports User_Calls
begin

text \<open>
  The blinking characters of the \<open>fish\<close> program: the linked list of \<open>src/fish/blink.S\<close> and the
  allocator and memory routines it calls in \<open>src/fish/fish.c\<close>. The list is a chain of pointers in
  memory; it is related to a list of slots of the static array \<open>blink_array\<close>, and each operation
  to one on lists of \<open>blink\<close> records and on the text screen. The addresses of the variables and of
  the stack slots are a record \<open>fish_vars\<close>.
\<close>

unbundle bit_operations_syntax

section \<open>Little-endian 16-bit words\<close>

definition read16 :: "mem \<Rightarrow> u32 \<Rightarrow> u16" where
  "read16 m a = ucast (m a) OR push_bit 8 (ucast (m (a + 1)))"

definition bytes16 :: "u16 \<Rightarrow> u8 list" where
  "bytes16 w = [ucast w, ucast (drop_bit 8 w)]"

definition write16 :: "mem \<Rightarrow> u32 \<Rightarrow> u16 \<Rightarrow> mem" where
  "write16 m a w = write_bytes m a (bytes16 w)"

section \<open>The structure and its variables\<close>

record blink =
  location :: u16
  on_char :: u8
  off_char :: u8
  on_length :: u16
  off_length :: u16
  countdown :: u16
  status :: u16

definition LOCATION :: u32 where "LOCATION = 0"
definition ON_CHAR :: u32 where "ON_CHAR = 2"
definition OFF_CHAR :: u32 where "OFF_CHAR = 3"
definition ON_LENGTH :: u32 where "ON_LENGTH = 4"
definition OFF_LENGTH :: u32 where "OFF_LENGTH = 6"
definition COUNTDOWN :: u32 where "COUNTDOWN = 8"
definition STATUS :: u32 where "STATUS = 10"
definition NEXT :: u32 where "NEXT = 12"
definition STRUCT_SIZE :: int where "STRUCT_SIZE = 16"
definition RTC_ADD :: u32 where "RTC_ADD = 0"
definition RTC_REMOVE :: u32 where "RTC_REMOVE = 1"
definition RTC_FIND :: u32 where "RTC_FIND = 2"
definition RTC_SYNC :: u32 where "RTC_SYNC = 3"

lemmas blink_consts = LOCATION_def ON_CHAR_def OFF_CHAR_def ON_LENGTH_def OFF_LENGTH_def COUNTDOWN_def STATUS_def NEXT_def
  STRUCT_SIZE_def RTC_ADD_def RTC_REMOVE_def RTC_FIND_def RTC_SYNC_def

record fish_vars =
  v_head :: u32
  v_vmem :: u32
  v_array :: u32
  v_temp :: u32
  v_key :: u32

section \<open>The routines of fish.c\<close>

definition ece391_memset :: "u32 \<Rightarrow> u8 \<Rightarrow> int \<Rightarrow> mem \<Rightarrow> mem" where
  "ece391_memset dest c n m = fold (\<lambda>i m. m(dest + of_nat i := c)) [0..<nat n] m"

definition ece391_memcpy :: "u32 \<Rightarrow> u32 \<Rightarrow> int \<Rightarrow> mem \<Rightarrow> int \<times> mem" where
  "ece391_memcpy dest src n m = (0, fold (\<lambda>i m. m(dest + of_nat i := m (src + of_nat i))) [0..<nat n] m)"

definition slot :: "fish_vars \<Rightarrow> nat \<Rightarrow> u32" where
  "slot V i = v_array V + of_nat (16 * i)"

definition mp1_malloc :: "fish_vars \<Rightarrow> int \<Rightarrow> mem \<Rightarrow> u32" where
  "mp1_malloc V n m =
     (case find (\<lambda>i. read16 m (slot V i + LOCATION) = 0) [0..<80 * 25] of Some i \<Rightarrow> slot V i | None \<Rightarrow> 0)"

definition mp1_free :: "u32 \<Rightarrow> mem \<Rightarrow> mem" where
  "mp1_free a m = ece391_memset a 0 STRUCT_SIZE m"

section \<open>The routines of blink.S\<close>

definition mp1_poke :: "fish_vars \<Rightarrow> u8 \<Rightarrow> u32 \<Rightarrow> mem \<Rightarrow> mem" where
  "mp1_poke V cl eax m = m(read32 m (v_vmem V) + eax := cl)"

text \<open>The body of the loop of \<open>mp1_rtc_tasklet\<close> for the structure at \<open>ebx\<close>.\<close>

definition tasklet_body :: "fish_vars \<Rightarrow> u32 \<Rightarrow> mem \<Rightarrow> mem" where
  "tasklet_body V ebx m =
     (let m = write16 m (ebx + COUNTDOWN) (read16 m (ebx + COUNTDOWN) - 1)
      in if sint (read16 m (ebx + COUNTDOWN)) > 0 then m
         else let eax = push_bit 1 (ucast (read16 m (ebx + LOCATION)));
                  (m, dx) = (if read16 m (ebx + STATUS) AND 1 = 0
                             then let m = mp1_poke V (m (ebx + ON_CHAR)) eax m in (m, read16 m (ebx + ON_LENGTH))
                             else let m = mp1_poke V (m (ebx + OFF_CHAR)) eax m in (m, read16 m (ebx + OFF_LENGTH)));
                  m = write16 m (ebx + COUNTDOWN) dx
              in write16 m (ebx + STATUS) (read16 m (ebx + STATUS) XOR 1))"

partial_function (option) tasklet_loop :: "fish_vars \<Rightarrow> u32 \<Rightarrow> mem \<Rightarrow> mem option" where
  "tasklet_loop V ebx m =
     (if ebx = 0 then Some m else let m = tasklet_body V ebx m in tasklet_loop V (read32 m (ebx + NEXT)) m)"

definition mp1_rtc_tasklet :: "fish_vars \<Rightarrow> mem \<Rightarrow> mem option" where
  "mp1_rtc_tasklet V m = tasklet_loop V (read32 m (v_head V)) m"

partial_function (option) find_loop :: "u16 \<Rightarrow> u32 \<Rightarrow> mem \<Rightarrow> u32 option" where
  "find_loop ax ebx m =
     (if ebx = 0 then Some 0
      else if read16 m (ebx + LOCATION) = ax then Some ebx
      else find_loop ax (read32 m (ebx + NEXT)) m)"

definition mp1_find_helper :: "fish_vars \<Rightarrow> u32 \<Rightarrow> mem \<Rightarrow> u32 option" where
  "mp1_find_helper V loc m = find_loop (ucast loc) (read32 m (v_head V)) m"

definition mp1_ioctl_add :: "fish_vars \<Rightarrow> u32 \<Rightarrow> mem \<Rightarrow> int \<times> mem" where
  "mp1_ioctl_add V arg m =
     (let ebx = v_temp V; (r, m) = ece391_memcpy ebx arg STRUCT_SIZE m
      in if r \<noteq> 0 then (-1, m)
         else if read16 m (ebx + LOCATION) \<ge> 80 * 25 then (-1, m)
         else let m = write16 m (ebx + STATUS) 1;
                  m = write16 m (ebx + COUNTDOWN) (read16 m (ebx + ON_LENGTH));
                  eax = mp1_malloc V STRUCT_SIZE m
              in if eax = 0 then (-1, m)
                 else let (_, m) = ece391_memcpy eax ebx STRUCT_SIZE m;
                          edx = eax;
                          m = write32 m (edx + NEXT) (read32 m (v_head V));
                          m = write32 m (v_head V) edx;
                          eax = push_bit 1 (ucast (read16 m (edx + LOCATION)));
                          m = mp1_poke V (m (edx + ON_CHAR)) eax m
                      in (0, m))"

text \<open>The search for the pointer to \<open>eax\<close>, from the address of the head variable on.\<close>

partial_function (option) find_prev :: "u32 \<Rightarrow> u32 \<Rightarrow> mem \<Rightarrow> u32 option" where
  "find_prev eax edx m = (if read32 m edx = eax then Some edx else find_prev eax (read32 m edx + NEXT) m)"

definition mp1_ioctl_remove :: "fish_vars \<Rightarrow> u32 \<Rightarrow> mem \<Rightarrow> (int \<times> mem) option" where
  "mp1_ioctl_remove V arg m =
     do {
       eax \<leftarrow> mp1_find_helper V arg m;
       if eax = 0 then Some (-1, m)
       else do {
         edx \<leftarrow> find_prev eax (v_head V) m;
         let m = write32 m edx (read32 m (eax + NEXT));
         Some (0, mp1_free eax m)
       }
     }"

text \<open>
  After \<open>testb\<close> the overflow flag is clear and the sign flag is the top bit of the conjunction;
  \<open>cmovl\<close> moves when the two flags differ.
\<close>

definition mp1_ioctl_sync :: "fish_vars \<Rightarrow> u32 \<Rightarrow> mem \<Rightarrow> (int \<times> mem) option" where
  "mp1_ioctl_sync V arg m =
     do {
       esi \<leftarrow> mp1_find_helper V (drop_bit 16 arg) m;
       if esi = 0 then Some (-1, m)
       else do {
         edi \<leftarrow> mp1_find_helper V (arg AND 0xFFFF) m;
         if edi = 0 then Some (-1, m)
         else let m = write16 m (edi + ON_LENGTH) (read16 m (esi + ON_LENGTH));
                  m = write16 m (edi + OFF_LENGTH) (read16 m (esi + OFF_LENGTH));
                  m = write16 m (edi + COUNTDOWN) (read16 m (esi + COUNTDOWN));
                  m = write16 m (edi + STATUS) (read16 m (esi + STATUS));
                  eax = push_bit 1 (ucast (read16 m (edi + LOCATION)));
                  ecx = m (edi + OFF_CHAR);
                  ebx = m (edi + ON_CHAR);
                  sign_flag = bit (m (edi + STATUS) AND 1) 7;
                  ecx = (if sign_flag \<noteq> False then ebx else ecx)
              in Some (0, mp1_poke V ecx eax m)
       }
     }"

definition mp1_ioctl_find :: "fish_vars \<Rightarrow> u32 \<Rightarrow> mem \<Rightarrow> (int \<times> mem) option" where
  "mp1_ioctl_find V arg m =
     (let (r, m) = ece391_memcpy (v_key V) arg 2 m
      in if r \<noteq> 0 then Some (-1, m)
         else do {
           eax \<leftarrow> mp1_find_helper V (ucast (read16 m (v_key V))) m;
           if eax = 0 then Some (-1, m)
           else let (r, m) = ece391_memcpy arg eax STRUCT_SIZE m
                in Some (if r = 0 then 0 else -1, m)
         })"

text \<open>The jump through \<open>call_table\<close>; a command past the table has no result.\<close>

definition mp1_ioctl :: "fish_vars \<Rightarrow> u32 \<Rightarrow> u32 \<Rightarrow> mem \<Rightarrow> (int \<times> mem) option" where
  "mp1_ioctl V arg cmd m =
     (if cmd = RTC_ADD then Some (mp1_ioctl_add V arg m)
      else if cmd = RTC_REMOVE then mp1_ioctl_remove V arg m
      else if cmd = RTC_FIND then mp1_ioctl_find V arg m
      else if cmd = RTC_SYNC then mp1_ioctl_sync V arg m
      else None)"

section \<open>Fields\<close>

definition blink_at :: "mem \<Rightarrow> u32 \<Rightarrow> blink" where
  "blink_at m a = \<lparr>location = read16 m (a + LOCATION), on_char = m (a + ON_CHAR), off_char = m (a + OFF_CHAR), on_length = read16 m (a + ON_LENGTH),
     off_length = read16 m (a + OFF_LENGTH), countdown = read16 m (a + COUNTDOWN), status = read16 m (a + STATUS)\<rparr>"

lemma blink_reads:
  "read16 m (a + LOCATION) = location (blink_at m a)" "m (a + ON_CHAR) = on_char (blink_at m a)" "m (a + OFF_CHAR) = off_char (blink_at m a)"
  "read16 m (a + ON_LENGTH) = on_length (blink_at m a)" "read16 m (a + OFF_LENGTH) = off_length (blink_at m a)"
  "read16 m (a + COUNTDOWN) = countdown (blink_at m a)" "read16 m (a + STATUS) = status (blink_at m a)"
  by (simp_all add: blink_at_def)

lemma read16_write16 [simp]: "read16 (write16 m a w) a = w"
proof (rule bit_word_eqI)
  fix n :: nat
  assume "n < LENGTH(16)"
  then consider "n < 8" | "8 \<le> n" "n < 16" by fastforce
  then show "bit (read16 (write16 m a w) a) n = bit w n"
    by cases (auto simp: read16_def write16_def bytes16_def bit_simps)
qed

lemma write16_apply: "write16 m a w x = (if x = a then ucast w else if x = a + 1 then ucast (drop_bit 8 w) else m x)"
  by (simp add: write16_def bytes16_def)

lemma write16_outside: "\<not> in_region x a 2 \<Longrightarrow> write16 m a w x = m x"
  by (auto simp: write16_apply in_region_def)

lemma blink_at_write16:
  "blink_at (write16 m (a + ON_LENGTH) v) a = (blink_at m a)\<lparr>on_length := v\<rparr>"
  "blink_at (write16 m (a + OFF_LENGTH) v) a = (blink_at m a)\<lparr>off_length := v\<rparr>"
  "blink_at (write16 m (a + COUNTDOWN) v) a = (blink_at m a)\<lparr>countdown := v\<rparr>"
  "blink_at (write16 m (a + STATUS) v) a = (blink_at m a)\<lparr>status := v\<rparr>"
  by (simp_all add: blink_at_def) (simp_all add: read16_def write16_apply blink_consts add.assoc)

lemma next_write16:
  "read32 (write16 m (a + ON_LENGTH) v) (a + NEXT) = read32 m (a + NEXT)" "read32 (write16 m (a + OFF_LENGTH) v) (a + NEXT) = read32 m (a + NEXT)"
  "read32 (write16 m (a + COUNTDOWN) v) (a + NEXT) = read32 m (a + NEXT)" "read32 (write16 m (a + STATUS) v) (a + NEXT) = read32 m (a + NEXT)"
  by (simp_all add: read32_def write16_apply blink_consts add.assoc)

lemma blink_at_move:
  assumes "\<And>k. k < 16 \<Longrightarrow> m' (a' + of_nat k) = m (a + of_nat k)"
  shows "blink_at m' a' = blink_at m a" "read32 m' (a' + NEXT) = read32 m (a + NEXT)"
  using assms [of 0] assms [of 1] assms [of 2] assms [of 3] assms [of 4] assms [of 5] assms [of 6] assms [of 7] assms [of 8] assms [of 9] assms [of 10]
    assms [of 11] assms [of 12] assms [of 13] assms [of 14] assms [of 15]
  by (simp_all add: blink_at_def read16_def read32_def blink_consts add.assoc)

lemma blink_at_cong:
  assumes "\<And>x. in_region x a 16 \<Longrightarrow> m' x = m x"
  shows "blink_at m' a = blink_at m a" "read32 m' (a + NEXT) = read32 m (a + NEXT)"
  by (rule blink_at_move, rule assms, simp add: in_region_offset)+

section \<open>The reference: lists of blinks and a screen\<close>

text \<open>
  One tick of a blink; when its countdown has run out it is drawn with the other character, in
  the even byte of its cell, and starts over with the other length.
\<close>

definition expired :: "blink \<Rightarrow> bool" where
  "expired b \<longleftrightarrow> sint (countdown b - 1) \<le> 0"

definition lit :: "blink \<Rightarrow> bool" where
  "lit b \<longleftrightarrow> status b AND 1 \<noteq> 0"

definition tick_blink :: "blink \<Rightarrow> blink" where
  "tick_blink b =
     (if expired b then b\<lparr>countdown := if lit b then off_length b else on_length b, status := status b XOR 1\<rparr>
      else b\<lparr>countdown := countdown b - 1\<rparr>)"

definition put_cell_at :: "u16 \<Rightarrow> u8 \<Rightarrow> (nat \<Rightarrow> u8) \<Rightarrow> nat \<Rightarrow> u8" where
  "put_cell_at loc c scr = scr(2 * unat loc := c)"

definition draw_tick :: "blink \<Rightarrow> (nat \<Rightarrow> u8) \<Rightarrow> nat \<Rightarrow> u8" where
  "draw_tick b scr = (if expired b then put_cell_at (location b) (if lit b then off_char b else on_char b) scr else scr)"

text \<open>The screen as the program sees it, with nothing outside its 4000 bytes.\<close>

definition vmem :: "fish_vars \<Rightarrow> mem \<Rightarrow> u32" where
  "vmem V m = read32 m (v_vmem V)"

definition cells :: "fish_vars \<Rightarrow> mem \<Rightarrow> nat \<Rightarrow> u8" where
  "cells V m j = (if j < 4000 then m (vmem V m + of_nat j) else 0)"

section \<open>The chain of pointers\<close>

primrec linked :: "mem \<Rightarrow> u32 \<Rightarrow> u32 list \<Rightarrow> bool" where
  "linked m p [] \<longleftrightarrow> p = 0"
| "linked m p (a # as) \<longleftrightarrow> p = a \<and> a \<noteq> 0 \<and> linked m (read32 m (a + NEXT)) as"

definition fish_blocks :: "fish_vars \<Rightarrow> mem \<Rightarrow> (u32 \<times> nat) list" where
  "fish_blocks V m = [(v_array V, 32000), (vmem V m, 4000), (v_head V, 4), (v_vmem V, 4), (v_temp V, 16), (v_key V, 2)]"

definition fish_layout :: "fish_vars \<Rightarrow> mem \<Rightarrow> bool" where
  "fish_layout V m \<longleftrightarrow> all_disjoint (fish_blocks V m) \<and> v_array V \<noteq> 0 \<and> unat (v_array V) + 32000 \<le> 2 ^ 32"

text \<open>
  The invariant: the chain runs through the slots \<open>is\<close>, which are distinct and exactly those with
  a nonzero location, and every location is on the screen.
\<close>

definition fish_ok :: "fish_vars \<Rightarrow> nat list \<Rightarrow> mem \<Rightarrow> bool" where
  "fish_ok V is m \<longleftrightarrow> fish_layout V m \<and> linked m (read32 m (v_head V)) (map (slot V) is) \<and> distinct is \<and> set is \<subseteq> {..<2000} \<and>
     (\<forall>i<2000. i \<in> set is \<longleftrightarrow> location (blink_at m (slot V i)) \<noteq> 0) \<and> (\<forall>i\<in>set is. location (blink_at m (slot V i)) < 2000)"

definition blinks :: "fish_vars \<Rightarrow> nat list \<Rightarrow> mem \<Rightarrow> blink list" where
  "blinks V is m = map (\<lambda>i. blink_at m (slot V i)) is"

lemma in_slotE:
  assumes "in_region x (slot V i) 16"
  obtains k where "k < 16" "x = v_array V + of_nat (16 * i + k)"
proof -
  obtain k where "k < 16" "x = slot V i + of_nat k" using assms by (rule in_regionE)
  then show ?thesis using that by (simp add: slot_def add.assoc)
qed

lemma slot_inside:
  assumes "i < 2000" "in_region x (slot V i) 16"
  shows "in_region x (v_array V) 32000"
proof -
  obtain k where k: "k < 16" "x = v_array V + of_nat (16 * i + k)" using assms(2) by (rule in_slotE)
  show ?thesis unfolding k(2) by (rule in_region_offset) (use assms(1) k(1) in simp_all)
qed

lemma slot_apart:
  assumes "i < 2000" "j < 2000" "in_region x (slot V i) 16" "in_region x (slot V j) 16"
  shows "i = j"
proof -
  obtain k where k: "k < 16" "x = v_array V + of_nat (16 * i + k)" using assms(3) by (rule in_slotE)
  obtain l where l: "l < 16" "x = v_array V + of_nat (16 * j + l)" using assms(4) by (rule in_slotE)
  have "16 * i + k = 16 * j + l"
    by (rule page_offset_inj [THEN iffD1, of _ _ "v_array V"]) (use assms(1,2) k l in simp_all)
  then show ?thesis using k(1) l(1) by linarith
qed

lemma slot_nonzero: "fish_layout V m \<Longrightarrow> i < 2000 \<Longrightarrow> slot V i \<noteq> 0"
proof
  assume l: "fish_layout V m" "i < 2000" and z: "slot V i = 0"
  have "unat (v_array V + of_nat (16 * i)) = unat (v_array V) + 16 * i"
    using l by (intro unat_add_nowrap) (simp add: fish_layout_def)
  then have "unat (v_array V) = 0" using z by (simp add: slot_def)
  then show False using l by (simp add: fish_layout_def unat_eq_zero)
qed

lemma linked_slots:
  "\<forall>i\<in>set is. read32 m' (slot V i + NEXT) = read32 m (slot V i + NEXT) \<Longrightarrow> linked m' p (map (slot V) is) = linked m p (map (slot V) is)"
  by (induction "is" arbitrary: p) auto

lemma blinks_Cons: "blinks V (i # is) m = blink_at m (slot V i) # blinks V is m"
  by (simp add: blinks_def)

section \<open>What an operation leaves alone\<close>

lemma cells_cong:
  assumes "vmem V m' = vmem V m" "\<And>x. in_region x (vmem V m) 4000 \<Longrightarrow> m' x = m x"
  shows "cells V m' = cells V m"
  using assms(2) [OF in_region_offset [of _ 4000 "vmem V m"]] by (simp add: cells_def assms(1) fun_eq_iff)

lemma fish_apart:
  assumes "fish_layout V m"
  shows "in_region x (v_array V) 32000 \<Longrightarrow> \<not> in_region x (vmem V m) 4000 \<and> \<not> in_region x (v_head V) 4 \<and> \<not> in_region x (v_vmem V) 4 \<and>
      \<not> in_region x (v_temp V) 16 \<and> \<not> in_region x (v_key V) 2"
    and "in_region x (vmem V m) 4000 \<Longrightarrow> \<not> in_region x (v_array V) 32000 \<and> \<not> in_region x (v_head V) 4 \<and> \<not> in_region x (v_vmem V) 4 \<and>
      \<not> in_region x (v_temp V) 16 \<and> \<not> in_region x (v_key V) 2"
    and "in_region x (v_head V) 4 \<Longrightarrow> \<not> in_region x (v_vmem V) 4 \<and> \<not> in_region x (v_temp V) 16 \<and> \<not> in_region x (v_key V) 2"
    and "in_region x (v_vmem V) 4 \<Longrightarrow> \<not> in_region x (v_temp V) 16 \<and> \<not> in_region x (v_key V) 2"
  using assms by (auto simp: fish_layout_def fish_blocks_def dest: disjoint_regionsD)

definition within :: "fish_vars \<Rightarrow> nat list \<Rightarrow> mem \<Rightarrow> mem \<Rightarrow> bool" where
  "within V is m m' \<longleftrightarrow> (\<forall>x. \<not> in_region x (vmem V m) 4000 \<longrightarrow> (\<forall>i\<in>set is. \<not> in_region x (slot V i) 16) \<longrightarrow> m' x = m x)"

lemma read32_same: "(\<And>x. in_region x a 4 \<Longrightarrow> m' x = m x) \<Longrightarrow> read32 m' a = read32 m a"
  by (rule read32_cong) (simp add: in_region_offset)

lemma within_keeps:
  assumes "fish_layout V m" "set is \<subseteq> {..<2000}" "within V is m m'"
  shows "vmem V m' = vmem V m" "read32 m' (v_head V) = read32 m (v_head V)" "fish_layout V m'"
    and "j < 2000 \<Longrightarrow> j \<notin> set is \<Longrightarrow> blink_at m' (slot V j) = blink_at m (slot V j)"
    and "j < 2000 \<Longrightarrow> j \<notin> set is \<Longrightarrow> read32 m' (slot V j + NEXT) = read32 m (slot V j + NEXT)"
proof -
  have out: "m' x = m x" if "\<not> in_region x (vmem V m) 4000" "\<not> in_region x (v_array V) 32000" for x
    using assms(2,3) that slot_inside by (fastforce simp: within_def)
  show v: "vmem V m' = vmem V m" unfolding vmem_def
    by (rule read32_same) (use out fish_apart(1,2) [OF assms(1)] in blast)
  show "read32 m' (v_head V) = read32 m (v_head V)"
    by (rule read32_same) (use out fish_apart(1,2) [OF assms(1)] in blast)
  show "fish_layout V m'" using assms(1) by (simp add: fish_layout_def fish_blocks_def v)
  assume j: "j < 2000" "j \<notin> set is"
  have same: "\<And>x. in_region x (slot V j) 16 \<Longrightarrow> m' x = m x"
    using assms(2,3) j slot_apart slot_inside [OF j(1)] fish_apart(1) [OF assms(1)] by (fastforce simp: within_def)
  show "blink_at m' (slot V j) = blink_at m (slot V j)" "read32 m' (slot V j + NEXT) = read32 m (slot V j + NEXT)"
    by (rule blink_at_cong, rule same, assumption)+
qed

lemma within_refl: "within V is m m"
  by (simp add: within_def)

lemma within_trans:
  "fish_layout V m \<Longrightarrow> set is \<subseteq> {..<2000} \<Longrightarrow> set js \<subseteq> {..<2000} \<Longrightarrow> within V is m m' \<Longrightarrow> within V js m' m'' \<Longrightarrow> within V (is @ js) m m''"
  using within_keeps(1) [of V m "is" m'] by (auto simp: within_def)

text \<open>A byte of the screen.\<close>

lemma poke_offset: "push_bit 1 (ucast (w :: u16)) = (of_nat (2 * unat w) :: u32)"
proof -
  have "(ucast w :: u32) = of_nat (unat w)" by simp
  then show ?thesis by (simp add: push_bit_eq_mult)
qed

lemma poke_effect:
  fixes c :: u8 and loc :: u16
  assumes l: "fish_layout V m" and loc: "loc < 2000"
  defines "m' \<equiv> mp1_poke V c (push_bit 1 (ucast loc)) m"
  shows "within V is m m'" "cells V m' = put_cell_at loc c (cells V m)" "i < 2000 \<Longrightarrow> blink_at m' (slot V i) = blink_at m (slot V i)"
    "i < 2000 \<Longrightarrow> read32 m' (slot V i + NEXT) = read32 m (slot V i + NEXT)"
proof -
  have u: "2 * unat loc < 4000" using loc by (simp add: word_less_nat_alt)
  have m': "m' = m(vmem V m + of_nat (2 * unat loc) := c)" by (simp only: m'_def mp1_poke_def poke_offset vmem_def)
  have w: "within V js m m'" for js using in_region_offset [of "2 * unat loc" 4000 "vmem V m"] u by (auto simp: within_def m')
  show "within V is m m'" by (rule w)
  note k = within_keeps [OF l _ w [of "[]"]]
  show "i < 2000 \<Longrightarrow> blink_at m' (slot V i) = blink_at m (slot V i)" "i < 2000 \<Longrightarrow> read32 m' (slot V i + NEXT) = read32 m (slot V i + NEXT)"
    using k(4,5) by simp_all
  have "vmem V m + of_nat j = vmem V m + of_nat (2 * unat loc) \<longleftrightarrow> j = 2 * unat loc" if "j < 4000" for j
    by (rule page_offset_inj) (use that u in simp_all)
  then show "cells V m' = put_cell_at loc c (cells V m)"
    using k(1) u by (auto simp: cells_def put_cell_at_def fun_eq_iff m')
qed

section \<open>One tick of the list\<close>

lemma field_inside:
  "in_region x (a + ON_LENGTH) 2 \<Longrightarrow> in_region x a 16" "in_region x (a + OFF_LENGTH) 2 \<Longrightarrow> in_region x a 16"
  "in_region x (a + COUNTDOWN) 2 \<Longrightarrow> in_region x a 16" "in_region x (a + STATUS) 2 \<Longrightarrow> in_region x a 16" "in_region x (a + NEXT) 4 \<Longrightarrow> in_region x a 16"
proof -
  have sub: "in_region x a 16" if h: "in_region x (a + of_nat k) n" "k + n \<le> 16" for k n
  proof -
    obtain j where "j < n" "x = a + of_nat k + of_nat j" using h(1) by (rule in_regionE)
    then show ?thesis using in_region_offset [of "k + j" 16 a] h(2) by (simp add: add.assoc)
  qed
  show "in_region x (a + ON_LENGTH) 2 \<Longrightarrow> in_region x a 16" "in_region x (a + OFF_LENGTH) 2 \<Longrightarrow> in_region x a 16"
    "in_region x (a + COUNTDOWN) 2 \<Longrightarrow> in_region x a 16" "in_region x (a + STATUS) 2 \<Longrightarrow> in_region x a 16" "in_region x (a + NEXT) 4 \<Longrightarrow> in_region x a 16"
    using sub [of 4 2] sub [of 6 2] sub [of 8 2] sub [of 10 2] sub [of 12 4] by (simp_all add: blink_consts)
qed

lemma field_within:
  "within V [i] m (write16 m (slot V i + ON_LENGTH) v)" "within V [i] m (write16 m (slot V i + OFF_LENGTH) v)"
  "within V [i] m (write16 m (slot V i + COUNTDOWN) v)" "within V [i] m (write16 m (slot V i + STATUS) v)"
  by (auto simp: within_def intro!: write16_outside dest: field_inside)

lemma cells_within:
  assumes "fish_layout V m" "i < 2000" "\<And>x. \<not> in_region x (slot V i) 16 \<Longrightarrow> m' x = m x"
  shows "cells V m' = cells V m"
proof -
  have "within V [i] m m'" using assms(3) by (simp add: within_def)
  then have "vmem V m' = vmem V m" by (rule within_keeps(1) [OF assms(1), rotated]) (use assms(2) in simp)
  then show ?thesis by (rule cells_cong) (use assms(3) slot_inside [OF assms(2)] fish_apart(2) [OF assms(1)] in blast)
qed

lemma field_cells:
  assumes "fish_layout V m" "i < 2000"
  shows "cells V (write16 m (slot V i + ON_LENGTH) v) = cells V m" "cells V (write16 m (slot V i + OFF_LENGTH) v) = cells V m"
    "cells V (write16 m (slot V i + COUNTDOWN) v) = cells V m" "cells V (write16 m (slot V i + STATUS) v) = cells V m"
  by (rule cells_within [OF assms], auto intro!: write16_outside dest: field_inside)+

text \<open>
  \<open>node_step V i f g m m'\<close>: between \<open>m\<close> and \<open>m'\<close> the structure in slot \<open>i\<close> changed by \<open>f\<close>, the screen
  by \<open>g\<close>, and nothing else.
\<close>

definition node_step :: "fish_vars \<Rightarrow> nat \<Rightarrow> (blink \<Rightarrow> blink) \<Rightarrow> ((nat \<Rightarrow> u8) \<Rightarrow> nat \<Rightarrow> u8) \<Rightarrow> mem \<Rightarrow> mem \<Rightarrow> bool" where
  "node_step V i f g m m' \<longleftrightarrow> within V [i] m m' \<and> blink_at m' (slot V i) = f (blink_at m (slot V i)) \<and>
     read32 m' (slot V i + NEXT) = read32 m (slot V i + NEXT) \<and> cells V m' = g (cells V m)"

lemma node_step_layout: "node_step V i f g m m' \<Longrightarrow> fish_layout V m \<Longrightarrow> i < 2000 \<Longrightarrow> fish_layout V m'"
  using within_keeps(3) [of V m "[i]" m'] by (simp add: node_step_def)

lemma node_step_trans:
  assumes "fish_layout V m" "i < 2000" "node_step V i f g m m'" "node_step V i f' g' m' m''"
  shows "node_step V i (f' \<circ> f) (g' \<circ> g) m m''"
  using assms within_trans [of V m "[i]" "[i]" m' m''] by (auto simp: node_step_def within_def)

lemma node_step_fields:
  assumes "fish_layout V m" "i < 2000"
  shows "node_step V i (\<lambda>b. b\<lparr>on_length := v\<rparr>) id m (write16 m (slot V i + ON_LENGTH) v)"
    "node_step V i (\<lambda>b. b\<lparr>off_length := v\<rparr>) id m (write16 m (slot V i + OFF_LENGTH) v)"
    "node_step V i (\<lambda>b. b\<lparr>countdown := v\<rparr>) id m (write16 m (slot V i + COUNTDOWN) v)"
    "node_step V i (\<lambda>b. b\<lparr>status := v\<rparr>) id m (write16 m (slot V i + STATUS) v)"
  using assms by (simp_all add: node_step_def field_within blink_at_write16 next_write16 field_cells)

lemma node_step_poke:
  "fish_layout V m \<Longrightarrow> i < 2000 \<Longrightarrow> loc < 2000 \<Longrightarrow> node_step V i id (put_cell_at loc c) m (mp1_poke V c (push_bit 1 (ucast loc)) m)"
  by (simp only: node_step_def poke_effect id_apply simp_thms)

lemma tasklet_body_step:
  assumes l: "fish_layout V m" and i: "i < 2000" and loc: "location (blink_at m (slot V i)) < 2000"
  shows "node_step V i tick_blink (draw_tick (blink_at m (slot V i))) m (tasklet_body V (slot V i) m)"
proof -
  let ?a = "slot V i" and ?b = "blink_at m (slot V i)"
  let ?m1 = "write16 m (?a + COUNTDOWN) (countdown ?b - 1)"
  have s1: "node_step V i (\<lambda>b. b\<lparr>countdown := countdown ?b - 1\<rparr>) id m ?m1" by (rule node_step_fields(3) [OF l i])
  then have b1: "blink_at ?m1 ?a = ?b\<lparr>countdown := countdown ?b - 1\<rparr>" by (simp add: node_step_def)
  show ?thesis
  proof (cases "expired ?b")
    case False
    then show ?thesis using s1 b1 by (simp add: tasklet_body_def Let_def blink_reads expired_def node_step_def tick_blink_def draw_tick_def)
  next
    case True
    let ?c = "if lit ?b then off_char ?b else on_char ?b" and ?n = "if lit ?b then off_length ?b else on_length ?b"
    let ?m2 = "mp1_poke V ?c (push_bit 1 (ucast (location ?b))) ?m1"
    let ?m3 = "write16 ?m2 (?a + COUNTDOWN) ?n"
    have l1: "fish_layout V ?m1" by (rule node_step_layout [OF s1 l i])
    have s2: "node_step V i id (put_cell_at (location ?b) ?c) ?m1 ?m2" using node_step_poke [OF l1 i loc] .
    note l2 = node_step_layout [OF s2 l1 i]
    have b2: "blink_at ?m2 ?a = ?b\<lparr>countdown := countdown ?b - 1\<rparr>" using s2 b1 by (simp add: node_step_def)
    note s3 = node_step_fields(3) [OF l2 i, of ?n]
    have b3: "blink_at ?m3 ?a = ?b\<lparr>countdown := ?n\<rparr>" using s3 b2 by (simp add: node_step_def)
    note s4 = node_step_fields(4) [OF node_step_layout [OF s3 l2 i] i, of "status ?b XOR 1"]
    have "tasklet_body V ?a m = write16 ?m3 (?a + STATUS) (status ?b XOR 1)"
      using True b1 b2 b3 by (cases "lit ?b") (simp_all add: tasklet_body_def Let_def blink_reads expired_def lit_def)
    moreover have "node_step V i tick_blink (draw_tick ?b) m (write16 ?m3 (?a + STATUS) (status ?b XOR 1))"
      using node_step_trans [OF l i s1 node_step_trans [OF l1 i s2 node_step_trans [OF l2 i s3 s4]]] True
      by (simp add: node_step_def tick_blink_def draw_tick_def)
    ultimately show ?thesis by simp
  qed
qed

lemma tasklet_loop_list:
  assumes "fish_layout V m" "set is \<subseteq> {..<2000}" "distinct is" "linked m p (map (slot V) is)" "\<forall>i\<in>set is. location (blink_at m (slot V i)) < 2000"
  shows "\<exists>m'. tasklet_loop V p m = Some m' \<and> within V is m m' \<and> cells V m' = fold draw_tick (blinks V is m) (cells V m) \<and>
    (\<forall>i\<in>set is. blink_at m' (slot V i) = tick_blink (blink_at m (slot V i)) \<and> read32 m' (slot V i + NEXT) = read32 m (slot V i + NEXT))"
  using assms
proof (induction "is" arbitrary: m p)
  case Nil
  then show ?case by (simp add: tasklet_loop.simps within_refl blinks_def)
next
  case (Cons i "is")
  let ?m1 = "tasklet_body V (slot V i) m"
  have i: "i < 2000" "location (blink_at m (slot V i)) < 2000" and "is": "set is \<subseteq> {..<2000}" "distinct is" "i \<notin> set is" using Cons.prems by auto
  note step = tasklet_body_step [OF Cons.prems(1) i]
  have w: "within V [i] m ?m1" and nx: "read32 ?m1 (slot V i + NEXT) = read32 m (slot V i + NEXT)"
    and b: "blink_at ?m1 (slot V i) = tick_blink (blink_at m (slot V i))" and c: "cells V ?m1 = draw_tick (blink_at m (slot V i)) (cells V m)"
    using step by (simp_all add: node_step_def)
  note k = within_keeps [OF Cons.prems(1) _ w]
  have same: "blink_at ?m1 (slot V j) = blink_at m (slot V j)" "read32 ?m1 (slot V j + NEXT) = read32 m (slot V j + NEXT)" if "j \<in> set is" for j
    using k(4,5) [of j] that i(1) "is" by auto
  have "linked ?m1 (read32 m (slot V i + NEXT)) (map (slot V) is)" using Cons.prems(4) same(2) linked_slots [of "is" ?m1 V m] by auto
  then obtain m' where m': "tasklet_loop V (read32 m (slot V i + NEXT)) ?m1 = Some m'" "within V is ?m1 m'"
      "cells V m' = fold draw_tick (blinks V is ?m1) (cells V ?m1)"
      "\<forall>j\<in>set is. blink_at m' (slot V j) = tick_blink (blink_at ?m1 (slot V j)) \<and> read32 m' (slot V j + NEXT) = read32 ?m1 (slot V j + NEXT)"
    using Cons.IH [of ?m1 "read32 m (slot V i + NEXT)"] k(3) i(1) "is" same(1) Cons.prems(5) by auto
  have "blink_at m' (slot V i) = blink_at ?m1 (slot V i)" "read32 m' (slot V i + NEXT) = read32 ?m1 (slot V i + NEXT)"
    using within_keeps(4,5) [OF _ "is"(1) m'(2), of i] k(3) i(1) "is"(3) by auto
  moreover have "tasklet_loop V p m = Some m'"
    using m'(1) Cons.prems(4) nx by (subst tasklet_loop.simps) (auto simp: Let_def)
  moreover have "within V (i # is) m m'" using within_trans [OF Cons.prems(1) _ "is"(1) w m'(2)] i(1) by simp
  moreover have "blinks V is ?m1 = blinks V is m" using same(1) by (simp add: blinks_def)
  ultimately show ?case using m'(3,4) b c nx same by (auto simp: blinks_Cons)
qed

lemma location_tick [simp]: "location (tick_blink b) = location b"
  by (simp add: tick_blink_def)

lemma tasklet_refines:
  assumes ok: "fish_ok V is m"
  obtains m' where "mp1_rtc_tasklet V m = Some m'" "fish_ok V is m'" "blinks V is m' = map tick_blink (blinks V is m)"
    "cells V m' = fold draw_tick (blinks V is m) (cells V m)" "within V is m m'"
proof -
  note F = ok [unfolded fish_ok_def]
  obtain m' where m': "tasklet_loop V (read32 m (v_head V)) m = Some m'" "within V is m m'" "cells V m' = fold draw_tick (blinks V is m) (cells V m)"
      "\<forall>i\<in>set is. blink_at m' (slot V i) = tick_blink (blink_at m (slot V i)) \<and> read32 m' (slot V i + NEXT) = read32 m (slot V i + NEXT)"
    using tasklet_loop_list [of V m "is" "read32 m (v_head V)"] F by auto
  note k = within_keeps [OF conjunct1 [OF F] _ m'(2)]
  have loc: "location (blink_at m' (slot V i)) = location (blink_at m (slot V i))" if "i < 2000" for i
    using m'(4) k(4) [OF _ that] F by (cases "i \<in> set is") auto
  have "linked m' (read32 m' (v_head V)) (map (slot V) is)"
    using F k(2) m'(4) linked_slots [of "is" m' V m] by auto
  then have "fish_ok V is m'" using F k(3) loc by (auto simp: fish_ok_def)
  moreover have "blinks V is m' = map tick_blink (blinks V is m)" using m'(4) by (simp add: blinks_def)
  ultimately show ?thesis using that m' by (simp add: mp1_rtc_tasklet_def)
qed

lemma fish_ok_same:
  assumes "fish_ok V is m" "fish_layout V m'" "read32 m' (v_head V) = read32 m (v_head V)"
    and eq: "\<And>i. i < 2000 \<Longrightarrow> blink_at m' (slot V i) = blink_at m (slot V i)" "\<And>i. i < 2000 \<Longrightarrow> read32 m' (slot V i + NEXT) = read32 m (slot V i + NEXT)"
  shows "fish_ok V is m'" "blinks V is m' = blinks V is m"
proof -
  have s: "set is \<subseteq> {..<2000}" using assms(1) by (simp add: fish_ok_def)
  show "blinks V is m' = blinks V is m" using eq(1) s by (auto simp: blinks_def)
  have "linked m' p (map (slot V) is) = linked m p (map (slot V) is)" for p using eq(2) s by (intro linked_slots) auto
  then show "fish_ok V is m'" using assms(1-3) eq(1) s by (auto simp: fish_ok_def)
qed

lemma poke_ok:
  fixes loc :: u16
  assumes ok: "fish_ok V is m" and loc: "loc < 2000"
  shows "fish_ok V is (mp1_poke V c (push_bit 1 (ucast loc)) m)" "blinks V is (mp1_poke V c (push_bit 1 (ucast loc)) m) = blinks V is m"
proof -
  have l: "fish_layout V m" using ok by (simp add: fish_ok_def)
  note P = poke_effect [OF l loc, where c = c]
  note k = within_keeps [OF l _ P(1) [of "[]"], simplified]
  show "fish_ok V is (mp1_poke V c (push_bit 1 (ucast loc)) m)" "blinks V is (mp1_poke V c (push_bit 1 (ucast loc)) m) = blinks V is m"
    by (rule fish_ok_same [OF ok], use k(2,3) P(3,4) in simp_all)+
qed

section \<open>Copying and clearing\<close>

lemma fish_memcpy_eq:
  assumes "disjoint_regions dest n src n" "n \<le> 0x100000000"
  shows "ece391_memcpy dest src (int n) m = (0, write_bytes m dest (read_bytes m src n))"
proof -
  define f where "f = (\<lambda>i (m :: mem). m(dest + of_nat i := m (src + of_nat i)))"
  have "k \<le> n \<Longrightarrow> fold f [0..<k] m = write_bytes m dest (read_bytes m src k)" for k
  proof (induction k)
    case (Suc k)
    have rd: "write_bytes m dest (read_bytes m src k) (src + of_nat k) = m (src + of_nat k)"
      using Suc.prems assms(2) by (intro write_bytes_disjoint_read [OF assms(1)]) simp_all
    have snoc: "read_bytes m src (Suc k) = read_bytes m src k @ [m (src + of_nat k)]" by (simp add: read_bytes_def)
    have "fold f [0..<Suc k] m = f k (write_bytes m dest (read_bytes m src k))" using Suc by simp
    also have "\<dots> = (write_bytes m dest (read_bytes m src k))(dest + of_nat k := m (src + of_nat k))" by (simp only: f_def rd)
    finally show ?case by (simp only: snoc write_bytes_snoc length_read_bytes)
  qed simp
  then show ?thesis by (simp add: ece391_memcpy_def f_def)
qed

lemma fish_memset_eq: "ece391_memset a c (int n) m = write_bytes m a (replicate n c)"
  using fill_run [of a c 0 n m] by (simp add: ece391_memset_def)

lemma blink_at_copy: "blink_at (write_bytes m d (read_bytes m s 16)) d = blink_at m s"
  by (rule blink_at_move) (simp add: write_bytes_inside)

lemma copy_outside: "\<not> in_region x d 16 \<Longrightarrow> write_bytes m d (read_bytes m s 16) x = m x"
  by (simp add: write_bytes_outside)

lemma blink_at_write_next: "blink_at (write32 m (a + NEXT) v) a = blink_at m a"
  by (simp add: blink_at_def read16_def write32_def bytes32_def blink_consts add.assoc)

section \<open>Adding a blink\<close>

definition set_up :: "blink \<Rightarrow> blink" where
  "set_up b = b\<lparr>status := 1, countdown := on_length b\<rparr>"

text \<open>The structure on the stack, ready to be linked in; memory is otherwise as before.\<close>

lemma prepared:
  fixes V :: fish_vars and m :: mem and arg :: u32
  defines "m1 \<equiv> write_bytes m (v_temp V) (read_bytes m arg 16)"
  defines "m3 \<equiv> write16 (write16 m1 (v_temp V + STATUS) 1) (v_temp V + COUNTDOWN) (on_length (blink_at m arg))"
  assumes arg: "disjoint_regions (v_temp V) 16 arg 16"
  shows "ece391_memcpy (v_temp V) arg STRUCT_SIZE m = (0, m1)" "blink_at m1 (v_temp V) = blink_at m arg"
    and "blink_at (write16 m1 (v_temp V + STATUS) 1) (v_temp V) = (blink_at m arg)\<lparr>status := 1\<rparr>"
    and "blink_at m3 (v_temp V) = set_up (blink_at m arg)" "\<not> in_region x (v_temp V) 16 \<Longrightarrow> m1 x = m x" "\<not> in_region x (v_temp V) 16 \<Longrightarrow> m3 x = m x"
proof -
  show "ece391_memcpy (v_temp V) arg STRUCT_SIZE m = (0, m1)" using fish_memcpy_eq [OF arg] by (simp add: STRUCT_SIZE_def m1_def)
  show b1: "blink_at m1 (v_temp V) = blink_at m arg" by (simp add: m1_def blink_at_copy)
  show "blink_at (write16 m1 (v_temp V + STATUS) 1) (v_temp V) = (blink_at m arg)\<lparr>status := 1\<rparr>" by (simp add: blink_at_write16 b1)
  show "blink_at m3 (v_temp V) = set_up (blink_at m arg)" by (simp add: m3_def blink_at_write16 b1 set_up_def)
  show m1: "\<not> in_region x (v_temp V) 16 \<Longrightarrow> m1 x = m x" by (simp add: m1_def copy_outside)
  show "\<not> in_region x (v_temp V) 16 \<Longrightarrow> m3 x = m x"
    unfolding m3_def by (metis field_inside(3,4) m1 write16_outside)
qed

lemma outside_temp:
  assumes l: "fish_layout V m" and out: "\<And>x. \<not> in_region x (v_temp V) 16 \<Longrightarrow> m' x = m x"
  shows "vmem V m' = vmem V m" "read32 m' (v_head V) = read32 m (v_head V)" "fish_layout V m'" "cells V m' = cells V m"
    and "i < 2000 \<Longrightarrow> blink_at m' (slot V i) = blink_at m (slot V i)" "i < 2000 \<Longrightarrow> read32 m' (slot V i + NEXT) = read32 m (slot V i + NEXT)"
proof -
  note A = fish_apart [OF l]
  show v: "vmem V m' = vmem V m" unfolding vmem_def by (rule read32_same) (use A out in blast)
  show "read32 m' (v_head V) = read32 m (v_head V)" by (rule read32_same) (use A out in blast)
  show "fish_layout V m'" using l by (simp add: fish_layout_def fish_blocks_def v)
  show "cells V m' = cells V m" by (rule cells_cong [OF v]) (use out A(2) in blast)
  show "blink_at m' (slot V i) = blink_at m (slot V i)" "read32 m' (slot V i + NEXT) = read32 m (slot V i + NEXT)" if "i < 2000"
    by (rule blink_at_cong, use A(1) out slot_inside [OF that] in blast)+
qed

lemma malloc_cong:
  assumes "\<And>i. i < 2000 \<Longrightarrow> location (blink_at m' (slot V i)) = location (blink_at m (slot V i))"
  shows "mp1_malloc V n m' = mp1_malloc V n m"
proof -
  have "find (\<lambda>i. read16 m' (slot V i + LOCATION) = 0) [0..<80 * 25] = find (\<lambda>i. read16 m (slot V i + LOCATION) = 0) [0..<80 * 25]"
    by (rule find_cong) (auto simp: blink_reads assms)
  then show ?thesis by (simp add: mp1_malloc_def)
qed

text \<open>Linking the structure on the stack into slot \<open>i\<close>.\<close>

definition link_in :: "fish_vars \<Rightarrow> nat \<Rightarrow> mem \<Rightarrow> mem" where
  "link_in V i m =
     (let m = write_bytes m (slot V i) (read_bytes m (v_temp V) 16);
          m = write32 m (slot V i + NEXT) (read32 m (v_head V))
      in write32 m (v_head V) (slot V i))"

lemma link_in_effect:
  assumes l: "fish_layout V m" and i: "i < 2000"
  shows "blink_at (link_in V i m) (slot V i) = blink_at m (v_temp V)" "read32 (link_in V i m) (slot V i + NEXT) = read32 m (v_head V)"
    and "read32 (link_in V i m) (v_head V) = slot V i" "fish_layout V (link_in V i m)" "cells V (link_in V i m) = cells V m"
    and "j < 2000 \<Longrightarrow> j \<noteq> i \<Longrightarrow> blink_at (link_in V i m) (slot V j) = blink_at m (slot V j)"
    and "j < 2000 \<Longrightarrow> j \<noteq> i \<Longrightarrow> read32 (link_in V i m) (slot V j + NEXT) = read32 m (slot V j + NEXT)"
    and "vmem V (link_in V i m) = vmem V m"
proof -
  let ?a = "slot V i"
  define m1 where "m1 = write_bytes m ?a (read_bytes m (v_temp V) 16)"
  define m2 where "m2 = write32 m1 (?a + NEXT) (read32 m1 (v_head V))"
  define m3 where "m3 = write32 m2 (v_head V) ?a"
  have m3: "link_in V i m = m3" by (simp add: link_in_def m1_def m2_def m3_def Let_def)
  note A = fish_apart [OF l]
  have o1: "m1 x = m x" if "\<not> in_region x ?a 16" for x using that by (simp add: m1_def copy_outside)
  have o2: "m2 x = m x" if "\<not> in_region x ?a 16" for x using that o1 field_inside(5) [of x ?a] by (metis m2_def write32_outside)
  have o3: "m3 x = m x" if "\<not> in_region x ?a 16" "\<not> in_region x (v_head V) 4" for x using that o2 by (metis m3_def write32_outside)
  have h1: "read32 m1 (v_head V) = read32 m (v_head V)" by (rule read32_same) (use o1 A(1) slot_inside [OF i] in blast)
  have n3: "blink_at m3 ?a = blink_at m2 ?a" "read32 m3 (?a + NEXT) = read32 m2 (?a + NEXT)"
    by (rule blink_at_cong, use A(1) slot_inside [OF i] write32_outside m3_def in metis)+
  show "blink_at (link_in V i m) ?a = blink_at m (v_temp V)" "read32 (link_in V i m) (?a + NEXT) = read32 m (v_head V)"
    unfolding m3 n3 using h1 by (simp_all add: m2_def blink_at_write_next m1_def blink_at_copy read32_write32)
  show "read32 (link_in V i m) (v_head V) = ?a" unfolding m3 by (simp add: m3_def read32_write32)
  have v: "vmem V m3 = vmem V m" unfolding vmem_def by (rule read32_same) (use o3 A slot_inside [OF i] in blast)
  then show "vmem V (link_in V i m) = vmem V m" by (simp add: m3)
  show "fish_layout V (link_in V i m)" using l by (simp add: fish_layout_def fish_blocks_def m3 v)
  show "cells V (link_in V i m) = cells V m" unfolding m3 by (rule cells_cong [OF v]) (use o3 A(2) slot_inside [OF i] in blast)
  show "blink_at (link_in V i m) (slot V j) = blink_at m (slot V j)" "read32 (link_in V i m) (slot V j + NEXT) = read32 m (slot V j + NEXT)"
    if "j < 2000" "j \<noteq> i" unfolding m3
    by (rule blink_at_cong, use o3 A(1) slot_inside [OF that(1)] slot_apart [OF that(1) i] that(2) in blast)+
qed

lemma link_in_outside: "\<not> in_region x (slot V i) 16 \<Longrightarrow> \<not> in_region x (v_head V) 4 \<Longrightarrow> link_in V i m x = m x"
proof -
  assume x: "\<not> in_region x (slot V i) 16" "\<not> in_region x (v_head V) 4"
  then have "\<not> in_region x (slot V i + NEXT) 4" using field_inside(5) by blast
  then show ?thesis using x by (simp add: link_in_def Let_def write32_outside copy_outside)
qed

text \<open>A structure of the caller's: apart from everything the list uses.\<close>

definition caller_struct :: "fish_vars \<Rightarrow> mem \<Rightarrow> u32 \<Rightarrow> bool" where
  "caller_struct V m arg \<longleftrightarrow> list_all (\<lambda>(a, n). disjoint_regions a n arg 16) (fish_blocks V m)"

lemma caller_struct_outside: "caller_struct V m arg \<Longrightarrow> in_region x arg 16 \<Longrightarrow> outside (fish_blocks V m) x"
  by (auto simp: caller_struct_def outside_def list_all_iff dest: disjoint_regionsD)

text \<open>The whole call when there is a slot: nothing here depends on the list being well formed.\<close>

lemma add_effect:
  assumes l: "fish_layout V m" and arg: "disjoint_regions (v_temp V) 16 arg 16" and loc: "location (blink_at m arg) < 2000"
    and i: "i < 2000" "mp1_malloc V STRUCT_SIZE m = slot V i"
  obtains m' where "mp1_ioctl_add V arg m = (0, m')" "fish_layout V m'" "read32 m' (v_head V) = slot V i"
    and "blink_at m' (slot V i) = set_up (blink_at m arg)" "read32 m' (slot V i + NEXT) = read32 m (v_head V)"
    and "cells V m' = put_cell_at (location (blink_at m arg)) (on_char (blink_at m arg)) (cells V m)"
    and "\<And>j. j < 2000 \<Longrightarrow> j \<noteq> i \<Longrightarrow> blink_at m' (slot V j) = blink_at m (slot V j)"
    and "\<And>j. j < 2000 \<Longrightarrow> j \<noteq> i \<Longrightarrow> read32 m' (slot V j + NEXT) = read32 m (slot V j + NEXT)"
    and "\<And>x. outside (fish_blocks V m) x \<Longrightarrow> m' x = m x" "vmem V m' = vmem V m"
proof -
  let ?b = "blink_at m arg"
  let ?m0 = "write16 (write16 (write_bytes m (v_temp V) (read_bytes m arg 16)) (v_temp V + STATUS) 1) (v_temp V + COUNTDOWN) (on_length ?b)"
  have out: "\<And>x. \<not> in_region x (v_temp V) 16 \<Longrightarrow> ?m0 x = m x" by (rule prepared(6) [OF arg])
  note T = outside_temp [OF l out]
  have tmp: "blink_at ?m0 (v_temp V) = set_up ?b" by (rule prepared(4) [OF arg])
  have mal: "mp1_malloc V STRUCT_SIZE ?m0 = slot V i" using malloc_cong [of ?m0 V m] T(5) i(2) by simp
  note N = link_in_effect [OF T(3) i(1)]
  let ?m3 = "link_in V i ?m0"
  let ?m4 = "mp1_poke V (on_char ?b) (push_bit 1 (ucast (location ?b))) ?m3"
  note P = poke_effect [OF N(4) loc, where c = "on_char ?b"]
  note k = within_keeps [OF N(4) _ P(1) [of "[]"], simplified]
  have "disjoint_regions (v_array V) 32000 (v_temp V) 16" using l by (simp add: fish_layout_def fish_blocks_def)
  then have "disjoint_regions (v_temp V) 16 (slot V i) 16"
    unfolding slot_def by (intro disjoint_subregion [where k = 32000]) (use i(1) disjoint_regions_sym in auto)
  then have cp: "ece391_memcpy (slot V i) (v_temp V) STRUCT_SIZE ?m0 = (0, write_bytes ?m0 (slot V i) (read_bytes ?m0 (v_temp V) 16))"
    using fish_memcpy_eq [of "slot V i" 16 "v_temp V" ?m0] by (simp add: disjoint_regions_sym STRUCT_SIZE_def)
  have r: "mp1_ioctl_add V arg m = (0, ?m4)"
    using loc prepared(1-3) [OF arg, of m] mal cp slot_nonzero [OF l i(1)] N(1) tmp
    by (simp add: mp1_ioctl_add_def Let_def blink_reads set_up_def link_in_def)
  have v: "vmem V ?m4 = vmem V m" using k(1) N(8) T(1) by simp
  have fr: "?m4 x = m x" if "outside (fish_blocks V m) x" for x
  proof -
    have x: "\<not> in_region x (vmem V m) 4000" "\<not> in_region x (v_array V) 32000" "\<not> in_region x (v_head V) 4" "\<not> in_region x (v_temp V) 16"
      using that by (simp_all add: outside_def fish_blocks_def)
    have "?m4 x = ?m3 x" using P(1) [of "[]"] x(1) N(8) T(1) by (simp add: within_def)
    also have "\<dots> = ?m0 x" using x(2,3) slot_inside [OF i(1)] by (intro link_in_outside) auto
    finally show ?thesis using out x(4) by simp
  qed
  show ?thesis
    by (rule that [OF r _ _ _ _ _ _ _ fr v]) (use N T k(2,3) P tmp i(1) in simp_all)
qed

lemma malloc_cases:
  assumes "fish_ok V is m"
  obtains (full) "set is = {..<2000}" "mp1_malloc V n m = 0" | (free) i where "i < 2000" "i \<notin> set is" "mp1_malloc V n m = slot V i"
proof (cases "find (\<lambda>i. read16 m (slot V i + LOCATION) = 0) [0..<80 * 25]")
  case None
  then have "\<forall>i<2000. location (blink_at m (slot V i)) \<noteq> 0" by (simp add: find_None_iff blink_reads)
  then show ?thesis using full None assms by (auto simp: mp1_malloc_def fish_ok_def)
next
  case (Some i)
  then have "i < 2000" "location (blink_at m (slot V i)) = 0" by (auto simp: find_Some_iff blink_reads)
  then show ?thesis using free Some assms by (auto simp: mp1_malloc_def fish_ok_def)
qed

lemma add_refused:
  assumes ok: "fish_ok V is m" and arg: "disjoint_regions (v_temp V) 16 arg 16"
    and no: "2000 \<le> location (blink_at m arg) \<or> set is = {..<2000}"
  shows "\<exists>m'. mp1_ioctl_add V arg m = (-1, m') \<and> fish_ok V is m' \<and> blinks V is m' = blinks V is m \<and> cells V m' = cells V m"
proof -
  let ?m1 = "write_bytes m (v_temp V) (read_bytes m arg 16)"
  let ?m3 = "write16 (write16 ?m1 (v_temp V + STATUS) 1) (v_temp V + COUNTDOWN) (on_length (blink_at m arg))"
  have l: "fish_layout V m" using ok by (simp add: fish_ok_def)
  have keep: "fish_ok V is m' \<and> blinks V is m' = blinks V is m \<and> cells V m' = cells V m" if "\<And>x. \<not> in_region x (v_temp V) 16 \<Longrightarrow> m' x = m x" for m'
    using fish_ok_same [OF ok outside_temp(3,2) [OF l that] outside_temp(5,6) [OF l that]] outside_temp(4) [OF l that] by blast
  show ?thesis
  proof (cases "2000 \<le> location (blink_at m arg)")
    case True
    then have "mp1_ioctl_add V arg m = (-1, ?m1)" using prepared(1,2) [OF arg, of m] by (simp add: mp1_ioctl_add_def Let_def blink_reads)
    then show ?thesis using keep [of ?m1] copy_outside by blast
  next
    case False
    have out: "\<And>x. \<not> in_region x (v_temp V) 16 \<Longrightarrow> ?m3 x = m x" by (rule prepared(6) [OF arg])
    have "mp1_malloc V STRUCT_SIZE m = 0" by (rule malloc_cases [OF ok, where n = STRUCT_SIZE]) (use no False in auto)
    then have "mp1_malloc V STRUCT_SIZE ?m3 = 0" using malloc_cong [of ?m3 V m] outside_temp(5) [OF l out] by simp
    then have "mp1_ioctl_add V arg m = (-1, ?m3)"
      using False prepared(1-3) [OF arg, of m] by (simp add: mp1_ioctl_add_def Let_def blink_reads)
    then show ?thesis using keep [OF out] by blast
  qed
qed

lemma add_accepted:
  assumes ok: "fish_ok V is m" and arg: "disjoint_regions (v_temp V) 16 arg 16"
    and b: "0 < location (blink_at m arg)" "location (blink_at m arg) < 2000" and room: "set is \<noteq> {..<2000}"
  shows "\<exists>i m'. mp1_ioctl_add V arg m = (0, m') \<and> fish_ok V (i # is) m' \<and> blinks V (i # is) m' = set_up (blink_at m arg) # blinks V is m \<and>
    cells V m' = put_cell_at (location (blink_at m arg)) (on_char (blink_at m arg)) (cells V m)"
proof -
  let ?b = "blink_at m arg"
  note F = ok [unfolded fish_ok_def]
  have l: "fish_layout V m" using F by simp
  obtain i where i: "i < 2000" "i \<notin> set is" "mp1_malloc V STRUCT_SIZE m = slot V i"
    by (rule malloc_cases [OF ok, where n = STRUCT_SIZE]) (use room in auto)
  obtain m' where m': "mp1_ioctl_add V arg m = (0, m')" "fish_layout V m'" "read32 m' (v_head V) = slot V i" "blink_at m' (slot V i) = set_up ?b"
      "read32 m' (slot V i + NEXT) = read32 m (v_head V)" "cells V m' = put_cell_at (location ?b) (on_char ?b) (cells V m)"
    and old: "\<And>j. j < 2000 \<Longrightarrow> j \<noteq> i \<Longrightarrow> blink_at m' (slot V j) = blink_at m (slot V j)"
      "\<And>j. j < 2000 \<Longrightarrow> j \<noteq> i \<Longrightarrow> read32 m' (slot V j + NEXT) = read32 m (slot V j + NEXT)"
    by (rule add_effect [OF l arg b(2) i(1,3)]) (rule that, (assumption | simp)+)
  have "j \<noteq> i" "j < 2000" if "j \<in> set is" for j using that i F by auto
  then have keep: "linked m' p (map (slot V) is) = linked m p (map (slot V) is)" "blinks V is m' = blinks V is m" for p
    using linked_slots [of "is" m' V m] old by (auto simp: blinks_def)
  have loc: "location (blink_at m' (slot V j)) = (if j = i then location ?b else location (blink_at m (slot V j)))" if "j < 2000" for j
    using that old(1) m'(4) by (simp add: set_up_def)
  have "linked m' (read32 m' (v_head V)) (map (slot V) (i # is))" using F keep(1) slot_nonzero [OF l i(1)] m'(3,5) by simp
  moreover have "\<forall>j<2000. j \<in> set (i # is) \<longleftrightarrow> location (blink_at m' (slot V j)) \<noteq> 0" using loc F b(1) by auto
  moreover have "\<forall>j\<in>set (i # is). location (blink_at m' (slot V j)) < 2000" using loc F b(2) i(1) by auto
  ultimately have "fish_ok V (i # is) m'" using F m'(2) i by (simp add: fish_ok_def)
  moreover have "blinks V (i # is) m' = set_up ?b # blinks V is m" by (simp add: blinks_Cons m'(4) keep)
  ultimately show ?thesis using m'(1,6) by blast
qed

lemma malloc_slot: "mp1_malloc V n m = 0 \<or> (\<exists>i<2000. mp1_malloc V n m = slot V i)"
  by (auto simp: mp1_malloc_def find_Some_iff split: option.split)

text \<open>Whatever it returns, the call writes nothing but its own blocks.\<close>

lemma add_frame:
  assumes l: "fish_layout V m" and arg: "disjoint_regions (v_temp V) 16 arg 16" and r: "mp1_ioctl_add V arg m = (r, m')"
  shows "outside (fish_blocks V m) x \<Longrightarrow> m' x = m x" "vmem V m' = vmem V m"
proof -
  let ?m1 = "write_bytes m (v_temp V) (read_bytes m arg 16)"
  let ?m3 = "write16 (write16 ?m1 (v_temp V + STATUS) 1) (v_temp V + COUNTDOWN) (on_length (blink_at m arg))"
  note p = prepared [OF arg, where m = m]
  have same: "outside (fish_blocks V m) y \<Longrightarrow> n y = m y" "vmem V n = vmem V m" if "\<And>x. \<not> in_region x (v_temp V) 16 \<Longrightarrow> n x = m x" for y n
    using that outside_temp(1) [OF l that] by (simp_all add: outside_def fish_blocks_def)
  have "(outside (fish_blocks V m) y \<longrightarrow> m' y = m y) \<and> vmem V m' = vmem V m" for y
  proof (cases "location (blink_at m arg) < 2000")
    case False
    then have "m' = ?m1" using p(1,2) r by (simp add: mp1_ioctl_add_def Let_def blink_reads not_less)
    then show ?thesis using same [of ?m1] p(5) by blast
  next
    case True
    have "mp1_malloc V STRUCT_SIZE ?m3 = mp1_malloc V STRUCT_SIZE m" using malloc_cong [of ?m3 V m] outside_temp(5) [OF l p(6)] by simp
    then have "mp1_ioctl_add V arg m = (-1, ?m3)" if "mp1_malloc V STRUCT_SIZE m = 0"
      using True [folded not_le] p(1-3) that by (simp add: mp1_ioctl_add_def Let_def blink_reads)
    then have "m' = ?m3" if "mp1_malloc V STRUCT_SIZE m = 0" using that r by simp
    then show ?thesis using same [of ?m3] p(6) malloc_slot [of V STRUCT_SIZE m] add_effect [OF l arg True] r by (metis prod.inject)
  qed
  then show "outside (fish_blocks V m) x \<Longrightarrow> m' x = m x" "vmem V m' = vmem V m" by blast+
qed

section \<open>Finding a blink\<close>

text \<open>The first structure with a location splits the list.\<close>

lemma find_loop_list:
  assumes "fish_layout V m" "set is \<subseteq> {..<2000}" "linked m p (map (slot V) is)"
  shows "(\<forall>i\<in>set is. location (blink_at m (slot V i)) \<noteq> loc) \<and> find_loop loc p m = Some 0 \<or>
    (\<exists>xs i ys. is = xs @ i # ys \<and> (\<forall>x\<in>set xs. location (blink_at m (slot V x)) \<noteq> loc) \<and> location (blink_at m (slot V i)) = loc \<and>
       find_loop loc p m = Some (slot V i))"
  using assms(2,3)
proof (induction "is" arbitrary: p)
  case Nil
  then show ?case by (simp add: find_loop.simps)
next
  case (Cons i "is")
  have p: "p = slot V i" "p \<noteq> 0" using Cons.prems by simp_all
  show ?case
  proof (cases "location (blink_at m (slot V i)) = loc")
    case True
    then have "find_loop loc p m = Some (slot V i)" using p by (subst find_loop.simps) (simp add: blink_reads)
    then show ?thesis using True by (metis append_Nil empty_iff list.set(1))
  next
    case False
    then have "find_loop loc p m = find_loop loc (read32 m (slot V i + NEXT)) m" using p by (subst find_loop.simps) (simp add: blink_reads)
    then show ?thesis using Cons False by (fastforce simp: Cons_eq_append_conv)
  qed
qed

lemma find_helper_cases:
  assumes ok: "fish_ok V is m"
  obtains (none) "\<forall>b\<in>set (blinks V is m). location b \<noteq> ucast loc" "mp1_find_helper V loc m = Some 0"
  | (found) xs i ys where "is = xs @ i # ys" "\<forall>b\<in>set (blinks V xs m). location b \<noteq> ucast loc" "location (blink_at m (slot V i)) = ucast loc"
      "mp1_find_helper V loc m = Some (slot V i)"
  using find_loop_list [of V m "is" "read32 m (v_head V)" "ucast loc"] ok
  by (auto simp: fish_ok_def mp1_find_helper_def blinks_def)

lemma slot_inj: "i < 2000 \<Longrightarrow> j < 2000 \<Longrightarrow> slot V i = slot V j \<longleftrightarrow> i = j"
  using slot_apart [of i j "slot V i" V] in_region_offset [of 0 16 "slot V i"] by auto

section \<open>Removing a blink\<close>

definition remove_first :: "u16 \<Rightarrow> blink list \<Rightarrow> blink list" where
  "remove_first loc bs = takeWhile (\<lambda>b. location b \<noteq> loc) bs @ tl (dropWhile (\<lambda>b. location b \<noteq> loc) bs)"

lemma remove_first_split:
  "\<forall>b\<in>set xs. location b \<noteq> loc \<Longrightarrow> location b = loc \<Longrightarrow> remove_first loc (xs @ b # ys) = xs @ ys"
  by (simp add: remove_first_def takeWhile_append2 dropWhile_append2)

lemma find_prev_list:
  assumes "set (xs @ i # ys) \<subseteq> {..<2000}" "distinct (xs @ i # ys)" "linked m (read32 m edx) (map (slot V) (xs @ i # ys))"
  shows "find_prev (slot V i) edx m = Some (if xs = [] then edx else slot V (last xs) + NEXT)"
  using assms
proof (induction xs arbitrary: edx)
  case Nil
  then show ?case by (simp add: find_prev.simps)
next
  case (Cons x xs)
  have "read32 m edx = slot V x" "slot V x \<noteq> slot V i" using Cons.prems slot_inj [of x i V] by auto
  then have "find_prev (slot V i) edx m = find_prev (slot V i) (slot V x + NEXT) m" by (subst find_prev.simps) simp
  then show ?case using Cons by (auto split: if_splits)
qed

lemma unlinked:
  assumes "distinct (xs @ i # ys)" "linked m p (map (slot V) (xs @ i # ys))"
    and "\<forall>j\<in>set (xs @ ys). read32 m' (slot V j + NEXT) = (if xs \<noteq> [] \<and> j = last xs then read32 m (slot V i + NEXT) else read32 m (slot V j + NEXT))"
  shows "linked m' (if xs = [] then read32 m (slot V i + NEXT) else p) (map (slot V) (xs @ ys))"
  using assms
proof (induction xs arbitrary: p)
  case Nil
  then show ?case using linked_slots [of ys m' V m] by simp
next
  case (Cons x xs)
  have p: "p = slot V x" "slot V x \<noteq> 0" and rest: "linked m (read32 m (slot V x + NEXT)) (map (slot V) (xs @ i # ys))" using Cons.prems(2) by simp_all
  have nx: "read32 m' (slot V x + NEXT) = (if xs = [] then read32 m (slot V i + NEXT) else read32 m (slot V x + NEXT))"
    using Cons.prems(1,3) last_in_set [of xs] by (auto split: if_splits)
  have same: "\<forall>j\<in>set (xs @ ys). read32 m' (slot V j + NEXT) = (if xs \<noteq> [] \<and> j = last xs then read32 m (slot V i + NEXT) else read32 m (slot V j + NEXT))"
    using Cons.prems(1,3) by (auto split: if_splits)
  show ?case using Cons.IH [OF _ rest same] Cons.prems(1) p nx by simp
qed

lemma free_effect:
  shows "\<not> in_region x a 16 \<Longrightarrow> mp1_free a m x = m x" "location (blink_at (mp1_free a m) a) = 0"
proof -
  have f: "mp1_free a m = write_bytes m a (replicate 16 0)" using fish_memset_eq [of a 0 16 m] by (simp add: mp1_free_def STRUCT_SIZE_def)
  show "\<not> in_region x a 16 \<Longrightarrow> mp1_free a m x = m x" by (simp add: f write_bytes_outside)
  have "mp1_free a m (a + of_nat k) = 0" if "k < 16" for k using write_bytes_inside [of "replicate 16 0" k m a] that by (simp add: f)
  from this [of 0] this [of 1] show "location (blink_at (mp1_free a m) a) = 0" by (simp add: blink_at_def read16_def blink_consts)
qed

text \<open>The pointer to the removed structure is redirected and its slot cleared.\<close>

definition unlink :: "fish_vars \<Rightarrow> nat list \<Rightarrow> nat \<Rightarrow> mem \<Rightarrow> mem" where
  "unlink V xs i m = mp1_free (slot V i) (write32 m (if xs = [] then v_head V else slot V (last xs) + NEXT) (read32 m (slot V i + NEXT)))"

lemma unlink_outside:
  assumes "\<not> in_region x (slot V i) 16" "\<not> in_region x (v_head V) 4" "xs \<noteq> [] \<Longrightarrow> \<not> in_region x (slot V (last xs)) 16"
  shows "unlink V xs i m x = m x"
proof -
  have "\<not> in_region x (if xs = [] then v_head V else slot V (last xs) + NEXT) 4" using assms(2,3) field_inside(5) [of x "slot V (last xs)"] by auto
  then show ?thesis using assms(1) by (simp add: unlink_def free_effect(1) write32_outside)
qed

lemma unlink_node:
  assumes l: "fish_layout V m" and i: "i < 2000" and xs: "set xs \<subseteq> {..<2000}" and j: "j < 2000" "j \<noteq> i"
  shows "blink_at (unlink V xs i m) (slot V j) = blink_at m (slot V j)"
    "read32 (unlink V xs i m) (slot V j + NEXT) = (if xs \<noteq> [] \<and> j = last xs then read32 m (slot V i + NEXT) else read32 m (slot V j + NEXT))"
proof -
  let ?m2 = "unlink V xs i m" and ?nx = "read32 m (slot V i + NEXT)"
  have ne: "\<not> in_region x (slot V i) 16" if "in_region x (slot V j) 16" for x using slot_apart [OF j(1) i that] j(2) by blast
  have "blink_at ?m2 (slot V j) = blink_at m (slot V j) \<and>
    read32 ?m2 (slot V j + NEXT) = (if xs \<noteq> [] \<and> j = last xs then ?nx else read32 m (slot V j + NEXT))"
  proof (cases "xs \<noteq> [] \<and> j = last xs")
    case True
    have "blink_at ?m2 (slot V j) = blink_at (write32 m (slot V j + NEXT) ?nx) (slot V j)"
        "read32 ?m2 (slot V j + NEXT) = read32 (write32 m (slot V j + NEXT) ?nx) (slot V j + NEXT)"
      by (rule blink_at_cong, use True ne free_effect(1) in \<open>simp add: unlink_def\<close>)+
    then show ?thesis using True by (simp add: blink_at_write_next read32_write32)
  next
    case False
    have lst: "last xs < 2000" if "xs \<noteq> []" using xs last_in_set [OF that] by blast
    have same: "\<And>x. in_region x (slot V j) 16 \<Longrightarrow> ?m2 x = m x"
      by (rule unlink_outside) (use ne fish_apart(1) [OF l] slot_inside [OF j(1)] slot_apart [OF j(1) lst] False in blast)+
    have "blink_at ?m2 (slot V j) = blink_at m (slot V j)" "read32 ?m2 (slot V j + NEXT) = read32 m (slot V j + NEXT)"
      by (rule blink_at_cong, rule same, assumption)+
    then show ?thesis using False by auto
  qed
  then show "blink_at ?m2 (slot V j) = blink_at m (slot V j)"
    "read32 ?m2 (slot V j + NEXT) = (if xs \<noteq> [] \<and> j = last xs then ?nx else read32 m (slot V j + NEXT))" by blast+
qed

lemma unlink_ok:
  assumes ok: "fish_ok V (xs @ i # ys) m"
  shows "fish_ok V (xs @ ys) (unlink V xs i m)" "blinks V (xs @ ys) (unlink V xs i m) = blinks V xs m @ blinks V ys m"
    "cells V (unlink V xs i m) = cells V m"
proof -
  let ?m2 = "unlink V xs i m" and ?nx = "read32 m (slot V i + NEXT)"
  note F = ok [unfolded fish_ok_def]
  have l: "fish_layout V m" and i: "i < 2000" and s: "set xs \<subseteq> {..<2000}" "set ys \<subseteq> {..<2000}" and d: "distinct (xs @ i # ys)" using F by auto
  note A = fish_apart [OF l]
  note N = unlink_node [OF l i s(1)]
  have lst: "xs \<noteq> [] \<Longrightarrow> last xs < 2000" using s(1) last_in_set by blast
  have scr: "?m2 x = m x" if "in_region x (vmem V m) 4000 \<or> in_region x (v_vmem V) 4" for x
    by (rule unlink_outside) (use that A slot_inside i lst in blast)+
  have v: "vmem V ?m2 = vmem V m" unfolding vmem_def by (rule read32_same) (use scr in blast)
  show "cells V ?m2 = cells V m" by (rule cells_cong [OF v]) (use scr in blast)
  have rest: "j < 2000" "j \<noteq> i" if "j \<in> set (xs @ ys)" for j using that s d by auto
  show "blinks V (xs @ ys) ?m2 = blinks V xs m @ blinks V ys m" using N(1) rest by (auto simp: blinks_def)
  have h: "read32 ?m2 (v_head V) = (if xs = [] then ?nx else read32 m (v_head V))"
  proof -
    have "read32 ?m2 (v_head V) = read32 (write32 m (if xs = [] then v_head V else slot V (last xs) + NEXT) ?nx) (v_head V)"
      unfolding unlink_def by (rule read32_same, rule free_effect(1)) (use A(1) slot_inside [OF i] in blast)
    moreover have "read32 (write32 m (slot V (last xs) + NEXT) ?nx) (v_head V) = read32 m (v_head V)" if "xs \<noteq> []"
      by (rule read32_same) (use A(1) slot_inside [OF lst [OF that]] field_inside(5) write32_outside in metis)
    ultimately show ?thesis by (simp add: read32_write32)
  qed
  have "\<forall>j\<in>set (xs @ ys). read32 ?m2 (slot V j + NEXT) = (if xs \<noteq> [] \<and> j = last xs then ?nx else read32 m (slot V j + NEXT))"
    using N(2) rest by blast
  from unlinked [OF d _ this] have "linked ?m2 (read32 ?m2 (v_head V)) (map (slot V) (xs @ ys))" using F unfolding h by auto
  moreover have "fish_layout V ?m2" using l by (simp add: fish_layout_def fish_blocks_def v)
  moreover have "location (blink_at ?m2 (slot V i)) = 0" by (simp add: unlink_def free_effect(2))
  then have "j \<in> set (xs @ ys) \<longleftrightarrow> location (blink_at ?m2 (slot V j)) \<noteq> 0" if "j < 2000" for j
    using F N(1) [OF that] d that by (cases "j = i") auto
  moreover have "\<forall>j\<in>set (xs @ ys). location (blink_at ?m2 (slot V j)) < 2000" using F N(1) rest by auto
  ultimately show "fish_ok V (xs @ ys) ?m2" using s d by (simp add: fish_ok_def)
qed

lemma fish_okD: "fish_ok V is m \<Longrightarrow> fish_layout V m" "fish_ok V is m \<Longrightarrow> i \<in> set is \<Longrightarrow> i < 2000"
    "fish_ok V is m \<Longrightarrow> i \<in> set is \<Longrightarrow> location (blink_at m (slot V i)) < 2000"
  by (auto simp: fish_ok_def)

lemma remove_refines:
  assumes ok: "fish_ok V is m"
  shows "if \<exists>b\<in>set (blinks V is m). location b = ucast arg
    then \<exists>is' m'. mp1_ioctl_remove V arg m = Some (0, m') \<and> fish_ok V is' m' \<and> blinks V is' m' = remove_first (ucast arg) (blinks V is m) \<and> cells V m' = cells V m
    else mp1_ioctl_remove V arg m = Some (-1, m)"
proof (cases rule: find_helper_cases [OF ok, of arg])
  case 1
  then show ?thesis by (auto simp: mp1_ioctl_remove_def)
next
  case (2 xs i ys)
  have i: "i < 2000" using fish_okD(2) [OF ok] 2(1) by simp
  have "find_prev (slot V i) (v_head V) m = Some (if xs = [] then v_head V else slot V (last xs) + NEXT)"
    by (rule find_prev_list [of xs i ys]) (use ok 2(1) in \<open>auto simp: fish_ok_def\<close>)
  then have "mp1_ioctl_remove V arg m = Some (0, unlink V xs i m)"
    using 2(4) slot_nonzero [OF fish_okD(1) [OF ok] i] by (simp add: mp1_ioctl_remove_def unlink_def)
  moreover have "remove_first (ucast arg) (blinks V is m) = blinks V xs m @ blinks V ys m"
    using remove_first_split [of "blinks V xs m"] 2(1-3) by (simp add: blinks_def)
  moreover have "\<exists>b\<in>set (blinks V is m). location b = ucast arg" using 2(1,3) by (auto simp: blinks_def)
  moreover note unlink_ok [OF ok [unfolded 2(1)]]
  ultimately show ?thesis by auto
qed

section \<open>Changing one blink in place\<close>

definition update_first :: "u16 \<Rightarrow> (blink \<Rightarrow> blink) \<Rightarrow> blink list \<Rightarrow> blink list" where
  "update_first loc f bs = takeWhile (\<lambda>b. location b \<noteq> loc) bs @ (case dropWhile (\<lambda>b. location b \<noteq> loc) bs of [] \<Rightarrow> [] | b # r \<Rightarrow> f b # r)"

lemma update_first_split:
  "\<forall>b\<in>set xs. location b \<noteq> loc \<Longrightarrow> location b = loc \<Longrightarrow> update_first loc f (xs @ b # ys) = xs @ f b # ys"
  by (simp add: update_first_def takeWhile_append2 dropWhile_append2)

lemma node_step_ok:
  assumes ok: "fish_ok V is m" and i: "i \<in> set is" and st: "node_step V i f g m m'" and f: "\<And>b. location (f b) = location b"
  shows "fish_ok V is m'" "j \<in> set is \<Longrightarrow> blink_at m' (slot V j) = (if j = i then f (blink_at m (slot V i)) else blink_at m (slot V j))"
proof -
  have i2: "i < 2000" and l: "fish_layout V m" using fish_okD [OF ok] i by auto
  have w: "within V [i] m m'" using st by (simp add: node_step_def)
  note k = within_keeps [OF l _ w]
  have node: "blink_at m' (slot V j) = (if j = i then f (blink_at m (slot V i)) else blink_at m (slot V j))" if "j < 2000" for j
    using k(4) [OF _ that] i2 st by (cases "j = i") (auto simp: node_step_def)
  have nxt: "read32 m' (slot V j + NEXT) = read32 m (slot V j + NEXT)" if "j < 2000" for j
    using k(5) [OF _ that] i2 st by (cases "j = i") (auto simp: node_step_def)
  show "j \<in> set is \<Longrightarrow> blink_at m' (slot V j) = (if j = i then f (blink_at m (slot V i)) else blink_at m (slot V j))"
    using node fish_okD(2) [OF ok] by blast
  have "linked m' p (map (slot V) is) = linked m p (map (slot V) is)" for p using nxt fish_okD(2) [OF ok] by (intro linked_slots) auto
  moreover have "location (blink_at m' (slot V j)) = location (blink_at m (slot V j))" if "j < 2000" for j using node [OF that] f by simp
  ultimately show "fish_ok V is m'" using ok k(2,3) i2 by (auto simp: fish_ok_def)
qed

definition sync_blink :: "blink \<Rightarrow> blink \<Rightarrow> blink" where
  "sync_blink b c = c\<lparr>on_length := on_length b, off_length := off_length b, countdown := countdown b, status := status b\<rparr>"

lemma field_source:
  assumes "fish_layout V m" "s < 2000" "d < 2000"
  shows "blink_at (write16 m (slot V d + ON_LENGTH) (on_length (blink_at m (slot V s)))) (slot V s) = blink_at m (slot V s)"
    "blink_at (write16 m (slot V d + OFF_LENGTH) (off_length (blink_at m (slot V s)))) (slot V s) = blink_at m (slot V s)"
    "blink_at (write16 m (slot V d + COUNTDOWN) (countdown (blink_at m (slot V s)))) (slot V s) = blink_at m (slot V s)"
    "blink_at (write16 m (slot V d + STATUS) (status (blink_at m (slot V s)))) (slot V s) = blink_at m (slot V s)"
proof -
  have k: "within V [d] m m' \<Longrightarrow> s \<noteq> d \<Longrightarrow> blink_at m' (slot V s) = blink_at m (slot V s)" for m'
    using within_keeps(4) [OF assms(1), of "[d]" m' s] assms by simp
  show "blink_at (write16 m (slot V d + ON_LENGTH) (on_length (blink_at m (slot V s)))) (slot V s) = blink_at m (slot V s)"
    "blink_at (write16 m (slot V d + OFF_LENGTH) (off_length (blink_at m (slot V s)))) (slot V s) = blink_at m (slot V s)"
    "blink_at (write16 m (slot V d + COUNTDOWN) (countdown (blink_at m (slot V s)))) (slot V s) = blink_at m (slot V s)"
    "blink_at (write16 m (slot V d + STATUS) (status (blink_at m (slot V s)))) (slot V s) = blink_at m (slot V s)"
    by (cases "s = d"; simp add: blink_at_write16 k field_within)+
qed

lemma sync_step:
  assumes l: "fish_layout V m" and s: "s < 2000" and d: "d < 2000" and loc: "location (blink_at m (slot V d)) < 2000"
    and found: "mp1_find_helper V (drop_bit 16 arg) m = Some (slot V s)" "mp1_find_helper V (arg AND 0xFFFF) m = Some (slot V d)"
  defines "b \<equiv> blink_at m (slot V s)" and "c \<equiv> blink_at m (slot V d)"
  shows "\<exists>m'. mp1_ioctl_sync V arg m = Some (0, m') \<and> node_step V d (sync_blink b) (put_cell_at (location c) (off_char c)) m m'"
proof -
  let ?a = "slot V d"
  let ?m1 = "write16 m (?a + ON_LENGTH) (on_length b)"
  let ?m2 = "write16 ?m1 (?a + OFF_LENGTH) (off_length b)"
  let ?m3 = "write16 ?m2 (?a + COUNTDOWN) (countdown b)"
  let ?m4 = "write16 ?m3 (?a + STATUS) (status b)"
  let ?m5 = "mp1_poke V (off_char c) (push_bit 1 (ucast (location c))) ?m4"
  note s1 = node_step_fields(1) [OF l d, of "on_length b"] note l1 = node_step_layout [OF s1 l d]
  note s2 = node_step_fields(2) [OF l1 d, of "off_length b"] note l2 = node_step_layout [OF s2 l1 d]
  note s3 = node_step_fields(3) [OF l2 d, of "countdown b"] note l3 = node_step_layout [OF s3 l2 d]
  note s4 = node_step_fields(4) [OF l3 d, of "status b"] note l4 = node_step_layout [OF s4 l3 d]
  note s5 = node_step_poke [OF l4 d loc [folded c_def], of "off_char c"]
  have b: "blink_at ?m1 (slot V s) = b" "blink_at ?m2 (slot V s) = b" "blink_at ?m3 (slot V s) = b"
    using field_source(1) [OF l s d] field_source(2) [OF l1 s d] field_source(3) [OF l2 s d] by (simp_all add: b_def)
  have c: "blink_at ?m4 ?a = sync_blink b c" by (simp add: blink_at_write16 sync_blink_def c_def)
  have nz: "slot V s \<noteq> 0" "?a \<noteq> 0" using slot_nonzero [OF l] s d by auto
  have "mp1_ioctl_sync V arg m = Some (0, ?m5)"
    using found nz b c by (simp add: mp1_ioctl_sync_def Let_def blink_reads sync_blink_def b_def [symmetric] c_def [symmetric] bit_simps)
  moreover have "node_step V d (sync_blink b) (put_cell_at (location c) (off_char c)) m ?m5"
    using node_step_trans [OF l d s1 node_step_trans [OF l1 d s2 node_step_trans [OF l2 d s3 node_step_trans [OF l3 d s4 s5]]]]
    by (simp add: node_step_def sync_blink_def)
  ultimately show ?thesis by blast
qed

lemma find_first: "\<forall>b\<in>set xs. location b \<noteq> loc \<Longrightarrow> location b = loc \<Longrightarrow> find (\<lambda>b. location b = loc) (xs @ b # ys) = Some b"
  by (induction xs) auto

lemma sync_refines:
  fixes V :: fish_vars and arg :: u32
  defines "l1 \<equiv> ucast (drop_bit 16 arg) :: u16" and "l2 \<equiv> ucast (arg AND 0xFFFF) :: u16"
  assumes ok: "fish_ok V is m"
  shows "case (find (\<lambda>b. location b = l1) (blinks V is m), find (\<lambda>b. location b = l2) (blinks V is m)) of
    (Some b, Some c) \<Rightarrow> \<exists>m'. mp1_ioctl_sync V arg m = Some (0, m') \<and> fish_ok V is m' \<and>
      blinks V is m' = update_first l2 (sync_blink b) (blinks V is m) \<and> cells V m' = put_cell_at l2 (off_char c) (cells V m)
    | _ \<Rightarrow> mp1_ioctl_sync V arg m = Some (-1, m)"
proof (cases rule: find_helper_cases [OF ok, of "drop_bit 16 arg"])
  case 1
  then have "find (\<lambda>b. location b = l1) (blinks V is m) = None" by (auto simp: find_None_iff l1_def)
  then show ?thesis using 1(2) by (simp add: mp1_ioctl_sync_def)
next
  case (2 xs s ys)
  note S = this
  let ?b = "blink_at m (slot V s)"
  have fb: "find (\<lambda>b. location b = l1) (blinks V is m) = Some ?b"
    using find_first [of "blinks V xs m" l1 ?b] S(1-3) by (simp add: blinks_def l1_def)
  have s: "s < 2000" "slot V s \<noteq> 0" using fish_okD(2) [OF ok] S(1) slot_nonzero [OF fish_okD(1) [OF ok]] by auto
  show ?thesis
  proof (cases rule: find_helper_cases [OF ok, of "arg AND 0xFFFF"])
    case 1
    then have "find (\<lambda>b. location b = l2) (blinks V is m) = None" by (auto simp: find_None_iff l2_def)
    then show ?thesis using 1(2) S(4) s(2) fb by (simp add: mp1_ioctl_sync_def)
  next
    case (2 us d vs)
    let ?c = "blink_at m (slot V d)"
    have d: "d \<in> set is" "d < 2000" "location ?c < 2000" and dist: "distinct is" using 2(1) fish_okD [OF ok] ok by (auto simp: fish_ok_def)
    have fc: "find (\<lambda>b. location b = l2) (blinks V is m) = Some ?c"
      using find_first [of "blinks V us m" l2 ?c] 2(1-3) by (simp add: blinks_def l2_def)
    obtain m' where m': "mp1_ioctl_sync V arg m = Some (0, m')" and st: "node_step V d (sync_blink ?b) (put_cell_at (location ?c) (off_char ?c)) m m'"
      using sync_step [OF fish_okD(1) [OF ok] s(1) d(2,3) S(4) 2(4)] by blast
    note N = node_step_ok [OF ok d(1) st]
    have "blinks V is m' = update_first l2 (sync_blink ?b) (blinks V is m)"
      using update_first_split [of "blinks V us m" l2 ?c] 2(1-3) dist N(2) by (auto simp: blinks_def l2_def sync_blink_def)
    moreover have "fish_ok V is m'" using N(1) by (simp add: sync_blink_def)
    moreover have "cells V m' = put_cell_at l2 (off_char ?c) (cells V m)" using st 2(3) by (simp add: node_step_def l2_def)
    ultimately show ?thesis using m' unfolding fb fc by auto
  qed
qed

section \<open>Looking a blink up\<close>

lemma find_refines:
  assumes ok: "fish_ok V is m" and arg: "list_all (\<lambda>(a, n). disjoint_regions a n arg 16) (fish_blocks V m)"
  shows "case find (\<lambda>b. location b = read16 m arg) (blinks V is m) of
    Some b \<Rightarrow> \<exists>m'. mp1_ioctl_find V arg m = Some (0, m') \<and> blink_at m' arg = b
    | None \<Rightarrow> \<exists>m'. mp1_ioctl_find V arg m = Some (-1, m') \<and> blink_at m' arg = blink_at m arg"
proof -
  let ?m1 = "write_bytes m (v_key V) (read_bytes m arg 2)"
  have d: "disjoint_regions (v_key V) 2 arg 16" "disjoint_regions (v_array V) 32000 arg 16" using arg by (simp_all add: fish_blocks_def)
  have cp: "ece391_memcpy (v_key V) arg 2 m = (0, ?m1)"
    using fish_memcpy_eq [OF disjoint_regions_prefix [OF d(1), of 2 2], of m] by simp
  have "?m1 (v_key V + of_nat k) = m (arg + of_nat k)" if "k < 2" for k using write_bytes_inside [of "read_bytes m arg 2" k m "v_key V"] that by simp
  from this [of 0] this [of 1] have key: "read16 ?m1 (v_key V) = read16 m arg" by (simp add: read16_def)
  have out: "?m1 x = m x" if "\<not> in_region x (v_key V) 2" for x using that by (simp add: write_bytes_outside)
  note A = fish_apart [OF fish_okD(1) [OF ok]]
  have v: "vmem V ?m1 = vmem V m" "read32 ?m1 (v_head V) = read32 m (v_head V)"
    unfolding vmem_def by (rule read32_same, use A out in blast)+
  have eq: "blink_at ?m1 (slot V i) = blink_at m (slot V i)" "read32 ?m1 (slot V i + NEXT) = read32 m (slot V i + NEXT)" if "i < 2000" for i
    by (rule blink_at_cong, use A(1) out slot_inside [OF that] in blast)+
  have l1: "fish_layout V ?m1" using fish_okD(1) [OF ok] v by (simp add: fish_layout_def fish_blocks_def)
  have K: "fish_ok V is ?m1" "blinks V is ?m1 = blinks V is m" by (rule fish_ok_same [OF ok l1 v(2) eq]; assumption)+
  have cc: "ucast (ucast (w :: u16) :: u32) = w" for w by (rule bit_word_eqI) (auto simp: bit_simps)
  have arg1: "blink_at ?m1 arg = blink_at m arg"
    by (rule blink_at_cong) (use out disjoint_regionsD [OF d(1)] in blast)
  show ?thesis
  proof (cases rule: find_helper_cases [OF K(1), of "ucast (read16 m arg)"])
    case 1
    then have "find (\<lambda>b. location b = read16 m arg) (blinks V is m) = None" unfolding cc K(2) by (auto simp: find_None_iff)
    then show ?thesis using 1(2) arg1 by (simp add: mp1_ioctl_find_def cp key)
  next
    case (2 xs i ys)
    have i: "i < 2000" using fish_okD(2) [OF ok] 2(1) by simp
    have "find (\<lambda>b. location b = read16 m arg) (blinks V is ?m1) = Some (blink_at ?m1 (slot V i))"
      using find_first [of "blinks V xs ?m1" "read16 m arg" "blink_at ?m1 (slot V i)"] 2(1-3) unfolding cc by (simp add: blinks_def)
    moreover have "disjoint_regions arg 16 (slot V i) 16"
      unfolding slot_def by (rule disjoint_subregion [where k = 32000]) (use i d(2) disjoint_regions_sym in auto)
    then have "ece391_memcpy arg (slot V i) STRUCT_SIZE ?m1 = (0, write_bytes ?m1 arg (read_bytes ?m1 (slot V i) 16))"
      using fish_memcpy_eq [of arg 16 "slot V i" ?m1] by (simp add: STRUCT_SIZE_def)
    moreover have "slot V i \<noteq> 0" using slot_nonzero [OF fish_okD(1) [OF ok] i] .
    ultimately show ?thesis using 2(4) K(2) by (simp add: mp1_ioctl_find_def cp key blink_at_copy)
  qed
qed

section \<open>Ticking a store of blinks\<close>

text \<open>
  What the animation relies on: a store whose tick always returns and changes each of its blinks by
  \<open>tick_blink\<close>. Then any number of ticks returns, and a set of blinks whose lengths add up to the
  same period is back where it started after that many ticks.
\<close>

locale blink_store =
  fixes store_ok :: "'s \<Rightarrow> bool" and stored :: "'s \<Rightarrow> blink list" and tick :: "'s \<Rightarrow> 's option"
  assumes tick_law: "store_ok s \<Longrightarrow> \<exists>s'. tick s = Some s' \<and> store_ok s' \<and> stored s' = map tick_blink (stored s)"
begin

primrec ticks :: "nat \<Rightarrow> 's \<Rightarrow> 's option" where
  "ticks 0 s = Some s"
| "ticks (Suc n) s = do { s' \<leftarrow> tick s; ticks n s' }"

lemma ticks_law: "store_ok s \<Longrightarrow> \<exists>s'. ticks n s = Some s' \<and> store_ok s' \<and> stored s' = map (tick_blink ^^ n) (stored s)"
proof (induction n arbitrary: s)
  case 0
  then show ?case by simp
next
  case (Suc n)
  obtain u where u: "tick s = Some u" "store_ok u" "stored u = map tick_blink (stored s)" using tick_law [OF Suc.prems] by blast
  then show ?case using Suc.IH [of u] by (auto simp: funpow_swap1)
qed

lemma ticks_period:
  assumes "store_ok s" "\<forall>b\<in>set (stored s). (tick_blink ^^ n) b = b"
  shows "\<exists>s'. ticks n s = Some s' \<and> store_ok s' \<and> stored s' = stored s"
  using ticks_law [OF assms(1), of n] assms(2) by (simp add: map_idI)

end

primrec tasklets :: "nat \<Rightarrow> fish_vars \<Rightarrow> mem \<Rightarrow> mem option" where
  "tasklets 0 V m = Some m"
| "tasklets (Suc n) V m = do { m' \<leftarrow> mp1_rtc_tasklet V m; tasklets n V m' }"

interpretation fish: blink_store "\<lambda>(is, m). fish_ok V is m" "\<lambda>(is, m). blinks V is m" "\<lambda>(is, m). map_option (Pair is) (mp1_rtc_tasklet V m)"
  for V
proof unfold_locales
  fix s :: "nat list \<times> mem"
  assume "case s of (is, m) \<Rightarrow> fish_ok V is m"
  then have "fish_ok V (fst s) (snd s)" by (simp add: case_prod_beta)
  then show "\<exists>s'. (case s of (is, m) \<Rightarrow> map_option (Pair is) (mp1_rtc_tasklet V m)) = Some s' \<and> (case s' of (is, m) \<Rightarrow> fish_ok V is m) \<and>
      (case s' of (is, m) \<Rightarrow> blinks V is m) = map tick_blink (case s of (is, m) \<Rightarrow> blinks V is m)"
    by (rule tasklet_refines) (auto simp: case_prod_beta)
qed

lemma fish_ticks: "fish.ticks V n (is, m) = map_option (Pair is) (tasklets n V m)"
proof (induction n arbitrary: m)
  case (Suc n)
  then show ?case by (cases "mp1_rtc_tasklet V m") simp_all
qed simp

section \<open>When a blink changes\<close>

lemma unat_of_nat_u16: "n < 2 ^ 16 \<Longrightarrow> unat (of_nat n :: u16) = n"
  by (simp add: unsigned_of_nat take_bit_nat_eq_self)

lemma sint_small16: "unat (w :: u16) \<le> 0x7FFF \<Longrightarrow> sint w = int (unat w)"
proof -
  assume w: "unat w \<le> 0x7FFF"
  have "sint (of_nat n :: u16) = int n" if "n \<le> 0x7FFF" for n using that by (simp add: signed_of_nat signed_take_bit_int_eq_self)
  from this [OF w] show ?thesis by simp
qed

lemma expired_small:
  assumes "1 \<le> unat (countdown b)" "unat (countdown b) \<le> 0x7FFF"
  shows "expired b \<longleftrightarrow> unat (countdown b) = 1"
proof -
  have "countdown b \<noteq> 0" using assms(1) by auto
  then have u: "unat (countdown b - 1) = unat (countdown b) - 1" by (rule unat_minus_one)
  have "sint (countdown b - 1) = int (unat (countdown b) - 1)" unfolding u [symmetric] by (rule sint_small16) (use u assms in simp)
  then show ?thesis unfolding expired_def using assms by linarith
qed

lemma counts_down:
  assumes "1 \<le> unat (countdown b)" "unat (countdown b) \<le> 0x7FFF" "n < unat (countdown b)"
  shows "(tick_blink ^^ n) b = b\<lparr>countdown := countdown b - of_nat n\<rparr>"
  using assms(3)
proof (induction n)
  case (Suc n)
  have u: "unat (countdown b - of_nat n) = unat (countdown b) - n"
    using Suc.prems assms(2) by (simp add: unat_sub word_le_nat_alt unat_of_nat_u16)
  let ?c = "b\<lparr>countdown := countdown b - of_nat n\<rparr>"
  have "\<not> expired ?c" using expired_small [of ?c] u Suc.prems assms(2) by simp
  then have "tick_blink ?c = b\<lparr>countdown := countdown b - of_nat (Suc n)\<rparr>" by (simp add: tick_blink_def algebra_simps)
  then show ?case using Suc by simp
qed simp

definition other_phase :: "blink \<Rightarrow> blink" where
  "other_phase b = b\<lparr>countdown := if lit b then off_length b else on_length b, status := status b XOR 1\<rparr>"

lemma changes_phase:
  assumes "1 \<le> unat (countdown b)" "unat (countdown b) \<le> 0x7FFF"
  shows "(tick_blink ^^ unat (countdown b)) b = other_phase b"
proof -
  let ?n = "unat (countdown b) - 1"
  let ?c = "b\<lparr>countdown := countdown b - of_nat ?n\<rparr>"
  have run: "(tick_blink ^^ ?n) b = ?c" using counts_down [OF assms, of ?n] assms by simp
  have "unat (countdown ?c) = 1" using assms by (simp add: unat_sub word_le_nat_alt unat_of_nat_u16 of_nat_diff)
  then have "expired ?c" using expired_small [of ?c] by simp
  then have "tick_blink ?c = other_phase b" by (simp add: tick_blink_def other_phase_def lit_def)
  moreover have "unat (countdown b) = Suc ?n" using assms by simp
  ultimately show ?thesis using run by (metis comp_apply funpow.simps(2))
qed

lemma set_up_period:
  assumes b: "b = set_up b" and len: "1 \<le> unat (on_length b)" "unat (on_length b) \<le> 0x7FFF" "1 \<le> unat (off_length b)" "unat (off_length b) \<le> 0x7FFF"
  shows "(tick_blink ^^ (unat (off_length b) + unat (on_length b))) b = b"
proof -
  have c: "countdown b = on_length b" "status b = 1" using b by (metis blink.select_convs(7) blink.surjective blink.update_convs(6,7) set_up_def blink.select_convs(6))+
  have on: "(tick_blink ^^ unat (on_length b)) b = other_phase b" using changes_phase [of b] len c by simp
  let ?c = "other_phase b"
  have d: "countdown ?c = off_length b" "off_length ?c = off_length b" "lit b" "\<not> lit ?c" using c by (simp_all add: other_phase_def lit_def)
  have "(tick_blink ^^ unat (off_length b)) ?c = other_phase ?c" using changes_phase [of ?c] len d by simp
  moreover have "other_phase ?c = b" using d c by (simp add: other_phase_def)
  ultimately show ?thesis using on by (simp add: funpow_add)
qed

section \<open>A structure that points to itself\<close>

lemma tasklet_self_loop:
  assumes "fish_layout V m" "i < 2000" "location (blink_at m (slot V i)) < 2000" "read32 m (slot V i + NEXT) = slot V i"
  shows "tasklet_loop V (slot V i) m = None"
proof (rule ccontr)
  let ?P = "\<lambda>V ebx m. ebx = slot V i \<and> fish_layout V m \<and> location (blink_at m (slot V i)) < 2000 \<and> read32 m (slot V i + NEXT) = slot V i"
  assume "tasklet_loop V (slot V i) m \<noteq> None"
  then obtain y where y: "tasklet_loop V (slot V i) m = Some y" by blast
  have "\<not> ?P V (slot V i) m"
  proof (rule tasklet_loop.raw_induct [where P = "\<lambda>V ebx m y. \<not> ?P V ebx m", OF _ y])
    fix f :: "fish_vars \<Rightarrow> u32 \<Rightarrow> mem \<Rightarrow> mem option" and V ebx m y
    assume ih: "\<And>V ebx m y. f V ebx m = Some y \<Longrightarrow> \<not> ?P V ebx m"
      and step: "(if ebx = 0 then Some m else let m = tasklet_body V ebx m in f V (read32 m (ebx + NEXT)) m) = Some y"
    show "\<not> ?P V ebx m"
    proof
      assume p: "?P V ebx m"
      let ?m1 = "tasklet_body V ebx m"
      have nz: "ebx \<noteq> 0" using p slot_nonzero [of V m i] assms(2) by auto
      have st: "node_step V i tick_blink (draw_tick (blink_at m (slot V i))) m ?m1" using tasklet_body_step [of V m i] p assms(2) by simp
      then have "?P V (read32 ?m1 (ebx + NEXT)) ?m1" using p node_step_layout [OF st] assms(2) by (simp add: node_step_def)
      moreover have "f V (read32 ?m1 (ebx + NEXT)) ?m1 = Some y" using step nz by (simp add: Let_def)
      ultimately show False using ih by blast
    qed
  qed
  then show False using assms by simp
qed

section \<open>A list of two blinks\<close>

definition demo_vars :: fish_vars where
  "demo_vars = \<lparr>v_head = 0x8050000, v_vmem = 0x8050004, v_array = 0x8060000, v_temp = 0x83FFF00, v_key = 0x83FFF20\<rparr>"

definition demo_list :: mem where
  "demo_list = mem_of [(0x8050000, [0x10, 0, 6, 8, 0, 0, 0x40, 8]),
     (0x8060000, [40, 0, 0x4F, 0x6F, 15, 0, 15, 0, 15, 0, 1, 0, 0, 0, 0, 0, 0x1C, 2, 0x49, 0x4D, 15, 0, 15, 0, 15, 0, 1, 0, 0, 0, 6, 8]),
     (0x83FFE00, [0x1D, 2, 0x61, 0x62, 15, 0, 15, 0, 0, 0, 0, 0, 0, 0, 0, 0])]"

lemma demo_blinks:
  "blinks demo_vars [Suc 0, 0] demo_list =
     [\<lparr>location = 540, on_char = 0x49, off_char = 0x4D, on_length = 15, off_length = 15, countdown = 15, status = 1\<rparr>,
      \<lparr>location = 40, on_char = 0x4F, off_char = 0x6F, on_length = 15, off_length = 15, countdown = 15, status = 1\<rparr>]"
  "blink_at demo_list 0x83FFE00 =
     \<lparr>location = 541, on_char = 0x61, off_char = 0x62, on_length = 15, off_length = 15, countdown = 0, status = 0\<rparr>"
  "location (blink_at demo_list 0x83FFD00) = 0"
  by (simp_all add: blinks_def blink_at_def read16_def slot_def demo_vars_def demo_list_def mem_of_def blink_consts push_bit_eq_mult)

lemma demo_free: "2 \<le> i \<Longrightarrow> i < 2000 \<Longrightarrow> location (blink_at demo_list (slot demo_vars i)) = 0"
  by (simp add: blink_at_def read16_def slot_def demo_vars_def demo_list_def mem_of_Cons mem_of_Nil blink_consts word_less_nat_alt unat_sub_if'
      unat_word_ariths unat_of_nat_u32)

lemma demo_list_ok: "fish_ok demo_vars [Suc 0, 0] demo_list"
proof -
  have v: "vmem demo_vars demo_list = 0x8400000" "read32 demo_list (v_head demo_vars) = 0x8060010" "read32 demo_list (0x8060010 + NEXT) = 0x8060000"
      "read32 demo_list (0x8060000 + NEXT) = 0"
    by (simp_all add: vmem_def read32_def demo_vars_def demo_list_def mem_of_def NEXT_def push_bit_eq_mult)
  have "fish_layout demo_vars demo_list"
    unfolding fish_layout_def fish_blocks_def v(1) by (simp add: disjoint_regions_def demo_vars_def)
  moreover have "location (blink_at demo_list (slot demo_vars (Suc 0))) = 540" "location (blink_at demo_list (slot demo_vars 0)) = 40"
    using demo_blinks(1) by (simp_all add: blinks_def)
  moreover have "i \<in> set [Suc 0, 0] \<longleftrightarrow> location (blink_at demo_list (slot demo_vars i)) \<noteq> 0" if "i < 2000" for i
    using demo_free [of i] that calculation(2,3) by (cases "i = 0"; cases "i = Suc 0") auto
  moreover have "linked demo_list 0x8060010 (map (slot demo_vars) [Suc 0, 0])"
    using v(3,4) by (simp add: slot_def demo_vars_def)
  ultimately show ?thesis by (auto simp: fish_ok_def v(2))
qed

lemma demo_args: "caller_struct demo_vars demo_list 0x83FFD00" "caller_struct demo_vars demo_list 0x83FFE00"
proof -
  have v: "vmem demo_vars demo_list = 0x8400000" by (simp add: vmem_def read32_def demo_vars_def demo_list_def mem_of_def push_bit_eq_mult)
  show "caller_struct demo_vars demo_list 0x83FFD00" "caller_struct demo_vars demo_list 0x83FFE00"
    unfolding caller_struct_def fish_blocks_def v by (simp_all add: disjoint_regions_def demo_vars_def)
qed

section \<open>Main properties\<close>

lemma room_iff: "fish_ok V is m \<Longrightarrow> length is < 2000 \<longleftrightarrow> set is \<noteq> {..<2000}"
proof -
  assume "fish_ok V is m"
  then have d: "distinct is" "set is \<subseteq> {..<2000}" by (simp_all add: fish_ok_def)
  then have "card (set is) = length is" by (simp add: distinct_card)
  then show ?thesis using d(2) card_subset_eq [of "{..<2000 :: nat}" "set is"] card_mono [of "{..<2000 :: nat}" "set is"] by fastforce
qed

text \<open>
  C22: one clock tick of the animation. When the list of blinks is well formed, the tasklet returns;
  the list still is, with each blink ticked once in place, and the screen is redrawn, in list order,
  at exactly the blinks whose time was up; nothing else in memory changes.
\<close>
theorem tasklet_ticks_blinks:
  assumes "fish_ok V is m"
  shows "\<exists>m'. mp1_rtc_tasklet V m = Some m' \<and> fish_ok V is m' \<and> blinks V is m' = map tick_blink (blinks V is m) \<and>
    cells V m' = fold draw_tick (blinks V is m) (cells V m) \<and>
    (\<forall>x. \<not> in_region x (vmem V m) 4000 \<longrightarrow> \<not> in_region x (v_array V) 32000 \<longrightarrow> m' x = m x)"
proof -
  obtain m' where m': "mp1_rtc_tasklet V m = Some m'" "fish_ok V is m'" "blinks V is m' = map tick_blink (blinks V is m)"
      "cells V m' = fold draw_tick (blinks V is m) (cells V m)" "within V is m m'"
    using tasklet_refines [OF assms] by blast
  moreover have "m' x = m x" if "\<not> in_region x (vmem V m) 4000" "\<not> in_region x (v_array V) 32000" for x
    using m'(5) that slot_inside fish_okD(2) [OF assms] by (fastforce simp: within_def)
  ultimately show ?thesis by blast
qed

theorem tasklet_ticks_blinks_witness:
  "\<exists>m'. mp1_rtc_tasklet demo_vars demo_list = Some m' \<and> map countdown (blinks demo_vars [Suc 0, 0] m') = [14, 14]"
  using tasklet_ticks_blinks [OF demo_list_ok] by (auto simp: demo_blinks tick_blink_def expired_def)

text \<open>
  C25: the animation repeats. When every blink was just set up and its two lengths (positive, below
  32768) add up to the same \<open>p\<close>, then \<open>p\<close> ticks all return and leave every blink as it was.
\<close>
theorem frames_repeat:
  assumes "fish_ok V is m" and "\<And>b. b \<in> set (blinks V is m) \<Longrightarrow> b = set_up b \<and> unat (off_length b) + unat (on_length b) = p \<and>
      unat (on_length b) \<in> {1..0x7FFF} \<and> unat (off_length b) \<in> {1..0x7FFF}"
  shows "\<exists>m'. tasklets p V m = Some m' \<and> fish_ok V is m' \<and> blinks V is m' = blinks V is m"
proof -
  have "(tick_blink ^^ p) b = b" if "b \<in> set (blinks V is m)" for b using set_up_period [of b] assms(2) [OF that] by auto
  then show ?thesis using fish.ticks_period [of V "(is, m)" p] assms(1) by (auto simp: fish_ticks)
qed

theorem frames_repeat_witness:
  "\<exists>m'. tasklets 30 demo_vars demo_list = Some m' \<and> blinks demo_vars [Suc 0, 0] m' = blinks demo_vars [Suc 0, 0] demo_list"
proof -
  have "b = set_up b \<and> unat (off_length b) + unat (on_length b) = 30 \<and> unat (on_length b) \<in> {1..0x7FFF} \<and> unat (off_length b) \<in> {1..0x7FFF}"
    if "b \<in> set (blinks demo_vars [Suc 0, 0] demo_list)" for b using that by (auto simp: demo_blinks set_up_def)
  then show ?thesis using frames_repeat [OF demo_list_ok] by blast
qed

text \<open>
  C23: adding and removing. A blink with a location from 1 to 1999 is accepted while fewer than 2000
  are linked: it becomes the first of the list, lit, with its full length to go, and its character
  is drawn; removing its location again restores the list. A location beyond the screen, or a full
  array, gives -1 and leaves list and screen alone. Removing takes out the first blink
  of a location, or gives -1 and changes nothing when there is none.
\<close>
theorem blink_list_edits:
  assumes ok: "fish_ok V is m" and arg: "disjoint_regions (v_temp V) 16 arg 16" and b: "b = blink_at m arg" "location b \<noteq> 0"
  shows "(if location b < 2000 \<and> length is < 2000
     then \<exists>i m'. mp1_ioctl V arg RTC_ADD m = Some (0, m') \<and> fish_ok V (i # is) m' \<and> blinks V (i # is) m' = set_up b # blinks V is m \<and>
       cells V m' = put_cell_at (location b) (on_char b) (cells V m) \<and>
       (\<exists>is' m''. mp1_ioctl V (ucast (location b)) RTC_REMOVE m' = Some (0, m'') \<and> fish_ok V is' m'' \<and> blinks V is' m'' = blinks V is m)
     else \<exists>m'. mp1_ioctl V arg RTC_ADD m = Some (-1, m') \<and> fish_ok V is m' \<and> blinks V is m' = blinks V is m \<and> cells V m' = cells V m) \<and>
    (if \<exists>c\<in>set (blinks V is m). location c = ucast loc
     then \<exists>is' m'. mp1_ioctl V loc RTC_REMOVE m = Some (0, m') \<and> fish_ok V is' m' \<and> blinks V is' m' = remove_first (ucast loc) (blinks V is m) \<and>
       cells V m' = cells V m
     else mp1_ioctl V loc RTC_REMOVE m = Some (-1, m))"
proof (intro conjI)
  have io: "mp1_ioctl V a RTC_ADD u = Some (mp1_ioctl_add V a u)" "mp1_ioctl V a RTC_REMOVE u = mp1_ioctl_remove V a u" for a u
    by (simp_all add: mp1_ioctl_def blink_consts)
  have cc: "ucast (ucast (w :: u16) :: u32) = w" for w by (rule bit_word_eqI) (auto simp: bit_simps)
  show "if \<exists>c\<in>set (blinks V is m). location c = ucast loc
     then \<exists>is' m'. mp1_ioctl V loc RTC_REMOVE m = Some (0, m') \<and> fish_ok V is' m' \<and> blinks V is' m' = remove_first (ucast loc) (blinks V is m) \<and>
       cells V m' = cells V m
     else mp1_ioctl V loc RTC_REMOVE m = Some (-1, m)"
    unfolding io by (rule remove_refines [OF ok])
  have again: "\<exists>is' m''. mp1_ioctl_remove V (ucast (location b)) m' = Some (0, m'') \<and> fish_ok V is' m'' \<and> blinks V is' m'' = blinks V is m"
    if "fish_ok V (i # is) m'" "blinks V (i # is) m' = set_up b # blinks V is m" for i m'
    using remove_refines [OF that(1), of "ucast (location b)"] remove_first_split [of "[]" "location b" "set_up b" "blinks V is m"] that(2)
    by (auto simp: cc set_up_def)
  show "if location b < 2000 \<and> length is < 2000
     then \<exists>i m'. mp1_ioctl V arg RTC_ADD m = Some (0, m') \<and> fish_ok V (i # is) m' \<and> blinks V (i # is) m' = set_up b # blinks V is m \<and>
       cells V m' = put_cell_at (location b) (on_char b) (cells V m) \<and>
       (\<exists>is' m''. mp1_ioctl V (ucast (location b)) RTC_REMOVE m' = Some (0, m'') \<and> fish_ok V is' m'' \<and> blinks V is' m'' = blinks V is m)
     else \<exists>m'. mp1_ioctl V arg RTC_ADD m = Some (-1, m') \<and> fish_ok V is m' \<and> blinks V is m' = blinks V is m \<and> cells V m' = cells V m"
  proof (cases "location b < 2000 \<and> length is < 2000")
    case True
    then show ?thesis using add_accepted [OF ok arg] b again room_iff [OF ok] unfolding io by (simp add: word_neq_0_conv) metis
  next
    case False
    then show ?thesis using add_refused [OF ok arg] b room_iff [OF ok] unfolding io by (auto simp: not_less)
  qed
qed

theorem blink_list_edits_witness:
  "(\<exists>i m'. mp1_ioctl demo_vars 0x83FFE00 RTC_ADD demo_list = Some (0, m') \<and> map location (blinks demo_vars [i, Suc 0, 0] m') = [541, 540, 40]) \<and>
   (\<exists>is m'. mp1_ioctl demo_vars 540 RTC_REMOVE demo_list = Some (0, m') \<and> map location (blinks demo_vars is m') = [40])"
proof -
  have arg: "disjoint_regions (v_temp demo_vars) 16 0x83FFE00 16" by (simp add: demo_vars_def disjoint_regions_def)
  have loc: "map location bs = ls" if "bs = cs" "map location cs = ls" for bs cs ls using that by simp
  show ?thesis
    using blink_list_edits [OF demo_list_ok arg refl, of 540]
    by (auto simp: demo_blinks set_up_def remove_first_def) (rule exI, erule loc, simp)+
qed

text \<open>
  C38: synchronising two blinks. When both locations are in the list, the second takes over lengths,
  countdown and phase of the first, and 0 is returned; but the character drawn at the second is
  always its off character, also when the phase taken over is the lit one. When one of them is
  missing, -1 is returned and nothing changes.
\<close>
theorem sync_draws_off_char:
  assumes "fish_ok V is m" "l1 = ucast (drop_bit 16 arg)" "l2 = ucast (arg AND 0xFFFF)"
  shows "case (find (\<lambda>b. location b = l1) (blinks V is m), find (\<lambda>b. location b = l2) (blinks V is m)) of
    (Some b, Some c) \<Rightarrow> \<exists>m'. mp1_ioctl V arg RTC_SYNC m = Some (0, m') \<and> fish_ok V is m' \<and>
      blinks V is m' = update_first l2 (sync_blink b) (blinks V is m) \<and> cells V m' = put_cell_at l2 (off_char c) (cells V m)
    | _ \<Rightarrow> mp1_ioctl V arg RTC_SYNC m = Some (-1, m)"
proof -
  have io: "mp1_ioctl V arg RTC_SYNC m = mp1_ioctl_sync V arg m" by (simp add: mp1_ioctl_def blink_consts)
  show ?thesis unfolding io assms(2,3) by (rule sync_refines [OF assms(1)])
qed

theorem sync_draws_off_char_witness:
  "\<exists>m'. mp1_ioctl demo_vars 0x0028021C RTC_SYNC demo_list = Some (0, m') \<and> status (hd (blinks demo_vars [Suc 0, 0] m')) = 1 \<and>
     cells demo_vars m' 1080 = 0x4D"
  using sync_draws_off_char [of demo_vars "[Suc 0, 0]" demo_list 40 "0x0028021C" 540]
    demo_list_ok by (auto simp: demo_blinks update_first_def sync_blink_def put_cell_at_def)

lemma caller_structD: "caller_struct V m arg \<Longrightarrow> disjoint_regions (v_temp V) 16 arg 16"
  by (simp add: caller_struct_def fish_blocks_def)

lemma caller_struct_cong: "vmem V m' = vmem V m \<Longrightarrow> caller_struct V m' arg = caller_struct V m arg"
  by (simp add: caller_struct_def fish_blocks_def)

text \<open>
  C39: location 0. A blink at location 0 is accepted, but the allocator takes its slot for a free one:
  whatever blink is added next is written over it and linked to itself, and the next tick of the
  animation never returns.
\<close>
theorem location_zero_hangs:
  assumes ok: "fish_ok V is m" "length is < 2000" and arg: "caller_struct V m arg" "location (blink_at m arg) = 0"
    and arg2: "caller_struct V m arg2" "location (blink_at m arg2) < 2000"
  shows "\<exists>m1 m2. mp1_ioctl V arg RTC_ADD m = Some (0, m1) \<and> mp1_ioctl V arg2 RTC_ADD m1 = Some (0, m2) \<and> mp1_rtc_tasklet V m2 = None"
proof -
  have io: "mp1_ioctl V a RTC_ADD u = Some (mp1_ioctl_add V a u)" for a u by (simp add: mp1_ioctl_def blink_consts)
  obtain i where i: "i < 2000" "i \<notin> set is" "mp1_malloc V STRUCT_SIZE m = slot V i"
    by (rule malloc_cases [OF ok(1), where n = STRUCT_SIZE]) (use ok room_iff in auto)
  have on_screen: "location (blink_at m arg) < 2000" using arg(2) by simp
  obtain m1 where m1: "mp1_ioctl_add V arg m = (0, m1)" "fish_layout V m1" "read32 m1 (v_head V) = slot V i" "blink_at m1 (slot V i) = set_up (blink_at m arg)"
    and old: "\<And>j. j < 2000 \<Longrightarrow> j \<noteq> i \<Longrightarrow> blink_at m1 (slot V j) = blink_at m (slot V j)"
    and out: "\<And>x. outside (fish_blocks V m) x \<Longrightarrow> m1 x = m x"
    by (rule add_effect [OF fish_okD(1) [OF ok(1)] caller_structD [OF arg(1)] on_screen i(1,3)]) (rule that, (assumption | simp)+)
  have same: "blink_at m1 arg2 = blink_at m arg2" by (rule blink_at_cong) (rule out, rule caller_struct_outside [OF arg2(1)])
  have free: "location (blink_at m (slot V i)) = 0" using ok(1) i by (auto simp: fish_ok_def)
  have "location (blink_at m1 (slot V j)) = location (blink_at m (slot V j))" if "j < 2000" for j
    by (cases "j = i") (use that old free m1(4) arg(2) in \<open>simp_all add: set_up_def\<close>)
  then have mal: "mp1_malloc V STRUCT_SIZE m1 = slot V i"
    using malloc_cong [of m1 V m] i(3) by simp
  have on_screen2: "location (blink_at m1 arg2) < 2000" using arg2(2) same by simp
  obtain m2 where m2: "mp1_ioctl_add V arg2 m1 = (0, m2)" "fish_layout V m2" "read32 m2 (v_head V) = slot V i"
      "blink_at m2 (slot V i) = set_up (blink_at m1 arg2)" "read32 m2 (slot V i + NEXT) = slot V i"
    by (rule add_effect [OF m1(2) caller_structD [OF arg2(1)] on_screen2 i(1) mal]) (rule that, (assumption | simp add: m1(3))+)
  have "mp1_rtc_tasklet V m2 = None"
    using tasklet_self_loop [OF m2(2) i(1) _ m2(5)] m2(3,4) on_screen2 by (simp add: mp1_rtc_tasklet_def set_up_def)
  then show ?thesis unfolding io using m1(1) m2(1) by auto
qed

theorem location_zero_hangs_witness:
  "\<exists>m1 m2. mp1_ioctl demo_vars 0x83FFD00 RTC_ADD demo_list = Some (0, m1) \<and> mp1_ioctl demo_vars 0x83FFE00 RTC_ADD m1 = Some (0, m2) \<and>
    mp1_rtc_tasklet demo_vars m2 = None"
  using location_zero_hangs [OF demo_list_ok _ demo_args(1) demo_blinks(3) demo_args(2)] by (simp add: demo_blinks)

end
