(* ===== verification/Fish.thy ===== *)
theory Fish
  imports Blink User_Programs
begin

text \<open>
  The \<open>fish\<close> program (\<open>src/fish/fish.c\<close>) around the list of blinks: it maps the screen, reads two
  frames of text from files, one character of each at a time, links a blink for every cell that
  is not blank in both, and lets the clock drive the tasklet. The addresses of its local variables
  are a record \<open>fish_frame\<close>. The window that \<open>vidmap\<close> maps is the block of memory at the address the
  call stores; \<open>ece391_halt\<close> ends the program with its argument.
\<close>

unbundle bit_operations_syntax

section \<open>The program\<close>

record fish_frame =
  f_vars :: fish_vars
  f_garbage :: u32
  f_ret_val :: u32
  f_struct :: u32
  f_c0 :: u32
  f_c1 :: u32
  f_frame :: u32

definition WAIT :: nat where "WAIT = 100"

definition put_byte :: "u32 \<Rightarrow> u8 \<Rightarrow> 'a keyboard_scheme \<Rightarrow> 'a keyboard_scheme" where
  "put_byte a c s = s\<lparr>memory := (memory s)(a := c)\<rparr>"

text \<open>Reading the next character of a line, \<open>num_bytes == 0\<close> being the end of the file.\<close>

definition frame_char :: "'a keyboard_scheme user_env \<Rightarrow> int \<Rightarrow> u32 \<Rightarrow> bool \<Rightarrow> 'a keyboard_scheme \<Rightarrow> (bool \<times> 'a keyboard_scheme) option" where
  "frame_char U fd c eof s =
     (if memory s c \<noteq> 0x0A then do {
        (num_bytes, s) \<leftarrow> ece391_read U 0 fd c 1 s;
        if num_bytes = 0 then Some (True, put_byte c 0x0A s) else Some (eof, s)
      }
      else Some (eof, s))"

definition frame_add :: "fish_frame \<Rightarrow> int \<Rightarrow> int \<Rightarrow> 'a keyboard_scheme \<Rightarrow> 'a keyboard_scheme option" where
  "frame_add F rw cl s =
     (let c0 = memory s (f_c0 F); c1 = memory s (f_c1 F); a = f_frame F
      in if c0 \<noteq> 0x20 \<and> c0 \<noteq> 0x0A \<or> c1 \<noteq> 0x20 \<and> c1 \<noteq> 0x0A
         then do {
           let m = (memory s)(a + ON_CHAR := if c0 = 0x0A then 0x20 else c0);
           let m = m(a + OFF_CHAR := if c1 = 0x0A then 0x20 else c1);
           let m = write16 m (a + LOCATION) (word_of_int (rw * 80 + cl + 40));
           (_, m) \<leftarrow> mp1_ioctl (f_vars F) a RTC_ADD m;
           Some (s\<lparr>memory := m\<rparr>)
         }
         else Some s)"

text \<open>One row of both frames.\<close>

partial_function (option) frame_row ::
  "'a keyboard_scheme user_env \<Rightarrow> fish_frame \<Rightarrow> int \<Rightarrow> int \<Rightarrow> int \<Rightarrow> int \<Rightarrow> bool \<Rightarrow> bool \<Rightarrow> 'a keyboard_scheme \<Rightarrow> (bool \<times> bool \<times> 'a keyboard_scheme) option" where
  "frame_row U F fd0 fd1 rw cl eof0 eof1 s =
     do {
       (eof0, s) \<leftarrow> frame_char U fd0 (f_c0 F) eof0 s;
       (eof1, s) \<leftarrow> frame_char U fd1 (f_c1 F) eof1 s;
       if memory s (f_c0 F) = 0x0A \<and> memory s (f_c1 F) = 0x0A then Some (eof0, eof1, s)
       else do {
         s \<leftarrow> frame_add F rw cl s;
         frame_row U F fd0 fd1 rw (cl + 1) eof0 eof1 s
       }
     }"

text \<open>What happens to a file after a row: it is closed at its end.\<close>

definition frame_next :: "'a keyboard_scheme user_env \<Rightarrow> int \<Rightarrow> u32 \<Rightarrow> bool \<Rightarrow> 'a keyboard_scheme \<Rightarrow> 'a keyboard_scheme option" where
  "frame_next U fd c eof s =
     (if eof then do {
        (_, s) \<leftarrow> ece391_close U fd (put_byte c 0x0A s);
        Some s
      }
      else Some (put_byte c 0x30 s))"

partial_function (option) frame_rows ::
  "'a keyboard_scheme user_env \<Rightarrow> fish_frame \<Rightarrow> int \<Rightarrow> int \<Rightarrow> int \<Rightarrow> bool \<Rightarrow> bool \<Rightarrow> 'a keyboard_scheme \<Rightarrow> 'a keyboard_scheme option" where
  "frame_rows U F fd0 fd1 rw eof0 eof1 s =
     (if \<not> eof0 \<or> \<not> eof1 then do {
        (eof0, eof1, s) \<leftarrow> frame_row U F fd0 fd1 rw 0 eof0 eof1 s;
        s \<leftarrow> frame_next U fd0 (f_c0 F) eof0 s;
        s \<leftarrow> frame_next U fd1 (f_c1 F) eof1 s;
        frame_rows U F fd0 fd1 (rw + 1) eof0 eof1 s
      }
      else Some s)"

text \<open>\<open>Some v\<close> is the status of a call of \<open>ece391_halt\<close>, \<open>None\<close> a return.\<close>

definition add_frames :: "'a keyboard_scheme user_env \<Rightarrow> fish_frame \<Rightarrow> u32 \<Rightarrow> u32 \<Rightarrow> 'a keyboard_scheme \<Rightarrow> (int option \<times> 'a keyboard_scheme) option" where
  "add_frames U F f0 f1 s =
     do {
       let s = put_byte (f_c1 F) 0x30 (put_byte (f_c0 F) 0x30 s);
       let s = s\<lparr>memory := write16 (memory s) (f_frame F + ON_LENGTH) 15\<rparr>;
       let s = s\<lparr>memory := write16 (memory s) (f_frame F + OFF_LENGTH) 15\<rparr>;
       (fd0, s) \<leftarrow> ece391_open U f0 s;
       if fd0 < 0 then Some (Some (-1), s)
       else do {
         (fd1, s) \<leftarrow> ece391_open U f1 s;
         if fd1 < 0 then Some (Some (-1), s)
         else do {
           s \<leftarrow> frame_rows U F fd0 fd1 0 False False s;
           Some (None, s)
         }
       }
     }"

definition mp1_set_video_mode :: "'a keyboard_scheme user_env \<Rightarrow> fish_vars \<Rightarrow> 'a keyboard_scheme \<Rightarrow> (u32 \<times> 'a keyboard_scheme) option" where
  "mp1_set_video_mode U V s =
     do {
       (r, s) \<leftarrow> ece391_vidmap U (v_vmem V) s;
       Some (if r = -1 then 0 else read32 (memory s) (v_vmem V), s)
     }"

text \<open>\<open>n\<close> turns of a waiting loop, the first of which makes the \<open>k\<close>-th read of the clock.\<close>

primrec fish_wait :: "'a keyboard_scheme user_env \<Rightarrow> fish_frame \<Rightarrow> int \<Rightarrow> nat \<Rightarrow> nat \<Rightarrow> 'a keyboard_scheme \<Rightarrow> 'a keyboard_scheme option" where
  "fish_wait U F rtc_fd k 0 s = Some s"
| "fish_wait U F rtc_fd k (Suc n) s =
     do {
       (_, s) \<leftarrow> ece391_read U k rtc_fd (f_garbage F) 4 s;
       m \<leftarrow> mp1_rtc_tasklet (f_vars F) (memory s);
       fish_wait U F rtc_fd (k + 1) n (s\<lparr>memory := m\<rparr>)
     }"

definition fish_ioctl :: "fish_frame \<Rightarrow> u32 \<Rightarrow> u32 \<Rightarrow> 'a keyboard_scheme \<Rightarrow> 'a keyboard_scheme option" where
  "fish_ioctl F arg cmd s = do { (_, m) \<leftarrow> mp1_ioctl (f_vars F) arg cmd (memory s); Some (s\<lparr>memory := m\<rparr>) }"

text \<open>The part of \<open>main\<close> after the frames.\<close>

definition fish_show :: "'a keyboard_scheme user_env \<Rightarrow> fish_frame \<Rightarrow> int \<Rightarrow> 'a keyboard_scheme \<Rightarrow> (int \<times> 'a keyboard_scheme) option" where
  "fish_show U F rtc_fd s =
     do {
       let s = s\<lparr>memory := write32 (memory s) (f_ret_val F) 32\<rparr>;
       (r, s) \<leftarrow> ece391_write U rtc_fd (f_ret_val F) 4 s;
       let s = s\<lparr>memory := write32 (memory s) (f_ret_val F) (word_of_int r)\<rparr>;
       s \<leftarrow> fish_wait U F rtc_fd 0 WAIT s;
       let m = (memory s)(f_struct F + ON_CHAR := 0x49);
       let m = m(f_struct F + OFF_CHAR := 0x4D);
       let m = write16 m (f_struct F + ON_LENGTH) 7;
       let m = write16 m (f_struct F + OFF_LENGTH) 6;
       let m = write16 m (f_struct F + LOCATION) (6 * 80 + 60);
       s \<leftarrow> fish_ioctl F (f_struct F) RTC_ADD (s\<lparr>memory := m\<rparr>);
       s \<leftarrow> fish_wait U F rtc_fd WAIT WAIT s;
       s \<leftarrow> fish_ioctl F (push_bit 16 40 OR (6 * 80 + 60)) RTC_SYNC s;
       s \<leftarrow> fish_wait U F rtc_fd (2 * WAIT) WAIT s;
       s \<leftarrow> fish_ioctl F (6 * 80 + 60) RTC_REMOVE s;
       s \<leftarrow> fish_wait U F rtc_fd (3 * WAIT) WAIT s;
       (_, s) \<leftarrow> ece391_close U rtc_fd s;
       Some (0, s)
     }"

definition fish_main :: "'a keyboard_scheme user_env \<Rightarrow> fish_frame \<Rightarrow> u32 \<Rightarrow> u32 \<Rightarrow> 'a keyboard_scheme \<Rightarrow> (int \<times> 'a keyboard_scheme) option" where
  "fish_main U F file0 file1 s =
     do {
       let s = s\<lparr>memory := ece391_memset (v_array (f_vars F)) 0 (STRUCT_SIZE * 80 * 25) (memory s)\<rparr>;
       (v, s) \<leftarrow> mp1_set_video_mode U (f_vars F) s;
       if v = 0 then Some (-1, s)
       else do {
         (rtc_fd, s) \<leftarrow> ece391_open U (u_lit U ''rtc'') s;
         (h, s) \<leftarrow> add_frames U F file0 file1 s;
         case h of Some v \<Rightarrow> Some (v, s) | None \<Rightarrow> fish_show U F rtc_fd s
       }
     }"

section \<open>The reference: the cells of two texts\<close>

definition frame_blink :: "int \<Rightarrow> int \<Rightarrow> u8 \<Rightarrow> u8 \<Rightarrow> blink" where
  "frame_blink rw cl c0 c1 = \<lparr>location = word_of_int (rw * 80 + cl + 40), on_char = c0, off_char = c1, on_length = 15, off_length = 15,
     countdown = 15, status = 1\<rparr>"

definition cell_blinks :: "int \<Rightarrow> int \<Rightarrow> u8 \<Rightarrow> u8 \<Rightarrow> blink list" where
  "cell_blinks rw cl c0 c1 = (if c0 \<noteq> 0x20 \<or> c1 \<noteq> 0x20 then [frame_blink rw cl c0 c1] else [])"

definition first_char :: "u8 list \<Rightarrow> u8" where
  "first_char xs = (case xs of [] \<Rightarrow> 0x20 | x # _ \<Rightarrow> x)"

function line_blinks :: "int \<Rightarrow> int \<Rightarrow> u8 list \<Rightarrow> u8 list \<Rightarrow> blink list" where
  "line_blinks rw cl xs ys =
     (if xs = [] \<and> ys = [] then []
      else cell_blinks rw cl (first_char xs) (first_char ys) @ line_blinks rw (cl + 1) (tl xs) (tl ys))"
  by auto
termination by (relation "measure (\<lambda>(rw, cl, xs, ys). length xs + length ys)") (auto simp: Suc_le_eq neq_Nil_conv)

text \<open>The text left after a line, if the line was not the last.\<close>

definition line_of :: "u8 list option \<Rightarrow> u8 list" where
  "line_of t = (case t of None \<Rightarrow> [] | Some xs \<Rightarrow> takeWhile (\<lambda>x. x \<noteq> 0x0A) xs)"

definition rest_of :: "u8 list option \<Rightarrow> u8 list option" where
  "rest_of t = (case t of None \<Rightarrow> None | Some xs \<Rightarrow> (case dropWhile (\<lambda>x. x \<noteq> 0x0A) xs of [] \<Rightarrow> None | _ # r \<Rightarrow> Some r))"

definition text_size :: "u8 list option \<Rightarrow> nat" where
  "text_size t = (case t of None \<Rightarrow> 0 | Some xs \<Rightarrow> Suc (length xs))"

lemma rest_smaller: "t \<noteq> None \<Longrightarrow> text_size (rest_of t) < text_size t"
proof -
  assume "t \<noteq> None"
  then obtain xs where t: "t = Some xs" by blast
  have "length (dropWhile (\<lambda>x. x \<noteq> 0x0A) xs) \<le> length xs" by (rule length_dropWhile_le)
  then show ?thesis by (auto simp: t rest_of_def text_size_def split: list.split)
qed

lemma rest_not_larger: "text_size (rest_of t) \<le> text_size t"
  using rest_smaller [of t] by (cases t) (auto simp: rest_of_def)

function text_blinks :: "int \<Rightarrow> u8 list option \<Rightarrow> u8 list option \<Rightarrow> blink list" where
  "text_blinks rw t0 t1 =
     (if t0 = None \<and> t1 = None then [] else line_blinks rw 0 (line_of t0) (line_of t1) @ text_blinks (rw + 1) (rest_of t0) (rest_of t1))"
  by auto
termination
proof (relation "measure (\<lambda>(rw, t0, t1). text_size t0 + text_size t1)", goal_cases)
  case (2 rw t0 t1)
  then show ?case using rest_smaller [of t0] rest_smaller [of t1] rest_not_larger [of t0] rest_not_larger [of t1] by fastforce
qed simp

text \<open>What the list makes of a blink: it is refused off the screen and when the array is full.\<close>

definition offer :: "blink \<Rightarrow> blink list \<Rightarrow> blink list" where
  "offer b bs = (if location b < 2000 \<and> length bs < 2000 then b # bs else bs)"

declare line_blinks.simps [simp del] text_blinks.simps [simp del]

section \<open>Where the reading of a file stands\<close>

text \<open>
  Inside a line, with the last character read and the text to come, or past a line, with the text
  to come if the file has not ended.
\<close>

datatype cursor = Line u8 "u8 list" | Over "u8 list option"

fun cur_char :: "cursor \<Rightarrow> u8" where
  "cur_char (Line c t) = c"
| "cur_char (Over t) = 0x0A"

fun eof_of :: "cursor \<Rightarrow> bool" where
  "eof_of (Line c t) = False"
| "eof_of (Over t) = (t = None)"

fun left_of :: "cursor \<Rightarrow> u8 list" where
  "left_of (Line c t) = line_of (Some t)"
| "left_of (Over t) = []"

fun past :: "cursor \<Rightarrow> cursor" where
  "past (Line c t) = Over (rest_of (Some t))"
| "past (Over t) = Over t"

fun step_cursor :: "cursor \<Rightarrow> cursor" where
  "step_cursor (Line c []) = Over None"
| "step_cursor (Line c (x # t)) = (if x = 0x0A then Over (Some t) else Line x t)"
| "step_cursor (Over t) = Over t"

definition start_line :: "u8 list option \<Rightarrow> cursor" where
  "start_line t = (case t of None \<Rightarrow> Over None | Some xs \<Rightarrow> Line 0x30 xs)"

lemma step_cursor_left: "left_of (step_cursor q) = tl (left_of q)" "past (step_cursor q) = past q"
  by (cases q rule: step_cursor.cases; simp add: line_of_def rest_of_def)+

lemma step_cursor_char: "cur_char (step_cursor q) = (if left_of q = [] then 0x0A else first_char (left_of q))"
  by (cases q rule: step_cursor.cases) (auto simp: line_of_def first_char_def)

lemma step_cursor_end: "left_of q = [] \<Longrightarrow> step_cursor q = past q"
  by (cases q rule: step_cursor.cases) (auto simp: line_of_def rest_of_def split: if_splits)

lemma left_no_newline: "x \<in> set (left_of q) \<Longrightarrow> x \<noteq> 0x0A"
  by (cases q) (auto simp: line_of_def dest: set_takeWhileD)

lemma step_cursor_newline: "cur_char (step_cursor q) = 0x0A \<longleftrightarrow> left_of q = []"
  using left_no_newline [of _ q] by (cases "left_of q") (auto simp: step_cursor_char first_char_def)

lemma start_line_simps [simp]: "left_of (start_line t) = line_of t" "past (start_line t) = Over (rest_of t)" "eof_of (start_line t) = (t = None)"
  by (cases t; simp add: start_line_def line_of_def rest_of_def)+

section \<open>The setting of a run\<close>

record frames_job =
  j_frame :: fish_frame
  j_pid :: int
  j_term :: u32
  j_image :: mem
  j_boot :: u32
  j_blocks :: nat
  j_fd :: "bool \<Rightarrow> int"
  j_ino :: "bool \<Rightarrow> u32"

definition j_char :: "frames_job \<Rightarrow> bool \<Rightarrow> u32" where
  "j_char J k = (if k then f_c1 (j_frame J) else f_c0 (j_frame J))"

definition kernel_blocks :: "frames_job \<Rightarrow> (u32 \<times> nat) list" where
  "kernel_blocks J = [(page (j_term J), 4000), (pcb_of (j_pid J) + 0x1FE8, 20)]"

definition char_blocks :: "frames_job \<Rightarrow> bool \<Rightarrow> (u32 \<times> nat) list" where
  "char_blocks J k = (j_char J k, 32) # kernel_blocks J"

definition job_blocks :: "frames_job \<Rightarrow> mem \<Rightarrow> (u32 \<times> nat) list" where
  "job_blocks J m = (j_char J False, 32) # (j_char J True, 32) # kernel_blocks J @
     (f_frame (j_frame J), 16) # (j_boot J, j_blocks J * 4096) # fish_blocks (f_vars (j_frame J)) m"

text \<open>Nothing overlaps; a character has 32 bytes, which is how far \<open>file_read\<close> clears its buffer.\<close>

definition job_ok :: "frames_job \<Rightarrow> mem \<Rightarrow> bool" where
  "job_ok J m \<longleftrightarrow> all_disjoint (job_blocks J m) \<and> (\<forall>k. j_char J k \<noteq> 0 \<and> 0 \<le> j_fd J k \<and> j_fd J k < 8 \<and>
     file_ok (j_image J) (j_boot J) (j_blocks J) (j_ino J k)) \<and> j_fd J False \<noteq> j_fd J True"

definition reads_rest :: "frames_job \<Rightarrow> bool \<Rightarrow> u8 list \<Rightarrow> fd_t \<Rightarrow> bool" where
  "reads_rest J k t f \<longleftrightarrow> fop_jump_table f = file_table ! 2 \<and> fd_file_type f = 2 \<and> fd_flags f \<noteq> 0 \<and> word_of_int (fd_inode f) = j_ino J k \<and>
     (\<exists>off. file_position f = int off \<and> off \<le> file_size (j_image J) (j_boot J) (j_ino J k) \<and>
       t = map (file_byte (j_image J) (j_boot J) (j_ino J k)) [off..<file_size (j_image J) (j_boot J) (j_ino J k)])"

fun cursor_at :: "frames_job \<Rightarrow> bool \<Rightarrow> cursor \<Rightarrow> fd_t \<Rightarrow> bool" where
  "cursor_at J k (Line c t) f = (c \<noteq> 0x0A \<and> reads_rest J k t f)"
| "cursor_at J k (Over (Some t)) f = reads_rest J k t f"
| "cursor_at J k (Over None) f = (fd_flags f = 0 \<or> fop_jump_table f = file_table ! 2)"

definition frames_inv :: "frames_job \<Rightarrow> (bool \<Rightarrow> cursor) \<Rightarrow> nat list \<Rightarrow> 'a keyboard_scheme \<Rightarrow> bool" where
  "frames_inv J q is s \<longleftrightarrow> job_ok J (memory s) \<and> user_ok (kernel_blocks J) (j_pid J) (j_term J) s \<and> length (fdt (j_pid J) s) = 8 \<and>
     boot_block s = j_boot J \<and> same_image (j_image J) (memory s) (j_boot J) (j_blocks J * 4096) \<and> fish_ok (f_vars (j_frame J)) is (memory s) \<and>
     on_length (blink_at (memory s) (f_frame (j_frame J))) = 15 \<and> off_length (blink_at (memory s) (f_frame (j_frame J))) = 15 \<and>
     (\<forall>k. cursor_at J k (q k) (fdt (j_pid J) s ! nat (j_fd J k)) \<and> memory s (j_char J k) = cur_char (q k))"

lemma user_ok_kernel: "user_ok A p w s \<Longrightarrow> set (kernel_blocks J) \<subseteq> set B \<Longrightarrow> p = j_pid J \<Longrightarrow> w = j_term J \<Longrightarrow> user_ok B p w s"
  by (auto simp: user_ok_def kernel_blocks_def)

lemma fish_ok_agree:
  assumes ok: "fish_ok V is m" and same: "\<And>x. \<not> outside (fish_blocks V m) x \<Longrightarrow> m' x = m x"
  shows "fish_ok V is m'" "blinks V is m' = blinks V is m" "vmem V m' = vmem V m" "cells V m' = cells V m"
proof -
  have l: "fish_layout V m" using ok by (simp add: fish_ok_def)
  have blk: "m' x = m x" if "in_region x a n" "(a, n) \<in> set (fish_blocks V m)" for x a n
    using same [of x] that by (auto simp: outside_def list_all_iff)
  show v: "vmem V m' = vmem V m" unfolding vmem_def by (rule read32_same) (erule blk, simp add: fish_blocks_def)
  have h: "read32 m' (v_head V) = read32 m (v_head V)" by (rule read32_same) (erule blk, simp add: fish_blocks_def)
  have l': "fish_layout V m'" using l by (simp add: fish_layout_def fish_blocks_def v)
  have sl: "m' x = m x" if "i < 2000" "in_region x (slot V i) 16" for x i
    using blk [OF slot_inside [OF that]] by (simp add: fish_blocks_def)
  have b: "blink_at m' (slot V i) = blink_at m (slot V i)" "read32 m' (slot V i + NEXT) = read32 m (slot V i + NEXT)" if "i < 2000" for i
    by (rule blink_at_cong, rule sl [OF that], assumption)+
  show "fish_ok V is m'" "blinks V is m' = blinks V is m" by (rule fish_ok_same [OF ok l' h b], assumption+)+
  show "cells V m' = cells V m" by (rule cells_cong [OF v]) (erule blk, simp add: fish_blocks_def)
qed

lemma all_disjoint_append:
  "all_disjoint (xs @ ys) \<longleftrightarrow> all_disjoint xs \<and> all_disjoint ys \<and> list_all (\<lambda>(a, n). list_all (\<lambda>(b, k). disjoint_regions a n b k) ys) xs"
  by (induction xs) auto

text \<open>What the invariant needs of memory is outside of what a read of one character changes.\<close>

definition other_blocks :: "frames_job \<Rightarrow> bool \<Rightarrow> mem \<Rightarrow> (u32 \<times> nat) list" where
  "other_blocks J k m = (j_char J (\<not> k), 32) # (f_frame (j_frame J), 16) # (j_boot J, j_blocks J * 4096) # fish_blocks (f_vars (j_frame J)) m"

lemma job_apart:
  assumes "job_ok J m" "(a, n) \<in> set (char_blocks J k)" "(b, l) \<in> set (other_blocks J k m)"
  shows "disjoint_regions a n b l"
proof -
  let ?R = "(f_frame (j_frame J), 16) # (j_boot J, j_blocks J * 4096) # fish_blocks (f_vars (j_frame J)) m"
  let ?C = "\<lambda>k. (j_char J k, 32 :: nat)"
  have d: "all_disjoint (([?C False, ?C True] @ kernel_blocks J) @ ?R)" using assms(1) by (simp add: job_ok_def job_blocks_def)
  have R: "list_all (\<lambda>(a, n). list_all (\<lambda>(b, k). disjoint_regions a n b k) ?R) ([?C False, ?C True] @ kernel_blocks J)"
    and C: "all_disjoint ([?C False, ?C True] @ kernel_blocks J)"
    using d unfolding all_disjoint_append by blast+
  have a: "(a, n) \<in> set ([?C False, ?C True] @ kernel_blocks J)" using assms(2) by (cases k) (auto simp: char_blocks_def)
  from assms(3) consider "(b, l) \<in> set ?R" | "b = j_char J (\<not> k)" "l = 32" by (auto simp: other_blocks_def)
  then show ?thesis
  proof cases
    case 1
    then show ?thesis using R a by (fastforce simp: list_all_iff)
  next
    case 2
    then show ?thesis using C assms(2) disjoint_regions_sym by (cases k) (auto simp: char_blocks_def kernel_blocks_def)
  qed
qed

lemma job_ok_vmem: "vmem (f_vars (j_frame J)) m' = vmem (f_vars (j_frame J)) m \<Longrightarrow> job_ok J m' = job_ok J m"
  by (simp add: job_ok_def job_blocks_def fish_blocks_def)

lemma job_fds: "job_ok J m \<Longrightarrow> 0 \<le> j_fd J k \<and> j_fd J k < 8 \<and> j_fd J False \<noteq> j_fd J True"
  by (simp add: job_ok_def)

lemma job_clear: "job_ok J m \<Longrightarrow> (b, l) \<in> set (other_blocks J k m) \<Longrightarrow> in_region x b l \<Longrightarrow> outside (char_blocks J k) x"
  using job_apart disjoint_regionsD by (fastforce simp: outside_def list_all_iff)

lemma job_buffer: "job_ok J m \<Longrightarrow> buffer_block (char_blocks J k) (j_term J) (j_char J k) 32"
  using disjoint_regions_sym by (cases k) (auto simp: job_ok_def job_blocks_def buffer_block_def char_blocks_def kernel_blocks_def)

lemma job_char_kernel: "job_ok J m \<Longrightarrow> outside (kernel_blocks J) (j_char J k)"
  using disjoint_regionsD [of "j_char J k" 32]
  by (cases k) (auto simp: job_ok_def job_blocks_def outside_def kernel_blocks_def in_region_def disjoint_regions_def)

lemma job_image: "job_ok J m \<Longrightarrow> clear_of (char_blocks J k) (j_boot J) (j_blocks J * 4096)"
proof (rule clear_ofI)
  assume j: "job_ok J m"
  show "list_all (\<lambda>(b, n). disjoint_regions b n (j_boot J) (j_blocks J * 4096)) (char_blocks J k)"
    using job_apart [OF j, of _ _ k "j_boot J"] by (fastforce simp: list_all_iff other_blocks_def)
  have "j_blocks J \<le> 2 ^ 20" using j by (auto simp: job_ok_def file_ok_def)
  then show "j_blocks J * 4096 \<le> 2 ^ 32" by simp
qed

lemma inv_chars: "frames_inv J q is s \<Longrightarrow> memory s (j_char J k) = cur_char (q k)"
  by (simp add: frames_inv_def)

lemma inv_told:
  fixes s s' :: "'a keyboard_scheme"
  assumes inv: "frames_inv J q is s" and t: "told (char_blocks J k) (j_pid J) (j_term J) [] ((fdt (j_pid J) s)[nat (j_fd J k) := f]) s s'"
    and q: "cursor_at J k q' f" "memory s' (j_char J k) = cur_char q'"
  shows "frames_inv J (q(k := q')) is s'" "blinks (f_vars (j_frame J)) is (memory s') = blinks (f_vars (j_frame J)) is (memory s)"
proof -
  let ?V = "f_vars (j_frame J)"
  note I = inv [unfolded frames_inv_def]
  have job: "job_ok J (memory s)" and fish: "fish_ok ?V is (memory s)" and len: "length (fdt (j_pid J) s) = 8" using I by blast+
  have same: "memory s' x = memory s x" if "in_region x b l" "(b, l) \<in> set (other_blocks J k (memory s))" for x b l
    using t job_clear [OF job that(2,1)] by (simp add: told_def)
  have out: "memory s' x = memory s x" if "\<not> outside (fish_blocks ?V (memory s)) x" for x
    using that same [of x] by (auto simp: outside_def list_all_iff other_blocks_def)
  have F: "fish_ok ?V is (memory s')" "blinks ?V is (memory s') = blinks ?V is (memory s)" "vmem ?V (memory s') = vmem ?V (memory s)"
    by (rule fish_ok_agree [OF fish], rule out, assumption)+
  show "blinks ?V is (memory s') = blinks ?V is (memory s)" by (rule F(2))
  have job': "job_ok J (memory s')" by (simp only: job_ok_vmem [OF F(3)] job)
  have u: "user_ok (kernel_blocks J) (j_pid J) (j_term J) s" using I by blast
  have ku: "user_ok (char_blocks J k) (j_pid J) (j_term J) s" by (rule user_ok_kernel [OF u, where J = J]) (auto simp: char_blocks_def)
  have user: "user_ok (kernel_blocks J) (j_pid J) (j_term J) s'" by (rule user_ok_kernel [OF told_ok [OF ku t], where J = J]) simp_all
  have img: "same_image (j_image J) (memory s') (j_boot J) (j_blocks J * 4096)"
    using I told_clear(3) [OF t job_image [OF job]] by (simp add: same_image_def)
  have b: "blink_at (memory s') (f_frame (j_frame J)) = blink_at (memory s) (f_frame (j_frame J))"
    by (rule blink_at_cong) (erule same, simp add: other_blocks_def)
  have fds: "nat (j_fd J k) < 8" "nat (j_fd J True) \<noteq> nat (j_fd J False)" using job_fds [OF job] by (auto simp: eq_nat_nat_iff nat_less_iff)
  have "memory s' (j_char J (\<not> k)) = memory s (j_char J (\<not> k))"
    by (rule same [of _ "j_char J (\<not> k)" 32]) (simp_all add: other_blocks_def in_region_def)
  moreover have "fdt (j_pid J) s' ! nat (j_fd J (\<not> k)) = fdt (j_pid J) s ! nat (j_fd J (\<not> k))" "fdt (j_pid J) s' ! nat (j_fd J k) = f"
    using told_fdt [OF t] fds len by (cases k; simp)+
  ultimately have "cursor_at J i ((q(k := q')) i) (fdt (j_pid J) s' ! nat (j_fd J i)) \<and> memory s' (j_char J i) = cur_char ((q(k := q')) i)" for i
    using I q by (cases "i = k") auto
  moreover have "boot_block s' = j_boot J" "length (fdt (j_pid J) s') = 8" using t I told_fdt [OF t] by (simp_all add: told_def)
  ultimately show "frames_inv J (q(k := q')) is s'" using job' user img F(1) I by (simp add: frames_inv_def b)
qed

section \<open>One character of a frame\<close>

lemma reads_next:
  assumes "reads_rest J k (x # t) f"
  shows "reads_rest J k t (advance 1 f)" "file_position f = int off \<Longrightarrow> x = file_byte (j_image J) (j_boot J) (j_ino J k) off"
proof -
  let ?n = "file_size (j_image J) (j_boot J) (j_ino J k)" and ?b = "file_byte (j_image J) (j_boot J) (j_ino J k)"
  obtain o' where o': "file_position f = int o'" "o' \<le> ?n" "x # t = map ?b [o'..<?n]" using assms by (auto simp: reads_rest_def)
  then have lt: "o' < ?n" by (cases "o' < ?n") auto
  then have "x = ?b o'" "t = map ?b [Suc o'..<?n]" using o'(3) by (simp_all add: upt_conv_Cons)
  then show "reads_rest J k t (advance 1 f)" "file_position f = int off \<Longrightarrow> x = ?b off"
    using assms o'(1) lt by (auto simp: reads_rest_def advance_def intro!: exI [of _ "Suc o'"])
qed

lemma put_byte_memory [simp]: "memory (put_byte c x s) = (memory s)(c := x)"
  by (simp add: put_byte_def)

lemma told_put_byte:
  fixes s :: "'a keyboard_scheme"
  assumes "buffer_block A w c 32" "cursor_ok w s"
  shows "told A p w [] (fdt p s) s (put_byte c x s)"
  unfolding put_byte_def using assms
  by (auto simp: buffer_block_def outside_def list_all_iff in_region_def intro!: told_written [where B = "[(c, 32)]"])

lemma frame_char_reads:
  fixes s :: "'a keyboard_scheme"
  assumes inv: "frames_inv J q is s" and r: "reads_rest J k t f" "f = fdt (j_pid J) s ! nat (j_fd J k)"
  shows "\<exists>s'. ece391_read U 0 (j_fd J k) (j_char J k) 1 s = Some (int (length (take 1 t)), s') \<and>
    told (char_blocks J k) (j_pid J) (j_term J) [] ((fdt (j_pid J) s)[nat (j_fd J k) := advance (int (length (take 1 t))) f]) s s' \<and>
    read_bytes (memory s') (j_char J k) (length (take 1 t)) = take 1 t"
proof -
  let ?A = "char_blocks J k"
  note I = inv [unfolded frames_inv_def]
  let ?n = "file_size (j_image J) (j_boot J) (j_ino J k)" and ?b = "file_byte (j_image J) (j_boot J) (j_ino J k)"
  have job: "job_ok J (memory s)" and bb: "boot_block s = j_boot J" using I by blast+
  have img: "same_image (j_image J) (memory s) (j_boot J) (j_blocks J * 4096)" "file_ok (j_image J) (j_boot J) (j_blocks J) (j_ino J k)"
    using I job by (simp_all add: job_ok_def)
  note same = same_file_ok [OF img]
  have u: "user_ok ?A (j_pid J) (j_term J) s" by (rule user_ok_kernel [where J = J]) (use I in \<open>auto simp: char_blocks_def\<close>)
  obtain off where off: "file_position f = int off" "off \<le> ?n" "t = map ?b [off..<?n]" using r by (auto simp: reads_rest_def)
  have n: "length (take 1 t) = min (nat 1) (file_size (memory s) (boot_block s) (j_ino J k) - off)" using off by (simp add: same(2) bb)
  have "take 1 t = map (file_byte (memory s) (boot_block s) (j_ino J k)) [off..<off + length (take 1 t)]"
    using off same(3) by (cases "off < ?n") (auto simp: bb upt_conv_Cons)
  moreover note calls_read_file [OF u refl, of "j_fd J k" "j_ino J k" off "j_blocks J" "j_char J k" 32 "length (take 1 t)" 1 U 0, folded r(2)]
  ultimately show ?thesis
    using I r(1) off(1,2) n same(1,2) job_fds [OF job] job_buffer [OF job] job_image [OF job]
    by (simp add: reads_rest_def bb)
qed

lemma frame_char_step:
  fixes s :: "'a keyboard_scheme"
  assumes inv: "frames_inv J q is s"
  shows "\<exists>s'. frame_char U (j_fd J k) (j_char J k) (eof_of (q k)) s = Some (eof_of (step_cursor (q k)), s') \<and>
    frames_inv J (q(k := step_cursor (q k))) is s' \<and> blinks (f_vars (j_frame J)) is (memory s') = blinks (f_vars (j_frame J)) is (memory s)"
proof -
  note I = inv [unfolded frames_inv_def]
  let ?f = "fdt (j_pid J) s ! nat (j_fd J k)"
  have job: "job_ok J (memory s)" using I by blast
  have at: "cursor_at J k (q k) ?f" "memory s (j_char J k) = cur_char (q k)" using I by blast+
  show ?thesis
  proof (cases "q k" rule: step_cursor.cases)
    case (1 c)
    then have r: "reads_rest J k [] ?f" and c: "memory s (j_char J k) \<noteq> 0x0A" using at by simp_all
    obtain s1 where s1: "ece391_read U 0 (j_fd J k) (j_char J k) 1 s = Some (0, s1)"
        "told (char_blocks J k) (j_pid J) (j_term J) [] ((fdt (j_pid J) s)[nat (j_fd J k) := advance 0 ?f]) s s1"
      using frame_char_reads [OF inv r refl, of U] by auto
    let ?s2 = "put_byte (j_char J k) 0x0A s1"
    have "cursor_ok (j_term J) s1" using s1(2) by (simp add: told_def)
    note p = told_put_byte [OF job_buffer [OF job, of k] this, where p = "j_pid J" and x = "0x0A"]
    have "told (char_blocks J k) (j_pid J) (j_term J) [] ((fdt (j_pid J) s)[nat (j_fd J k) := advance 0 ?f]) s ?s2"
      using told_trans [OF s1(2) p] told_fdt [OF s1(2)] by simp
    then show ?thesis using inv_told [OF inv, of k "advance 0 ?f" ?s2 "Over None"] s1(1) r c 1
      by (simp add: frame_char_def reads_rest_def advance_def)
  next
    case (2 c x t)
    then have r: "reads_rest J k (x # t) ?f" and c: "memory s (j_char J k) \<noteq> 0x0A" using at by simp_all
    obtain s1 where s1: "ece391_read U 0 (j_fd J k) (j_char J k) 1 s = Some (1, s1)" "memory s1 (j_char J k) = x"
        "told (char_blocks J k) (j_pid J) (j_term J) [] ((fdt (j_pid J) s)[nat (j_fd J k) := advance 1 ?f]) s s1"
      using frame_char_reads [OF inv r refl, of U] by (auto simp: read_bytes_Suc)
    then show ?thesis using inv_told [OF inv s1(3), of "step_cursor (q k)"] reads_next(1) [OF r] c 2
      by (auto simp: frame_char_def)
  next
    case (3 t)
    then show ?thesis using inv at by (auto simp: frame_char_def fun_upd_idem)
  qed
qed

lemma frame_next_step:
  fixes s :: "'a keyboard_scheme"
  assumes inv: "frames_inv J q is s" and q: "q k = Over t"
  shows "\<exists>s'. frame_next U (j_fd J k) (j_char J k) (t = None) s = Some s' \<and> frames_inv J (q(k := start_line t)) is s' \<and>
    blinks (f_vars (j_frame J)) is (memory s') = blinks (f_vars (j_frame J)) is (memory s)"
proof -
  note I = inv [unfolded frames_inv_def]
  let ?A = "char_blocks J k" and ?f = "fdt (j_pid J) s ! nat (j_fd J k)" and ?c = "j_char J k"
  have job: "job_ok J (memory s)" and at: "cursor_at J k (Over t) ?f" using I q by (blast, metis)
  have u: "user_ok ?A (j_pid J) (j_term J) s" by (rule user_ok_kernel [where J = J]) (use I in \<open>auto simp: char_blocks_def\<close>)
  have "cursor_ok (j_term J) s" using u by (simp add: user_ok_def)
  note put = told_put_byte [OF job_buffer [OF job, of k] this, of "j_pid J"]
  show ?thesis
  proof (cases t)
    case (Some xs)
    then show ?thesis using inv_told [OF inv, of k ?f "put_byte ?c 0x30 s" "Line 0x30 xs"] put at by (simp add: frame_next_def start_line_def)
  next
    case None
    let ?s1 = "put_byte ?c 0x0A s"
    have u1: "user_ok (kernel_blocks J) (j_pid J) (j_term J) ?s1" by (rule user_ok_kernel [OF told_ok [OF u put], where J = J]) simp_all
    have fs: "fdt (j_pid J) ?s1 = fdt (j_pid J) s" by (rule told_fdt [OF put])
    have "\<exists>r f' s'. ece391_close U (j_fd J k) ?s1 = Some (r, s') \<and> fd_flags f' = 0 \<and>
        told (kernel_blocks J) (j_pid J) (j_term J) [] ((fdt (j_pid J) s)[nat (j_fd J k) := f']) ?s1 s'"
    proof (cases "fd_flags ?f = 0")
      case True
      then show ?thesis using runs_close_free [OF u1 fs, of "j_fd J k" U] job_fds [OF job, of k] by (auto simp: runs_def) (metis list_update_id)
    next
      case False
      then have "runs (kernel_blocks J) (j_pid J) (j_term J) (close_result ?f) [] ((fdt (j_pid J) s)[nat (j_fd J k) := closed_fd ?f]) ?s1
          (ece391_close U (j_fd J k) ?s1)"
        using job_fds [OF job, of k] at None by (intro runs_close [OF u1 fs]) (auto simp: file_table_def)
      moreover have "fd_flags (closed_fd ?f) = 0" by (simp add: closed_fd_def)
      ultimately show ?thesis unfolding runs_def by blast
    qed
    then obtain r f' s' where s': "ece391_close U (j_fd J k) ?s1 = Some (r, s')" "fd_flags f' = 0"
      "told (kernel_blocks J) (j_pid J) (j_term J) [] ((fdt (j_pid J) s)[nat (j_fd J k) := f']) ?s1 s'" by blast
    have t1: "told ?A (j_pid J) (j_term J) [] ((fdt (j_pid J) s)[nat (j_fd J k) := f']) ?s1 s'"
      by (rule told_mono [OF s'(3)]) (auto simp: char_blocks_def)
    have "told ?A (j_pid J) (j_term J) [] ((fdt (j_pid J) s)[nat (j_fd J k) := f']) s s'" using told_trans [OF put t1] by simp
    moreover have "memory s' ?c = 0x0A" using s'(3) job_char_kernel [OF job, of k] by (simp add: told_def)
    ultimately show ?thesis using inv_told [OF inv, of k f' s' "Over None"] s'(1,2) None by (simp add: frame_next_def start_line_def)
  qed
qed

section \<open>One cell of a frame\<close>

definition blank_newline :: "u8 \<Rightarrow> u8" where
  "blank_newline c = (if c = 0x0A then 0x20 else c)"

lemma cell_chars: "blank_newline (cur_char (step_cursor q)) = first_char (left_of q)"
  using left_no_newline [of _ q] by (cases "left_of q") (auto simp: step_cursor_char first_char_def blank_newline_def)

lemma job_struct:
  assumes "job_ok J m"
  shows "caller_struct (f_vars (j_frame J)) m (f_frame (j_frame J))"
    and "in_region x (j_char J k) 32 \<or> in_region x (j_boot J) (j_blocks J * 4096) \<Longrightarrow>
      outside ((f_frame (j_frame J), 16) # fish_blocks (f_vars (j_frame J)) m) x"
proof -
  let ?V = "f_vars (j_frame J)" and ?a = "f_frame (j_frame J)"
  have d: "all_disjoint (((j_char J False, 32) # (j_char J True, 32) # kernel_blocks J) @ (?a, 16) # (j_boot J, j_blocks J * 4096) # fish_blocks ?V m)"
    using assms by (simp add: job_ok_def job_blocks_def)
  then have s: "list_all (\<lambda>(b, l). disjoint_regions ?a 16 b l) ((j_boot J, j_blocks J * 4096) # fish_blocks ?V m)"
    and i: "list_all (\<lambda>(b, l). disjoint_regions (j_boot J) (j_blocks J * 4096) b l) (fish_blocks ?V m)"
    by (simp_all add: all_disjoint_append)
  from s show "caller_struct ?V m ?a" using disjoint_regions_sym by (auto simp: caller_struct_def list_all_iff)
  assume "in_region x (j_char J k) 32 \<or> in_region x (j_boot J) (j_blocks J * 4096)"
  then show "outside ((?a, 16) # fish_blocks ?V m) x"
  proof
    assume x: "in_region x (j_char J k) 32"
    have "list_all (\<lambda>(b, l). disjoint_regions (j_char J k) 32 b l) ((?a, 16) # (j_boot J, j_blocks J * 4096) # fish_blocks ?V m)"
      using d unfolding all_disjoint_append by (cases k) simp_all
    then show ?thesis using x by (fastforce simp: outside_def list_all_iff dest: disjoint_regionsD)
  next
    assume "in_region x (j_boot J) (j_blocks J * 4096)"
    then show ?thesis using s i by (fastforce simp: outside_def list_all_iff dest: disjoint_regionsD)
  qed
qed

lemma inv_struct:
  fixes s :: "'a keyboard_scheme"
  assumes inv: "frames_inv J q is s" and m: "\<And>x. outside ((f_frame (j_frame J), 16) # fish_blocks (f_vars (j_frame J)) (memory s)) x \<Longrightarrow> m x = memory s x"
    and v: "vmem (f_vars (j_frame J)) m = vmem (f_vars (j_frame J)) (memory s)" and ok: "fish_ok (f_vars (j_frame J)) js m"
    and l: "on_length (blink_at m (f_frame (j_frame J))) = 15" "off_length (blink_at m (f_frame (j_frame J))) = 15"
  shows "frames_inv J q js (s\<lparr>memory := m\<rparr>)"
proof -
  note I = inv [unfolded frames_inv_def]
  have job: "job_ok J (memory s)" using I by blast
  have u: "user_ok (kernel_blocks J) (j_pid J) (j_term J) (s\<lparr>memory := m\<rparr>)" using I by (simp add: user_ok_def cursor_ok_def curr_pid_def)
  have n: "j_blocks J * 4096 \<le> 2 ^ 32" using job by (simp add: job_ok_def file_ok_def)
  have same: "same_image (memory s) m (j_boot J) (j_blocks J * 4096)"
    using m job_struct(2) [OF job] in_region_offset [OF _ n] by (simp add: same_image_def)
  moreover have "m (j_char J k) = memory s (j_char J k)" for k using m job_struct(2) [OF job, of "j_char J k" k] by (simp add: in_region_def)
  ultimately show ?thesis using I u ok l by (auto simp: frames_inv_def job_ok_vmem [OF v] fdt_def same_image_def)
qed

lemma offer_add:
  assumes ok: "fish_ok V is m" and arg: "caller_struct V m arg" and b: "set_up (blink_at m arg) = b" "location b \<noteq> 0"
  shows "\<exists>r m' js. mp1_ioctl V arg RTC_ADD m = Some (r, m') \<and> fish_ok V js m' \<and> blinks V js m' = offer b (blinks V is m) \<and>
    (\<forall>x. outside (fish_blocks V m) x \<longrightarrow> m' x = m x) \<and> vmem V m' = vmem V m"
proof -
  have d: "disjoint_regions (v_temp V) 16 arg 16" by (rule caller_structD [OF arg])
  have loc: "location (blink_at m arg) = location b" using b(1) by (auto simp: set_up_def)
  obtain r m' where r: "mp1_ioctl_add V arg m = (r, m')" by fastforce
  have len: "length (blinks V is m) = length is" by (simp add: blinks_def)
  have "\<exists>js. fish_ok V js m' \<and> blinks V js m' = offer b (blinks V is m)"
  proof (cases "location b < 2000 \<and> length is < 2000")
    case True
    then show ?thesis using add_accepted [OF ok d] room_iff [OF ok] r b loc by (auto simp: offer_def len word_neq_0_conv)
  next
    case False
    then show ?thesis using add_refused [OF ok d] room_iff [OF ok] r loc by (auto simp: offer_def len not_less)
  qed
  then show ?thesis using add_frame [OF fish_okD(1) [OF ok] d r] r by (auto simp: mp1_ioctl_def blink_consts)
qed

lemma struct_set:
  fixes a :: u32 and m :: mem and c0 c1 :: u8 and loc :: u16
  defines "m1 \<equiv> write16 (m(a + ON_CHAR := c0, a + OFF_CHAR := c1)) (a + LOCATION) loc"
  shows "blink_at m1 a = (blink_at m a)\<lparr>location := loc, on_char := c0, off_char := c1\<rparr>" "\<not> in_region x a 16 \<Longrightarrow> m1 x = m x"
proof -
  have "read16 m1 (a + LOCATION) = loc" by (simp add: m1_def)
  then show "blink_at m1 a = (blink_at m a)\<lparr>location := loc, on_char := c0, off_char := c1\<rparr>"
    by (simp add: blink_at_def) (simp add: m1_def read16_def write16_apply blink_consts add.assoc)
  assume x: "\<not> in_region x a 16"
  have "x \<noteq> a + of_nat k" if "k < 16" for k using x in_region_offset [of k 16 a] that by auto
  from this [of 0] this [of 1] this [of 2] this [of 3] show "m1 x = m x" by (simp add: m1_def write16_apply blink_consts)
qed

lemma frame_add_step:
  fixes s :: "'a keyboard_scheme"
  assumes inv: "frames_inv J q is s" and c: "c0 = blank_newline (cur_char (q False))" "c1 = blank_newline (cur_char (q True))"
    and loc: "\<forall>b\<in>set (cell_blinks rw cl c0 c1). location b \<noteq> 0"
  shows "\<exists>s' js. frame_add (j_frame J) rw cl s = Some s' \<and> frames_inv J q js s' \<and>
    blinks (f_vars (j_frame J)) js (memory s') = fold offer (cell_blinks rw cl c0 c1) (blinks (f_vars (j_frame J)) is (memory s))"
proof -
  let ?V = "f_vars (j_frame J)" and ?a = "f_frame (j_frame J)"
  note I = inv [unfolded frames_inv_def]
  have job: "job_ok J (memory s)" and ok: "fish_ok ?V is (memory s)" using I by blast+
  have ch: "blank_newline (memory s (f_c0 (j_frame J))) = c0" "blank_newline (memory s (f_c1 (j_frame J))) = c1"
    using inv_chars [OF inv, of False] inv_chars [OF inv, of True] c by (simp_all add: j_char_def)
  show ?thesis
  proof (cases "c0 \<noteq> 0x20 \<or> c1 \<noteq> 0x20")
    case False
    then have "frame_add (j_frame J) rw cl s = Some s" using ch by (auto simp: frame_add_def Let_def blank_newline_def split: if_splits)
    then show ?thesis using inv False by (auto simp: cell_blinks_def)
  next
    case True
    let ?b = "frame_blink rw cl c0 c1"
    define l :: u16 where "l = word_of_int (rw * 80 + cl + 40)"
    let ?m1 = "write16 ((memory s)(?a + ON_CHAR := c0, ?a + OFF_CHAR := c1)) (?a + LOCATION) l"
    note S = struct_set [where m = "memory s" and a = ?a and ?c0.0 = c0 and ?c1.0 = c1 and loc = l]
    have cs: "caller_struct ?V (memory s) ?a" by (rule job_struct(1) [OF job])
    have "\<And>x. \<not> outside (fish_blocks ?V (memory s)) x \<Longrightarrow> ?m1 x = memory s x" using S(2) caller_struct_outside [OF cs] by blast
    then have F: "fish_ok ?V is ?m1" "blinks ?V is ?m1 = blinks ?V is (memory s)" "vmem ?V ?m1 = vmem ?V (memory s)"
      by (rule fish_ok_agree [OF ok], blast)+
    have up: "set_up (blink_at ?m1 ?a) = ?b" unfolding S(1) set_up_def frame_blink_def l_def [symmetric] using I by (intro blink.equality) simp_all
    obtain r m' js where m': "mp1_ioctl ?V ?a RTC_ADD ?m1 = Some (r, m')" "fish_ok ?V js m'" "blinks ?V js m' = offer ?b (blinks ?V is (memory s))"
        "\<And>x. outside (fish_blocks ?V ?m1) x \<Longrightarrow> m' x = ?m1 x" "vmem ?V m' = vmem ?V ?m1"
      using offer_add [OF F(1) _ up] cs loc True F(2,3) by (auto simp: caller_struct_cong [OF F(3)] cell_blinks_def)
    have fb: "fish_blocks ?V ?m1 = fish_blocks ?V (memory s)" by (simp only: fish_blocks_def F(3))
    have "blink_at m' ?a = blink_at ?m1 ?a" by (rule blink_at_cong) (rule m'(4), simp only: fb caller_struct_outside [OF cs])
    then have "frames_inv J q js (s\<lparr>memory := m'\<rparr>)"
      using I m'(2,4,5) S F(3) fb by (intro inv_struct [OF inv]) (auto simp: outside_def)
    moreover have "frame_add (j_frame J) rw cl s = Some (s\<lparr>memory := m'\<rparr>)"
      using True ch m'(1) unfolding l_def by (auto simp: frame_add_def Let_def blank_newline_def split: if_splits)
    ultimately show ?thesis using m'(3) True by (auto simp: cell_blinks_def)
  qed
qed

section \<open>Rows of the frames\<close>

lemma frame_row_run:
  fixes s :: "'a keyboard_scheme"
  assumes "frames_inv J q is s" "xs = left_of (q False)" "ys = left_of (q True)" "\<forall>b\<in>set (line_blinks rw cl xs ys). location b \<noteq> 0"
  shows "\<exists>s' js. frame_row U (j_frame J) (j_fd J False) (j_fd J True) rw cl (eof_of (q False)) (eof_of (q True)) s =
      Some (eof_of (past (q False)), eof_of (past (q True)), s') \<and> frames_inv J (\<lambda>k. past (q k)) js s' \<and>
    blinks (f_vars (j_frame J)) js (memory s') = fold offer (line_blinks rw cl xs ys) (blinks (f_vars (j_frame J)) is (memory s))"
  using assms
proof (induction rw cl xs ys arbitrary: q "is" s rule: line_blinks.induct)
  case (1 rw cl xs ys)
  let ?V = "f_vars (j_frame J)" and ?F = "j_frame J"
  let ?q1 = "q(False := step_cursor (q False))" and ?q2 = "q(False := step_cursor (q False), True := step_cursor (q True))"
  obtain s1 where s1: "frame_char U (j_fd J False) (f_c0 ?F) (eof_of (q False)) s = Some (eof_of (step_cursor (q False)), s1)"
      "frames_inv J ?q1 is s1" "blinks ?V is (memory s1) = blinks ?V is (memory s)"
    using frame_char_step [OF "1.prems"(1), of U False] by (auto simp: j_char_def)
  obtain s2 where s2: "frame_char U (j_fd J True) (f_c1 ?F) (eof_of (q True)) s1 = Some (eof_of (step_cursor (q True)), s2)"
      "frames_inv J ?q2 is s2" "blinks ?V is (memory s2) = blinks ?V is (memory s1)"
    using frame_char_step [OF s1(2), of U True] by (auto simp: j_char_def)
  have ch: "memory s2 (f_c0 ?F) = cur_char (step_cursor (q False))" "memory s2 (f_c1 ?F) = cur_char (step_cursor (q True))"
    using inv_chars [OF s2(2), of False] inv_chars [OF s2(2), of True] by (simp_all add: j_char_def)
  note row = frame_row.simps [of U ?F "j_fd J False" "j_fd J True" rw cl "eof_of (q False)" "eof_of (q True)" s]
  show ?case
  proof (cases "xs = [] \<and> ys = []")
    case True
    then have p: "step_cursor (q False) = past (q False)" "step_cursor (q True) = past (q True)"
      using step_cursor_end [of "q False"] step_cursor_end [of "q True"] "1.prems"(2,3) by simp_all
    then have "?q2 = (\<lambda>k. past (q k))" by (auto simp: fun_eq_iff)
    then show ?thesis using True s1 s2 ch row p step_cursor_newline [of "q False"] step_cursor_newline [of "q True"] "1.prems"(2,3)
      by (auto simp: line_blinks.simps)
  next
    case False
    let ?cs = "cell_blinks rw cl (first_char xs) (first_char ys)"
    have L: "line_blinks rw cl xs ys = ?cs @ line_blinks rw (cl + 1) (tl xs) (tl ys)" using False by (subst line_blinks.simps) (simp only: if_False)
    obtain s3 js where s3: "frame_add ?F rw cl s2 = Some s3" "frames_inv J ?q2 js s3" "blinks ?V js (memory s3) = fold offer ?cs (blinks ?V is (memory s))"
      using frame_add_step [OF s2(2), of "first_char xs" "first_char ys" rw cl] cell_chars [of "q False"] cell_chars [of "q True"] "1.prems"(2-4) s1(3) s2(3) L
      by auto
    have "\<not> (memory s2 (f_c0 ?F) = 0x0A \<and> memory s2 (f_c1 ?F) = 0x0A)" using False ch step_cursor_newline "1.prems"(2,3) by simp
    then have "frame_row U ?F (j_fd J False) (j_fd J True) rw cl (eof_of (q False)) (eof_of (q True)) s =
        frame_row U ?F (j_fd J False) (j_fd J True) rw (cl + 1) (eof_of (step_cursor (q False))) (eof_of (step_cursor (q True))) s3"
      using row s1(1) s2(1) s3(1) by auto
    moreover have "(\<lambda>k. past (?q2 k)) = (\<lambda>k. past (q k))" by (auto simp: fun_eq_iff step_cursor_left)
    ultimately show ?thesis using "1.IH" [OF False s3(2)] "1.prems"(2-4) L s3(3) by (simp add: step_cursor_left)
  qed
qed

lemma frame_rows_run:
  fixes s :: "'a keyboard_scheme"
  assumes "frames_inv J (\<lambda>k. start_line (if k then t1 else t0)) is s" "\<forall>b\<in>set (text_blinks rw t0 t1). location b \<noteq> 0"
  shows "\<exists>s' js. frame_rows U (j_frame J) (j_fd J False) (j_fd J True) rw (t0 = None) (t1 = None) s = Some s' \<and> frames_inv J (\<lambda>k. Over None) js s' \<and>
    blinks (f_vars (j_frame J)) js (memory s') = fold offer (text_blinks rw t0 t1) (blinks (f_vars (j_frame J)) is (memory s))"
  using assms
proof (induction rw t0 t1 arbitrary: "is" s rule: text_blinks.induct)
  case (1 rw t0 t1)
  let ?V = "f_vars (j_frame J)" and ?F = "j_frame J" and ?r = "\<lambda>k. rest_of (if k then t1 else t0)"
  note rows = frame_rows.simps [of U ?F "j_fd J False" "j_fd J True" rw "t0 = None" "t1 = None" s]
  show ?case
  proof (cases "t0 = None \<and> t1 = None")
    case True
    moreover have "(\<lambda>k. start_line (if k then None else None)) = (\<lambda>k. Over None)" by (simp add: start_line_def)
    ultimately show ?thesis using rows "1.prems"(1) by (auto simp: text_blinks.simps)
  next
    case False
    let ?L = "line_blinks rw 0 (line_of t0) (line_of t1)"
    have T: "text_blinks rw t0 t1 = ?L @ text_blinks (rw + 1) (rest_of t0) (rest_of t1)" using False by (subst text_blinks.simps) (simp only: if_False)
    obtain s1 js where s1: "frame_row U ?F (j_fd J False) (j_fd J True) rw 0 (t0 = None) (t1 = None) s = Some (rest_of t0 = None, rest_of t1 = None, s1)"
        "frames_inv J (\<lambda>k. Over (?r k)) js s1" "blinks ?V js (memory s1) = fold offer ?L (blinks ?V is (memory s))"
      using frame_row_run [OF "1.prems"(1), of "line_of t0" "line_of t1" rw 0 U] "1.prems"(2) T by auto
    obtain s2 where s2: "frame_next U (j_fd J False) (f_c0 ?F) (rest_of t0 = None) s1 = Some s2"
        "frames_inv J ((\<lambda>k. Over (?r k))(False := start_line (rest_of t0))) js s2" "blinks ?V js (memory s2) = blinks ?V js (memory s1)"
      using frame_next_step [OF s1(2), of False "rest_of t0" U] by (auto simp: j_char_def)
    obtain s3 where s3: "frame_next U (j_fd J True) (f_c1 ?F) (rest_of t1 = None) s2 = Some s3"
        "frames_inv J ((\<lambda>k. Over (?r k))(False := start_line (rest_of t0), True := start_line (rest_of t1))) js s3" "blinks ?V js (memory s3) = blinks ?V js (memory s2)"
      using frame_next_step [OF s2(2), of True "rest_of t1" U] by (auto simp: j_char_def)
    have "((\<lambda>k. Over (?r k))(False := start_line (rest_of t0), True := start_line (rest_of t1))) = (\<lambda>k. start_line (if k then rest_of t1 else rest_of t0))"
      by (auto simp: fun_eq_iff)
    then have inv: "frames_inv J (\<lambda>k. start_line (if k then rest_of t1 else rest_of t0)) js s3" using s3(2) by simp
    have "frame_rows U ?F (j_fd J False) (j_fd J True) rw (t0 = None) (t1 = None) s =
        frame_rows U ?F (j_fd J False) (j_fd J True) (rw + 1) (rest_of t0 = None) (rest_of t1 = None) s3"
      using rows False s1(1) s2(1) s3(1) by auto
    then show ?thesis using "1.IH" [OF False inv] "1.prems"(2) T s1(3) s2(3) s3(3) by simp
  qed
qed

section \<open>Opening the two files\<close>

definition call_area :: "'a keyboard_scheme user_env \<Rightarrow> frames_job \<Rightarrow> (u32 \<times> nat) list" where
  "call_area U J = (l_dentry (u_locals U), 64) # (l_sub (u_locals U), 64) # kernel_blocks J"

definition frames_area :: "'a keyboard_scheme user_env \<Rightarrow> frames_job \<Rightarrow> (u32 \<times> nat) list" where
  "frames_area U J = (j_char J False, 32) # (j_char J True, 32) # (f_frame (j_frame J), 16) # call_area U J"

text \<open>The name at \<open>a\<close> is in the directory, as a regular file with that inode.\<close>

definition names_file :: "(u32 \<times> nat) list \<Rightarrow> u32 \<Rightarrow> u8 list \<Rightarrow> u32 \<Rightarrow> 'a keyboard_scheme \<Rightarrow> bool" where
  "names_file A a xs ino s \<longleftrightarrow> cstr_at (memory s) a xs \<and> clear_of A a (Suc (length xs)) \<and> a \<noteq> 0 \<and> xs \<noteq> [] \<and>
     (\<exists>i. find_file (memory s) (boot_block s) xs = Some i \<and> dentry_file_type (memory s) (dentry_at (boot_block s) i) = 2 \<and>
       dentry_inode_num (memory s) (dentry_at (boot_block s) i) = ino)"

lemma names_file_told:
  fixes s s' :: "'a keyboard_scheme"
  assumes n: "names_file B a xs ino s" and t: "told A p w out fs s s'" and sub: "set A \<subseteq> set B" and dir: "clear_of B (boot_block s) 4096"
  shows "names_file B a xs ino s'"
proof -
  have tB: "told B p w out fs s s'" by (rule told_mono [OF t sub])
  have bb: "boot_block s' = boot_block s" using t by (simp add: told_def)
  obtain i where i: "find_file (memory s) (boot_block s) xs = Some i" "dentry_file_type (memory s) (dentry_at (boot_block s) i) = 2"
      "dentry_inode_num (memory s) (dentry_at (boot_block s) i) = ino" using n by (auto simp: names_file_def)
  then have "i < 63" by (auto simp: find_file_def find_Some_iff)
  note img = told_clear(3) [OF tB dir]
  show ?thesis using n i told_cstr [OF tB] find_file_image [OF img] dentry_fields_image [OF img \<open>i < 63\<close>] by (auto simp: names_file_def bb)
qed

lemma open_names_file:
  fixes s :: "'a keyboard_scheme"
  assumes u: "user_ok A p w s" and fs: "fdt p s = fs" "fds_ok fs" "free_fd fs < 8" and L: "open_blocks A w (u_locals U)"
    and n: "names_file B a xs ino s" "set A \<subseteq> set B" "clear_of B (boot_block s) 4096"
  shows "\<exists>s'. ece391_open U a s = Some (int (free_fd fs), s') \<and> told A p w [] (fs[free_fd fs := opened_fd 2 ino (fs ! free_fd fs)]) s s'"
proof -
  obtain i where i: "find_file (memory s) (boot_block s) xs = Some i" "dentry_file_type (memory s) (dentry_at (boot_block s) i) = 2"
      "dentry_inode_num (memory s) (dentry_at (boot_block s) i) = ino" and a: "cstr_at (memory s) a xs" "a \<noteq> 0" "xs \<noteq> []"
    and c: "clear_of B a (Suc (length xs))" using n(1) by (auto simp: names_file_def)
  have "runs A p w (int (free_fd fs)) [] (fs[free_fd fs := opened_fd 2 ino (fs ! free_fd fs)]) s (ece391_open U a s)"
    by (rule runs_open [OF u fs a(1) clear_of_mono [OF c n(2)] L clear_of_mono [OF n(3,2)] a(2,3) i(1,2) _ i(3)]) simp
  then show ?thesis by (auto simp: runs_def)
qed

text \<open>The descriptors that the two calls hand out.\<close>

definition opened_table :: "frames_job \<Rightarrow> bool \<Rightarrow> fd_t list \<Rightarrow> fd_t list" where
  "opened_table J k fs = fs[free_fd fs := opened_fd 2 (j_ino J k) (fs ! free_fd fs)]"

definition frames_ready :: "'a keyboard_scheme user_env \<Rightarrow> frames_job \<Rightarrow> (bool \<Rightarrow> u32) \<Rightarrow> (bool \<Rightarrow> u8 list) \<Rightarrow> 'a keyboard_scheme \<Rightarrow> bool" where
  "frames_ready U J f xs s \<longleftrightarrow> user_ok (kernel_blocks J) (j_pid J) (j_term J) s \<and> job_ok J (memory s) \<and>
     all_disjoint ((l_dentry (u_locals U), 64) # (l_sub (u_locals U), 64) # job_blocks J (memory s)) \<and> l_dentry (u_locals U) \<noteq> 0 \<and> l_sub (u_locals U) \<noteq> 0 \<and>
     j_image J = memory s \<and> j_boot J = boot_block s \<and> (\<forall>k. names_file (frames_area U J) (f k) (xs k) (j_ino J k) s) \<and>
     (let fs = fdt (j_pid J) s; fs1 = opened_table J False fs
      in fds_ok fs \<and> free_fd fs < 8 \<and> free_fd fs1 < 8 \<and> j_fd J False = int (free_fd fs) \<and> j_fd J True = int (free_fd fs1))"

lemma ready_disjoint:
  assumes "frames_ready U J f xs s"
  shows "all_disjoint (((l_dentry (u_locals U), 64) # (l_sub (u_locals U), 64) # (j_char J False, 32) # (j_char J True, 32) # kernel_blocks J @ [(f_frame (j_frame J), 16)]) @
    (j_boot J, j_blocks J * 4096) # fish_blocks (f_vars (j_frame J)) (memory s))"
proof -
  have "all_disjoint ((l_dentry (u_locals U), 64) # (l_sub (u_locals U), 64) # job_blocks J (memory s))" using assms unfolding frames_ready_def by blast
  then show ?thesis by (simp add: job_blocks_def)
qed

lemma ready_apart:
  assumes "frames_ready U J f xs s" "(a, n) \<in> set (frames_area U J)"
    and "(b, l) \<in> set ((j_boot J, j_blocks J * 4096) # fish_blocks (f_vars (j_frame J)) (memory s))"
  shows "disjoint_regions a n b l"
proof -
  let ?L = "(l_dentry (u_locals U), 64) # (l_sub (u_locals U), 64) # (j_char J False, 32) # (j_char J True, 32) # kernel_blocks J @ [(f_frame (j_frame J), 16)]"
  let ?R = "(j_boot J, j_blocks J * 4096) # fish_blocks (f_vars (j_frame J)) (memory s)"
  have "list_all (\<lambda>(a, n). list_all (\<lambda>(b, k). disjoint_regions a n b k) ?R) ?L"
    using ready_disjoint [OF assms(1)] unfolding all_disjoint_append by blast
  moreover have "(a, n) \<in> set ?L" using assms(2) by (auto simp: frames_area_def call_area_def)
  ultimately show ?thesis using assms(3) by (fastforce simp: list_all_iff)
qed

lemma ready_locals:
  assumes "frames_ready U J f xs s"
  shows "in_region x (j_char J k) 32 \<or> in_region x (f_frame (j_frame J)) 16 \<Longrightarrow> outside (call_area U J) x" "open_blocks (call_area U J) (j_term J) (u_locals U)"
    and "list_all (\<lambda>(b, n). disjoint_regions b n (page (j_term J)) 4000) [(j_char J False, 32), (j_char J True, 32), (f_frame (j_frame J), 16)]"
    and "disjoint_regions (j_char J False) 32 (j_char J True) 32" "disjoint_regions (j_char J k) 32 (f_frame (j_frame J)) 16"
proof -
  let ?K = "kernel_blocks J" and ?D = "l_dentry (u_locals U)" and ?S = "l_sub (u_locals U)" and ?a = "f_frame (j_frame J)"
  have d: "all_disjoint ((?D, 64) # (?S, 64) # (j_char J False, 32) # (j_char J True, 32) # ?K @ [(?a, 16)])"
    using ready_disjoint [OF assms] unfolding all_disjoint_append by blast
  note d' = d [unfolded kernel_blocks_def, simplified]
  have nz: "?D \<noteq> 0" "?S \<noteq> 0" using assms by (simp_all add: frames_ready_def)
  show "open_blocks (call_area U J) (j_term J) (u_locals U)" using d' nz by (simp add: open_blocks_def call_area_def)
  show "list_all (\<lambda>(b, n). disjoint_regions b n (page (j_term J)) 4000) [(j_char J False, 32), (j_char J True, 32), (?a, 16)]"
    using d' by (simp add: disjoint_regions_sym)
  show "disjoint_regions (j_char J False) 32 (j_char J True) 32" "disjoint_regions (j_char J k) 32 ?a 16" using d' by (cases k; simp)+
  have "disjoint_regions (j_char J k) 32 b l" "disjoint_regions ?a 16 b l" if "(b, l) \<in> set (call_area U J)" for b l
    using d' that by (cases k; auto simp: call_area_def kernel_blocks_def disjoint_regions_sym)+
  then show "in_region x (j_char J k) 32 \<or> in_region x ?a 16 \<Longrightarrow> outside (call_area U J) x"
    using disjoint_regionsD by (fastforce simp: outside_def list_all_iff)
qed

text \<open>The initialisation of the locals.\<close>

definition frames_init :: "fish_frame \<Rightarrow> mem \<Rightarrow> mem" where
  "frames_init F m = write16 (write16 (m(f_c0 F := 0x30, f_c1 F := 0x30)) (f_frame F + ON_LENGTH) 15) (f_frame F + OFF_LENGTH) 15"

lemma frames_init_effect:
  assumes r: "frames_ready U J f xs s"
  defines "m1 \<equiv> frames_init (j_frame J) (memory s)"
  shows "m1 (j_char J k) = 0x30" "on_length (blink_at m1 (f_frame (j_frame J))) = 15" "off_length (blink_at m1 (f_frame (j_frame J))) = 15"
    and "outside [(j_char J False, 32), (j_char J True, 32), (f_frame (j_frame J), 16)] x \<Longrightarrow> m1 x = memory s x"
proof -
  let ?a = "f_frame (j_frame J)"
  have m1: "m1 = write16 (write16 ((memory s)(j_char J False := 0x30, j_char J True := 0x30)) (?a + ON_LENGTH) 15) (?a + OFF_LENGTH) 15"
    by (simp add: m1_def frames_init_def j_char_def)
  show "on_length (blink_at m1 ?a) = 15" "off_length (blink_at m1 ?a) = 15" by (simp_all add: m1 blink_at_write16)
  have out: "m1 y = ((memory s)(j_char J False := 0x30, j_char J True := 0x30)) y" if "\<not> in_region y ?a 16" for y
    unfolding m1 using that field_inside(1,2) [of y ?a] by (metis write16_outside)
  have "in_region (j_char J k) (j_char J k) 32" by (simp add: in_region_def)
  then have "\<not> in_region (j_char J k) ?a 16" using disjoint_regionsD [OF ready_locals(5) [OF r]] by blast
  then show "m1 (j_char J k) = 0x30" using out by (cases k) simp_all
  assume x: "outside [(j_char J False, 32), (j_char J True, 32), (?a, 16)] x"
  then have "x \<noteq> j_char J False" "x \<noteq> j_char J True" by (auto simp: outside_def in_region_def)
  then show "m1 x = memory s x" using x out by (simp add: outside_def)
qed

definition frame_text :: "frames_job \<Rightarrow> bool \<Rightarrow> u8 list" where
  "frame_text J k = map (file_byte (j_image J) (j_boot J) (j_ino J k)) [0..<file_size (j_image J) (j_boot J) (j_ino J k)]"

lemma opened_reads: "reads_rest J k (frame_text J k) (opened_fd 2 (j_ino J k) g)"
  by (auto simp: reads_rest_def opened_fd_def frame_text_def)

lemma opened_entries:
  assumes "fds_ok fs" "free_fd fs < 8" "free_fd (opened_table J False fs) < 8"
  defines "fs2 \<equiv> opened_table J True (opened_table J False fs)"
  shows "reads_rest J False (frame_text J False) (fs2 ! free_fd fs)" "reads_rest J True (frame_text J True) (fs2 ! free_fd (opened_table J False fs))" "length fs2 = 8"
proof -
  have len: "length fs = 8" using assms(1) by (simp add: fds_ok_def)
  let ?fs1 = "opened_table J False fs"
  have "fd_flags (?fs1 ! free_fd fs) \<noteq> 0" using assms(2) len by (simp add: opened_table_def opened_fd_def)
  moreover have "fd_flags (?fs1 ! free_fd ?fs1) = 0" using assms(3) len nth_length_takeWhile [of "\<lambda>f. fd_flags f \<noteq> 0" ?fs1]
    by (simp add: free_fd_def opened_table_def)
  ultimately have ne: "free_fd fs \<noteq> free_fd ?fs1" by metis
  have "fs2 ! free_fd fs = ?fs1 ! free_fd fs" using ne by (simp add: fs2_def opened_table_def [of J True])
  then show "reads_rest J False (frame_text J False) (fs2 ! free_fd fs)" using assms(2) len opened_reads by (simp add: opened_table_def)
  show "reads_rest J True (frame_text J True) (fs2 ! free_fd ?fs1)" using assms(3) len opened_reads by (simp add: fs2_def opened_table_def [of J True] opened_table_def)
  show "length fs2 = 8" using len by (simp add: fs2_def opened_table_def)
qed

lemma ready_image:
  assumes r: "frames_ready U J f xs s"
  shows "clear_of (frames_area U J) (j_boot J) (j_blocks J * 4096)" "clear_of (frames_area U J) (boot_block s) 4096"
proof -
  have job: "job_ok J (memory s)" and bb: "j_boot J = boot_block s" using r unfolding frames_ready_def by blast+
  have n: "j_blocks J * 4096 \<le> 2 ^ 32" "4096 \<le> j_blocks J * 4096" using job by (auto simp: job_ok_def file_ok_def)
  show image: "clear_of (frames_area U J) (j_boot J) (j_blocks J * 4096)"
    by (rule clear_ofI [OF _ n(1)]) (use ready_apart [OF r] in \<open>fastforce simp: list_all_iff\<close>)
  show "clear_of (frames_area U J) (boot_block s) 4096" using clear_of_prefix [OF image n(2)] bb by simp
qed

lemma frames_open_calls:
  fixes s :: "'a keyboard_scheme"
  assumes r: "frames_ready U J f xs s"
  defines "s1 \<equiv> s\<lparr>memory := frames_init (j_frame J) (memory s)\<rparr>" and "fs2 \<equiv> opened_table J True (opened_table J False (fdt (j_pid J) s))"
  obtains s2 s3 where "ece391_open U (f False) s1 = Some (j_fd J False, s2)" "ece391_open U (f True) s2 = Some (j_fd J True, s3)"
    and "told (call_area U J) (j_pid J) (j_term J) [] fs2 s1 s3" "told (frames_area U J) (j_pid J) (j_term J) [] fs2 s s3"
    and "user_ok (kernel_blocks J) (j_pid J) (j_term J) s3"
proof -
  let ?B = "frames_area U J" and ?A = "call_area U J" and ?p = "j_pid J" and ?w = "j_term J"
  let ?fs = "fdt ?p s" and ?fs1 = "opened_table J False (fdt ?p s)"
  note R = r [unfolded frames_ready_def Let_def]
  have u: "user_ok (kernel_blocks J) ?p ?w s" and names: "\<And>k. names_file ?B (f k) (xs k) (j_ino J k) s" using R by blast+
  have fds: "fds_ok ?fs" "free_fd ?fs < 8" "free_fd ?fs1 < 8" "j_fd J False = int (free_fd ?fs)" "j_fd J True = int (free_fd ?fs1)" using R by blast+
  have AB: "set ?A \<subseteq> set ?B" by (auto simp: frames_area_def)
  note dir = ready_image(2) [OF r]
  have c: "cursor_ok ?w s" using u by (simp add: user_ok_def)
  have t1: "told ?B ?p ?w [] ?fs s s1" unfolding s1_def
    by (rule told_written [OF c frames_init_effect(4) [OF r] _ ready_locals(3) [OF r]]) (auto simp: frames_area_def outside_def)
  have u1: "user_ok ?A ?p ?w s1"
    by (rule user_ok_kernel [OF told_ok [OF _ t1], where J = J]) (use user_ok_kernel [OF u, of J ?B] in \<open>auto simp: frames_area_def call_area_def\<close>)
  have n1: "names_file ?B (f k) (xs k) (j_ino J k) s1" for k by (rule names_file_told [OF names t1 _ dir]) simp
  have dir1: "clear_of ?B (boot_block s1) 4096" using dir by (simp add: s1_def)
  obtain s2 where s2: "ece391_open U (f False) s1 = Some (j_fd J False, s2)" "told ?A ?p ?w [] ?fs1 s1 s2"
    using open_names_file [OF u1 _ fds(1,2) ready_locals(2) [OF r] n1 AB dir1] fds(4) by (auto simp: s1_def fdt_def opened_table_def)
  have fs1: "fds_ok ?fs1" using fds(1,2) by (auto simp: opened_table_def opened_fd_def table_defs intro!: fds_ok_update)
  have bb2: "boot_block s2 = boot_block s" using s2(2) by (simp add: told_def s1_def)
  have n2: "names_file ?B (f True) (xs True) (j_ino J True) s2" by (rule names_file_told [OF n1 s2(2) AB dir1])
  obtain s3 where s3: "ece391_open U (f True) s2 = Some (j_fd J True, s3)" "told ?A ?p ?w [] fs2 s2 s3"
    using open_names_file [OF told_ok [OF u1 s2(2)] told_fdt [OF s2(2)] fs1 fds(3) ready_locals(2) [OF r] n2 AB] dir fds(5) bb2
    by (auto simp: fs2_def opened_table_def [of J True])
  have t: "told ?A ?p ?w [] fs2 s1 s3" using told_trans [OF s2(2) s3(2)] by simp
  have "user_ok (kernel_blocks J) ?p ?w s3" by (rule user_ok_kernel [OF told_ok [OF u1 t], where J = J]) simp_all
  then show ?thesis using that [OF s2(1) s3(1) t] told_trans [OF t1 told_mono [OF t AB]] by simp
qed

lemma frames_opened:
  fixes s :: "'a keyboard_scheme"
  assumes r: "frames_ready U J f xs s" and ok: "fish_ok (f_vars (j_frame J)) is (memory s)"
  obtains s2 s3 where "ece391_open U (f False) (s\<lparr>memory := frames_init (j_frame J) (memory s)\<rparr>) = Some (j_fd J False, s2)"
    and "ece391_open U (f True) s2 = Some (j_fd J True, s3)" "frames_inv J (\<lambda>k. Line 0x30 (frame_text J k)) is s3"
    and "blinks (f_vars (j_frame J)) is (memory s3) = blinks (f_vars (j_frame J)) is (memory s)"
proof -
  note R = r [unfolded frames_ready_def Let_def]
  let ?B = "frames_area U J" and ?A = "call_area U J" and ?p = "j_pid J" and ?w = "j_term J" and ?V = "f_vars (j_frame J)" and ?a = "f_frame (j_frame J)"
  let ?fs = "fdt ?p s" and ?s1 = "s\<lparr>memory := frames_init (j_frame J) (memory s)\<rparr>"
  let ?fs1 = "opened_table J False ?fs"
  have job: "job_ok J (memory s)" and img: "j_image J = memory s" "j_boot J = boot_block s" using R by blast+
  have fds: "fds_ok ?fs" "free_fd ?fs < 8" "free_fd ?fs1 < 8" "j_fd J False = int (free_fd ?fs)" "j_fd J True = int (free_fd ?fs1)" using R by blast+
  obtain s2 s3 where s23: "ece391_open U (f False) ?s1 = Some (j_fd J False, s2)" "ece391_open U (f True) s2 = Some (j_fd J True, s3)"
    and t13: "told ?A ?p ?w [] (opened_table J True ?fs1) ?s1 s3" and t: "told ?B ?p ?w [] (opened_table J True ?fs1) s s3"
    and u3: "user_ok (kernel_blocks J) ?p ?w s3" by (rule frames_open_calls [OF r])
  have fish: "memory s3 x = memory s x" if "\<not> outside (fish_blocks ?V (memory s)) x" for x
  proof -
    have "outside ?B x" using that ready_apart [OF r] disjoint_regionsD by (fastforce simp: outside_def list_all_iff)
    then show ?thesis using t by (simp add: told_def)
  qed
  have F: "fish_ok ?V is (memory s3)" "blinks ?V is (memory s3) = blinks ?V is (memory s)" "vmem ?V (memory s3) = vmem ?V (memory s)"
    by (rule fish_ok_agree [OF ok], rule fish, assumption)+
  have kept: "memory s3 x = frames_init (j_frame J) (memory s) x" if "in_region x (j_char J k) 32 \<or> in_region x ?a 16" for x k
    using t13 ready_locals(1) [OF r that] by (simp add: told_def)
  have b: "blink_at (memory s3) ?a = blink_at (frames_init (j_frame J) (memory s)) ?a" by (rule blink_at_cong) (simp add: kept)
  have ch: "memory s3 (j_char J k) = 0x30" for k using kept [of "j_char J k" k] frames_init_effect(1) [OF r] by (simp add: in_region_def)
  have "reads_rest J k (frame_text J k) (fdt ?p s3 ! nat (j_fd J k))" for k
    using opened_entries(1,2) [OF fds(1-3)] told_fdt [OF t] fds(4,5) by (cases k) simp_all
  moreover have "same_image (j_image J) (memory s3) (j_boot J) (j_blocks J * 4096)" using told_clear(3) [OF t ready_image(1) [OF r]] img by simp
  ultimately have "frames_inv J (\<lambda>k. Line 0x30 (frame_text J k)) is s3"
    using u3 F(1) b ch frames_init_effect(2,3) [OF r] told_fdt [OF t] opened_entries(3) [OF fds(1-3)] t img job
    by (simp add: frames_inv_def job_ok_vmem [OF F(3)] told_def)
  then show ?thesis using that s23 F(2) by blast
qed

section \<open>Starting the program\<close>

definition start_blocks :: "fish_vars \<Rightarrow> int \<Rightarrow> u32 \<Rightarrow> (u32 \<times> nat) list" where
  "start_blocks V p w = [(page w, 4000), (pcb_of p + 0x1FE8, 20), (v_array V, 32000), (0x8400000, 4000), (v_head V, 4), (v_vmem V, 4),
     (v_temp V, 16), (v_key V, 2)]"

definition fish_loaded :: "fish_vars \<Rightarrow> int \<Rightarrow> u32 \<Rightarrow> 'a keyboard_scheme \<Rightarrow> bool" where
  "fish_loaded V p w s \<longleftrightarrow> user_ok [(page w, 4000), (pcb_of p + 0x1FE8, 20)] p w s \<and> all_disjoint (start_blocks V p w) \<and>
     v_array V \<noteq> 0 \<and> unat (v_array V) + 32000 \<le> 2 ^ 32 \<and> read32 (memory s) (v_head V) = 0"

definition zero_array :: "fish_vars \<Rightarrow> mem \<Rightarrow> mem" where
  "zero_array V m = ece391_memset (v_array V) 0 (STRUCT_SIZE * 80 * 25) m"

lemma zero_array_apply: "zero_array V m x = (if in_region x (v_array V) 32000 then 0 else m x)"
  using fish_memset_eq [of "v_array V" 0 32000 m] by (simp add: zero_array_def STRUCT_SIZE_def write_bytes_apply in_region_def)

lemma window_mapped:
  fixes s :: "'a keyboard_scheme"
  assumes u: "user_ok A p w s" and a: "0x8000000 \<le> a" "a < 0x8400000" and A: "(a, 4) \<in> set A" "disjoint_regions a 4 (page w) 4000"
  shows "\<exists>s'. ece391_vidmap U a s = Some (0, s') \<and> told A p w [] (fdt p s) s s' \<and> read32 (memory s') a = 0x8400000"
  unfolding ece391_vidmap_def
proof (rule call_sys [OF u refl, where Q = "\<lambda>m. read32 m a = 0x8400000"])
  fix k :: "'a keyboard_scheme" assume k: "user_ok A p w k" "fdt p k = fdt p s"
  have c: "cursor_ok w k" using k(1) by (simp add: user_ok_def)
  let ?m = "write32 (memory k) a 0x8400000"
  have "told A p w [] (fdt p k) k (k\<lparr>memory := ?m\<rparr>)"
    using A by (intro told_written [OF c, where B = "[(a, 4)]"]) (auto simp: outside_def list_all_iff write32_outside)
  moreover have "a \<noteq> 0" using a(1) by auto
  then have "sys_int_w (u_locals U) [] 8 a 0 0 k = Some (Return 0 (k\<lparr>memory := ?m\<rparr>))"
    using a by (auto simp: sys_int_w_def vidmap_def returning_def USER_VID_MEM_def FOUR_MB_def not_less not_le)
  ultimately show "\<exists>k'. sys_int_w (u_locals U) [] 8 a 0 0 k = Some (Return 0 k') \<and> told A p w [] (fdt p s) k k' \<and> read32 (memory k') a = 0x8400000"
    using k(2) by (auto simp: read32_write32)
qed

lemma fish_prepared:
  fixes s :: "'a keyboard_scheme"
  assumes L: "fish_loaded V p w s" and a: "0x8000000 \<le> v_vmem V" "v_vmem V < 0x8400000"
  shows "\<exists>s'. mp1_set_video_mode U V (s\<lparr>memory := zero_array V (memory s)\<rparr>) = Some (0x8400000, s') \<and> fish_ok V [] (memory s') \<and>
    vmem V (memory s') = 0x8400000"
proof -
  let ?K = "[(page w, 4000), (pcb_of p + 0x1FE8, 20)]" and ?s1 = "s\<lparr>memory := zero_array V (memory s)\<rparr>"
  let ?A = "(v_vmem V, 4) # ?K"
  have d: "all_disjoint (start_blocks V p w)" and u: "user_ok ?K p w s" and h: "read32 (memory s) (v_head V) = 0"
    using L by (simp_all add: fish_loaded_def)
  note d' = d [unfolded start_blocks_def, simplified]
  have u1: "user_ok ?A p w ?s1" using u by (auto simp: user_ok_def cursor_ok_def curr_pid_def)
  obtain s2 where s2: "ece391_vidmap U (v_vmem V) ?s1 = Some (0, s2)" "told ?A p w [] (fdt p ?s1) ?s1 s2" "read32 (memory s2) (v_vmem V) = 0x8400000"
    using window_mapped [OF u1 a, of U] d' by (auto simp: disjoint_regions_sym)
  have far: "outside ?A x" if "in_region x b l" "(b, l) \<in> {(v_array V, 32000), (v_head V, 4)}" for x b l
    using d' that disjoint_regionsD by (fastforce simp: outside_def disjoint_regions_sym)
  have same: "memory s2 x = zero_array V (memory s) x" if "outside ?A x" for x using s2(2) that by (simp add: told_def)
  have v: "vmem V (memory s2) = 0x8400000" using s2(3) by (simp add: vmem_def)
  have lay: "fish_layout V (memory s2)" using L d' by (simp add: fish_layout_def fish_blocks_def v fish_loaded_def disjoint_regions_sym)
  have hd: "read32 (memory s2) (v_head V) = 0"
  proof -
    have "memory s2 x = memory s x" if "in_region x (v_head V) 4" for x
      using same [OF far [OF that]] d' that disjoint_regionsD [of "v_array V" 32000 "v_head V" 4 x] by (auto simp: zero_array_apply)
    then show ?thesis using read32_same [of "v_head V" "memory s2" "memory s"] h by simp
  qed
  have "location (blink_at (memory s2) (slot V i)) = 0" if i: "i < 2000" for i
  proof -
    have z: "memory s2 (slot V i + of_nat k) = 0" if "k < 16" for k
      using same [OF far] slot_inside [OF i in_region_offset [of k 16 "slot V i"]] that by (simp add: zero_array_apply)
    show ?thesis using z [of 0] z [of 1] by (simp add: blink_at_def read16_def LOCATION_def)
  qed
  then have "fish_ok V [] (memory s2)" using lay hd by (simp add: fish_ok_def)
  then show ?thesis using s2(1,3) v by (simp add: mp1_set_video_mode_def)
qed

section \<open>Main properties\<close>

text \<open>
  C24: starting the program. If the pointer to the screen lies where \<open>vidmap\<close> accepts it, then
  \<open>main\<close> goes on with the clock, the frames and the animation from a state whose list of blinks is well
  formed and empty and whose screen is the window at 0x8400000; otherwise it returns -1.
\<close>
theorem fish_main_starts:
  fixes s :: "'a keyboard_scheme"
  assumes L: "fish_loaded (f_vars F) p w s"
  shows "if 0x8000000 \<le> v_vmem (f_vars F) \<and> v_vmem (f_vars F) < 0x8400000
    then \<exists>s'. fish_ok (f_vars F) [] (memory s') \<and> vmem (f_vars F) (memory s') = 0x8400000 \<and>
      fish_main U F file0 file1 s = do {
        (rtc_fd, s) \<leftarrow> ece391_open U (u_lit U ''rtc'') s';
        (h, s) \<leftarrow> add_frames U F file0 file1 s;
        case h of Some v \<Rightarrow> Some (v, s) | None \<Rightarrow> fish_show U F rtc_fd s
      }
    else \<exists>s'. fish_main U F file0 file1 s = Some (-1, s')"
proof (cases "0x8000000 \<le> v_vmem (f_vars F) \<and> v_vmem (f_vars F) < 0x8400000")
  case True
  then show ?thesis using fish_prepared [OF L, of U] by (auto simp: fish_main_def zero_array_def)
next
  case False
  let ?K = "[(page w, 4000), (pcb_of p + 0x1FE8, 20)]" and ?s1 = "s\<lparr>memory := zero_array (f_vars F) (memory s)\<rparr>"
  have "user_ok ?K p w ?s1" using L by (auto simp: fish_loaded_def user_ok_def cursor_ok_def curr_pid_def)
  then have "runs ?K p w (-1) [] (fdt p ?s1) ?s1 (ece391_vidmap U (v_vmem (f_vars F)) ?s1)"
    using False by (intro runs_vidmap_refused) auto
  then show ?thesis using False by (auto simp: runs_def fish_main_def mp1_set_video_mode_def zero_array_def)
qed


text \<open>Both frames from the file \<open>hi\<close>, with an empty list.\<close>

definition fish_segs :: "(u32 \<times> u8 list) list" where
  "fish_segs = [(0x8050000, [0, 0, 0, 0, 0, 0, 0x40, 8]), (0x8049000, [0x68, 0x69])]"

definition demo_job :: frames_job where
  "demo_job = \<lparr>j_frame = \<lparr>f_vars = demo_vars, f_garbage = 0x83FFD00, f_ret_val = 0x83FFD10, f_struct = 0x83FFD20, f_c0 = 0x83FFE00, f_c1 = 0x83FFE40,
       f_frame = 0x83FFE80\<rparr>, j_pid = 0, j_term = 0, j_image = memory (demo_user fish_segs), j_boot = 0x500000, j_blocks = 3,
     j_fd = (\<lambda>k. if k then 4 else 3), j_ino = (\<lambda>k. 0)\<rparr>"

lemma fish_segs_apart: "list_all (\<lambda>(a, xs). length xs < 2 ^ 32 \<and> disjoint_regions a (length xs) 0x500000 0x3000) fish_segs"
  by (simp add: fish_segs_def disjoint_regions_def)

lemma demo_job_fish: "fish_ok demo_vars [] (memory (demo_user fish_segs))" "vmem demo_vars (memory (demo_user fish_segs)) = 0x8400000"
proof -
  let ?m = "memory (demo_user fish_segs)"
  show v: "vmem demo_vars ?m = 0x8400000"
    by (simp add: vmem_def read32_def demo_vars_def fish_segs_def mem_of_Cons push_bit_eq_mult)
  have "fish_layout demo_vars ?m" unfolding fish_layout_def fish_blocks_def v by (simp add: disjoint_regions_def demo_vars_def)
  moreover have "read32 ?m (v_head demo_vars) = 0" by (simp add: read32_def demo_vars_def fish_segs_def mem_of_Cons)
  moreover have "location (blink_at ?m (slot demo_vars i)) = 0" if "i < 2000" for i
    using that by (simp add: blink_at_def read16_def slot_def demo_vars_def fish_segs_def demo_image_def demo_file_def mem_of_Cons mem_of_Nil blink_consts
      word_less_nat_alt unat_sub_if' unat_word_ariths unat_of_nat_u32)
  ultimately show "fish_ok demo_vars [] ?m" by (simp add: fish_ok_def)
qed

lemma demo_loaded: "fish_loaded demo_vars 0 0 (demo_user fish_segs)"
proof -
  have "user_ok [(page 0, 4000), (pcb_of 0 + 0x1FE8, 20)] 0 0 (demo_user fish_segs)"
    using demo_user_ok [of fish_segs] by (simp add: user_ok_def call_blocks_def)
  moreover have "all_disjoint (start_blocks demo_vars 0 0)"
    by (simp add: start_blocks_def demo_vars_def disjoint_regions_def page_def vidmem_pages_def VID1_def pcb_of_def proc_consts)
  moreover have "read32 (memory (demo_user fish_segs)) (v_head demo_vars) = 0"
    by (simp add: read32_def demo_vars_def fish_segs_def mem_of_Cons)
  ultimately show ?thesis by (simp add: fish_loaded_def) (simp add: demo_vars_def)
qed

theorem fish_main_starts_witness:
  "\<exists>s' v. fish_ok demo_vars [] (memory s') \<and>
     fish_main demo_env (j_frame demo_job) 0x8049000 0x8049000 (demo_user fish_segs) = Option.bind (ece391_open demo_env 0x8049000 s') v"
proof -
  have V: "f_vars (j_frame demo_job) = demo_vars" "v_vmem demo_vars = 0x8050004" "u_lit demo_env ''rtc'' = 0x8049000" by (simp_all add: demo_job_def demo_vars_def demo_env_def)
  show ?thesis using fish_main_starts [of "j_frame demo_job" 0 0 "demo_user fish_segs" demo_env "0x8049000" "0x8049000"] demo_loaded V by auto
qed

lemma demo_tables: "opened_table demo_job False demo_fds = demo_fds[3 := opened_fd 2 0 (demo_fds ! 3)]" "free_fd (opened_table demo_job False demo_fds) = 4"
proof -
  show t: "opened_table demo_job False demo_fds = demo_fds[3 := opened_fd 2 0 (demo_fds ! 3)]" by (simp add: opened_table_def demo_fds_eval demo_job_def)
  show "free_fd (opened_table demo_job False demo_fds) = 4"
    unfolding t by (simp add: free_fd_def demo_fds_def initial_fds_def opened_fd_def upt_rec numeral_eq_Suc MAX_OPEN_FILES_def)
qed

lemma demo_job_text: "frame_text demo_job k = demo_file"
  using demo_user_file(5) [OF fish_segs_apart] by (simp add: frame_text_def demo_job_def bytes_of_def)

lemma demo_ready: "frames_ready demo_env demo_job (\<lambda>k. 0x8049000) (\<lambda>k. [0x68, 0x69]) (demo_user fish_segs)"
proof -
  let ?s = "demo_user fish_segs"
  note F = demo_user_file [OF fish_segs_apart]
  have K: "kernel_blocks demo_job = [(0xB9000, 4000), (pcb_of 0 + 0x1FE8, 20)]" by (simp add: kernel_blocks_def demo_job_def page_def vidmem_pages_def VID1_def)
  have B: "job_blocks demo_job (memory ?s) = (0x83FFE00, 32) # (0x83FFE40, 32) # kernel_blocks demo_job @
      (0x83FFE80, 16) # (0x500000, 3 * 4096) # fish_blocks demo_vars (memory ?s)" by (simp add: job_blocks_def demo_job_def j_char_def)
  have all: "all_disjoint ((0x7FF200, 64) # (0x7FF300, 64) # job_blocks demo_job (memory ?s))"
    unfolding B K fish_blocks_def demo_job_fish(2) by (simp add: disjoint_regions_def demo_vars_def pcb_of_def proc_consts)
  then have job: "job_ok demo_job (memory ?s)" using F(4) by (simp add: job_ok_def demo_job_def j_char_def)
  have u: "user_ok (kernel_blocks demo_job) 0 0 ?s"
    using demo_user_ok [of fish_segs] by (simp add: user_ok_def call_blocks_def kernel_blocks_def demo_job_def)
  have "clear_of (frames_area demo_env demo_job) 0x8049000 (Suc (length [0x68, 0x69 :: u8]))"
    by (rule clear_ofI) (simp_all add: frames_area_def call_area_def K, simp_all add: demo_job_def j_char_def demo_env_def demo_locals_def disjoint_regions_def pcb_of_def proc_consts)
  moreover have "cstr_at (memory ?s) 0x8049000 [0x68, 0x69]"
    by (simp add: cstr_at_def read_bytes_def fish_segs_def mem_of_Cons) (simp add: mem_of_def demo_image_def demo_file_def)
  ultimately have "names_file (frames_area demo_env demo_job) 0x8049000 [0x68, 0x69] 0 ?s" using F(1-3) by (simp add: names_file_def)
  moreover have "j_pid demo_job = 0" "j_term demo_job = 0" "j_image demo_job = memory ?s" "j_boot demo_job = 0x500000" "\<And>k. j_ino demo_job k = 0"
      "j_fd demo_job False = 3" "j_fd demo_job True = 4" "l_dentry (u_locals demo_env) = 0x7FF200" "l_sub (u_locals demo_env) = 0x7FF300"
    by (simp_all add: demo_job_def demo_env_def demo_locals_def)
  ultimately show ?thesis using all job u demo_tables(2) by (simp add: frames_ready_def demo_fds_eval)
qed


end
