(* ===== verification/Spec2Isabelle.thy ===== *)
theory Spec2Isabelle
  imports Boot Syserr Kernel_Runs Fish
begin

text \<open>
  \<^bold>\<open>A verified model of the ECE391 MP3 kernel.\<close>

  The program is a small 32-bit x86 kernel (\<open>src/student-distrib\<close>) with paging, three text
  terminals, a keyboard line editor, a real-time clock, a read-only file system loaded by the boot
  loader, a round-robin scheduler and ten system calls, and the user programs that run on it
  (\<open>src/syscalls\<close>, \<open>src/fish\<close>).

  \<^bold>\<open>State.\<close> Every component's global variables are a record that extends the record of the
  component below it, in the order \<open>machine\<close>, \<open>pic\<close>, \<open>console\<close>, \<open>paging\<close>, \<open>file_sys\<close>, \<open>rtc\<close>,
  \<open>process_sys\<close>, \<open>keyboard\<close>, \<open>kernel\<close>; an operation of a component works on every extension of
  its record. Memory is one function from 32-bit addresses to bytes, so pointers, buffers, stack
  frames and the file system image are addresses in it; ports are a log of written bytes and a
  device function that answers reads. Fixed-width integers are words, \<open>int\<close> and \<open>int32_t\<close>
  variables are integers. Operations that fail return the code's own error value; an operation
  that does not return is \<^const>\<open>None\<close>.

  \<^bold>\<open>Theories and the code they model.\<close>
  \<^item> \<open>C_Prelude\<close>: words, memory blocks, C strings and the lemmas all theories share;
    \<open>Machine\<close>: ports, the interrupt flag (\<open>lib.h\<close>) and loops that wait for an interrupt.
  \<^item> \<open>Pic\<close> (\<open>i8259.c\<close>): masks and end of interrupt; the set of enabled lines.
  \<^item> \<open>Lib_String\<close> (\<open>lib.c\<close>): string and memory routines with their inline assembly, against
    reference functions on lists (\<open>itoa\<close> against a positional numeral, \<open>memmove\<close> on
    overlapping blocks).
  \<^item> \<open>Console\<close> and \<open>Printf\<close> (\<open>lib.c\<close>): \<open>putc\<close>, scrolling, backspace, \<open>puts\<close>, \<open>printf\<close>; they
    refine an abstract screen of 25 by 80 cells with a cursor, and \<open>printf\<close> prints the text of a
    reference rendering of its format.
  \<^item> \<open>Idt\<close> (\<open>idt.c\<close>, \<open>x86_desc.h\<close>) and \<open>Exceptions\<close> (\<open>ex_handler.c\<close>): the interrupt table the
    processor sees and the nineteen exception handlers.
  \<^item> \<open>Paging\<close> (\<open>paging.c\<close>): the tables, the page walk that gives them their meaning, and the
    isolation of the processes' pages.
  \<^item> \<open>File_System\<close> (\<open>file_system.c\<close>): directory search, inode reads, file and directory
    operations, the loader.
  \<^item> \<open>Rtc\<close> (\<open>rtc.c\<close>): rates, the interrupt with the display refresh, the waiting read.
  \<^item> \<open>Process\<close> (\<open>syscall_handler.c\<close>): control blocks, process numbers, the timer interrupt with
    its context switch, the entry to user mode.
  \<^item> \<open>Keyboard\<close> (\<open>keyboard.c\<close>, \<open>keyboard.h\<close>): scan codes, line editing, terminal switch,
    terminal read and write.
  \<^item> \<open>Syscalls\<close>, \<open>Execute\<close>, \<open>Shells\<close> (\<open>syscall_handler.c\<close>, \<open>int_wrapper.S\<close>): the ten system
    calls and their dispatcher; starting and ending programs; starting the three shells.
  \<^item> \<open>Kernel\<close>, \<open>Boot\<close> (\<open>kernel.c\<close>, \<open>multiboot.h\<close>): the entry from the boot loader up to the first
    user program.
  \<^item> \<open>User_Support\<close> (\<open>src/syscalls/ece391support.c\<close>): the string library of the user programs, shown
    to agree with the kernel's routines. \<open>User_Calls\<close> (\<open>ece391syscall.S\<close>): the system calls as a
    program sees them, through \<open>int 0x80\<close>, the kernel's stack and \<open>iret\<close>; the relation \<open>told\<close> says
    what a run printed, which descriptor table it left and which memory it may have changed, and
    one lemma per call and branch gives the call's result in these terms.
  \<^item> \<open>User_Programs\<close> (\<open>ece391cat.c\<close>, \<open>ece391ls.c\<close>, \<open>ece391testprint.c\<close>), \<open>User_Shell\<close>
    (\<open>ece391shell.c\<close>, \<open>ece391counter.c\<close>, \<open>ece391grep.c\<close>, \<open>ece391hello.c\<close>, \<open>ece391pingpong.c\<close>) and
    \<open>Syserr\<close> (\<open>ece391syserr.c\<close>): the programs, and that \<open>cat\<close> prints the file, \<open>ls\<close> the names,
    \<open>counter\<close> the numbers, that the shell does what its line says, and that the eight error
    tests pass.

  \<^item> \<open>Blink\<close> (\<open>src/fish/blink.S\<close>, \<open>src/fish/fish.c\<close>): the linked list of blinking characters of
    the \<open>fish\<close> program, its four commands and its clock tasklet, as pointers into memory; each
    refines an operation on lists of blinks and a text screen, and two flaws are shown.
    \<open>Fish\<close> (\<open>src/fish/fish.c\<close>): the program around it; it starts with an empty list, and reading
    its two frames, through the system calls, links exactly the cells of the two texts.

  \<^item> \<open>Kernel_Runs\<close>: the running system as a relation on states, in which interrupts, exceptions, system
    calls (with the runs that happen while one waits) and user code follow each other in any
    order; the invariant of its tables, kept by every operation, with the typing of the
    descriptors and the absence of stuck states as consequences. User code is only assumed to leave
    the kernel's tables alone; the records of the tables are not part of the memory that
    the buffers of a call address, although the code does not check user pointers.

  \<^bold>\<open>Interfaces.\<close> What a client relies on is a locale, interpreted on the model: the interrupt
  controller for the drivers, address spaces for the processes, a turn-taking scheduler, a chunked
  reader for files, the loop of a program that prints what it reads (interpreted for \<open>cat\<close>
  and for \<open>ls\<close>), and the store of blinks behind the animation (interpreted for the pointer list).

  \<^bold>\<open>Bounds.\<close> \<open>pick_next\<close> has fuel 7 for a search over 6 processes and is shown to end within
  it; loops that wait for an interrupt are given the list of handlers that run meanwhile; the
  loops over the boot loader's lists and those of \<open>cat\<close> and \<open>ls\<close> are partial functions, shown to
  return. The programs' string literals, local arrays and the registers a program leaves undefined
  are parameters; the hypotheses on them say that these blocks of memory do not overlap, which is
  what the linker and the compiler provide.

  \<^bold>\<open>Not modelled.\<close> The boot assembly (\<open>boot.S\<close>) and the static descriptor tables
  (\<open>x86_desc.S\<close>); the register saves of the interrupt wrappers; \<open>tests.c\<close> and \<open>debug.h\<close>, which the
  kernel does not run; \<open>sigtest\<close>, which needs signals the kernel does not deliver; the Linux
  emulation of the system calls, which is code of another operating system. The window that \<open>vidmap\<close> maps is the memory at its
  virtual address, which the model of the programs does not identify with the terminal's page.
\<close>

end
